(* ===== verification/Prelude.thy ===== *)
theory Prelude
  imports Main "HOL-Library.Word" "HOL-Library.Char_ord" "HOL-Library.List_Lexorder"
begin

text \<open>
  The prelude of the development: the machine types of the Rust sources, its
  \<open>Result\<close> type with the early return of the \<open>?\<close> operator, its checked and
  saturating arithmetic, and the parts of \<open>str\<close> that the sources call.

  A Rust \<open>&str\<close> is a sequence of UTF-8 bytes; it is modelled by \<^typ>\<open>string\<close>,
  in which every \<^typ>\<open>char\<close> is one byte, so that \<^const>\<open>length\<close> is Rust's
  \<open>len()\<close>. A \<open>usize\<close> that is a length or an index is a \<^typ>\<open>nat\<close>; every
  other integer is a word of its own width.
\<close>

unbundle bit_operations_syntax

section \<open>Types\<close>

type_synonym u8 = "8 word"
type_synonym u16 = "16 word"
type_synonym u32 = "32 word"
type_synonym u64 = "64 word"
type_synonym i32 = "32 word"
type_synonym i64 = "64 word"

type_synonym ('e, 'a) result = "'e + 'a"

text \<open>
  An \<open>Instant\<close> and a \<open>Duration\<close> are nanoseconds; the difference of two instants
  saturates at zero, as \<open>duration_since\<close> does.
\<close>

type_synonym instant = nat

definition from_secs :: "nat \<Rightarrow> nat" where
  "from_secs n = n * 1000000000"

named_theorems result_simps \<open>how the result combinators compute and invert\<close>
named_theorems arith_defs \<open>definitions of the checked and saturating arithmetic\<close>

section \<open>Results and early return\<close>

text \<open>\<open>m?\<close> followed by the rest of the function.\<close>

definition try_then :: "('e, 'a) result \<Rightarrow> ('a \<Rightarrow> ('e, 'b) result) \<Rightarrow> ('e, 'b) result" where
  "try_then m k = (case m of Inl e \<Rightarrow> Inl e | Inr x \<Rightarrow> k x)"

text \<open>\<open>if !b { return Err(e) }\<close>\<close>

definition ensure :: "bool \<Rightarrow> 'e \<Rightarrow> ('e, unit) result" where
  "ensure b e = (if b then Inr () else Inl e)"

definition ok_or :: "'a option \<Rightarrow> 'e \<Rightarrow> ('e, 'a) result" where
  "ok_or x e = (case x of None \<Rightarrow> Inl e | Some y \<Rightarrow> Inr y)"

definition map_err :: "('e \<Rightarrow> 'f) \<Rightarrow> ('e, 'a) result \<Rightarrow> ('f, 'a) result" where
  "map_err f m = (case m of Inl e \<Rightarrow> Inl (f e) | Inr x \<Rightarrow> Inr x)"

definition is_ok :: "('e, 'a) result \<Rightarrow> bool" where
  "is_ok m = (case m of Inl _ \<Rightarrow> False | Inr _ \<Rightarrow> True)"

text \<open>A \<open>for\<close> loop whose body may return an error.\<close>

fun try_map :: "('a \<Rightarrow> ('e, 'b) result) \<Rightarrow> 'a list \<Rightarrow> ('e, 'b list) result" where
  "try_map f [] = Inr []"
| "try_map f (x # xs) = try_then (f x) (\<lambda>y. try_then (try_map f xs) (\<lambda>ys. Inr (y # ys)))"

fun try_all :: "('a \<Rightarrow> ('e, unit) result) \<Rightarrow> 'a list \<Rightarrow> ('e, unit) result" where
  "try_all f [] = Inr ()"
| "try_all f (x # xs) = try_then (f x) (\<lambda>_. try_all f xs)"

lemma try_then_simps [simp, result_simps]:
  "try_then (Inl e) k = Inl e"
  "try_then (Inr x) k = k x"
  by (simp_all add: try_then_def)

lemma ensure_simps [simp, result_simps]:
  "ensure True e = Inr ()"
  "ensure False e = Inl e"
  by (simp_all add: ensure_def)

lemma ok_or_simps [simp, result_simps]:
  "ok_or (Some x) e = Inr x"
  "ok_or None e = Inl e"
  by (simp_all add: ok_or_def)

lemma map_err_simps [simp, result_simps]:
  "map_err f (Inl e) = Inl (f e)"
  "map_err f (Inr x) = Inr x"
  by (simp_all add: map_err_def)

lemma is_ok_simps [simp, result_simps]:
  "is_ok (Inl e) = False"
  "is_ok (Inr x) = True"
  by (simp_all add: is_ok_def)

lemma try_then_eq_Inr [result_simps]:
  "try_then m k = Inr y \<longleftrightarrow> (\<exists>x. m = Inr x \<and> k x = Inr y)"
  by (cases m) auto

lemma try_then_eq_Inl [result_simps]:
  "try_then m k = Inl e \<longleftrightarrow> m = Inl e \<or> (\<exists>x. m = Inr x \<and> k x = Inl e)"
  by (cases m) auto

lemma ensure_eq_Inr [simp, result_simps]: "ensure b e = Inr u \<longleftrightarrow> b"
  by (simp add: ensure_def)

lemma ensure_eq_Inl [simp, result_simps]: "ensure b e = Inl d \<longleftrightarrow> \<not> b \<and> d = e"
  by (auto simp: ensure_def)

lemma ok_or_eq_Inr [simp, result_simps]: "ok_or x e = Inr y \<longleftrightarrow> x = Some y"
  by (cases x) auto

lemma ok_or_eq_Inl [simp, result_simps]: "ok_or x e = Inl d \<longleftrightarrow> x = None \<and> d = e"
  by (cases x) auto

lemma map_err_eq_Inr [simp, result_simps]: "map_err f m = Inr y \<longleftrightarrow> m = Inr y"
  by (cases m) auto

lemma map_err_eq_Inl [result_simps]: "map_err f m = Inl d \<longleftrightarrow> (\<exists>e. m = Inl e \<and> d = f e)"
  by (cases m) auto

lemma is_ok_iff [result_simps]: "is_ok m \<longleftrightarrow> (\<exists>x. m = Inr x)"
  by (cases m) auto

lemma try_then_ensure [result_simps]:
  "try_then (ensure b e) k = (if b then k () else Inl e)"
  by simp

lemma try_all_eq_Inr [result_simps]: "try_all f xs = Inr u \<longleftrightarrow> (\<forall>x \<in> set xs. is_ok (f x))"
  by (induction xs) (auto simp: result_simps)

lemma try_map_eq_Inr [result_simps]:
  "try_map f xs = Inr ys \<longleftrightarrow> list_all2 (\<lambda>x y. f x = Inr y) xs ys"
  by (induction xs arbitrary: ys) (auto simp: result_simps list_all2_Cons1)

lemma try_map_length: "try_map f xs = Inr ys \<Longrightarrow> length ys = length xs"
  by (auto simp: try_map_eq_Inr list_all2_lengthD)

section \<open>Checked and saturating arithmetic\<close>

lemma unat_bound: "unat (w :: 'w::len word) < 2 ^ LENGTH('w)"
  by (rule unsigned_less)

definition checked_add :: "'w::len word \<Rightarrow> 'w word \<Rightarrow> 'w word option" where
  [arith_defs]: "checked_add a b = (if unat a + unat b < 2 ^ LENGTH('w) then Some (a + b) else None)"

definition checked_sub :: "'w::len word \<Rightarrow> 'w word \<Rightarrow> 'w word option" where
  [arith_defs]: "checked_sub a b = (if b \<le> a then Some (a - b) else None)"

definition checked_mul :: "'w::len word \<Rightarrow> 'w word \<Rightarrow> 'w word option" where
  [arith_defs]: "checked_mul a b = (if unat a * unat b < 2 ^ LENGTH('w) then Some (a * b) else None)"

definition saturating_add :: "'w::len word \<Rightarrow> 'w word \<Rightarrow> 'w word" where
  [arith_defs]: "saturating_add a b = (if unat a + unat b < 2 ^ LENGTH('w) then a + b else - 1)"

definition saturating_sub :: "'w::len word \<Rightarrow> 'w word \<Rightarrow> 'w word" where
  [arith_defs]: "saturating_sub a b = (if b \<le> a then a - b else 0)"

definition abs_diff :: "'w::len word \<Rightarrow> 'w word \<Rightarrow> 'w word" where
  [arith_defs]: "abs_diff a b = (if a \<le> b then b - a else a - b)"

lemma checked_add_Some_iff:
  fixes a b c :: "'w::len word"
  shows "checked_add a b = Some c \<longleftrightarrow> unat c = unat a + unat b"
proof
  assume "checked_add a b = Some c"
  then show "unat c = unat a + unat b"
    by (auto simp: checked_add_def unat_word_ariths split: if_splits)
next
  assume c: "unat c = unat a + unat b"
  have "unat c < 2 ^ LENGTH('w)" by simp
  with c have "unat a + unat b < 2 ^ LENGTH('w)" by simp
  moreover have "c = a + b" using c calculation by (simp add: word_unat_eq_iff unat_word_ariths)
  ultimately show "checked_add a b = Some c" by (simp add: checked_add_def)
qed

lemma checked_mul_Some_iff:
  fixes a b c :: "'w::len word"
  shows "checked_mul a b = Some c \<longleftrightarrow> unat c = unat a * unat b"
proof
  assume "checked_mul a b = Some c"
  then show "unat c = unat a * unat b"
    by (auto simp: checked_mul_def unat_word_ariths split: if_splits)
next
  assume c: "unat c = unat a * unat b"
  have "unat c < 2 ^ LENGTH('w)" by simp
  with c have "unat a * unat b < 2 ^ LENGTH('w)" by simp
  moreover have "c = a * b" using c calculation by (simp add: word_unat_eq_iff unat_word_ariths)
  ultimately show "checked_mul a b = Some c" by (simp add: checked_mul_def)
qed

lemma checked_sub_Some_iff:
  "checked_sub a b = Some c \<longleftrightarrow> unat a = unat b + unat c"
proof
  assume "checked_sub a b = Some c"
  then show "unat a = unat b + unat c"
    by (auto simp: checked_sub_def unat_sub word_le_nat_alt split: if_splits)
next
  assume a: "unat a = unat b + unat c"
  then have le: "b \<le> a" by (simp add: word_le_nat_alt)
  then have "unat (a - b) = unat c" using a by (simp add: unat_sub)
  with le show "checked_sub a b = Some c" by (simp add: checked_sub_def word_unat_eq_iff)
qed

lemma saturating_add_min:
  fixes a b :: "'w::len word"
  shows "unat (saturating_add a b) = min (unat a + unat b) (2 ^ LENGTH('w) - 1)"
  by (auto simp: saturating_add_def unat_word_ariths unsigned_minus_1_eq_mask mask_eq_exp_minus_1)

section \<open>Bits of words\<close>

lemma take_bit_word_ident:
  fixes w :: "'w::len word"
  shows "unat w < 2 ^ n \<Longrightarrow> take_bit n w = w"
  by (simp add: word_unat_eq_iff unsigned_take_bit_eq take_bit_nat_eq_self)

lemma unat_drop_bit_less:
  fixes w :: "'w::len word"
  assumes "unat w < 2 ^ (m + n)"
  shows "unat (drop_bit n w) < 2 ^ m"
proof -
  have "unat (drop_bit n w) = unat w div 2 ^ n"
    by (simp add: unat_drop_bit_eq drop_bit_eq_div [of n "unat w"])
  with assms show ?thesis by (simp add: less_mult_imp_div_less power_add)
qed

lemma unat_take_bit_less: "unat (take_bit n w :: 'w::len word) < 2 ^ n"
  by (simp add: unsigned_take_bit_eq)

lemma not_bit_if_less:
  fixes w :: "'w::len word"
  assumes "unat w < 2 ^ n" "n \<le> k"
  shows "\<not> bit w k"
  using take_bit_word_ident [OF assms(1)] bit_take_bit_iff [of n w k] assms(2) by simp

section \<open>Bytes and strings\<close>

definition byte_of :: "char \<Rightarrow> u8" where
  "byte_of c = of_nat (of_char c)"

definition char_from :: "u8 \<Rightarrow> char" where
  "char_from b = char_of (unat b)"

definition as_bytes :: "string \<Rightarrow> u8 list" where
  "as_bytes s = map byte_of s"

definition from_bytes :: "u8 list \<Rightarrow> string" where
  "from_bytes bs = map char_from bs"

lemma unat_byte_of [simp]: "unat (byte_of c) = of_char c"
  using nat_of_char_less_256 [of c] by (simp add: byte_of_def unat_of_nat take_bit_eq_mod)

lemma byte_of_char_from [simp]: "byte_of (char_from b) = b"
  using unat_bound [of b] by (simp add: byte_of_def char_from_def)

lemma char_from_byte_of [simp]: "char_from (byte_of c) = c"
  by (simp add: char_from_def)

lemma byte_of_eq_iff [simp]: "byte_of c = byte_of d \<longleftrightarrow> c = d"
  by (metis char_from_byte_of)

lemma char_from_eq_iff [simp]: "char_from a = char_from b \<longleftrightarrow> a = b"
  by (metis byte_of_char_from)

lemma as_bytes_simps [simp]:
  "as_bytes [] = []"
  "as_bytes (c # s) = byte_of c # as_bytes s"
  "as_bytes (s @ t) = as_bytes s @ as_bytes t"
  "length (as_bytes s) = length s"
  "as_bytes (from_bytes bs) = bs"
  by (simp_all add: as_bytes_def from_bytes_def comp_def)

lemma from_bytes_simps [simp]:
  "from_bytes [] = []"
  "from_bytes (b # bs) = char_from b # from_bytes bs"
  "from_bytes (bs @ cs) = from_bytes bs @ from_bytes cs"
  "length (from_bytes bs) = length bs"
  "from_bytes (as_bytes s) = s"
  by (simp_all add: as_bytes_def from_bytes_def comp_def)

lemma as_bytes_eq_iff [simp]: "as_bytes s = as_bytes t \<longleftrightarrow> s = t"
  by (metis from_bytes_simps(5))

lemma from_bytes_eq_iff [simp]: "from_bytes a = from_bytes b \<longleftrightarrow> a = b"
  by (metis as_bytes_simps(5))

definition is_ascii_digit :: "u8 \<Rightarrow> bool" where
  "is_ascii_digit b \<longleftrightarrow> 48 \<le> b \<and> b \<le> 57"

definition is_ascii_lowercase :: "u8 \<Rightarrow> bool" where
  "is_ascii_lowercase b \<longleftrightarrow> 97 \<le> b \<and> b \<le> 122"

definition is_ascii_uppercase :: "u8 \<Rightarrow> bool" where
  "is_ascii_uppercase b \<longleftrightarrow> 65 \<le> b \<and> b \<le> 90"

definition is_ascii_alphabetic :: "u8 \<Rightarrow> bool" where
  "is_ascii_alphabetic b \<longleftrightarrow> is_ascii_lowercase b \<or> is_ascii_uppercase b"

definition is_ascii_alphanumeric :: "u8 \<Rightarrow> bool" where
  "is_ascii_alphanumeric b \<longleftrightarrow> is_ascii_alphabetic b \<or> is_ascii_digit b"

definition is_ascii_hexdigit :: "u8 \<Rightarrow> bool" where
  "is_ascii_hexdigit b \<longleftrightarrow>
     is_ascii_digit b \<or> (97 \<le> b \<and> b \<le> 102) \<or> (65 \<le> b \<and> b \<le> 70)"

definition is_ascii :: "string \<Rightarrow> bool" where
  "is_ascii s \<longleftrightarrow> list_all (\<lambda>c. byte_of c < 128) s"

definition ascii_lower :: "char \<Rightarrow> char" where
  "ascii_lower c = (if is_ascii_uppercase (byte_of c) then char_from (byte_of c + 32) else c)"

definition to_ascii_lowercase :: "string \<Rightarrow> string" where
  "to_ascii_lowercase s = map ascii_lower s"

definition starts_with :: "string \<Rightarrow> string \<Rightarrow> bool" where
  "starts_with s p \<longleftrightarrow> take (length p) s = p"

definition strip_prefix :: "string \<Rightarrow> string \<Rightarrow> string option" where
  "strip_prefix s p = (if starts_with s p then Some (drop (length p) s) else None)"

text \<open>\<open>str::contains\<close> for a pattern that is itself a string.\<close>

fun str_contains :: "string \<Rightarrow> string \<Rightarrow> bool" where
  "str_contains [] p = (p = [])"
| "str_contains (c # s) p = (starts_with (c # s) p \<or> str_contains s p)"

text \<open>\<open>split_once(char)\<close>: the text before and after the first occurrence.\<close>

fun split_once :: "(char \<Rightarrow> bool) \<Rightarrow> string \<Rightarrow> (string \<times> string) option" where
  "split_once p [] = None"
| "split_once p (c # s) =
     (if p c then Some ([], s)
      else (case split_once p s of None \<Rightarrow> None | Some (a, b) \<Rightarrow> Some (c # a, b)))"

text \<open>
  \<open>char::is_whitespace\<close> read off the UTF-8 bytes: the number of bytes of the
  whitespace character the text starts with, 0 when it starts with none.
\<close>

fun whitespace_len :: "u8 list \<Rightarrow> nat" where
  "whitespace_len [] = 0"
| "whitespace_len (a # rest) =
     (if (9 \<le> a \<and> a \<le> 13) \<or> a = 32 then 1
      else (case rest of
              [] \<Rightarrow> 0
            | b # rest' \<Rightarrow>
                if a = 0xC2 \<and> (b = 0x85 \<or> b = 0xA0) then 2
                else (case rest' of
                        [] \<Rightarrow> 0
                      | c # _ \<Rightarrow>
                          if (a = 0xE1 \<and> b = 0x9A \<and> c = 0x80)
                            \<or> (a = 0xE2 \<and> b = 0x80 \<and> 0x80 \<le> c \<and> c \<le> 0x8A)
                            \<or> (a = 0xE2 \<and> b = 0x80 \<and> (c = 0xA8 \<or> c = 0xA9 \<or> c = 0xAF))
                            \<or> (a = 0xE2 \<and> b = 0x81 \<and> c = 0x9F)
                            \<or> (a = 0xE3 \<and> b = 0x80 \<and> c = 0x80) then 3 else 0)))"

fun has_whitespace :: "string \<Rightarrow> bool" where
  "has_whitespace [] = False"
| "has_whitespace (c # s) = (0 < whitespace_len (as_bytes (c # s)) \<or> has_whitespace s)"

text \<open>\<open>split_whitespace\<close>: \<open>cur\<close> is the word being read, reversed, and \<open>skip\<close> the
  bytes of the current whitespace character still to pass.\<close>

fun split_ws :: "nat \<Rightarrow> string \<Rightarrow> string \<Rightarrow> string list" where
  "split_ws skip cur [] = (if cur = [] then [] else [rev cur])"
| "split_ws (Suc k) cur (c # s) = split_ws k cur s"
| "split_ws 0 cur (c # s) =
     (case whitespace_len (as_bytes (c # s)) of
        0 \<Rightarrow> split_ws 0 (c # cur) s
      | Suc k \<Rightarrow> (if cur = [] then split_ws k [] s else rev cur # split_ws k [] s))"

definition split_whitespace :: "string \<Rightarrow> string list" where
  "split_whitespace s = split_ws 0 [] s"

text \<open>\<open>chars().count()\<close>: the bytes that are not UTF-8 continuation bytes.\<close>

definition char_count :: "string \<Rightarrow> nat" where
  "char_count s = length (filter (\<lambda>c. byte_of c AND 0xC0 \<noteq> 0x80) s)"

section \<open>Decimal integers\<close>

text \<open>
  \<open>str::parse\<close> for an unsigned type with \<open>limit\<close> values: an optional leading plus
  sign, at least one digit, only digits, and every partial value below the limit.
\<close>

fun parse_digits :: "nat \<Rightarrow> nat \<Rightarrow> string \<Rightarrow> nat option" where
  "parse_digits limit acc [] = Some acc"
| "parse_digits limit acc (c # s) =
     (if is_ascii_digit (byte_of c) \<and> acc * 10 + (of_char c - 48) < limit
      then parse_digits limit (acc * 10 + (of_char c - 48)) s else None)"

definition parse_unsigned :: "nat \<Rightarrow> string \<Rightarrow> nat option" where
  "parse_unsigned limit s =
     (let digits = (case strip_prefix s ''+'' of None \<Rightarrow> s | Some r \<Rightarrow> r)
      in if digits = [] then None else parse_digits limit 0 digits)"

definition parse_u16 :: "string \<Rightarrow> u16 option" where
  "parse_u16 s = map_option of_nat (parse_unsigned (2 ^ 16) s)"

definition parse_u64 :: "string \<Rightarrow> u64 option" where
  "parse_u64 s = map_option of_nat (parse_unsigned (2 ^ 64) s)"

text \<open>\<open>Display\<close> for an unsigned integer.\<close>

fun show_nat :: "nat \<Rightarrow> string" where
  "show_nat n = (if n < 10 then [char_of (48 + n)] else show_nat (n div 10) @ [char_of (48 + n mod 10)])"

declare show_nat.simps [simp del]

lemma show_nat_nonempty [simp]: "show_nat n \<noteq> []"
  by (subst show_nat.simps) simp

lemma parse_digits_append:
  "parse_digits limit acc (s @ t) =
     (case parse_digits limit acc s of None \<Rightarrow> None | Some v \<Rightarrow> parse_digits limit v t)"
  by (induction s arbitrary: acc) auto

lemma digit_char:
  assumes "d < 10"
  shows "is_ascii_digit (byte_of (char_of (48 + d)))" and "(of_char (char_of (48 + d)) :: nat) = 48 + d"
proof -
  show v: "(of_char (char_of (48 + d)) :: nat) = 48 + d"
    using assms by (simp add: of_char_of)
  show "is_ascii_digit (byte_of (char_of (48 + d)))"
    using assms v by (simp add: is_ascii_digit_def word_le_nat_alt)
qed

lemma parse_digits_show_nat: "n < limit \<Longrightarrow> parse_digits limit 0 (show_nat n) = Some n"
proof (induction n rule: show_nat.induct)
  case (1 n)
  show ?case
  proof (cases "n < 10")
    case True
    with "1.prems" show ?thesis
      by (subst show_nat.simps) (simp add: digit_char)
  next
    case False
    with 1 have "parse_digits limit 0 (show_nat (n div 10)) = Some (n div 10)" by simp
    moreover have "n div 10 * 10 + n mod 10 = n" by simp
    ultimately show ?thesis
      using False "1.prems"
      by (subst show_nat.simps) (simp add: parse_digits_append digit_char)
  qed
qed

lemma show_nat_digits: "c \<in> set (show_nat n) \<Longrightarrow> is_ascii_digit (byte_of c)"
proof (induction n rule: show_nat.induct)
  case (1 n)
  then show ?case
    by (cases "n < 10") (subst (asm) show_nat.simps, auto simp: digit_char)+
qed

lemma parse_unsigned_show_nat:
  assumes "n < limit"
  shows "parse_unsigned limit (show_nat n) = Some n"
proof -
  obtain c s where cs: "show_nat n = c # s" by (cases "show_nat n") auto
  have "is_ascii_digit (byte_of c)" using show_nat_digits [of c n] cs by simp
  moreover have "\<not> is_ascii_digit (byte_of CHR ''+'')" by (simp add: is_ascii_digit_def byte_of_def)
  ultimately have "c \<noteq> CHR ''+''" by blast
  then have "strip_prefix (show_nat n) ''+'' = None"
    by (simp add: strip_prefix_def starts_with_def cs)
  then show ?thesis
    using parse_digits_show_nat [OF assms] by (simp add: parse_unsigned_def)
qed

lemma parse_digits_bound:
  "acc < limit \<Longrightarrow> parse_digits limit acc s = Some v \<Longrightarrow> v < limit"
  by (induction s arbitrary: acc) (auto split: if_splits)

lemma parse_u16_show: "parse_u16 (show_nat (unat k)) = Some k"
  using parse_unsigned_show_nat [of "unat k" "2 ^ 16"] unat_bound [of k]
  by (simp add: parse_u16_def)

lemma split_once_append:
  "list_all (\<lambda>c. \<not> p c) a \<Longrightarrow> p c \<Longrightarrow> split_once p (a @ c # b) = Some (a, b)"
  by (induction a) auto

lemma split_once_SomeD:
  "split_once p s = Some (a, b) \<Longrightarrow> \<exists>c. p c \<and> s = a @ c # b \<and> list_all (\<lambda>c. \<not> p c) a"
  by (induction s arbitrary: a) (auto split: if_splits option.splits)

section \<open>Searching\<close>

text \<open>\<open>str::rfind(char)\<close> and \<open>Iterator::position\<close>.\<close>

fun rfind :: "char \<Rightarrow> string \<Rightarrow> nat option" where
  "rfind c [] = None"
| "rfind c (x # xs) =
     (case rfind c xs of Some i \<Rightarrow> Some (Suc i) | None \<Rightarrow> if x = c then Some 0 else None)"

fun position :: "('a \<Rightarrow> bool) \<Rightarrow> 'a list \<Rightarrow> nat option" where
  "position p [] = None"
| "position p (x # xs) = (if p x then Some 0 else map_option Suc (position p xs))"

lemma rfind_None [simp]: "rfind c s = None \<longleftrightarrow> c \<notin> set s"
  by (induction s) (auto split: option.splits)

lemma rfind_append: "c \<notin> set b \<Longrightarrow> rfind c (a @ c # b) = Some (length a)"
  by (induction a) (auto split: option.splits)

lemma rfind_SomeD:
  "rfind c s = Some i \<Longrightarrow> i < length s \<and> s = take i s @ c # drop (Suc i) s \<and> c \<notin> set (drop (Suc i) s)"
proof (induction s arbitrary: i)
  case (Cons x xs)
  show ?case
  proof (cases "rfind c xs")
    case None
    with Cons.prems show ?thesis by (auto split: if_splits)
  next
    case (Some j)
    with Cons show ?thesis by auto
  qed
qed simp

lemma position_SomeD: "position p xs = Some i \<Longrightarrow> i < length xs \<and> p (xs ! i)"
  by (induction xs arbitrary: i) (auto split: if_splits)

lemma position_None: "position p xs = None \<longleftrightarrow> (\<forall>x \<in> set xs. \<not> p x)"
  by (induction xs) auto

lemma position_nth: "\<lbrakk>distinct xs; i < length xs\<rbrakk> \<Longrightarrow> position (\<lambda>x. x = xs ! i) xs = Some i"
proof (induction xs arbitrary: i)
  case (Cons x xs)
  then show ?case by (cases i) auto
qed simp

section \<open>Letter case\<close>

lemma is_ascii_append [simp]: "is_ascii (s @ t) \<longleftrightarrow> is_ascii s \<and> is_ascii t"
  by (simp add: is_ascii_def)

lemma length_to_ascii_lowercase [simp]: "length (to_ascii_lowercase s) = length s"
  by (simp add: to_ascii_lowercase_def)

lemma ascii_lower_not_upper [simp]: "\<not> is_ascii_uppercase (byte_of (ascii_lower c))"
proof (cases "is_ascii_uppercase (byte_of c)")
  case True
  then have "unat (byte_of c + 32) = unat (byte_of c) + 32"
    by (simp add: is_ascii_uppercase_def word_le_nat_alt unat_word_ariths)
  with True show ?thesis
    by (simp add: ascii_lower_def is_ascii_uppercase_def word_le_nat_alt)
qed (simp add: ascii_lower_def)

lemma ascii_lower_idem [simp]: "ascii_lower (ascii_lower c) = ascii_lower c"
  using ascii_lower_not_upper [of c] unfolding ascii_lower_def [of "ascii_lower c"] by simp

lemma to_ascii_lowercase_idem [simp]: "to_ascii_lowercase (to_ascii_lowercase s) = to_ascii_lowercase s"
  by (simp add: to_ascii_lowercase_def)

lemma to_ascii_lowercase_append [simp]:
  "to_ascii_lowercase (s @ t) = to_ascii_lowercase s @ to_ascii_lowercase t"
  by (simp add: to_ascii_lowercase_def)

lemma to_ascii_lowercase_id:
  "list_all (\<lambda>c. \<not> is_ascii_uppercase (byte_of c)) s \<Longrightarrow> to_ascii_lowercase s = s"
  by (induction s) (simp_all add: to_ascii_lowercase_def ascii_lower_def)

section \<open>UTF-8\<close>

text \<open>The byte sequences \<open>String::from_utf8\<close> accepts.\<close>

definition utf8_cont :: "u8 \<Rightarrow> bool" where
  "utf8_cont b \<longleftrightarrow> 0x80 \<le> b \<and> b \<le> 0xbf"

fun utf8_valid :: "u8 list \<Rightarrow> bool" where
  "utf8_valid [] = True"
| "utf8_valid (a # bs) =
     (if a \<le> 0x7f then utf8_valid bs
      else case bs of
        [] \<Rightarrow> False
      | b # bs2 \<Rightarrow>
          if 0xc2 \<le> a \<and> a \<le> 0xdf then utf8_cont b \<and> utf8_valid bs2
          else (case bs2 of
            [] \<Rightarrow> False
          | c # bs3 \<Rightarrow>
              if 0xe0 \<le> a \<and> a \<le> 0xef then
                utf8_cont b \<and> (a = 0xe0 \<longrightarrow> 0xa0 \<le> b) \<and> (a = 0xed \<longrightarrow> b \<le> 0x9f)
                \<and> utf8_cont c \<and> utf8_valid bs3
              else (case bs3 of
                [] \<Rightarrow> False
              | d # bs4 \<Rightarrow>
                  0xf0 \<le> a \<and> a \<le> 0xf4 \<and> utf8_cont b \<and> (a = 0xf0 \<longrightarrow> 0x90 \<le> b)
                  \<and> (a = 0xf4 \<longrightarrow> b \<le> 0x8f) \<and> utf8_cont c \<and> utf8_cont d \<and> utf8_valid bs4)))"

end
