(* ===== verification/Hex.thy ===== *)
theory Hex
  imports Prelude
begin

text \<open>
  The protocol errors of \<open>immortal-core/src/domain/error.rs\<close> and the lowercase
  hexadecimal codec of \<open>immortal-core/src/domain/hex.rs\<close>, through which every event
  ID, public key and signature of the relay passes. The lemmas show that the decoder
  and the encoder are inverse to each other on the nose: a byte array has exactly one
  accepted spelling.
\<close>

section \<open>Domain errors\<close>

datatype domain_error =
    EmptyTag
  | InvalidHex string nat
  | InvalidPublicKey
  | EventIdMismatch string string
  | InvalidSignature
  | ExpiredEvent u64 u64
  | FutureTimestamp u64 u64
  | InvalidEvent string
  | InvalidFilter string
  | InvalidReplacementAddress string
  | ReplacementAddressMismatch
  | NotReplaceable
  | NotDeletionRequest
  | Serialization string

section \<open>The codec\<close>

definition hex_nibble :: "u8 \<Rightarrow> u8 option" where
  "hex_nibble byte =
     (if 48 \<le> byte \<and> byte \<le> 57 then Some (byte - 48)
      else if 97 \<le> byte \<and> byte \<le> 102 then Some (byte - 97 + 10)
      else None)"

text \<open>The loop over \<open>chunks_exact(2)\<close>; an odd last byte is not a chunk.\<close>

fun decode_pairs :: "u8 list \<Rightarrow> u8 list option" where
  "decode_pairs (a # b # rest) =
     (case hex_nibble a of
        None \<Rightarrow> None
      | Some high \<Rightarrow>
          (case hex_nibble b of
             None \<Rightarrow> None
           | Some low \<Rightarrow> map_option ((#) (push_bit 4 high OR low)) (decode_pairs rest)))"
| "decode_pairs _ = Some []"

definition decode_lower_hex :: "nat \<Rightarrow> string \<Rightarrow> string \<Rightarrow> (domain_error, u8 list) result" where
  "decode_lower_hex N input field =
     (if length input \<noteq> N * 2 \<or> \<not> is_ascii input then Inl (InvalidHex field N)
      else ok_or (decode_pairs (as_bytes input)) (InvalidHex field N))"

definition HEX :: string where
  "HEX = ''0123456789abcdef''"

fun encode_lower_hex :: "u8 list \<Rightarrow> string" where
  "encode_lower_hex [] = []"
| "encode_lower_hex (byte # bytes) =
     HEX ! unat (drop_bit 4 byte) # HEX ! unat (byte AND 0x0f) # encode_lower_hex bytes"

section \<open>Nibbles\<close>

lemma hex_digit_table:
  "list_all (\<lambda>n. hex_nibble (byte_of (HEX ! n)) = Some (of_nat n) \<and> byte_of (HEX ! n) < 128) [0..<16]"
  by code_simp

lemma hex_nibble_HEX: "n < 16 \<Longrightarrow> hex_nibble (byte_of (HEX ! n)) = Some (of_nat n)"
  using hex_digit_table by (simp add: list_all_iff)

lemma HEX_ascii: "n < 16 \<Longrightarrow> byte_of (HEX ! n) < 128"
  using hex_digit_table by (simp add: list_all_iff)

lemma hex_letter_table:
  "list_all (\<lambda>d. byte_of (HEX ! d) = of_nat (48 + d)) [0..<10]"
  "list_all (\<lambda>d. byte_of (HEX ! (10 + d)) = of_nat (97 + d)) [0..<6]"
  by code_simp+

lemma u8_offset:
  fixes b :: u8
  assumes "of_nat lo \<le> b" "b \<le> of_nat hi" "hi < 256" "lo \<le> hi"
  obtains d where "d \<le> hi - lo" "b = of_nat (lo + d)" "b - of_nat lo = of_nat d"
proof
  have lo: "lo \<le> unat b" and hi: "unat b \<le> hi"
    using assms by (simp_all add: word_le_nat_alt unat_of_nat take_bit_eq_mod)
  show "unat b - lo \<le> hi - lo" using hi by simp
  show eq: "b = of_nat (lo + (unat b - lo))" using lo by simp
  show "b - of_nat lo = of_nat (unat b - lo)" using lo by (simp add: of_nat_diff)
qed

lemma hex_nibble_SomeD:
  assumes "hex_nibble b = Some v"
  shows "v < 16" and "byte_of (HEX ! unat v) = b"
proof -
  have "v < 16 \<and> byte_of (HEX ! unat v) = b"
  proof (cases "48 \<le> b \<and> b \<le> 57")
    case True
    then obtain d where "d \<le> 9" and b: "b = of_nat (48 + d)" "b - 48 = of_nat d"
      using u8_offset [of 48 b 57] by auto
    then have "byte_of (HEX ! d) = b"
      using hex_letter_table(1) by (simp add: list_all_iff)
    moreover have "v = of_nat d" using assms True b by (simp add: hex_nibble_def)
    moreover have "unat (of_nat d :: u8) = d"
      using \<open>d \<le> 9\<close> by (simp add: unat_of_nat take_bit_eq_mod)
    ultimately show ?thesis using \<open>d \<le> 9\<close> by (simp add: word_less_nat_alt)
  next
    case False
    with assms have r: "97 \<le> b \<and> b \<le> 102" and v: "v = b - 97 + 10"
      by (auto simp: hex_nibble_def split: if_splits)
    then obtain d where "d \<le> 5" and b: "b = of_nat (97 + d)" "b - 97 = of_nat d"
      using u8_offset [of 97 b 102] by auto
    then have "byte_of (HEX ! (10 + d)) = b"
      using hex_letter_table(2) by (simp add: list_all_iff)
    moreover have "v = of_nat (10 + d)" using v b by (simp add: add.commute)
    moreover have "unat (of_nat (10 + d) :: u8) = 10 + d"
      using \<open>d \<le> 5\<close> by (simp only: unat_of_nat) (simp add: take_bit_eq_mod)
    ultimately show ?thesis using \<open>d \<le> 5\<close> by (simp add: word_less_nat_alt)
  qed
  then show "v < 16" "byte_of (HEX ! unat v) = b" by simp_all
qed

lemma nibbles_less [simp]:
  fixes b :: u8
  shows "unat (drop_bit 4 b) < 16" and "unat (b AND 0x0f) < 16"
proof -
  show "unat (drop_bit 4 b) < 16"
    using unat_drop_bit_less [of b 4 4] unat_bound [of b] by simp
  have "b AND 0x0f = take_bit 4 b" by (simp add: take_bit_eq_mask mask_eq_decr_exp)
  then show "unat (b AND 0x0f) < 16" using unat_take_bit_less [of 4 b] by simp
qed

lemma nibbles_join:
  fixes b :: u8
  shows "push_bit 4 (drop_bit 4 b) OR (b AND 0x0f) = b"
proof -
  have "b AND 0x0f = take_bit 4 b" by (simp add: take_bit_eq_mask mask_eq_decr_exp)
  then show ?thesis by (simp add: bits_ident disjunctive_add [symmetric] bit_simps)
qed

lemma nibbles_split:
  fixes h l :: u8
  assumes "h < 16" "l < 16"
  shows "drop_bit 4 (push_bit 4 h OR l) = h" and "(push_bit 4 h OR l) AND 0x0f = l"
proof -
  have l: "take_bit 4 l = l" and h: "take_bit 4 h = h"
    using assms by (simp_all add: word_less_nat_alt take_bit_word_ident)
  have m: "(push_bit 4 h OR l) AND 0x0f = take_bit 4 (push_bit 4 h OR l)"
    by (simp add: take_bit_eq_mask mask_eq_decr_exp)
  show "(push_bit 4 h OR l) AND 0x0f = l"
    unfolding m by (simp add: l take_bit_push_bit)
  show "drop_bit 4 (push_bit 4 h OR l) = h"
  proof (rule bit_word_eqI)
    fix n assume "n < LENGTH(8)"
    moreover have "bit h n \<Longrightarrow> n < 4" and "\<not> bit l (4 + n)"
      using assms not_bit_if_less [of h 4 n] not_bit_if_less [of l 4 "4 + n"]
      by (fastforce simp: word_less_nat_alt)+
    ultimately show "bit (drop_bit 4 (push_bit 4 h OR l)) n = bit h n"
      by (auto simp: bit_simps)
  qed
qed

section \<open>Round trips\<close>

lemma encode_lower_hex_length [simp]: "length (encode_lower_hex bs) = 2 * length bs"
  by (induction bs) auto

lemma encode_lower_hex_ascii: "is_ascii (encode_lower_hex bs)"
  by (induction bs) (auto simp: is_ascii_def HEX_ascii)

lemma decode_pairs_encode: "decode_pairs (as_bytes (encode_lower_hex bs)) = Some bs"
  by (induction bs) (simp_all add: hex_nibble_HEX nibbles_join)

lemma decode_pairs_SomeD:
  "decode_pairs bs = Some out \<Longrightarrow> even (length bs) \<Longrightarrow> as_bytes (encode_lower_hex out) = bs"
proof (induction bs arbitrary: out rule: decode_pairs.induct)
  case (1 a b rest)
  then obtain h l out' where h: "hex_nibble a = Some h" and l: "hex_nibble b = Some l"
    and r: "decode_pairs rest = Some out'" and out: "out = (push_bit 4 h OR l) # out'"
    by (auto split: option.splits)
  from "1.IH" [OF h l r] "1.prems" have "as_bytes (encode_lower_hex out') = rest" by simp
  then show ?case
    unfolding out encode_lower_hex.simps nibbles_split [OF hex_nibble_SomeD(1) [OF h] hex_nibble_SomeD(1) [OF l]]
    using hex_nibble_SomeD(2) [OF h] hex_nibble_SomeD(2) [OF l] by simp
qed auto

lemma decode_pairs_length: "decode_pairs bs = Some out \<Longrightarrow> length out = length bs div 2"
  by (induction bs arbitrary: out rule: decode_pairs.induct) (auto split: option.splits)

lemma decode_encode_lower_hex:
  "decode_lower_hex (length bs) (encode_lower_hex bs) field = Inr bs"
  by (simp add: decode_lower_hex_def encode_lower_hex_ascii decode_pairs_encode)

lemma decode_lower_hex_InrD:
  assumes "decode_lower_hex N s field = Inr bs"
  shows "length bs = N" and "encode_lower_hex bs = s"
proof -
  from assms have len: "length s = N * 2" and d: "decode_pairs (as_bytes s) = Some bs"
    by (auto simp: decode_lower_hex_def split: if_splits)
  from decode_pairs_length [OF d] len show "length bs = N" by simp
  from decode_pairs_SomeD [OF d] len have "as_bytes (encode_lower_hex bs) = as_bytes s" by simp
  then show "encode_lower_hex bs = s" by simp
qed

lemma decode_lower_hex_iff:
  "decode_lower_hex N s field = Inr bs \<longleftrightarrow> length bs = N \<and> s = encode_lower_hex bs"
  using decode_lower_hex_InrD decode_encode_lower_hex by blast

lemma decode_lower_hex_Inl:
  "decode_lower_hex N s field = Inl e \<Longrightarrow> e = InvalidHex field N"
  by (auto simp: decode_lower_hex_def split: if_splits)

lemma encode_lower_hex_inj: "encode_lower_hex a = encode_lower_hex b \<longleftrightarrow> a = b"
  by (metis as_bytes_eq_iff decode_pairs_encode option.inject)

end
