(* ===== verification/Events.thy ===== *)
theory Events
  imports Hex
begin

text \<open>
  Nostr events as the relay sees them: the tags and accessors of
  \<open>immortal-core/src/domain/event.rs\<close>, the storage classes, replacement addresses and
  the replacement rule of \<open>replacement.rs\<close>, and the timestamp policy of
  \<open>timestamp.rs\<close>. The lemmas show that the address codec round-trips, and that the
  replacement rule is a strict total order on versions, so that the surviving version
  of an address does not depend on the order in which versions arrive.
\<close>

section \<open>Tags and events\<close>

type_synonym tag = "string list"

definition tag_name :: "tag \<Rightarrow> string option" where
  "tag_name t = (case t of [] \<Rightarrow> None | name # _ \<Rightarrow> Some name)"

definition tag_value :: "tag \<Rightarrow> string option" where
  "tag_value t = (case t of _ # value # _ \<Rightarrow> Some value | _ \<Rightarrow> None)"

definition EXTENDED_INDEXED_TAG_NAMES :: "string list" where
  "EXTENDED_INDEXED_TAG_NAMES = [''work'']"

definition is_indexed_tag_name :: "string \<Rightarrow> bool" where
  "is_indexed_tag_name name \<longleftrightarrow>
     (case name of [c] \<Rightarrow> is_ascii_alphabetic (byte_of c) | _ \<Rightarrow> False)
     \<or> name \<in> set EXTENDED_INDEXED_TAG_NAMES"

definition indexed_pair :: "tag \<Rightarrow> (string \<times> string) option" where
  "indexed_pair t =
     (case tag_name t of
        None \<Rightarrow> None
      | Some name \<Rightarrow>
          if is_indexed_tag_name name then map_option (Pair name) (tag_value t) else None)"

record event =
  ev_id :: string
  ev_pubkey :: string
  ev_created_at :: u64
  ev_kind :: u16
  ev_tags :: "tag list"
  ev_content :: string
  ev_sig :: string

definition indexed_tags :: "event \<Rightarrow> (string \<times> string) list" where
  "indexed_tags e = List.map_filter indexed_pair (ev_tags e)"

definition tag_values :: "event \<Rightarrow> string \<Rightarrow> string list" where
  "tag_values e name = List.map_filter tag_value (filter (\<lambda>t. tag_name t = Some name) (ev_tags e))"

definition first_of :: "'a list \<Rightarrow> 'a option" where
  "first_of xs = (case xs of [] \<Rightarrow> None | x # _ \<Rightarrow> Some x)"

definition expiration :: "event \<Rightarrow> u64 option" where
  "expiration e =
     (case List.find (\<lambda>t. tag_name t = Some ''expiration'') (ev_tags e) of
        None \<Rightarrow> None
      | Some t \<Rightarrow> (case tag_value t of None \<Rightarrow> None | Some v \<Rightarrow> parse_u64 v))"

definition is_expired :: "event \<Rightarrow> u64 \<Rightarrow> bool" where
  "is_expired e now = (case expiration e of None \<Rightarrow> False | Some t \<Rightarrow> t \<le> now)"

definition has_exact_tag :: "event \<Rightarrow> string \<Rightarrow> bool" where
  "has_exact_tag e name \<longleftrightarrow> list_ex (\<lambda>t. length t = 1 \<and> tag_name t = Some name) (ev_tags e)"

definition is_protected :: "event \<Rightarrow> bool" where
  "is_protected e \<longleftrightarrow> has_exact_tag e ''-''"

definition gift_wrap_recipient :: "event \<Rightarrow> string option" where
  "gift_wrap_recipient e = (if ev_kind e = 1059 then first_of (tag_values e ''p'') else None)"

definition group_id :: "event \<Rightarrow> string option" where
  "group_id e = first_of (tag_values e ''h'')"

text \<open>
  Reposts embed another event as JSON text. The JSON reader is a library of its own and
  is the argument \<open>parse_event\<close>.
\<close>

definition embeds_protected_repost :: "(string \<Rightarrow> event option) \<Rightarrow> event \<Rightarrow> bool" where
  "embeds_protected_repost parse_event e \<longleftrightarrow>
     (ev_kind e = 6 \<or> ev_kind e = 16)
     \<and> (case parse_event (ev_content e) of None \<Rightarrow> False | Some inner \<Rightarrow> is_protected inner)"

section \<open>Timestamp policy\<close>

record timestamp_policy =
  max_future_seconds :: u64

definition validate_timestamp ::
    "timestamp_policy \<Rightarrow> u64 \<Rightarrow> u64 \<Rightarrow> (domain_error, unit) result" where
  "validate_timestamp policy created_at now =
     (let latest_allowed = saturating_add now (max_future_seconds policy)
      in if latest_allowed < created_at then Inl (FutureTimestamp created_at latest_allowed)
         else Inr ())"

section \<open>Storage classes and replacement addresses\<close>

datatype event_class = Regular | Replaceable | Ephemeral | Addressable

definition from_kind :: "u16 \<Rightarrow> event_class" where
  "from_kind kind =
     (if kind = 0 \<or> kind = 3 \<or> (10000 \<le> kind \<and> kind \<le> 19999) then Replaceable
      else if 20000 \<le> kind \<and> kind \<le> 29999 then Ephemeral
      else if 30000 \<le> kind \<and> kind \<le> 39999 then Addressable
      else Regular)"

definition event_class :: "event \<Rightarrow> event_class" where
  "event_class e = from_kind (ev_kind e)"

definition distinct_parameter :: "event \<Rightarrow> string option" where
  "distinct_parameter e =
     (if event_class e \<noteq> Addressable then None
      else Some (case List.find (\<lambda>t. tag_name t = Some ''d'') (ev_tags e) of
                   None \<Rightarrow> []
                 | Some t \<Rightarrow> (case tag_value t of None \<Rightarrow> [] | Some v \<Rightarrow> v)))"

datatype replacement_address =
  ReplacementAddress (ra_kind: u16) (ra_pubkey: string) (ra_identifier: string)

text \<open>The derived \<open>Ord\<close>: the fields compared one after the other.\<close>

instantiation replacement_address :: linorder
begin

definition less_eq_replacement_address :: "replacement_address \<Rightarrow> replacement_address \<Rightarrow> bool" where
  "less_eq_replacement_address a b \<longleftrightarrow>
     ra_kind a < ra_kind b
     \<or> ra_kind a = ra_kind b
       \<and> (ra_pubkey a < ra_pubkey b
          \<or> ra_pubkey a = ra_pubkey b \<and> ra_identifier a \<le> ra_identifier b)"

definition less_replacement_address :: "replacement_address \<Rightarrow> replacement_address \<Rightarrow> bool" where
  "less_replacement_address a b \<longleftrightarrow> a \<le> b \<and> \<not> b \<le> (a :: replacement_address)"

instance
proof
  fix a b c :: replacement_address
  show "a < b \<longleftrightarrow> a \<le> b \<and> \<not> b \<le> a" by (simp add: less_replacement_address_def)
  show "a \<le> a" by (simp add: less_eq_replacement_address_def)
  show "a \<le> b \<Longrightarrow> b \<le> c \<Longrightarrow> a \<le> c" by (auto simp: less_eq_replacement_address_def)
  show "a \<le> b \<Longrightarrow> b \<le> a \<Longrightarrow> a = b"
    by (auto simp: less_eq_replacement_address_def intro: replacement_address.expand)
  show "a \<le> b \<or> b \<le> a" by (auto simp: less_eq_replacement_address_def)
qed

end

definition replacement_address :: "event \<Rightarrow> replacement_address option" where
  "replacement_address e =
     (case event_class e of
        Replaceable \<Rightarrow> Some (ReplacementAddress (ev_kind e) (ev_pubkey e) [])
      | Addressable \<Rightarrow>
          Some (ReplacementAddress (ev_kind e) (ev_pubkey e)
                  (case distinct_parameter e of None \<Rightarrow> [] | Some d \<Rightarrow> d))
      | Regular \<Rightarrow> None
      | Ephemeral \<Rightarrow> None)"

definition address_to_string :: "replacement_address \<Rightarrow> string" where
  "address_to_string a =
     show_nat (unat (ra_kind a)) @ '':'' @ ra_pubkey a @ '':'' @ ra_identifier a"

text \<open>\<open>splitn(3, ':')\<close> gives three parts exactly when the text has two colons.\<close>

definition address_from_str :: "string \<Rightarrow> (domain_error, replacement_address) result" where
  "address_from_str value =
     (let invalid = InvalidReplacementAddress value;
          (kind_text, rest) =
            (case split_once (\<lambda>c. c = CHR '':'') value of
               None \<Rightarrow> (value, None) | Some (a, b) \<Rightarrow> (a, Some b))
      in try_then (ok_or (parse_u16 kind_text) invalid) (\<lambda>kind.
         try_then (ok_or rest invalid) (\<lambda>rest.
         try_then
           (ok_or (split_once (\<lambda>c. c = CHR '':'') rest) invalid) (\<lambda>(pubkey, identifier).
         try_then (map_err (\<lambda>_. invalid) (decode_lower_hex 32 pubkey ''replacement pubkey'')) (\<lambda>_.
         try_then
           (ensure (case from_kind kind of
                      Replaceable \<Rightarrow> identifier = []
                    | Addressable \<Rightarrow> True
                    | _ \<Rightarrow> False) invalid) (\<lambda>_.
         Inr (ReplacementAddress kind pubkey identifier)))))))"

section \<open>The replacement rule\<close>

datatype replacement_decision = KeepCurrent | ReplaceCurrent | DuplicateVersion

definition compare_replacement_order ::
    "u64 \<Rightarrow> string \<Rightarrow> u64 \<Rightarrow> string \<Rightarrow> replacement_decision" where
  "compare_replacement_order current_created_at current_id candidate_created_at candidate_id =
     (if current_id = candidate_id then DuplicateVersion
      else if current_created_at < candidate_created_at then ReplaceCurrent
      else if candidate_created_at < current_created_at then KeepCurrent
      else if candidate_id < current_id then ReplaceCurrent
      else KeepCurrent)"

definition compare_replacement ::
    "event \<Rightarrow> event \<Rightarrow> (domain_error, replacement_decision) result" where
  "compare_replacement current candidate =
     try_then (ok_or (replacement_address current) NotReplaceable) (\<lambda>current_address.
     try_then (ok_or (replacement_address candidate) NotReplaceable) (\<lambda>candidate_address.
       if current_address \<noteq> candidate_address then Inl ReplacementAddressMismatch
       else Inr (compare_replacement_order
                   (ev_created_at current) (ev_id current)
                   (ev_created_at candidate) (ev_id candidate))))"

section \<open>Addresses round-trip\<close>

definition address_wf :: "replacement_address \<Rightarrow> bool" where
  "address_wf a \<longleftrightarrow>
     is_ok (decode_lower_hex 32 (ra_pubkey a) [])
     \<and> (from_kind (ra_kind a) = Replaceable \<and> ra_identifier a = [] \<or> from_kind (ra_kind a) = Addressable)"

lemma decode_lower_hex_is_ok:
  "is_ok (decode_lower_hex N s field) \<longleftrightarrow> (\<exists>bs. length bs = N \<and> s = encode_lower_hex bs)"
  by (auto simp: is_ok_iff decode_lower_hex_iff)

lemma HEX_not_colon: "n < 16 \<Longrightarrow> HEX ! n \<noteq> CHR '':''"
proof -
  have "list_all (\<lambda>n. HEX ! n \<noteq> CHR '':'') [0..<16]" by code_simp
  then show "n < 16 \<Longrightarrow> HEX ! n \<noteq> CHR '':''" by (simp add: list_all_iff)
qed

lemma encode_lower_hex_no_colon: "list_all (\<lambda>c. c \<noteq> CHR '':'') (encode_lower_hex bs)"
  by (induction bs) (simp_all add: HEX_not_colon)

lemma show_nat_no_colon: "list_all (\<lambda>c. c \<noteq> CHR '':'') (show_nat n)"
proof -
  have "\<not> is_ascii_digit (byte_of CHR '':'')" by (simp add: is_ascii_digit_def byte_of_def)
  then show ?thesis using show_nat_digits [of _ n] by (auto simp: list_all_iff)
qed

lemma address_from_str_to_string:
  assumes "address_wf a"
  shows "address_from_str (address_to_string a) = Inr a"
proof -
  obtain bs where bs: "length bs = 32" "ra_pubkey a = encode_lower_hex bs"
    using assms by (auto simp: address_wf_def decode_lower_hex_is_ok)
  have "split_once (\<lambda>c. c = CHR '':'') (show_nat (unat (ra_kind a)) @ CHR '':'' # ra_pubkey a @ CHR '':'' # ra_identifier a)
          = Some (show_nat (unat (ra_kind a)), ra_pubkey a @ CHR '':'' # ra_identifier a)"
    using show_nat_no_colon by (simp add: split_once_append)
  moreover have "split_once (\<lambda>c. c = CHR '':'') (ra_pubkey a @ CHR '':'' # ra_identifier a)
          = Some (ra_pubkey a, ra_identifier a)"
    using encode_lower_hex_no_colon [of bs] bs by (simp add: split_once_append)
  moreover have "decode_lower_hex 32 (ra_pubkey a) ''replacement pubkey'' = Inr bs"
    using bs by (simp add: decode_lower_hex_iff)
  ultimately show ?thesis
    using assms by (auto simp: address_from_str_def address_to_string_def address_wf_def parse_u16_show Let_def)
qed

lemma decode_lower_hex_field:
  "decode_lower_hex N s f = Inr bs \<Longrightarrow> decode_lower_hex N s g = Inr bs"
  by (simp add: decode_lower_hex_iff)

lemma address_from_str_wf:
  assumes "address_from_str s = Inr a"
  shows "address_wf a"
proof -
  obtain kind_text rest where kr: "(case split_once (\<lambda>c. c = CHR '':'') s of
      None \<Rightarrow> (s, None) | Some (a, b) \<Rightarrow> (a, Some b)) = (kind_text, rest)"
    by (meson surj_pair)
  from assms obtain kind pubkey idf bs where
    bs: "decode_lower_hex 32 pubkey ''replacement pubkey'' = Inr bs"
    and k: "case from_kind kind of Replaceable \<Rightarrow> idf = [] | Addressable \<Rightarrow> True | _ \<Rightarrow> False"
    and a: "a = ReplacementAddress kind pubkey idf"
    unfolding address_from_str_def Let_def kr
    by (auto simp only: try_then_eq_Inr ok_or_eq_Inr map_err_eq_Inr ensure_eq_Inr
          split_paired_Ex prod.case sum.inject)
  from decode_lower_hex_field [OF bs, of "[]"] have "is_ok (decode_lower_hex 32 pubkey [])" by simp
  with k a show ?thesis by (cases "from_kind kind") (simp_all add: address_wf_def)
qed

lemma replacement_address_wf:
  assumes "is_ok (decode_lower_hex 32 (ev_pubkey e) [])" "replacement_address e = Some a"
  shows "address_wf a"
  using assms by (auto simp: replacement_address_def address_wf_def event_class_def split: event_class.splits)

lemma replacement_address_fields:
  "replacement_address e = Some a \<Longrightarrow> ra_kind a = ev_kind e \<and> ra_pubkey a = ev_pubkey e"
  by (auto simp: replacement_address_def split: event_class.splits)

section \<open>Replacement does not depend on arrival order\<close>

text \<open>
  What a store relies on when it keeps one version per address: a rule \<open>decide\<close>,
  given the kept version and a candidate, that treats equal identifiers as duplicates
  and otherwise ranks the versions of a consistent history (one version per identifier)
  strictly and totally.
\<close>

definition keep_version ::
    "('v \<Rightarrow> 'v \<Rightarrow> replacement_decision) \<Rightarrow> 'v \<Rightarrow> 'v option \<Rightarrow> 'v option" where
  "keep_version decide v head =
     (case head of
        None \<Rightarrow> Some v
      | Some current \<Rightarrow> (if decide current v = ReplaceCurrent then Some v else Some current))"

definition consistent_ids :: "('v \<Rightarrow> 'i) \<Rightarrow> 'v set \<Rightarrow> bool" where
  "consistent_ids vid S \<longleftrightarrow> inj_on vid S"

locale version_rule =
  fixes decide :: "'v \<Rightarrow> 'v \<Rightarrow> replacement_decision"
    and vid :: "'v \<Rightarrow> 'i"
  assumes duplicate_iff: "decide a b = DuplicateVersion \<longleftrightarrow> vid a = vid b"
    and replace_asym: "decide a b = ReplaceCurrent \<Longrightarrow> decide b a = KeepCurrent"
    and replace_total: "vid a \<noteq> vid b \<Longrightarrow> decide a b = ReplaceCurrent \<or> decide b a = ReplaceCurrent"
    and replace_trans: "decide a b = ReplaceCurrent \<Longrightarrow> decide b c = ReplaceCurrent \<Longrightarrow>
          vid a \<noteq> vid c \<Longrightarrow> decide a c = ReplaceCurrent"
begin

lemma replace_ids: "decide a b = ReplaceCurrent \<Longrightarrow> vid a \<noteq> vid b"
  using duplicate_iff [of a b] by auto

lemma fold_keep:
  assumes "consistent_ids vid (insert v (set vs))"
  shows "\<exists>m. fold (keep_version decide) vs (Some v) = Some m \<and> m \<in> insert v (set vs)
           \<and> (\<forall>w \<in> insert v (set vs). w \<noteq> m \<longrightarrow> decide w m = ReplaceCurrent)"
  using assms
proof (induction vs arbitrary: v)
  case Nil
  then show ?case by simp
next
  case (Cons w vs)
  define k where "k = (if decide v w = ReplaceCurrent then w else v)"
  have step: "keep_version decide w (Some v) = Some k" by (simp add: keep_version_def k_def)
  have sub: "insert k (set vs) \<subseteq> insert v (set (w # vs))" by (auto simp: k_def)
  have inj: "consistent_ids vid (insert k (set vs))"
    using Cons.prems sub unfolding consistent_ids_def by (metis inj_on_subset list.simps(15))
  from Cons.IH [OF inj] obtain m where
    m: "fold (keep_version decide) vs (Some k) = Some m" "m \<in> insert k (set vs)"
    and best: "\<forall>u \<in> insert k (set vs). u \<noteq> m \<longrightarrow> decide u m = ReplaceCurrent" by blast
  have lose: "u \<noteq> k \<Longrightarrow> decide u k = ReplaceCurrent" if "u = v \<or> u = w" for u
  proof -
    assume "u \<noteq> k"
    with that Cons.prems have "vid u \<noteq> vid k"
      by (auto simp: consistent_ids_def k_def inj_on_def split: if_splits)
    with that \<open>u \<noteq> k\<close> replace_total [of u k] show "decide u k = ReplaceCurrent"
      by (auto simp: k_def split: if_splits)
  qed
  have "decide u m = ReplaceCurrent" if u: "u \<in> insert v (set (w # vs))" "u \<noteq> m" for u
  proof (cases "u \<in> insert k (set vs)")
    case True
    with best u show ?thesis by blast
  next
    case False
    with u have uk: "decide u k = ReplaceCurrent" using lose [of u] by auto
    have "vid u \<noteq> vid m"
      using Cons.prems u m(2) sub by (auto simp: consistent_ids_def inj_on_def k_def split: if_splits)
    then show ?thesis
      using uk best m(2) replace_trans [of u k m] by (cases "k = m") auto
  qed
  with m sub show ?case by (auto simp: step)
qed

lemma fold_keep_iff:
  assumes "consistent_ids vid (set vs)" "vs \<noteq> []"
  shows "fold (keep_version decide) vs None = Some m \<longleftrightarrow>
           m \<in> set vs \<and> (\<forall>w \<in> set vs. w \<noteq> m \<longrightarrow> decide w m = ReplaceCurrent)"
proof -
  obtain v ws where vs: "vs = v # ws" using assms(2) by (cases vs) auto
  then have "consistent_ids vid (insert v (set ws))" using assms(1) by simp
  from fold_keep [OF this] obtain k where
    k: "fold (keep_version decide) vs None = Some k" "k \<in> set vs"
    and best: "\<forall>w \<in> set vs. w \<noteq> k \<longrightarrow> decide w k = ReplaceCurrent"
    by (auto simp: vs keep_version_def)
  have "m = k" if "m \<in> set vs" "\<forall>w \<in> set vs. w \<noteq> m \<longrightarrow> decide w m = ReplaceCurrent"
  proof (rule ccontr)
    assume "m \<noteq> k"
    with that best k have "decide k m = ReplaceCurrent" "decide m k = ReplaceCurrent" by auto
    with replace_asym [of k m] show False by simp
  qed
  with k best show ?thesis by auto
qed

lemma fold_keep_order_independent:
  assumes "consistent_ids vid (set vs)" "set vs = set ws"
  shows "fold (keep_version decide) vs None = fold (keep_version decide) ws None"
proof (cases "vs = []")
  case True
  with assms show ?thesis by simp
next
  case False
  with assms have ne: "ws \<noteq> []" by auto
  obtain m where m: "fold (keep_version decide) ws None = Some m"
    using ne fold_keep [of "hd ws" "tl ws"] assms by (cases ws) (auto simp: keep_version_def)
  then have "m \<in> set ws \<and> (\<forall>w \<in> set ws. w \<noteq> m \<longrightarrow> decide w m = ReplaceCurrent)"
    using fold_keep_iff [OF _ ne, of m] assms by simp
  then have "fold (keep_version decide) vs None = Some m"
    using fold_keep_iff [OF assms(1) False, of m] assms(2) by simp
  with m show ?thesis by simp
qed

end

text \<open>The versions a store compares: a creation time and an event ID.\<close>

type_synonym version = "u64 \<times> string"

definition decide_version :: "version \<Rightarrow> version \<Rightarrow> replacement_decision" where
  "decide_version current candidate =
     compare_replacement_order (fst current) (snd current) (fst candidate) (snd candidate)"

interpretation nip01: version_rule decide_version snd
  by unfold_locales
     (auto simp: decide_version_def compare_replacement_order_def split: if_splits)

lemma decide_version_replace:
  "decide_version w m = ReplaceCurrent \<longleftrightarrow>
     snd w \<noteq> snd m \<and> (fst w < fst m \<or> fst w = fst m \<and> snd m < snd w)"
  by (auto simp: decide_version_def compare_replacement_order_def split: if_splits)

section \<open>Properties\<close>

text \<open>An address survives printing and parsing exactly when it is well formed, that is,
  its key is a 32-byte lowercase hexadecimal string and its kind is addressable, or
  replaceable with an empty identifier; the parser never returns any other address.\<close>

lemma address_roundtrip:
  "(address_from_str (address_to_string a) = Inr a \<longleftrightarrow> address_wf a)
   \<and> \<not> (address_from_str s = Inr b \<and> \<not> address_wf b)"
  using address_from_str_to_string address_from_str_wf by blast

text \<open>C8: the version kept for an address is the same whatever the order (and repetition) in
  which the versions arrive: it is the version that every other one loses to.\<close>

theorem head_order_independent:
  assumes "consistent_ids snd (set vs)" "set vs = set ws" "vs \<noteq> []"
  shows "fold (keep_version decide_version) vs None = fold (keep_version decide_version) ws None
    \<and> (\<exists>m \<in> set vs. fold (keep_version decide_version) vs None = Some m
         \<and> (\<forall>w \<in> set vs. w \<noteq> m \<longrightarrow> fst w < fst m \<or> fst w = fst m \<and> snd m < snd w))"
proof -
  obtain m where m: "fold (keep_version decide_version) vs None = Some m"
    using assms nip01.fold_keep [of "hd vs" "tl vs"] by (cases vs) (auto simp: keep_version_def)
  with nip01.fold_keep_iff [OF assms(1,3)] have "m \<in> set vs"
    "\<forall>w \<in> set vs. w \<noteq> m \<longrightarrow> decide_version w m = ReplaceCurrent" by blast+
  then show ?thesis
    using m nip01.fold_keep_order_independent [OF assms(1,2)]
    unfolding decide_version_replace by blast
qed

theorem head_order_independent_witness:
  "fold (keep_version decide_version) [(7, ''b''), (9, ''d''), (9, ''c'')] None
     = fold (keep_version decide_version) [(9, ''c''), (7, ''b''), (9, ''d''), (7, ''b'')] None
   \<and> fold (keep_version decide_version) [(7, ''b''), (9, ''d''), (9, ''c'')] None = Some (9, ''c'')"
  using head_order_independent [of "[(7, ''b''), (9, ''d''), (9, ''c'')]"
      "[(9, ''c''), (7, ''b''), (9, ''d''), (7, ''b'')]"]
  by (auto simp: consistent_ids_def keep_version_def decide_version_def compare_replacement_order_def)

end
