(* ===== verification/Deletion.thy ===== *)
theory Deletion
  imports Events
begin

text \<open>
  NIP-09 deletion requests, from \<open>immortal-core/src/domain/deletion.rs\<close>: which
  references of a kind 5 event are actionable, the tombstones they leave, and the
  events a tombstone deletes. A \<open>BTreeSet\<close> is a sorted list without repetitions,
  filled by \<^const>\<open>insort_insert\<close>.
\<close>

record deletion_request =
  dr_request_id :: string
  dr_author :: string
  dr_created_at :: u64
  dr_event_ids :: "string list"
  dr_addresses :: "replacement_address list"

datatype deletion_tombstone =
    EventTombstone (ts_event_id: string) (ts_author: string) (ts_request_id: string)
  | AddressTombstone (ts_address: replacement_address) (ts_through: u64) (ts_request_id: string)

definition collect_reference ::
    "string \<Rightarrow> tag \<Rightarrow> string list \<times> replacement_address list
       \<Rightarrow> string list \<times> replacement_address list" where
  "collect_reference author t acc =
     (case acc of (event_ids, addresses) \<Rightarrow>
       if tag_name t = Some ''e'' then
         (case tag_value t of
            None \<Rightarrow> acc
          | Some id' \<Rightarrow>
              if is_ok (decode_lower_hex 32 id' ''deleted event id'')
              then (insort_insert id' event_ids, addresses) else acc)
       else if tag_name t = Some ''a'' then
         (case tag_value t of
            None \<Rightarrow> acc
          | Some value \<Rightarrow>
              (case address_from_str value of
                 Inl _ \<Rightarrow> acc
               | Inr address \<Rightarrow>
                   if ra_pubkey address = author
                   then (event_ids, insort_insert address addresses) else acc))
       else acc)"

definition deletion_from_event :: "event \<Rightarrow> (domain_error, deletion_request) result" where
  "deletion_from_event e =
     (if ev_kind e \<noteq> 5 then Inl NotDeletionRequest
      else let (event_ids, addresses) =
                 fold (collect_reference (ev_pubkey e)) (ev_tags e) ([], [])
           in Inr \<lparr>dr_request_id = ev_id e, dr_author = ev_pubkey e,
                   dr_created_at = ev_created_at e,
                   dr_event_ids = event_ids, dr_addresses = addresses\<rparr>)"

definition tombstones :: "deletion_request \<Rightarrow> deletion_tombstone list" where
  "tombstones r =
     map (\<lambda>event_id. EventTombstone event_id (dr_author r) (dr_request_id r)) (dr_event_ids r)
     @ map (\<lambda>address. AddressTombstone address (dr_created_at r) (dr_request_id r)) (dr_addresses r)"

definition tombstone_deletes :: "deletion_tombstone \<Rightarrow> event \<Rightarrow> bool" where
  "tombstone_deletes t e =
     (if ev_kind e = 5 then False
      else (case t of
              EventTombstone event_id author _ \<Rightarrow> ev_id e = event_id \<and> ev_pubkey e = author
            | AddressTombstone address through _ \<Rightarrow>
                ev_created_at e \<le> through \<and> replacement_address e = Some address))"

definition request_deletes :: "deletion_request \<Rightarrow> event \<Rightarrow> bool" where
  "request_deletes r e \<longleftrightarrow> list_ex (\<lambda>t. tombstone_deletes t e) (tombstones r)"

section \<open>What a request collects\<close>

text \<open>The references of a request as sets, independent of the order of its tags.\<close>

definition actionable_ids :: "event \<Rightarrow> string set" where
  "actionable_ids e =
     {v. \<exists>t \<in> set (ev_tags e). tag_name t = Some ''e'' \<and> tag_value t = Some v
           \<and> is_ok (decode_lower_hex 32 v ''deleted event id'')}"

definition actionable_addresses :: "event \<Rightarrow> replacement_address set" where
  "actionable_addresses e =
     {a. \<exists>t \<in> set (ev_tags e). \<exists>v. tag_name t = Some ''a'' \<and> tag_value t = Some v
           \<and> address_from_str v = Inr a \<and> ra_pubkey a = ev_pubkey e}"

lemma collect_reference_sets:
  assumes "collect_reference author t (ids, addrs) = (ids', addrs')"
  shows "set ids' = set ids \<union>
           {v. tag_name t = Some ''e'' \<and> tag_value t = Some v
                 \<and> is_ok (decode_lower_hex 32 v ''deleted event id'')}"
    and "set addrs' = set addrs \<union>
           {a. \<exists>v. tag_name t = Some ''a'' \<and> tag_value t = Some v
                 \<and> address_from_str v = Inr a \<and> ra_pubkey a = author}"
proof -
  consider (e) "tag_name t = Some ''e''" | (a) "tag_name t = Some ''a''"
    | (other) "tag_name t \<noteq> Some ''e''" "tag_name t \<noteq> Some ''a''" by blast
  then have "set ids' = set ids \<union>
           {v. tag_name t = Some ''e'' \<and> tag_value t = Some v
                 \<and> is_ok (decode_lower_hex 32 v ''deleted event id'')}
      \<and> set addrs' = set addrs \<union>
           {a. \<exists>v. tag_name t = Some ''a'' \<and> tag_value t = Some v
                 \<and> address_from_str v = Inr a \<and> ra_pubkey a = author}"
  proof cases
    case e
    with assms show ?thesis
      by (auto simp: collect_reference_def set_insort_insert split: option.splits if_splits)
  next
    case a
    with assms show ?thesis
      by (auto simp: collect_reference_def set_insort_insert split: option.splits sum.splits if_splits)
  next
    case other
    with assms show ?thesis by (auto simp: collect_reference_def)
  qed
  then show "set ids' = set ids \<union>
           {v. tag_name t = Some ''e'' \<and> tag_value t = Some v
                 \<and> is_ok (decode_lower_hex 32 v ''deleted event id'')}"
    and "set addrs' = set addrs \<union>
           {a. \<exists>v. tag_name t = Some ''a'' \<and> tag_value t = Some v
                 \<and> address_from_str v = Inr a \<and> ra_pubkey a = author}"
    by blast+
qed

lemma fold_collect_reference_sets:
  assumes "fold (collect_reference author) ts (ids, addrs) = (ids', addrs')"
  shows "set ids' = set ids \<union>
           {v. \<exists>t \<in> set ts. tag_name t = Some ''e'' \<and> tag_value t = Some v
                 \<and> is_ok (decode_lower_hex 32 v ''deleted event id'')}
       \<and> set addrs' = set addrs \<union>
           {a. \<exists>t \<in> set ts. \<exists>v. tag_name t = Some ''a'' \<and> tag_value t = Some v
                 \<and> address_from_str v = Inr a \<and> ra_pubkey a = author}"
  using assms
proof (induction ts arbitrary: ids addrs)
  case Nil
  then show ?case by auto
next
  case (Cons t ts)
  obtain ids1 addrs1 where s: "collect_reference author t (ids, addrs) = (ids1, addrs1)"
    by (meson surj_pair)
  with Cons.prems have "fold (collect_reference author) ts (ids1, addrs1) = (ids', addrs')" by simp
  note ih = Cons.IH [OF this]
  show ?case
    by (intro conjI; subst ih [THEN conjunct1] ih [THEN conjunct2];
        subst collect_reference_sets [OF s]; auto)
qed

lemma deletion_from_event_sets:
  assumes "deletion_from_event e = Inr r"
  shows "set (dr_event_ids r) = actionable_ids e"
    and "set (dr_addresses r) = actionable_addresses e"
    and "dr_author r = ev_pubkey e" and "dr_created_at r = ev_created_at e"
    and "dr_request_id r = ev_id e" and "ev_kind e = 5"
proof -
  obtain ids addrs where f: "fold (collect_reference (ev_pubkey e)) (ev_tags e) ([], []) = (ids, addrs)"
    by (meson surj_pair)
  with assms have k: "ev_kind e = 5" and r: "r = \<lparr>dr_request_id = ev_id e, dr_author = ev_pubkey e,
      dr_created_at = ev_created_at e, dr_event_ids = ids, dr_addresses = addrs\<rparr>"
    by (simp_all add: deletion_from_event_def split: if_splits)
  from fold_collect_reference_sets [OF f]
  have "set ids = actionable_ids e" "set addrs = actionable_addresses e"
    by (simp_all add: actionable_ids_def actionable_addresses_def)
  with r k show "set (dr_event_ids r) = actionable_ids e"
    "set (dr_addresses r) = actionable_addresses e" "dr_author r = ev_pubkey e"
    "dr_created_at r = ev_created_at e" "dr_request_id r = ev_id e" "ev_kind e = 5"
    by simp_all
qed

lemma request_deletes_iff:
  assumes "deletion_from_event d = Inr r"
  shows "request_deletes r e \<longleftrightarrow>
    ev_kind e \<noteq> 5
    \<and> (ev_id e \<in> actionable_ids d \<and> ev_pubkey e = ev_pubkey d
       \<or> ev_created_at e \<le> ev_created_at d
         \<and> (\<exists>a \<in> actionable_addresses d. replacement_address e = Some a))"
  using deletion_from_event_sets [OF assms]
  by (auto simp: request_deletes_def tombstones_def tombstone_deletes_def list_ex_iff bex_Un)

lemma request_deletes_same_author:
  assumes "deletion_from_event d = Inr r" "request_deletes r e"
  shows "ev_pubkey e = ev_pubkey d"
  using assms(2) request_deletes_iff [OF assms(1), of e]
  by (auto simp: actionable_addresses_def dest: replacement_address_fields)

section \<open>Properties\<close>

text \<open>C9: an accepted deletion request removes exactly the events it may: never a deletion
  request, by ID only events of the same author, by address only versions created no
  later than the request; in every case the author of the removed event is the author of
  the request.\<close>

theorem deletion_exact:
  assumes "deletion_from_event d = Inr r"
  shows "(request_deletes r e \<longleftrightarrow>
      ev_kind e \<noteq> 5
      \<and> (ev_id e \<in> actionable_ids d \<and> ev_pubkey e = ev_pubkey d
         \<or> ev_created_at e \<le> ev_created_at d
           \<and> (\<exists>a \<in> actionable_addresses d. replacement_address e = Some a)))
    \<and> \<not> (request_deletes r e \<and> ev_pubkey e \<noteq> ev_pubkey d)"
  using request_deletes_iff [OF assms] request_deletes_same_author [OF assms] by blast

definition sample_event :: "u16 \<Rightarrow> string list list \<Rightarrow> event" where
  "sample_event kind tags = \<lparr>ev_id = replicate 64 (CHR ''a''), ev_pubkey = replicate 64 (CHR ''b''),
     ev_created_at = 10, ev_kind = kind, ev_tags = tags, ev_content = [], ev_sig = []\<rparr>"

theorem deletion_exact_witness:
  "\<exists>r. deletion_from_event (sample_event 5 [[''e'', replicate 64 (CHR ''a'')]]) = Inr r
     \<and> request_deletes r (sample_event 1 [])"
proof -
  let ?d = "sample_event 5 [[''e'', replicate 64 (CHR ''a'')]]"
  obtain r where r: "deletion_from_event ?d = Inr r"
    by (cases "deletion_from_event ?d") (simp_all add: deletion_from_event_def sample_event_def split_beta)
  have "is_ok (decode_lower_hex 32 (replicate 64 (CHR ''a'')) ''deleted event id'')" by code_simp
  then have "replicate 64 (CHR ''a'') \<in> actionable_ids ?d"
    by (simp add: actionable_ids_def sample_event_def tag_name_def tag_value_def)
  then show ?thesis
    using r deletion_exact [OF r, of "sample_event 1 []"] by (simp add: sample_event_def)
qed

end
