(* ===== verification/Outbound_Queue.thy ===== *)
theory Outbound_Queue
  imports Prelude
begin

text \<open>
  The bounded send queue of one connection, from the first part of
  \<open>immortal-relay/src/gateway/subscription.rs\<close>, with the message framing of
  \<open>gateway/wire.rs\<close>. The lock around the queue makes every operation atomic, so an
  operation is a function on the queue state. What the hub relies on is stated as the
  locale \<open>send_queue\<close>: whatever the queue drops to make room is an ephemeral event, and
  it refuses a message only when everything it holds must be kept.
\<close>

section \<open>Messages\<close>

datatype outbound =
    OutText string
  | OutEvent (out_subscription: string) (out_event: string) (out_ephemeral: bool)

fun is_ephemeral :: "outbound \<Rightarrow> bool" where
  "is_ephemeral (OutText _) = False"
| "is_ephemeral (OutEvent _ _ ephemeral) = ephemeral"

definition EVENT_MESSAGE_OVERHEAD :: nat where
  "EVENT_MESSAGE_OVERHEAD = length ''[\"EVENT\",,]''"

definition event_message_from_json :: "string \<Rightarrow> string \<Rightarrow> string" where
  "event_message_from_json subscription_json event_json =
     ''[\"EVENT\",'' @ subscription_json @ '','' @ event_json @ '']''"

fun outbound_len :: "outbound \<Rightarrow> nat" where
  "outbound_len (OutText t) = length t"
| "outbound_len (OutEvent subscription event _) =
     EVENT_MESSAGE_OVERHEAD + length subscription + length event"

fun render :: "outbound \<Rightarrow> string" where
  "render (OutText t) = t"
| "render (OutEvent subscription event _) = event_message_from_json subscription event"

lemma length_render: "length (render m) = outbound_len m"
  by (cases m) (simp_all add: event_message_from_json_def EVENT_MESSAGE_OVERHEAD_def)

section \<open>The queue\<close>

datatype offer_outcome = Queued | DroppedEphemeral | Full

record outbound_queue =
  q_items :: "outbound list"
  q_ephemeral :: nat
  q_capacity :: nat

definition new_queue :: "nat \<Rightarrow> outbound_queue" where
  "new_queue capacity = \<lparr>q_items = [], q_ephemeral = 0, q_capacity = max capacity 1\<rparr>"

text \<open>\<open>VecDeque::position\<close> and \<open>VecDeque::remove\<close> on the first ephemeral message.\<close>

fun remove_first :: "('a \<Rightarrow> bool) \<Rightarrow> 'a list \<Rightarrow> 'a list option" where
  "remove_first p [] = None"
| "remove_first p (x # xs) = (if p x then Some xs else map_option ((#) x) (remove_first p xs))"

definition push_back :: "outbound \<Rightarrow> outbound_queue \<Rightarrow> outbound_queue" where
  "push_back message q =
     q\<lparr>q_ephemeral := (if is_ephemeral message then q_ephemeral q + 1 else q_ephemeral q),
       q_items := q_items q @ [message]\<rparr>"

definition offer :: "outbound_queue \<Rightarrow> outbound \<Rightarrow> outbound_queue \<times> offer_outcome" where
  "offer q message =
     (if q_capacity q \<le> length (q_items q) then
        if 0 < q_ephemeral q then
          (case remove_first is_ephemeral (q_items q) of
             Some rest \<Rightarrow>
               (push_back message (q\<lparr>q_items := rest, q_ephemeral := q_ephemeral q - 1\<rparr>), DroppedEphemeral)
           | None \<Rightarrow> (push_back message q, DroppedEphemeral))
        else if is_ephemeral message then (q, DroppedEphemeral)
        else (q, Full)
      else (push_back message q, Queued))"

definition pop :: "outbound_queue \<Rightarrow> outbound_queue \<times> outbound option" where
  "pop q =
     (case q_items q of
        [] \<Rightarrow> (q, None)
      | message # rest \<Rightarrow>
          (q\<lparr>q_items := rest,
             q_ephemeral := (if is_ephemeral message then q_ephemeral q - 1 else q_ephemeral q)\<rparr>,
           Some message))"

definition holds_only_ephemeral :: "outbound_queue \<Rightarrow> bool" where
  "holds_only_ephemeral q \<longleftrightarrow> q_items q \<noteq> [] \<and> q_ephemeral q = length (q_items q)"

section \<open>Invariant\<close>

definition queue_ok :: "outbound_queue \<Rightarrow> bool" where
  "queue_ok q \<longleftrightarrow>
     q_ephemeral q = length (filter is_ephemeral (q_items q))
     \<and> length (q_items q) \<le> q_capacity q \<and> 1 \<le> q_capacity q"

definition durable :: "outbound_queue \<Rightarrow> outbound list" where
  "durable q = filter (\<lambda>m. \<not> is_ephemeral m) (q_items q)"

lemma remove_first_None: "remove_first p xs = None \<longleftrightarrow> (\<forall>x \<in> set xs. \<not> p x)"
  by (induction xs) auto

lemma remove_first_SomeD:
  "remove_first p xs = Some ys \<Longrightarrow>
     \<exists>a x b. xs = a @ x # b \<and> p x \<and> (\<forall>y \<in> set a. \<not> p y) \<and> ys = a @ b"
proof (induction xs arbitrary: ys)
  case (Cons x xs)
  show ?case
  proof (cases "p x")
    case True
    with Cons.prems have "x # xs = [] @ x # xs \<and> p x \<and> ys = [] @ xs" by simp
    then show ?thesis by (metis empty_iff list.set(1))
  next
    case False
    with Cons.prems obtain zs where zs: "remove_first p xs = Some zs" "ys = x # zs" by auto
    from Cons.IH [OF zs(1)] obtain a y b where
      "xs = a @ y # b" "p y" "\<forall>y \<in> set a. \<not> p y" "zs = a @ b" by blast
    with False zs(2) have "x # xs = (x # a) @ y # b \<and> p y \<and> (\<forall>y \<in> set (x # a). \<not> p y) \<and> ys = (x # a) @ b"
      by simp
    then show ?thesis by blast
  qed
qed simp

lemma remove_first_counts:
  assumes "remove_first p xs = Some ys"
  shows "length xs = Suc (length ys)" "length (filter p xs) = Suc (length (filter p ys))"
    "filter (\<lambda>x. \<not> p x) ys = filter (\<lambda>x. \<not> p x) xs"
  using remove_first_SomeD [OF assms] by auto

lemma push_back_ok:
  "queue_ok q \<Longrightarrow> length (q_items q) < q_capacity q \<Longrightarrow> queue_ok (push_back m q)"
  by (auto simp: queue_ok_def push_back_def)

lemma durable_push_back:
  "durable (push_back m q) = durable q @ (if is_ephemeral m then [] else [m])"
  by (auto simp: durable_def push_back_def)

lemma offer_cases:
  assumes "queue_ok q"
  obtains
    (room) "length (q_items q) < q_capacity q" "offer q m = (push_back m q, Queued)"
  | (evict) rest where "length (q_items q) = q_capacity q" "remove_first is_ephemeral (q_items q) = Some rest"
      "offer q m = (push_back m (q\<lparr>q_items := rest, q_ephemeral := q_ephemeral q - 1\<rparr>), DroppedEphemeral)"
  | (skip) "length (q_items q) = q_capacity q" "durable q = q_items q" "is_ephemeral m"
      "offer q m = (q, DroppedEphemeral)"
  | (full) "length (q_items q) = q_capacity q" "durable q = q_items q" "\<not> is_ephemeral m"
      "offer q m = (q, Full)"
proof (cases "q_capacity q \<le> length (q_items q)")
  case False
  then show thesis using room by (simp add: offer_def)
next
  case True
  with assms have cap: "length (q_items q) = q_capacity q" by (simp add: queue_ok_def)
  show thesis
  proof (cases "0 < q_ephemeral q")
    case True
    then have "\<exists>x \<in> set (q_items q). is_ephemeral x"
      using assms by (auto simp: queue_ok_def filter_empty_conv simp flip: length_greater_0_conv)
    then obtain rest where r: "remove_first is_ephemeral (q_items q) = Some rest"
      using remove_first_None [of is_ephemeral "q_items q"] by (cases "remove_first is_ephemeral (q_items q)") auto
    with True cap show thesis using evict by (simp add: offer_def)
  next
    case False
    then have "filter is_ephemeral (q_items q) = []" using assms by (simp add: queue_ok_def)
    then have d: "durable q = q_items q"
      by (simp add: durable_def filter_empty_conv filter_id_conv)
    show thesis
      using False cap d skip full by (cases "is_ephemeral m") (simp_all add: offer_def)
  qed
qed

lemma offer_ok:
  assumes "queue_ok q"
  shows "queue_ok (fst (offer q m))"
  using assms
proof (cases rule: offer_cases [of q m])
  case (evict rest)
  have "queue_ok (q\<lparr>q_items := rest, q_ephemeral := q_ephemeral q - 1\<rparr>)"
    using assms remove_first_counts [OF evict(2)] by (auto simp: queue_ok_def)
  then show ?thesis
    using evict remove_first_counts(1) [OF evict(2)] by (simp add: push_back_ok)
qed (simp_all add: push_back_ok assms)

lemma offer_durable:
  assumes "queue_ok q"
  shows "durable (fst (offer q m)) =
           durable q @ (if is_ephemeral m \<or> snd (offer q m) = Full then [] else [m])"
  using assms
proof (cases rule: offer_cases [of q m])
  case (evict rest)
  then have "durable (q\<lparr>q_items := rest, q_ephemeral := q_ephemeral q - 1\<rparr>) = durable q"
    using remove_first_counts(3) [OF evict(2)] by (simp add: durable_def)
  then show ?thesis using evict by (simp add: durable_push_back)
qed (auto simp: durable_push_back)

lemma offer_Full_iff:
  assumes "queue_ok q"
  shows "snd (offer q m) = Full \<longleftrightarrow>
     \<not> is_ephemeral m \<and> durable q = q_items q \<and> length (q_items q) = q_capacity q"
  using assms
proof (cases rule: offer_cases [of q m])
  case (evict rest)
  then have "\<exists>x \<in> set (q_items q). is_ephemeral x" using remove_first_SomeD [OF evict(2)] by auto
  then have "durable q \<noteq> q_items q"
    unfolding durable_def by (metis (mono_tags, lifting) filter_id_conv)
  with evict show ?thesis by simp
qed auto

lemma offer_Full_unchanged: "snd (offer q m) = Full \<Longrightarrow> fst (offer q m) = q"
  by (auto simp: offer_def split: if_splits option.splits)

lemma pop_ok: "queue_ok q \<Longrightarrow> queue_ok (fst (pop q))"
  by (auto simp: queue_ok_def pop_def split: list.splits)

lemma pop_items:
  "pop q = (q', Some m) \<Longrightarrow> q_items q = m # q_items q'"
  by (auto simp: pop_def split: list.splits)

lemma new_queue_ok: "queue_ok (new_queue capacity)"
  by (simp add: queue_ok_def new_queue_def)

section \<open>The queue as the hub sees it\<close>

text \<open>Offering messages in turn until one is refused.\<close>

fun offer_all :: "('q \<Rightarrow> 'm \<Rightarrow> 'q \<times> offer_outcome) \<Rightarrow> 'q \<Rightarrow> 'm list \<Rightarrow> 'q \<times> bool" where
  "offer_all off q [] = (q, True)"
| "offer_all off q (m # ms) =
     (case off q m of (q', outcome) \<Rightarrow> if outcome = Full then (q', False) else offer_all off q' ms)"

locale send_queue =
  fixes off :: "'q \<Rightarrow> 'm \<Rightarrow> 'q \<times> offer_outcome"
    and ok :: "'q \<Rightarrow> bool"
    and kept :: "'q \<Rightarrow> 'm list"
    and droppable :: "'m \<Rightarrow> bool"
  assumes off_ok: "ok q \<Longrightarrow> ok (fst (off q m))"
    and off_kept: "ok q \<Longrightarrow> kept (fst (off q m)) =
          kept q @ (if droppable m \<or> snd (off q m) = Full then [] else [m])"
    and off_droppable: "ok q \<Longrightarrow> droppable m \<Longrightarrow> snd (off q m) \<noteq> Full"
begin

lemma offer_all_ok: "ok q \<Longrightarrow> ok (fst (offer_all off q ms))"
proof (induction ms arbitrary: q)
  case (Cons m ms)
  then show ?case using off_ok [of q m] by (cases "off q m") auto
qed simp

lemma offer_all_kept:
  "ok q \<Longrightarrow> snd (offer_all off q ms) \<Longrightarrow>
     kept (fst (offer_all off q ms)) = kept q @ filter (\<lambda>m. \<not> droppable m) ms"
proof (induction ms arbitrary: q)
  case (Cons m ms)
  then show ?case
    using off_ok [of q m] off_kept [of q m] by (cases "off q m") (auto split: if_splits)
qed simp

lemma offer_all_prefix:
  "ok q \<Longrightarrow> \<exists>xs. kept (fst (offer_all off q ms)) = kept q @ xs
     \<and> (\<exists>ys. filter (\<lambda>m. \<not> droppable m) ms = xs @ ys)"
proof (induction ms arbitrary: q)
  case (Cons m ms)
  obtain q' o' where o: "off q m = (q', o')" by (meson surj_pair)
  have ok': "ok q'" using off_ok [OF Cons.prems, of m] o by simp
  have k: "kept q' = kept q @ (if droppable m \<or> o' = Full then [] else [m])"
    using off_kept [OF Cons.prems, of m] o by simp
  show ?case
  proof (cases "o' = Full")
    case True
    then have "kept (fst (offer_all off q (m # ms))) = kept q @ []" using o k by simp
    then show ?thesis by (metis append_Nil)
  next
    case False
    from Cons.IH [OF ok'] obtain xs ys where
      "kept (fst (offer_all off q' ms)) = kept q' @ xs" "filter (\<lambda>m. \<not> droppable m) ms = xs @ ys"
      by blast
    then have "kept (fst (offer_all off q (m # ms))) = kept q @ ((if droppable m then [] else [m]) @ xs)"
      "filter (\<lambda>m. \<not> droppable m) (m # ms) = ((if droppable m then [] else [m]) @ xs) @ ys"
      using o k False by auto
    then show ?thesis by blast
  qed
qed simp

end

interpretation outq: send_queue offer queue_ok durable is_ephemeral
  by unfold_locales (simp_all add: offer_ok offer_durable offer_Full_iff)

section \<open>Properties\<close>

text \<open>C7: offering a message to a consistent send queue keeps it consistent and within its
  capacity, keeps every durable message in order, appends the offered message when it is
  durable and not refused, and refuses a message only when the queue is full of durable
  messages and the message is durable too, in which case the queue is unchanged.\<close>

theorem offer_contract:
  assumes "queue_ok q"
  shows "queue_ok (fst (offer q m))
    \<and> durable (fst (offer q m)) = durable q @ (if is_ephemeral m \<or> snd (offer q m) = Full then [] else [m])
    \<and> (snd (offer q m) = Full \<longleftrightarrow>
         \<not> is_ephemeral m \<and> durable q = q_items q \<and> length (q_items q) = q_capacity q)
    \<and> (snd (offer q m) = Full \<longrightarrow> fst (offer q m) = q)"
  using assms by (simp add: offer_ok offer_durable offer_Full_iff offer_Full_unchanged)

theorem offer_contract_witness:
  "let q = fst (offer (fst (offer (new_queue 2) (OutEvent ''\"s\"'' ''{}'' True))) (OutText ''x''))
   in queue_ok q \<and> snd (offer q (OutText ''y'')) = DroppedEphemeral
      \<and> durable (fst (offer q (OutText ''y''))) = [OutText ''x'', OutText ''y'']"
  using offer_contract [of "fst (offer (fst (offer (new_queue 2) (OutEvent ''\"s\"'' ''{}'' True))) (OutText ''x''))"
      "OutText ''y''"]
  by (simp add: new_queue_ok offer_ok Let_def)
     (simp add: offer_def new_queue_def push_back_def durable_def)

end
