(* ===== verification/Filters.thy ===== *)
theory Filters
  imports Events
begin

text \<open>
  NIP-01 subscription filters, from \<open>immortal-core/src/domain/filter.rs\<close>: validation
  and matching. The map from tag names to accepted values is an association list in
  key order. Lowercasing follows the Unicode tables of the standard library and is
  the argument \<open>lower\<close>.
\<close>

record filter =
  f_ids :: "string list option"
  f_authors :: "string list option"
  f_kinds :: "u16 list option"
  f_tags :: "(string \<times> string list) list"
  f_since :: "u64 option"
  f_until :: "u64 option"
  f_limit :: "nat option"
  f_search :: "string option"

definition is_none_or :: "('a \<Rightarrow> bool) \<Rightarrow> 'a option \<Rightarrow> bool" where
  "is_none_or p x = (case x of None \<Rightarrow> True | Some y \<Rightarrow> p y)"

lemma is_none_or_simps [simp]:
  "is_none_or p None"
  "is_none_or p (Some y) = p y"
  by (simp_all add: is_none_or_def)

definition search_terms :: "(string \<Rightarrow> string) \<Rightarrow> string \<Rightarrow> string list" where
  "search_terms lower search =
     map lower (filter (\<lambda>term. CHR '':'' \<notin> set term) (split_whitespace search))"

definition validate_filter :: "(string \<Rightarrow> string) \<Rightarrow> filter \<Rightarrow> (domain_error, unit) result" where
  "validate_filter lower f =
     try_then (case f_ids f of
                 None \<Rightarrow> Inr ()
               | Some ids \<Rightarrow> try_all (\<lambda>i. map_err
                   (\<lambda>_. InvalidFilter ''every id must be exactly 64 lowercase hexadecimal characters'')
                   (try_then (decode_lower_hex 32 i ''filter id'') (\<lambda>_. Inr ()))) ids) (\<lambda>_.
     try_then (case f_authors f of
                 None \<Rightarrow> Inr ()
               | Some authors \<Rightarrow> try_all (\<lambda>a. map_err
                   (\<lambda>_. InvalidFilter ''every author must be exactly 64 lowercase hexadecimal characters'')
                   (try_then (decode_lower_hex 32 a ''filter author'') (\<lambda>_. Inr ()))) authors) (\<lambda>_.
     try_then (ensure (\<not> list_ex (\<lambda>(key, _). \<not> is_indexed_tag_name key) (f_tags f))
                (InvalidFilter ''tag selectors must be one ASCII letter or an indexed extension name'')) (\<lambda>_.
       case f_search f of
         None \<Rightarrow> Inr ()
       | Some search \<Rightarrow>
           try_then (ensure (char_count search \<le> 256)
             (InvalidFilter ''search must contain at most 256 characters'')) (\<lambda>_.
           ensure (search_terms lower search \<noteq> [])
             (InvalidFilter ''search must contain at least one non-extension term'')))))"

definition list_matches :: "string list option \<Rightarrow> string \<Rightarrow> bool" where
  "list_matches vals actual = is_none_or (\<lambda>vs. list_ex (\<lambda>v. v = actual) vs) vals"

definition filter_matches :: "(string \<Rightarrow> string) \<Rightarrow> filter \<Rightarrow> event \<Rightarrow> bool" where
  "filter_matches lower f e \<longleftrightarrow>
     list_matches (f_ids f) (ev_id e)
     \<and> list_matches (f_authors f) (ev_pubkey e)
     \<and> is_none_or (\<lambda>kinds. ev_kind e \<in> set kinds) (f_kinds f)
     \<and> is_none_or (\<lambda>since. since \<le> ev_created_at e) (f_since f)
     \<and> is_none_or (\<lambda>until. ev_created_at e \<le> until) (f_until f)
     \<and> list_all (\<lambda>(key, vals).
          list_ex (\<lambda>(event_key, event_value).
            event_key = key \<and> list_ex (\<lambda>v. v = event_value) vals) (indexed_tags e)) (f_tags f)
     \<and> is_none_or (\<lambda>search.
          let content = lower (ev_content e); terms = search_terms lower search
          in terms \<noteq> [] \<and> list_all (str_contains content) terms) (f_search f)"

definition matches_any :: "(string \<Rightarrow> string) \<Rightarrow> filter list \<Rightarrow> event \<Rightarrow> bool" where
  "matches_any lower filters e = list_ex (\<lambda>f. filter_matches lower f e) filters"

section \<open>What matching means\<close>

lemma list_matches_iff:
  "list_matches vals actual \<longleftrightarrow> vals = None \<or> (\<exists>vs. vals = Some vs \<and> actual \<in> set vs)"
  by (cases vals) (auto simp: list_matches_def list_ex_iff)

lemma filter_matches_tagD:
  assumes "filter_matches lower f e" "(key, vals) \<in> set (f_tags f)"
  obtains v where "v \<in> set vals" "(key, v) \<in> set (indexed_tags e)"
  using assms by (fastforce simp: filter_matches_def list_all_iff list_ex_iff)

lemma matches_anyD: "matches_any lower fs e \<Longrightarrow> \<exists>f \<in> set fs. filter_matches lower f e"
  by (simp add: matches_any_def list_ex_iff)

lemma indexed_tags_indexed: "(k, v) \<in> set (indexed_tags e) \<Longrightarrow> is_indexed_tag_name k"
  by (auto simp: indexed_tags_def indexed_pair_def List.map_filter_def split: option.splits if_splits)

lemma validate_filter_tags:
  "validate_filter lower f = Inr u \<Longrightarrow> (key, vals) \<in> set (f_tags f) \<Longrightarrow> is_indexed_tag_name key"
  by (auto simp: validate_filter_def try_then_eq_Inr list_ex_iff)

end
