(* ===== verification/Hub.thy ===== *)
theory Hub
  imports Outbound_Queue Filters
begin

text \<open>
  The subscription hub of \<open>immortal-relay/src/gateway/subscription.rs\<close>: connections,
  their subscriptions, the index from filter keys to subscriptions, the hand-over from
  stored history to live events, and the fan-out of one published event. The hub is a
  single task that handles one command at a time, so a command is a function on the
  hub state.

  The clock is an argument, a reading of the monotonic clock; the JSON writer and
  Unicode lowercasing are the argument \<open>env\<close>. Closing a connection drops it and signals its
  task; the signals sent are the log \<open>h_closed\<close>. Hash maps are maps, hash sets are
  sets; where the code iterates over a hash set, the model takes the elements in
  order.
\<close>

section \<open>State\<close>

type_synonym connection_id = u64
type_synonym slot = u64
type_synonym subscription_key = "connection_id \<times> string"

datatype index_key =
    IdKey string
  | AuthorKey string
  | KindKey u16
  | TagKey string string
  | Broad

record published_event =
  pe_event :: event
  pe_seq :: "int option"

datatype subscription_state =
    Buffering "published_event list" "string set"
  | Live int

record subscription =
  s_key :: subscription_key
  s_json :: string
  s_generation :: u64
  s_filters :: "filter list"
  s_read_pubkeys :: "string set"
  s_index_keys :: "index_key set"
  s_state :: subscription_state

record connection_sink =
  c_outbound :: outbound_queue
  c_subscriptions :: "string set"

record hub =
  h_connections :: "connection_id \<rightharpoonup> connection_sink"
  h_subscriptions :: "slot \<rightharpoonup> subscription"
  h_slots :: "subscription_key \<rightharpoonup> slot"
  h_next_slot :: slot
  h_index :: "index_key \<rightharpoonup> slot set"
  h_max_buffered_live :: nat
  h_max_outbound_bytes :: nat
  h_recent_ephemeral_ids :: "string set"
  h_recent_ephemeral_order :: "(string \<times> instant) list"
  h_closed :: "connection_id list"

record hub_env =
  he_lower :: "string \<Rightarrow> string"
  he_json_string :: "string \<Rightarrow> string"
  he_json_event :: "event \<Rightarrow> string"

definition EPHEMERAL_DEDUP_WINDOW :: nat where
  "EPHEMERAL_DEDUP_WINDOW = from_secs 60"

definition MAX_RECENT_EPHEMERAL_IDS :: nat where
  "MAX_RECENT_EPHEMERAL_IDS = 4096"

definition new_hub :: "nat \<Rightarrow> nat \<Rightarrow> hub" where
  "new_hub max_buffered_live max_outbound_bytes =
     \<lparr>h_connections = Map.empty, h_subscriptions = Map.empty, h_slots = Map.empty,
      h_next_slot = 0, h_index = Map.empty,
      h_max_buffered_live = max max_buffered_live 1,
      h_max_outbound_bytes = max max_outbound_bytes 1,
      h_recent_ephemeral_ids = {}, h_recent_ephemeral_order = [], h_closed = []\<rparr>"

section \<open>Messages\<close>

definition event_message :: "hub_env \<Rightarrow> string \<Rightarrow> event \<Rightarrow> string" where
  "event_message env subscription_id e =
     event_message_from_json (he_json_string env subscription_id) (he_json_event env e)"

definition eose_message :: "hub_env \<Rightarrow> string \<Rightarrow> string" where
  "eose_message env subscription_id =
     ''[\"EOSE\",'' @ he_json_string env subscription_id @ '']''"

definition closed_message :: "hub_env \<Rightarrow> string \<Rightarrow> string \<Rightarrow> string" where
  "closed_message env subscription_id message =
     ''[\"CLOSED\",'' @ he_json_string env subscription_id @ '','' @ he_json_string env message @ '']''"

section \<open>Index keys and visibility\<close>

definition filter_index_keys :: "filter \<Rightarrow> index_key set" where
  "filter_index_keys f =
     (let indexed = f_ids f \<noteq> None \<or> f_authors f \<noteq> None \<or> f_kinds f \<noteq> None \<or> f_tags f \<noteq> []
      in (case f_ids f of None \<Rightarrow> {} | Some ids \<Rightarrow> IdKey ` set ids)
         \<union> (case f_authors f of None \<Rightarrow> {} | Some authors \<Rightarrow> AuthorKey ` set authors)
         \<union> (case f_kinds f of None \<Rightarrow> {} | Some kinds \<Rightarrow> KindKey ` set kinds)
         \<union> (\<Union>(name, vals) \<in> set (f_tags f). TagKey name ` set vals)
         \<union> (if indexed then {} else {Broad}))"

definition subscription_index_keys :: "filter list \<Rightarrow> index_key set" where
  "subscription_index_keys filters = (\<Union>f \<in> set filters. filter_index_keys f)"

definition event_index_keys :: "event \<Rightarrow> index_key set" where
  "event_index_keys e =
     {Broad, IdKey (ev_id e), AuthorKey (ev_pubkey e), KindKey (ev_kind e)}
     \<union> (\<lambda>(name, v). TagKey name v) ` set (indexed_tags e)"

definition ephemeral_only :: "filter list \<Rightarrow> bool" where
  "ephemeral_only filters \<longleftrightarrow>
     filters \<noteq> []
     \<and> list_all (\<lambda>f. case f_kinds f of
                       None \<Rightarrow> False
                     | Some kinds \<Rightarrow> kinds \<noteq> [] \<and> list_all (\<lambda>k. from_kind k = Ephemeral) kinds) filters"

definition event_visible_to_reader :: "event \<Rightarrow> string set \<Rightarrow> bool" where
  "event_visible_to_reader e readers =
     (if 39604 \<le> ev_kind e \<and> ev_kind e \<le> 39613 then False
      else if ev_kind e = 39620 then False
      else if ev_kind e = 39650 then False
      else if ev_kind e = 1059 then
        (case tag_values e ''p'' of [recipient] \<Rightarrow> recipient \<in> readers | _ \<Rightarrow> False)
      else if ev_kind e = 24200 \<or> ev_kind e = 30622 \<or> ev_kind e = 44200 then
        (case first_of (tag_values e ''p'') of None \<Rightarrow> False | Some recipient \<Rightarrow> recipient \<in> readers)
      else if ev_kind e = 30300 \<or> ev_kind e = 30350 then ev_pubkey e \<in> readers
      else if ev_kind e = 30174 then
        ev_pubkey e \<in> readers \<or> list_ex (\<lambda>owner. owner \<in> readers) (tag_values e ''p'')
      else if ev_kind e = 30175 \<or> ev_kind e = 30178 then
        ev_pubkey e \<in> readers \<or> list_ex (\<lambda>t. t = [''shared'', ''true'']) (ev_tags e)
      else True)"

section \<open>Operations\<close>

definition remove_subscription :: "subscription_key \<Rightarrow> hub \<Rightarrow> hub" where
  "remove_subscription key h =
     (case h_slots h key of
        None \<Rightarrow> h
      | Some slot \<Rightarrow>
          let h1 = h\<lparr>h_slots := (h_slots h)(key := None)\<rparr>
          in (case h_subscriptions h slot of
                None \<Rightarrow> h1
              | Some s \<Rightarrow>
                  h1\<lparr>h_subscriptions := (h_subscriptions h)(slot := None),
                     h_index := (\<lambda>k. if k \<in> s_index_keys s then
                                       (case h_index h k of
                                          None \<Rightarrow> None
                                        | Some bucket \<Rightarrow>
                                            if bucket - {slot} = {} then None else Some (bucket - {slot}))
                                     else h_index h k),
                     h_connections :=
                       (case h_connections h (fst key) of
                          None \<Rightarrow> h_connections h
                        | Some c \<Rightarrow> (h_connections h)(fst key \<mapsto>
                            c\<lparr>c_subscriptions := c_subscriptions c - {snd key}\<rparr>))\<rparr>))"

definition close_connection :: "connection_id \<Rightarrow> hub \<Rightarrow> hub" where
  "close_connection cid h =
     (case h_connections h cid of
        None \<Rightarrow> h
      | Some c \<Rightarrow>
          fold (\<lambda>sid. remove_subscription (cid, sid)) (sorted_list_of_set (c_subscriptions c))
            (h\<lparr>h_connections := (h_connections h)(cid := None), h_closed := h_closed h @ [cid]\<rparr>))"

definition shutdown :: "hub \<Rightarrow> hub" where
  "shutdown h = fold close_connection (sorted_list_of_set (dom (h_connections h))) h"

definition add_connection :: "connection_id \<Rightarrow> nat \<Rightarrow> hub \<Rightarrow> hub" where
  "add_connection cid queue_capacity h =
     (let h1 = (if h_connections h cid \<noteq> None then close_connection cid h else h)
      in h1\<lparr>h_connections := (h_connections h1)(cid \<mapsto>
              \<lparr>c_outbound = new_queue queue_capacity, c_subscriptions = {}\<rparr>)\<rparr>)"

definition register ::
    "hub_env \<Rightarrow> subscription_key \<Rightarrow> u64 \<Rightarrow> filter list \<Rightarrow> string set \<Rightarrow> hub \<Rightarrow> hub \<times> bool" where
  "register env key generation filters read_pubkeys h =
     (if h_connections h (fst key) = None then (h, False)
      else
        let h1 = remove_subscription key h;
            slot = h_next_slot h1;
            index_keys = subscription_index_keys filters
        in (h1\<lparr>h_next_slot := h_next_slot h1 + 1,
               h_index := (\<lambda>k. if k \<in> index_keys
                               then Some (insert slot (case h_index h1 k of None \<Rightarrow> {} | Some b \<Rightarrow> b))
                               else h_index h1 k),
               h_connections :=
                 (case h_connections h1 (fst key) of
                    None \<Rightarrow> h_connections h1
                  | Some c \<Rightarrow> (h_connections h1)(fst key \<mapsto>
                      c\<lparr>c_subscriptions := insert (snd key) (c_subscriptions c)\<rparr>)),
               h_slots := (h_slots h1)(key \<mapsto> slot),
               h_subscriptions := (h_subscriptions h1)(slot \<mapsto>
                 \<lparr>s_key = key, s_json = he_json_string env (snd key), s_generation = generation,
                  s_filters = filters, s_read_pubkeys = read_pubkeys, s_index_keys = index_keys,
                  s_state = Buffering [] {}\<rparr>)\<rparr>, True))"

definition send_one :: "connection_id \<Rightarrow> outbound \<Rightarrow> hub \<Rightarrow> hub \<times> bool" where
  "send_one cid message h =
     (if h_max_outbound_bytes h < outbound_len message then (close_connection cid h, False)
      else (case h_connections h cid of
              None \<Rightarrow> (close_connection cid h, False)
            | Some c \<Rightarrow>
                let (q, outcome) = offer (c_outbound c) message;
                    h1 = h\<lparr>h_connections := (h_connections h)(cid \<mapsto> c\<lparr>c_outbound := q\<rparr>)\<rparr>
                in if outcome = Full then (close_connection cid h1, False) else (h1, True)))"

text \<open>A \<open>for\<close> loop over \<^const>\<open>send_one\<close> that breaks at the first failure.\<close>

fun send_each :: "connection_id \<Rightarrow> outbound list \<Rightarrow> hub \<Rightarrow> hub \<times> bool" where
  "send_each cid [] h = (h, True)"
| "send_each cid (m # ms) h =
     (case send_one cid m h of (h1, sent) \<Rightarrow> if sent then send_each cid ms h1 else (h1, False))"

definition live_after_history ::
    "event list \<Rightarrow> int \<Rightarrow> published_event list \<Rightarrow> published_event list" where
  "live_after_history events high_water buffered =
     (let historical_ids = ev_id ` set events
      in filter (\<lambda>p. ev_id (pe_event p) \<notin> historical_ids
                    \<and> is_none_or (\<lambda>seq. high_water < seq) (pe_seq p)) buffered)"

definition live_high_water :: "int \<Rightarrow> published_event list \<Rightarrow> int" where
  "live_high_water high_water live = fold max (List.map_filter pe_seq live) high_water"

definition live_message :: "hub_env \<Rightarrow> string \<Rightarrow> published_event \<Rightarrow> outbound" where
  "live_message env subscription_json p =
     OutEvent subscription_json (he_json_event env (pe_event p)) (pe_seq p = None)"

definition history_ready ::
    "hub_env \<Rightarrow> subscription_key \<Rightarrow> u64 \<Rightarrow> int \<Rightarrow> event list \<Rightarrow> hub \<Rightarrow> hub" where
  "history_ready env key generation high_water events h =
     (case h_slots h key of
        None \<Rightarrow> h
      | Some slot \<Rightarrow>
          (case h_subscriptions h slot of
             None \<Rightarrow> h
           | Some s \<Rightarrow>
               if s_generation s \<noteq> generation then h
               else (case s_state s of
                       Live _ \<Rightarrow> h
                     | Buffering buffered _ \<Rightarrow>
                         let live = live_after_history events high_water buffered;
                             h1 = h\<lparr>h_subscriptions := (h_subscriptions h)(slot \<mapsto>
                                     s\<lparr>s_state := Live (live_high_water high_water live)\<rparr>)\<rparr>;
                             (h2, _) = send_each (fst key)
                               (map (\<lambda>e. OutText (event_message env (snd key) e)) events) h1;
                             (h3, sent) = send_one (fst key) (OutText (eose_message env (snd key))) h2
                         in if \<not> sent then h3
                            else fst (send_each (fst key) (map (live_message env (s_json s)) live) h3))))"

fun drop_expired_ephemeral :: "instant \<Rightarrow> (string \<times> instant) list \<Rightarrow> string set \<Rightarrow> (string \<times> instant) list \<times> string set" where
  "drop_expired_ephemeral clock [] ids = ([], ids)"
| "drop_expired_ephemeral clock ((i, seen) # order) ids =
     (if EPHEMERAL_DEDUP_WINDOW \<le> clock - seen \<or> MAX_RECENT_EPHEMERAL_IDS \<le> Suc (length order)
      then drop_expired_ephemeral clock order (ids - {i})
      else ((i, seen) # order, ids))"

definition accept_ephemeral_id :: "instant \<Rightarrow> string \<Rightarrow> hub \<Rightarrow> hub \<times> bool" where
  "accept_ephemeral_id clock event_id h =
     (let (order, ids) = drop_expired_ephemeral clock (h_recent_ephemeral_order h) (h_recent_ephemeral_ids h)
      in if event_id \<in> ids
         then (h\<lparr>h_recent_ephemeral_order := order, h_recent_ephemeral_ids := ids\<rparr>, False)
         else (h\<lparr>h_recent_ephemeral_order := order @ [(event_id, clock)],
                 h_recent_ephemeral_ids := insert event_id ids\<rparr>, True))"

definition deliver ::
    "connection_id \<Rightarrow> outbound \<Rightarrow> hub \<times> connection_id set \<Rightarrow> hub \<times> connection_id set" where
  "deliver cid message st =
     (case st of (h, overflowed) \<Rightarrow>
       (case h_connections h cid of
          None \<Rightarrow> (h, overflowed)
        | Some c \<Rightarrow>
            if h_max_outbound_bytes h < outbound_len message then (h, insert cid overflowed)
            else
              let (q, outcome) = offer (c_outbound c) message
              in (h\<lparr>h_connections := (h_connections h)(cid \<mapsto> c\<lparr>c_outbound := q\<rparr>)\<rparr>,
                  if outcome = Full then insert cid overflowed else overflowed)))"

definition set_state :: "slot \<Rightarrow> subscription \<Rightarrow> subscription_state \<Rightarrow> hub \<Rightarrow> hub" where
  "set_state slot s st h = h\<lparr>h_subscriptions := (h_subscriptions h)(slot \<mapsto> s\<lparr>s_state := st\<rparr>)\<rparr>"

definition publish_one ::
    "hub_env \<Rightarrow> published_event \<Rightarrow> slot \<Rightarrow> hub \<times> connection_id set \<Rightarrow> hub \<times> connection_id set" where
  "publish_one env p slot st =
     (case st of (h, overflowed) \<Rightarrow>
       (case h_subscriptions h slot of
          None \<Rightarrow> (h, overflowed)
        | Some s \<Rightarrow>
            if \<not> matches_any (he_lower env) (s_filters s) (pe_event p) then (h, overflowed)
            else if \<not> event_visible_to_reader (pe_event p) (s_read_pubkeys s) then (h, overflowed)
            else
              let cid = fst (s_key s); ephemeral = (pe_seq p = None)
              in (case s_state s of
                    Buffering events ids \<Rightarrow>
                      if ev_id (pe_event p) \<in> ids then (h, overflowed)
                      else if length events < h_max_buffered_live h
                      then (set_state slot s (Buffering (events @ [p]) (insert (ev_id (pe_event p)) ids)) h,
                            overflowed)
                      else (set_state slot s (Buffering events (insert (ev_id (pe_event p)) ids)) h,
                            if \<not> ephemeral then insert cid overflowed else overflowed)
                  | Live high_water \<Rightarrow>
                      if (case pe_seq p of None \<Rightarrow> False | Some seq \<Rightarrow> seq \<le> high_water)
                      then (h, overflowed)
                      else
                        let h1 = (case pe_seq p of
                                    None \<Rightarrow> h
                                  | Some seq \<Rightarrow> set_state slot s (Live seq) h);
                            message = live_message env (s_json s) p
                        in if cid \<in> overflowed then (h1, overflowed)
                           else deliver cid message (h1, overflowed))))"

definition candidates :: "hub \<Rightarrow> event \<Rightarrow> slot list" where
  "candidates h e =
     sorted_list_of_set
       (\<Union>k \<in> event_index_keys e. case h_index h k of None \<Rightarrow> {} | Some bucket \<Rightarrow> bucket)"

definition fan_out :: "hub_env \<Rightarrow> published_event \<Rightarrow> hub \<Rightarrow> hub" where
  "fan_out env p h =
     (let (h1, overflowed) = fold (publish_one env p) (candidates h (pe_event p)) (h, {})
      in fold close_connection (sorted_list_of_set overflowed) h1)"

definition publish :: "hub_env \<Rightarrow> instant \<Rightarrow> published_event \<Rightarrow> u64 \<Rightarrow> hub \<Rightarrow> hub" where
  "publish env clock p now h =
     (if ev_kind (pe_event p) = 22242 \<or> is_expired (pe_event p) now then h
      else if pe_seq p = None then
        (let (h1, fresh) = accept_ephemeral_id clock (ev_id (pe_event p)) h
         in if fresh then fan_out env p h1 else h1)
      else fan_out env p h)"

datatype hub_command =
    AddConnection connection_id nat
  | Register subscription_key u64 "filter list" "string set"
  | HistoryReady subscription_key u64 int "event list"
  | Remove subscription_key
  | CloseSubscription subscription_key string
  | RemoveConnection connection_id
  | Publish published_event u64

fun handle :: "hub_env \<Rightarrow> instant \<Rightarrow> hub_command \<Rightarrow> hub \<Rightarrow> hub" where
  "handle env clock (AddConnection cid queue_capacity) h = add_connection cid queue_capacity h"
| "handle env clock (Register key generation filters read_pubkeys) h =
     fst (register env key generation filters read_pubkeys h)"
| "handle env clock (HistoryReady key generation high_water events) h =
     history_ready env key generation high_water events h"
| "handle env clock (Remove key) h = remove_subscription key h"
| "handle env clock (CloseSubscription key message) h =
     remove_subscription key
       (fst (send_one (fst key) (OutText (closed_message env (snd key) message)) h))"
| "handle env clock (RemoveConnection cid) h = close_connection cid h"
| "handle env clock (Publish p now) h = publish env clock p now h"

end
