(* ===== verification/Hub_Invariant.thy ===== *)
theory Hub_Invariant
  imports Hub
begin

text \<open>
  The consistency invariant of the subscription hub and its preservation by every
  command, by the connection tasks that drain the send queues, and by shutdown; it
  therefore holds in every reachable state. The invariant ties together the four
  tables the hub keeps by hand: slots, subscriptions, the index and the subscription
  sets of the connections.
\<close>

section \<open>The invariant\<close>

definition bucket :: "hub \<Rightarrow> index_key \<Rightarrow> slot set" where
  "bucket h k = (case h_index h k of None \<Rightarrow> {} | Some b \<Rightarrow> b)"

definition slots_ok :: "hub \<Rightarrow> bool" where
  "slots_ok h \<longleftrightarrow>
     (\<forall>key slot. h_slots h key = Some slot \<longleftrightarrow> (\<exists>s. h_subscriptions h slot = Some s \<and> s_key s = key))"

definition index_ok :: "hub \<Rightarrow> bool" where
  "index_ok h \<longleftrightarrow>
     (\<forall>k. h_index h k \<noteq> Some {})
     \<and> (\<forall>k slot. slot \<in> bucket h k \<longleftrightarrow> (\<exists>s. h_subscriptions h slot = Some s \<and> k \<in> s_index_keys s))"

fun state_ok :: "nat \<Rightarrow> subscription_state \<Rightarrow> bool" where
  "state_ok bound (Buffering events ids) \<longleftrightarrow>
     length events \<le> bound \<and> (\<lambda>p. ev_id (pe_event p)) ` set events \<subseteq> ids
     \<and> distinct (map (\<lambda>p. ev_id (pe_event p)) events)"
| "state_ok bound (Live _) \<longleftrightarrow> True"

definition subscriptions_ok :: "hub_env \<Rightarrow> hub \<Rightarrow> bool" where
  "subscriptions_ok env h \<longleftrightarrow>
     finite (dom (h_subscriptions h))
     \<and> (\<forall>slot s. h_subscriptions h slot = Some s \<longrightarrow>
          slot < h_next_slot h
          \<and> s_index_keys s = subscription_index_keys (s_filters s)
          \<and> s_json s = he_json_string env (snd (s_key s))
          \<and> state_ok (h_max_buffered_live h) (s_state s))"

definition queues_ok :: "hub \<Rightarrow> bool" where
  "queues_ok h \<longleftrightarrow>
     finite (dom (h_connections h))
     \<and> (\<forall>cid c. h_connections h cid = Some c \<longrightarrow> queue_ok (c_outbound c) \<and> finite (c_subscriptions c))"

definition owners_ok :: "hub \<Rightarrow> bool" where
  "owners_ok h \<longleftrightarrow>
     (\<forall>cid sid. h_slots h (cid, sid) \<noteq> None
        \<longleftrightarrow> (\<exists>c. h_connections h cid = Some c \<and> sid \<in> c_subscriptions c))"

definition recent_ok :: "hub \<Rightarrow> bool" where
  "recent_ok h \<longleftrightarrow>
     h_recent_ephemeral_ids h = fst ` set (h_recent_ephemeral_order h)
     \<and> distinct (map fst (h_recent_ephemeral_order h))
     \<and> length (h_recent_ephemeral_order h) \<le> MAX_RECENT_EPHEMERAL_IDS"

definition tables_ok :: "hub_env \<Rightarrow> hub \<Rightarrow> bool" where
  "tables_ok env h \<longleftrightarrow>
     slots_ok h \<and> index_ok h \<and> subscriptions_ok env h \<and> queues_ok h \<and> recent_ok h"

definition hub_ok :: "hub_env \<Rightarrow> hub \<Rightarrow> bool" where
  "hub_ok env h \<longleftrightarrow> tables_ok env h \<and> owners_ok h"

lemmas table_defs = slots_ok_def index_ok_def subscriptions_ok_def queues_ok_def recent_ok_def

section \<open>Removing subscriptions\<close>

lemma remove_subscription_absent [simp]:
  "h_slots h key = None \<Longrightarrow> remove_subscription key h = h"
  by (simp add: remove_subscription_def)

lemma remove_subscription_frame [simp]:
  "h_next_slot (remove_subscription key h) = h_next_slot h"
  "h_max_buffered_live (remove_subscription key h) = h_max_buffered_live h"
  "h_max_outbound_bytes (remove_subscription key h) = h_max_outbound_bytes h"
  "h_recent_ephemeral_ids (remove_subscription key h) = h_recent_ephemeral_ids h"
  "h_recent_ephemeral_order (remove_subscription key h) = h_recent_ephemeral_order h"
  "h_closed (remove_subscription key h) = h_closed h"
  by (simp_all add: remove_subscription_def Let_def split: option.splits)

lemma slots_okD:
  assumes "slots_ok h"
  shows "h_slots h key = Some slot \<Longrightarrow> \<exists>s. h_subscriptions h slot = Some s \<and> s_key s = key"
    and "h_subscriptions h slot = Some s \<Longrightarrow> h_slots h (s_key s) = Some slot"
  using assms unfolding slots_ok_def by blast+

lemma slots_ok_unique:
  assumes "slots_ok h" "h_subscriptions h slot = Some s" "h_subscriptions h slot' = Some s'"
    "s_key s = s_key s'"
  shows "slot = slot' \<and> s = s'"
  using slots_okD(2) [OF assms(1,2)] slots_okD(2) [OF assms(1,3)] assms(2-4) by simp

text \<open>The effect of a removal on each table when the key is registered.\<close>

lemma remove_subscription_present:
  assumes "h_slots h key = Some slot" "h_subscriptions h slot = Some s"
  shows "h_slots (remove_subscription key h) = (h_slots h)(key := None)"
    and "h_subscriptions (remove_subscription key h) = (h_subscriptions h)(slot := None)"
    and "bucket (remove_subscription key h) k =
           (if k \<in> s_index_keys s then bucket h k - {slot} else bucket h k)"
    and "h_connections (remove_subscription key h) cid =
           (if cid = fst key
            then map_option (\<lambda>c. c\<lparr>c_subscriptions := c_subscriptions c - {snd key}\<rparr>) (h_connections h cid)
            else h_connections h cid)"
  using assms by (auto simp: remove_subscription_def bucket_def split: option.splits)

lemma remove_subscription_cases:
  assumes "slots_ok h"
  obtains (absent) "h_slots h key = None" "\<And>slot s. h_subscriptions h slot = Some s \<Longrightarrow> s_key s \<noteq> key"
  | (present) slot s where "h_slots h key = Some slot" "h_subscriptions h slot = Some s" "s_key s = key"
      "\<And>slot' s'. h_subscriptions h slot' = Some s' \<Longrightarrow> s_key s' = key \<longleftrightarrow> slot' = slot"
proof (cases "h_slots h key")
  case None
  moreover have "s_key s \<noteq> key" if "h_subscriptions h slot = Some s" for slot s
    using slots_okD(2) [OF assms that] None by auto
  ultimately show ?thesis by (rule absent)
next
  case (Some slot)
  then obtain s where s: "h_subscriptions h slot = Some s" "s_key s = key"
    using slots_okD(1) [OF assms] by blast
  have "s_key s' = key \<longleftrightarrow> slot' = slot" if "h_subscriptions h slot' = Some s'" for slot' s'
    using slots_ok_unique [OF assms s(1) that] s that by (metis option.inject)
  with Some s show ?thesis by (rule present)
qed

lemma remove_subscription_slots:
  assumes "slots_ok h"
  shows "h_slots (remove_subscription key h) = (h_slots h)(key := None)"
  using assms by (cases rule: remove_subscription_cases [where key = key])
    (simp_all add: remove_subscription_present fun_upd_idem)

lemma remove_subscription_subscriptions:
  assumes "slots_ok h"
  shows "h_subscriptions (remove_subscription key h) slot =
     (case h_subscriptions h slot of
        None \<Rightarrow> None
      | Some s \<Rightarrow> if s_key s = key then None else Some s)"
  using assms
proof (cases rule: remove_subscription_cases [where key = key])
  case absent
  then show ?thesis by (cases "h_subscriptions h slot") simp_all
next
  case (present sl s)
  from present(4) [of slot] show ?thesis
    by (cases "h_subscriptions h slot") (simp_all add: remove_subscription_present(2) [OF present(1,2)])
qed

lemma remove_subscription_bucket:
  assumes "slots_ok h" "index_ok h"
  shows "slot \<in> bucket (remove_subscription key h) k \<longleftrightarrow>
     (\<exists>s. h_subscriptions h slot = Some s \<and> k \<in> s_index_keys s \<and> s_key s \<noteq> key)"
proof -
  have b: "slot \<in> bucket h k \<longleftrightarrow> (\<exists>s. h_subscriptions h slot = Some s \<and> k \<in> s_index_keys s)"
    using assms(2) unfolding index_ok_def by blast
  from assms(1) show ?thesis
  proof (cases rule: remove_subscription_cases [where key = key])
    case absent
    with b show ?thesis by auto
  next
    case (present sl s)
    from present(4) [of slot] present(2) b show ?thesis
      by (cases "slot = sl"; cases "h_subscriptions h slot")
        (simp_all add: remove_subscription_present(3) [OF present(1,2)])
  qed
qed

lemma remove_subscription_index_nonempty:
  assumes "index_ok h"
  shows "h_index (remove_subscription key h) k \<noteq> Some {}"
  using assms by (auto simp: remove_subscription_def Let_def index_ok_def split: option.splits if_splits)

lemma remove_subscription_connection:
  assumes "h_connections (remove_subscription key h) cid = Some c'"
  shows "\<exists>c. h_connections h cid = Some c \<and> c_outbound c' = c_outbound c
     \<and> c_subscriptions c' \<subseteq> c_subscriptions c"
proof (cases "h_slots h key")
  case None
  with assms show ?thesis by simp
next
  case (Some slot)
  show ?thesis
  proof (cases "h_subscriptions h slot")
    case None
    with Some assms show ?thesis by (simp add: remove_subscription_def)
  next
    case (Some s)
    with \<open>h_slots h key = Some slot\<close> assms show ?thesis
      by (auto simp: remove_subscription_present(4) split: if_splits)
  qed
qed

lemma remove_subscription_connection_None [simp]:
  "h_connections (remove_subscription key h) cid = None \<longleftrightarrow> h_connections h cid = None"
  by (auto simp: remove_subscription_def Let_def split: option.splits)

lemma remove_subscription_dom [simp]:
  "dom (h_connections (remove_subscription key h)) = dom (h_connections h)"
  by (auto simp: dom_def)

lemma tables_ok_remove_subscription:
  assumes "tables_ok env h"
  shows "tables_ok env (remove_subscription key h)"
proof -
  have so: "slots_ok h" and io: "index_ok h" and su: "subscriptions_ok env h"
    and qo: "queues_ok h" and ro: "recent_ok h"
    using assms by (simp_all add: tables_ok_def)
  note subs = remove_subscription_subscriptions [OF so]
  have "slots_ok (remove_subscription key h)"
    using so unfolding slots_ok_def remove_subscription_slots [OF so] subs
    by (simp split: option.splits)
  moreover have "index_ok (remove_subscription key h)"
    using io remove_subscription_index_nonempty [OF io]
    unfolding index_ok_def remove_subscription_bucket [OF so io] subs
    by (auto split: option.splits if_splits)
  moreover have "subscriptions_ok env (remove_subscription key h)"
  proof -
    have "dom (h_subscriptions (remove_subscription key h)) \<subseteq> dom (h_subscriptions h)"
      by (auto simp: subs split: option.splits)
    then show ?thesis
      using su by (auto simp: subscriptions_ok_def subs intro: finite_subset split: option.splits if_splits)
  qed
  moreover have "queues_ok (remove_subscription key h)"
    using qo unfolding queues_ok_def
    by (metis remove_subscription_connection remove_subscription_dom finite_subset)
  moreover have "recent_ok (remove_subscription key h)"
    using ro by (simp add: recent_ok_def)
  ultimately show ?thesis by (simp add: tables_ok_def)
qed

lemma owners_ok_remove_subscription:
  assumes "tables_ok env h" "owners_ok h"
  shows "owners_ok (remove_subscription key h)"
proof -
  have so: "slots_ok h" using assms by (simp add: tables_ok_def)
  show ?thesis
  proof (cases "h_slots h key")
    case None
    with assms show ?thesis by simp
  next
    case (Some slot)
    then obtain s where s: "h_subscriptions h slot = Some s" using slots_okD(1) [OF so] by blast
    obtain cid sid where key: "key = (cid, sid)" by (cases key)
    obtain c where c: "h_connections h cid = Some c" "sid \<in> c_subscriptions c"
      using assms(2) Some key by (fastforce simp: owners_ok_def)
    have "h_connections (remove_subscription key h) =
        (h_connections h)(cid \<mapsto> c\<lparr>c_subscriptions := c_subscriptions c - {sid}\<rparr>)"
      using Some s c key by (simp add: remove_subscription_def)
    then show ?thesis
      using assms(2) c key
      unfolding owners_ok_def remove_subscription_slots [OF so] by auto
  qed
qed

lemma hub_ok_remove_subscription: "hub_ok env h \<Longrightarrow> hub_ok env (remove_subscription key h)"
  unfolding hub_ok_def by (blast intro: tables_ok_remove_subscription owners_ok_remove_subscription)

section \<open>Closing connections\<close>

lemma fold_remove_tables_ok:
  "tables_ok env h \<Longrightarrow> tables_ok env (fold (\<lambda>sid. remove_subscription (cid, sid)) sids h)"
  by (induction sids arbitrary: h) (simp_all add: tables_ok_remove_subscription)

lemma fold_remove_slots:
  "tables_ok env h \<Longrightarrow>
     h_slots (fold (\<lambda>sid. remove_subscription (cid, sid)) sids h) key =
       (if fst key = cid \<and> snd key \<in> set sids then None else h_slots h key)"
proof (induction sids arbitrary: h)
  case (Cons sid sids)
  have "slots_ok h" using Cons.prems by (simp add: tables_ok_def)
  then show ?case
    using Cons.IH [OF tables_ok_remove_subscription [OF Cons.prems, of "(cid, sid)"]]
    by (cases key) (auto simp: remove_subscription_slots)
qed simp

lemma fold_remove_connections:
  "h_connections h cid = None \<Longrightarrow>
     h_connections (fold (\<lambda>sid. remove_subscription (cid, sid)) sids h) = h_connections h"
proof (induction sids arbitrary: h)
  case (Cons sid sids)
  have "h_connections (remove_subscription (cid, sid) h) = h_connections h"
    using Cons.prems by (auto simp: remove_subscription_def Let_def split: option.splits)
  with Cons show ?case by simp
qed simp

lemma fold_remove_frame [simp]:
  "h_next_slot (fold (\<lambda>sid. remove_subscription (cid, sid)) sids h) = h_next_slot h"
  "h_max_buffered_live (fold (\<lambda>sid. remove_subscription (cid, sid)) sids h) = h_max_buffered_live h"
  "h_max_outbound_bytes (fold (\<lambda>sid. remove_subscription (cid, sid)) sids h) = h_max_outbound_bytes h"
  "h_closed (fold (\<lambda>sid. remove_subscription (cid, sid)) sids h) = h_closed h"
  by (induction sids arbitrary: h) simp_all

lemma close_connection_frame [simp]:
  "h_next_slot (close_connection cid h) = h_next_slot h"
  "h_max_buffered_live (close_connection cid h) = h_max_buffered_live h"
  "h_max_outbound_bytes (close_connection cid h) = h_max_outbound_bytes h"
  by (simp_all add: close_connection_def split: option.splits)

lemma close_connection_connections [simp]:
  "h_connections (close_connection cid h) = (h_connections h)(cid := None)"
  by (auto simp: close_connection_def fold_remove_connections split: option.splits)

lemma tables_ok_drop_connection:
  "tables_ok env h \<Longrightarrow>
     tables_ok env (h\<lparr>h_connections := (h_connections h)(cid := None), h_closed := log\<rparr>)"
  by (auto simp: tables_ok_def table_defs bucket_def)

lemma hub_ok_close_connection:
  assumes "hub_ok env h"
  shows "hub_ok env (close_connection cid h)"
proof (cases "h_connections h cid")
  case None
  with assms show ?thesis by (simp add: close_connection_def)
next
  case (Some c)
  let ?h1 = "h\<lparr>h_connections := (h_connections h)(cid := None), h_closed := h_closed h @ [cid]\<rparr>"
  have t: "tables_ok env ?h1" using assms by (simp add: hub_ok_def tables_ok_drop_connection)
  have fin: "finite (c_subscriptions c)"
    using assms Some by (auto simp: hub_ok_def tables_ok_def queues_ok_def)
  have "h_slots (close_connection cid h) key =
      (if fst key = cid \<and> snd key \<in> c_subscriptions c then None else h_slots h key)" for key
    using Some fold_remove_slots [OF t] fin by (simp add: close_connection_def)
  moreover have "h_slots h (cid, sid) = None" if "sid \<notin> c_subscriptions c" for sid
    using assms Some that unfolding hub_ok_def owners_ok_def by (metis option.inject)
  ultimately have "owners_ok (close_connection cid h)"
    using assms by (auto simp: hub_ok_def owners_ok_def)
  moreover have "tables_ok env (close_connection cid h)"
    using Some fold_remove_tables_ok [OF t] by (simp add: close_connection_def)
  ultimately show ?thesis by (simp add: hub_ok_def)
qed

lemma hub_ok_fold_close: "hub_ok env h \<Longrightarrow> hub_ok env (fold close_connection cids h)"
  by (induction cids arbitrary: h) (simp_all add: hub_ok_close_connection)

lemma fold_close_connections:
  "h_connections (fold close_connection cids h) cid =
     (if cid \<in> set cids then None else h_connections h cid)"
  by (induction cids arbitrary: h) auto

section \<open>Local updates\<close>

lemma tables_frame [simp]:
  "slots_ok (h\<lparr>h_connections := conns\<rparr>) = slots_ok h"
  "index_ok (h\<lparr>h_connections := conns\<rparr>) = index_ok h"
  "subscriptions_ok env (h\<lparr>h_connections := conns\<rparr>) = subscriptions_ok env h"
  "recent_ok (h\<lparr>h_connections := conns\<rparr>) = recent_ok h"
  "slots_ok (h\<lparr>h_recent_ephemeral_order := order, h_recent_ephemeral_ids := ids\<rparr>) = slots_ok h"
  "index_ok (h\<lparr>h_recent_ephemeral_order := order, h_recent_ephemeral_ids := ids\<rparr>) = index_ok h"
  "subscriptions_ok env (h\<lparr>h_recent_ephemeral_order := order, h_recent_ephemeral_ids := ids\<rparr>)
     = subscriptions_ok env h"
  "queues_ok (h\<lparr>h_recent_ephemeral_order := order, h_recent_ephemeral_ids := ids\<rparr>) = queues_ok h"
  "owners_ok (h\<lparr>h_recent_ephemeral_order := order, h_recent_ephemeral_ids := ids\<rparr>) = owners_ok h"
  by (simp_all add: table_defs owners_ok_def bucket_def)

lemma hub_ok_set_queue:
  assumes "hub_ok env h" "h_connections h cid = Some c" "queue_ok q"
  shows "hub_ok env (h\<lparr>h_connections := (h_connections h)(cid \<mapsto> c\<lparr>c_outbound := q\<rparr>)\<rparr>)"
proof -
  let ?conns = "(h_connections h)(cid \<mapsto> c\<lparr>c_outbound := q\<rparr>)"
  have "(\<exists>c. ?conns i = Some c \<and> sid \<in> c_subscriptions c)
      \<longleftrightarrow> (\<exists>c. h_connections h i = Some c \<and> sid \<in> c_subscriptions c)" for i sid
    using assms(2) by auto
  then have "owners_ok (h\<lparr>h_connections := ?conns\<rparr>)"
    using assms(1) by (simp add: hub_ok_def owners_ok_def del: fun_upd_apply)
  moreover have "queues_ok (h\<lparr>h_connections := ?conns\<rparr>)"
    using assms by (auto simp: hub_ok_def tables_ok_def queues_ok_def)
  ultimately show ?thesis using assms(1) by (simp add: hub_ok_def tables_ok_def)
qed

lemma hub_ok_set_state:
  assumes "hub_ok env h" "h_subscriptions h slot = Some s" "state_ok (h_max_buffered_live h) st"
  shows "hub_ok env (set_state slot s st h)"
proof -
  have dom: "dom ((h_subscriptions h)(slot \<mapsto> s\<lparr>s_state := st\<rparr>)) = dom (h_subscriptions h)"
    using assms(2) by auto
  have ex: "(\<exists>t. ((h_subscriptions h)(slot \<mapsto> s\<lparr>s_state := st\<rparr>)) sl = Some t \<and> P (s_key t) (s_index_keys t))
      \<longleftrightarrow> (\<exists>t. h_subscriptions h sl = Some t \<and> P (s_key t) (s_index_keys t))" for sl P
    using assms(2) by auto
  note key = ex [of _ "\<lambda>k _. k = key" for key] and idx = ex [of _ "\<lambda>_ i. k \<in> i" for k]
  have "slots_ok (set_state slot s st h)" "index_ok (set_state slot s st h)"
    using assms(1) unfolding hub_ok_def tables_ok_def slots_ok_def index_ok_def
    by (simp_all add: set_state_def key idx bucket_def del: fun_upd_apply)
  moreover have "subscriptions_ok env (set_state slot s st h)"
    using assms dom by (auto simp: set_state_def hub_ok_def tables_ok_def subscriptions_ok_def)
  moreover have "queues_ok (set_state slot s st h)" "recent_ok (set_state slot s st h)"
    "owners_ok (set_state slot s st h)"
    using assms(1)
    by (simp_all add: set_state_def hub_ok_def tables_ok_def queues_ok_def recent_ok_def owners_ok_def)
  ultimately show ?thesis by (simp add: hub_ok_def tables_ok_def)
qed

lemma hub_ok_queue: "\<lbrakk>hub_ok env h; h_connections h cid = Some c\<rbrakk> \<Longrightarrow> queue_ok (c_outbound c)"
  by (auto simp: hub_ok_def tables_ok_def queues_ok_def)

lemma hub_ok_state:
  "\<lbrakk>hub_ok env h; h_subscriptions h slot = Some s\<rbrakk> \<Longrightarrow> state_ok (h_max_buffered_live h) (s_state s)"
  by (auto simp: hub_ok_def tables_ok_def subscriptions_ok_def)

section \<open>Commands\<close>

lemma hub_ok_add_connection:
  assumes "hub_ok env h"
  shows "hub_ok env (add_connection cid capacity h)"
proof -
  define h1 where "h1 = close_connection cid h"
  have "add_connection cid capacity h =
      h1\<lparr>h_connections := (h_connections h1)(cid \<mapsto> \<lparr>c_outbound = new_queue capacity, c_subscriptions = {}\<rparr>)\<rparr>"
    by (auto simp: add_connection_def h1_def close_connection_def Let_def)
  moreover have "hub_ok env h1" "h_connections h1 cid = None"
    using hub_ok_close_connection [OF assms] by (simp_all add: h1_def)
  moreover from this have "owners_ok (add_connection cid capacity h)"
    "queues_ok (add_connection cid capacity h)"
    using new_queue_ok calculation(1) unfolding hub_ok_def owners_ok_def tables_ok_def queues_ok_def
    by auto
  ultimately show ?thesis by (simp add: hub_ok_def tables_ok_def)
qed

definition registered :: "hub_env \<Rightarrow> subscription_key \<Rightarrow> u64 \<Rightarrow> filter list \<Rightarrow> string set \<Rightarrow> subscription" where
  "registered env key generation filters readers =
     \<lparr>s_key = key, s_json = he_json_string env (snd key), s_generation = generation,
      s_filters = filters, s_read_pubkeys = readers, s_index_keys = subscription_index_keys filters,
      s_state = Buffering [] {}\<rparr>"

lemma registered_sel [simp]:
  "s_key (registered env key generation filters readers) = key"
  "s_json (registered env key generation filters readers) = he_json_string env (snd key)"
  "s_filters (registered env key generation filters readers) = filters"
  "s_generation (registered env key generation filters readers) = generation"
  "s_index_keys (registered env key generation filters readers) = subscription_index_keys filters"
  "s_read_pubkeys (registered env key generation filters readers) = readers"
  "s_state (registered env key generation filters readers) = Buffering [] {}"
  by (simp_all add: registered_def)

lemma register_effect:
  fixes env key generation filters readers h
  defines "h' \<equiv> fst (register env key generation filters readers h)"
    and "h1 \<equiv> remove_subscription key h"
  assumes "h_connections h (fst key) = Some c0" "h_connections h1 (fst key) = Some c"
  shows "h_subscriptions h' = (h_subscriptions h1)(h_next_slot h1 \<mapsto> registered env key generation filters readers)"
    and "h_slots h' = (h_slots h1)(key \<mapsto> h_next_slot h1)"
    and "h_connections h' =
      (h_connections h1)(fst key \<mapsto> c\<lparr>c_subscriptions := insert (snd key) (c_subscriptions c)\<rparr>)"
    and "h_next_slot h' = h_next_slot h1 + 1"
    and "h_index h' = (\<lambda>k. if k \<in> subscription_index_keys filters
           then Some (insert (h_next_slot h1) (bucket h1 k)) else h_index h1 k)"
    and "h_max_buffered_live h' = h_max_buffered_live h1"
    and "h_recent_ephemeral_ids h' = h_recent_ephemeral_ids h1"
    and "h_recent_ephemeral_order h' = h_recent_ephemeral_order h1"
  using assms(3,4) unfolding h'_def h1_def
  by (simp_all add: register_def registered_def Let_def bucket_def fun_eq_iff)

lemma slot_below_next:
  fixes slot n :: u64
  assumes "slot \<le> n" "n \<noteq> - 1"
  shows "slot < n + 1"
  using assms unatSuc [of n] by (auto simp: word_less_nat_alt word_le_nat_alt add.commute add_eq_0_iff)

lemma hub_ok_register:
  assumes "hub_ok env h" "h_next_slot h \<noteq> - 1"
  shows "hub_ok env (fst (register env key generation filters readers h))"
proof (cases "h_connections h (fst key)")
  case None
  with assms show ?thesis by (simp add: register_def)
next
  case (Some c0)
  define h1 where "h1 = remove_subscription key h"
  let ?h = "fst (register env key generation filters readers h)"
  have ok: "hub_ok env h1" using assms(1) by (simp add: h1_def hub_ok_remove_subscription)
  have below: "slot < h_next_slot h1 + 1" if "slot \<le> h_next_slot h1" for slot
    using that assms(2) by (simp add: slot_below_next h1_def)
  have absent: "h_slots h1 key = None"
    using assms(1) by (simp add: h1_def remove_subscription_slots hub_ok_def tables_ok_def)
  obtain c where c: "h_connections h1 (fst key) = Some c"
    using Some by (cases "h_connections h1 (fst key)") (simp_all add: h1_def)
  note eff = register_effect [OF Some c [unfolded h1_def], of env generation filters readers,
      folded h1_def]
  have fresh: "h_subscriptions h1 (h_next_slot h1) = None"
    using ok by (cases "h_subscriptions h1 (h_next_slot h1)")
      (auto simp: hub_ok_def tables_ok_def subscriptions_ok_def)
  have "slots_ok ?h"
    using slots_okD [of h1] ok absent fresh unfolding slots_ok_def [of ?h] eff hub_ok_def tables_ok_def
    by (fastforce split: if_splits)
  moreover have "index_ok ?h"
  proof -
    have "bucket ?h k = (if k \<in> subscription_index_keys filters
        then insert (h_next_slot h1) (bucket h1 k) else bucket h1 k)" for k
      unfolding bucket_def eff by (simp add: bucket_def)
    then show ?thesis
      using ok fresh unfolding index_ok_def eff hub_ok_def tables_ok_def by auto
  qed
  moreover have "subscriptions_ok env ?h"
    using ok below unfolding subscriptions_ok_def eff hub_ok_def tables_ok_def
    by (auto intro: order_less_imp_le)
  moreover have "queues_ok ?h"
    using ok c unfolding queues_ok_def eff hub_ok_def tables_ok_def by auto
  moreover have "recent_ok ?h"
    using ok unfolding recent_ok_def eff hub_ok_def tables_ok_def by simp
  moreover have "owners_ok ?h"
    using ok c unfolding owners_ok_def eff hub_ok_def by (cases key) auto
  ultimately show ?thesis by (simp add: hub_ok_def tables_ok_def)
qed

lemma hub_ok_send_one:
  assumes "hub_ok env h"
  shows "hub_ok env (fst (send_one cid m h))"
proof (cases "h_max_outbound_bytes h < outbound_len m \<or> h_connections h cid = None")
  case True
  with assms show ?thesis
    by (auto simp: send_one_def hub_ok_close_connection)
next
  case False
  then obtain c where c: "h_connections h cid = Some c" by auto
  obtain q r where o: "offer (c_outbound c) m = (q, r)" by (cases "offer (c_outbound c) m")
  have "queue_ok q" using offer_ok [OF hub_ok_queue [OF assms c]] o by (metis fst_conv)
  with assms c have "hub_ok env (h\<lparr>h_connections := (h_connections h)(cid \<mapsto> c\<lparr>c_outbound := q\<rparr>)\<rparr>)"
    by (rule hub_ok_set_queue)
  with False c o show ?thesis
    by (simp add: send_one_def Let_def hub_ok_close_connection)
qed

lemma hub_ok_send_each: "hub_ok env h \<Longrightarrow> hub_ok env (fst (send_each cid ms h))"
proof (induction ms arbitrary: h)
  case (Cons m ms)
  have "hub_ok env (fst (send_one cid m h))" using Cons.prems by (rule hub_ok_send_one)
  then show ?case by (auto simp: Cons.IH split: prod.split)
qed simp

lemma hub_ok_history_ready:
  assumes "hub_ok env h"
  shows "hub_ok env (history_ready env key generation high_water events h)"
proof -
  have "hub_ok env (set_state slot s (Live w) h)" if "h_subscriptions h slot = Some s" for slot s w
    using assms that by (simp add: hub_ok_set_state)
  then have "hub_ok env (h\<lparr>h_subscriptions := (h_subscriptions h)(slot \<mapsto> s\<lparr>s_state := Live w\<rparr>)\<rparr>)"
    if "h_subscriptions h slot = Some s" for slot s w
    using that by (simp add: set_state_def)
  with assms show ?thesis
    by (auto simp: history_ready_def Let_def split_beta hub_ok_send_one hub_ok_send_each
        split: option.split subscription_state.split)
qed

lemma drop_expired_ok:
  assumes "ids = fst ` set order" "distinct (map fst order)"
    "drop_expired_ephemeral clock order ids = (order', ids')"
  shows "ids' = fst ` set order' \<and> distinct (map fst order')
     \<and> (order' = [] \<or> length order' < MAX_RECENT_EPHEMERAL_IDS)"
  using assms
proof (induction clock order ids rule: drop_expired_ephemeral.induct)
  case (2 clock i seen order ids)
  have "ids - {i} = fst ` set order" using 2 by auto
  with 2 show ?case by (auto split: if_splits)
qed simp

lemma recent_ok_accept:
  assumes "recent_ok h"
  shows "recent_ok (fst (accept_ephemeral_id clock i h))"
proof -
  obtain order ids where d:
    "drop_expired_ephemeral clock (h_recent_ephemeral_order h) (h_recent_ephemeral_ids h) = (order, ids)"
    by fastforce
  have "ids = fst ` set order" "distinct (map fst order)"
    "order = [] \<or> length order < MAX_RECENT_EPHEMERAL_IDS"
    using drop_expired_ok [OF _ _ d] assms by (auto simp: recent_ok_def)
  then show ?thesis by (auto simp: accept_ephemeral_id_def d recent_ok_def MAX_RECENT_EPHEMERAL_IDS_def)
qed

lemma accept_window:
  "\<exists>order ids. fst (accept_ephemeral_id clock i h) =
     h\<lparr>h_recent_ephemeral_order := order, h_recent_ephemeral_ids := ids\<rparr>"
  by (cases "drop_expired_ephemeral clock (h_recent_ephemeral_order h) (h_recent_ephemeral_ids h)")
    (simp add: accept_ephemeral_id_def, blast)

lemma hub_ok_accept_ephemeral_id:
  assumes "hub_ok env h"
  shows "hub_ok env (fst (accept_ephemeral_id clock i h))"
proof -
  have "recent_ok (fst (accept_ephemeral_id clock i h))"
    by (rule recent_ok_accept) (use assms in \<open>simp add: hub_ok_def tables_ok_def\<close>)
  then show ?thesis
    using assms accept_window [of clock i h] by (auto simp: hub_ok_def tables_ok_def)
qed

lemma hub_ok_deliver:
  assumes "hub_ok env h"
  shows "hub_ok env (fst (deliver cid m (h, overflowed)))"
proof (cases "h_connections h cid")
  case None
  with assms show ?thesis by (simp add: deliver_def)
next
  case (Some c)
  obtain q r where o: "offer (c_outbound c) m = (q, r)" by (cases "offer (c_outbound c) m")
  have "queue_ok q" using offer_ok [OF hub_ok_queue [OF assms Some]] o by (metis fst_conv)
  with Some assms o show ?thesis by (simp add: deliver_def hub_ok_set_queue)
qed

lemma hub_ok_publish_one:
  assumes "hub_ok env (fst st)"
  shows "hub_ok env (fst (publish_one env p slot st))"
proof -
  obtain h overflowed where st: "st = (h, overflowed)" by (cases st)
  have ok: "hub_ok env h" using assms st by simp
  show ?thesis
  proof (cases "h_subscriptions h slot")
    case None
    with ok st show ?thesis by (simp add: publish_one_def)
  next
    case (Some s)
    show ?thesis
    proof (cases "s_state s")
      case (Buffering events ids)
      have "state_ok (h_max_buffered_live h) (Buffering events ids)"
        using hub_ok_state [OF ok Some] Buffering by simp
      then have "state_ok (h_max_buffered_live h) (Buffering events (insert (ev_id (pe_event p)) ids))"
        and "ev_id (pe_event p) \<notin> ids \<Longrightarrow> length events < h_max_buffered_live h \<Longrightarrow>
          state_ok (h_max_buffered_live h) (Buffering (events @ [p]) (insert (ev_id (pe_event p)) ids))"
        by (auto simp: image_subset_iff)
      then show ?thesis
        using ok st Some Buffering by (simp add: publish_one_def Let_def hub_ok_set_state)
    next
      case (Live w)
      have "hub_ok env (set_state slot s (Live seq) h)" for seq
        using ok Some by (simp add: hub_ok_set_state)
      then show ?thesis
        using ok st Some Live
        by (auto simp: publish_one_def Let_def hub_ok_deliver split: option.split)
    qed
  qed
qed

lemma hub_ok_fold_publish_one:
  "hub_ok env (fst st) \<Longrightarrow> hub_ok env (fst (fold (publish_one env p) slots st))"
  by (induction slots arbitrary: st) (simp_all add: hub_ok_publish_one)

lemma hub_ok_fan_out: "hub_ok env h \<Longrightarrow> hub_ok env (fan_out env p h)"
  using hub_ok_fold_publish_one [of env "(h, {})" p "candidates h (pe_event p)"]
  by (simp add: fan_out_def split_beta hub_ok_fold_close)

lemma hub_ok_publish: "hub_ok env h \<Longrightarrow> hub_ok env (publish env clock p now h)"
  using hub_ok_accept_ephemeral_id [of env h clock "ev_id (pe_event p)"]
  by (simp add: publish_def split_beta hub_ok_fan_out)

section \<open>Reachable states\<close>

text \<open>
  Slots are 64-bit and never reused; a registration is considered only while the
  counter has not reached its last value.
\<close>

fun slot_available :: "hub_command \<Rightarrow> hub \<Rightarrow> bool" where
  "slot_available (Register _ _ _ _) h \<longleftrightarrow> h_next_slot h \<noteq> - 1"
| "slot_available _ h \<longleftrightarrow> True"

lemma hub_ok_handle:
  assumes "hub_ok env h" "slot_available cmd h"
  shows "hub_ok env (handle env clock cmd h)"
  using assms
  by (cases cmd) (simp_all add: hub_ok_add_connection hub_ok_register hub_ok_history_ready
      hub_ok_remove_subscription hub_ok_send_one hub_ok_close_connection hub_ok_publish)

lemma hub_ok_shutdown: "hub_ok env h \<Longrightarrow> hub_ok env (shutdown h)"
  by (simp add: shutdown_def hub_ok_fold_close)

lemma hub_ok_new_hub: "hub_ok env (new_hub max_live max_bytes)"
  by (simp add: hub_ok_def tables_ok_def table_defs owners_ok_def new_hub_def bucket_def)

text \<open>
  A step of the system: the hub handles a command, the task of a connection takes the
  next message from its queue, or the hub shuts down.
\<close>

inductive hub_step :: "hub_env \<Rightarrow> hub \<Rightarrow> hub \<Rightarrow> bool" for env where
  step_command: "slot_available cmd h \<Longrightarrow> hub_step env h (handle env clock cmd h)"
| step_write: "h_connections h cid = Some c \<Longrightarrow> pop (c_outbound c) = (q, m) \<Longrightarrow>
    hub_step env h (h\<lparr>h_connections := (h_connections h)(cid \<mapsto> c\<lparr>c_outbound := q\<rparr>)\<rparr>)"
| step_stop: "hub_step env h (shutdown h)"

inductive hub_reachable :: "hub_env \<Rightarrow> hub \<Rightarrow> bool" for env where
  start: "hub_reachable env (new_hub max_live max_bytes)"
| more: "hub_reachable env h \<Longrightarrow> hub_step env h h' \<Longrightarrow> hub_reachable env h'"

inductive_cases hub_stepE: "hub_step env h h'"

lemma hub_ok_step:
  assumes "hub_step env h h'" "hub_ok env h"
  shows "hub_ok env h'"
  using assms(1)
proof (cases rule: hub_step.cases)
  case (step_write cid c q m)
  have "queue_ok q" using pop_ok [OF hub_ok_queue [OF assms(2) step_write(2)]] step_write(3) by (metis fst_conv)
  with step_write assms(2) show ?thesis by (simp add: hub_ok_set_queue)
qed (simp_all add: assms hub_ok_handle hub_ok_shutdown)

section \<open>Properties\<close>

text \<open>C1: in every reachable state of the hub its tables agree: a key has a slot exactly when
  a subscription with that key is stored there, an index bucket holds exactly the
  subscriptions registered under its key and is never empty, a connection lists exactly its
  own subscriptions, every send queue is consistent, the buffer of a subscription never
  exceeds its bound and repeats no event, and the window of ephemeral IDs is bounded.\<close>

theorem hub_invariant:
  assumes "hub_reachable env h"
  shows "hub_ok env h"
  using assms by (induction rule: hub_reachable.induct) (simp_all add: hub_ok_new_hub hub_ok_step)

theorem hub_invariant_witness:
  "\<forall>env. hub_ok env (handle env 3 (Register (1, ''s'') 7 [] {}) (handle env 2 (AddConnection 1 8) (new_hub 4 100)))"
proof (intro allI hub_invariant)
  fix env
  have "hub_reachable env (handle env 2 (AddConnection 1 8) (new_hub 4 100))"
    by (rule hub_reachable.more [OF hub_reachable.start hub_step.step_command]) simp
  then show "hub_reachable env
      (handle env 3 (Register (1, ''s'') 7 [] {}) (handle env 2 (AddConnection 1 8) (new_hub 4 100)))"
    by (rule hub_reachable.more [OF _ hub_step.step_command])
      (simp add: add_connection_def new_hub_def Let_def)
qed

end
