(* ===== verification/Hub_Delivery.thy ===== *)
theory Hub_Delivery
  imports Hub_Invariant
begin

text \<open>
  What reaches a subscriber: the subscription index finds every matching
  subscription, and an event that matches a live subscription is queued or the
  connection is closed. The lemmas on one step of the fan-out also serve the theories
  on privacy, history and repeated events.
\<close>

section \<open>The index is complete\<close>

lemma filter_index_complete:
  assumes "filter_matches lower f e"
  shows "filter_index_keys f \<inter> event_index_keys e \<noteq> {}"
proof -
  have m: "list_matches (f_ids f) (ev_id e)" "list_matches (f_authors f) (ev_pubkey e)"
    "is_none_or (\<lambda>kinds. ev_kind e \<in> set kinds) (f_kinds f)"
    using assms by (simp_all add: filter_matches_def)
  show ?thesis
  proof (cases "f_tags f")
    case Nil
    with m show ?thesis
      by (cases "f_ids f"; cases "f_authors f"; cases "f_kinds f")
        (auto simp: filter_index_keys_def event_index_keys_def list_matches_iff)
  next
    case (Cons t ts)
    obtain key vals where t: "t = (key, vals)" by (cases t)
    obtain v where "v \<in> set vals" "(key, v) \<in> set (indexed_tags e)"
      using filter_matches_tagD [OF assms, of key vals] Cons t by auto
    then have "TagKey key v \<in> filter_index_keys f \<inter> event_index_keys e"
      using Cons t by (force simp: filter_index_keys_def event_index_keys_def)
    then show ?thesis by blast
  qed
qed

lemma subscription_index_complete:
  "matches_any lower fs e \<Longrightarrow> subscription_index_keys fs \<inter> event_index_keys e \<noteq> {}"
  using filter_index_complete by (fastforce simp: subscription_index_keys_def dest!: matches_anyD)

lemma candidates_bucket: "candidates h e = sorted_list_of_set (\<Union>k \<in> event_index_keys e. bucket h k)"
  by (simp add: candidates_def bucket_def)

lemma bucket_iff:
  assumes "hub_ok env h"
  shows "slot \<in> bucket h k \<longleftrightarrow> (\<exists>s. h_subscriptions h slot = Some s \<and> k \<in> s_index_keys s)"
  using assms unfolding hub_ok_def tables_ok_def index_ok_def by blast

lemma bucket_subset:
  assumes "hub_ok env h"
  shows "(\<Union>k \<in> event_index_keys e. bucket h k) \<subseteq> dom (h_subscriptions h)"
  using bucket_iff [OF assms] by auto

lemma finite_subscriptions: "hub_ok env h \<Longrightarrow> finite (dom (h_subscriptions h))"
  by (simp add: hub_ok_def tables_ok_def subscriptions_ok_def)

lemma set_candidates:
  assumes "hub_ok env h"
  shows "set (candidates h e) = (\<Union>k \<in> event_index_keys e. bucket h k)"
  unfolding candidates_bucket
  using finite_subset [OF bucket_subset [OF assms] finite_subscriptions [OF assms]]
  by (rule set_sorted_list_of_set)

lemma candidates_complete:
  assumes "hub_ok env h" "h_subscriptions h slot = Some s"
    "matches_any lower (s_filters s) e"
  shows "slot \<in> set (candidates h e)"
proof -
  have "s_index_keys s = subscription_index_keys (s_filters s)"
    using assms(1,2) by (auto simp: hub_ok_def tables_ok_def subscriptions_ok_def)
  with subscription_index_complete [OF assms(3)] obtain k where
    "k \<in> event_index_keys e" "k \<in> s_index_keys s" by blast
  then show ?thesis
    using assms(2) by (auto simp: set_candidates [OF assms(1)] bucket_iff [OF assms(1)])
qed

section \<open>One step of the fan-out\<close>

definition interested :: "hub_env \<Rightarrow> event \<Rightarrow> subscription \<Rightarrow> bool" where
  "interested env e s \<longleftrightarrow>
     matches_any (he_lower env) (s_filters s) e \<and> event_visible_to_reader e (s_read_pubkeys s)"

text \<open>What the fan-out never changes of a subscription.\<close>

definition static_part :: "subscription \<Rightarrow> subscription" where
  "static_part s = s\<lparr>s_state := Live 0\<rparr>"

lemma static_part_interested: "static_part s = static_part t \<Longrightarrow> interested env e s = interested env e t"
  unfolding static_part_def interested_def
  by (metis subscription.select_convs(4) subscription.select_convs(5) subscription.surjective
      subscription.update_convs(7))

lemma static_part_sel [simp]:
  "s_key (static_part s) = s_key s" "s_json (static_part s) = s_json s"
  "static_part (s\<lparr>s_state := st\<rparr>) = static_part s"
  by (simp_all add: static_part_def)

lemma publish_one_skip:
  assumes "case h_subscriptions (fst st) slot of None \<Rightarrow> True | Some s \<Rightarrow> \<not> interested env (pe_event p) s"
  shows "publish_one env p slot st = st"
  using assms by (auto simp: publish_one_def interested_def split: option.splits prod.splits)

lemma deliver_subscriptions [simp]:
  "h_subscriptions (fst (deliver cid m (h, overflowed))) = h_subscriptions h"
  by (simp add: deliver_def split_beta Let_def split: option.split)

lemma publish_one_other [simp]:
  "slot' \<noteq> slot \<Longrightarrow> h_subscriptions (fst (publish_one env p slot st)) slot' = h_subscriptions (fst st) slot'"
  by (cases st) (auto simp: publish_one_def Let_def set_state_def split: option.split subscription_state.split)

lemma publish_one_static:
  "map_option static_part (h_subscriptions (fst (publish_one env p slot st)) slot') =
   map_option static_part (h_subscriptions (fst st) slot')"
  by (cases st)
    (auto simp: publish_one_def Let_def set_state_def split: option.split subscription_state.split)

lemma fold_publish_one_static:
  "map_option static_part (h_subscriptions (fst (fold (publish_one env p) slots st)) slot') =
   map_option static_part (h_subscriptions (fst st) slot')"
  by (induction slots arbitrary: st) (simp_all add: publish_one_static)

lemma fold_publish_one_other:
  "slot \<notin> set slots \<Longrightarrow>
     h_subscriptions (fst (fold (publish_one env p) slots st)) slot = h_subscriptions (fst st) slot"
  by (induction slots arbitrary: st) auto

section \<open>The indexed fan-out is the exhaustive one\<close>

definition fan_out_all :: "hub_env \<Rightarrow> published_event \<Rightarrow> hub \<Rightarrow> hub" where
  "fan_out_all env p h =
     (let (h1, overflowed) = fold (publish_one env p) (sorted_list_of_set (dom (h_subscriptions h))) (h, {})
      in fold close_connection (sorted_list_of_set overflowed) h1)"

lemma publish_one_uninterested:
  assumes "map_option static_part (h_subscriptions (fst st) slot) = map_option static_part (h_subscriptions h slot)"
    "\<And>s. h_subscriptions h slot = Some s \<Longrightarrow> \<not> interested env (pe_event p) s"
  shows "publish_one env p slot st = st"
proof (rule publish_one_skip, cases "h_subscriptions (fst st) slot")
  case (Some t)
  with assms(1) obtain s where "h_subscriptions h slot = Some s" "static_part t = static_part s"
    by (cases "h_subscriptions h slot") auto
  with assms(2) [of s] Some show "case h_subscriptions (fst st) slot of
      None \<Rightarrow> True | Some s \<Rightarrow> \<not> interested env (pe_event p) s"
    by (simp add: static_part_interested [of t s])
qed simp

lemma fold_publish_one_filter:
  assumes "\<And>slot. map_option static_part (h_subscriptions (fst st) slot) = map_option static_part (h_subscriptions h slot)"
    "\<And>slot s. h_subscriptions h slot = Some s \<Longrightarrow> interested env (pe_event p) s \<Longrightarrow> P slot"
  shows "fold (publish_one env p) slots st = fold (publish_one env p) (filter P slots) st"
  using assms(1)
proof (induction slots arbitrary: st)
  case (Cons slot slots)
  have eq: "\<And>sl. map_option static_part (h_subscriptions (fst (publish_one env p slot st)) sl) =
      map_option static_part (h_subscriptions h sl)"
    using Cons.prems by (simp add: publish_one_static)
  show ?case
  proof (cases "P slot")
    case True
    then show ?thesis using Cons.IH [OF eq] by simp
  next
    case False
    then have "publish_one env p slot st = st"
      using publish_one_uninterested [OF Cons.prems [of slot]] assms(2) by blast
    then show ?thesis using Cons.IH [OF Cons.prems] False by simp
  qed
qed simp

lemma sorted_list_of_subset:
  fixes A B :: "'a :: linorder set"
  assumes "A \<subseteq> B" "finite B"
  shows "sorted_list_of_set A = filter (\<lambda>x. x \<in> A) (sorted_list_of_set B)"
proof (rule sorted_distinct_set_unique)
  show "sorted (filter (\<lambda>x. x \<in> A) (sorted_list_of_set B))" by (simp add: sorted_wrt_filter)
  show "set (sorted_list_of_set A) = set (filter (\<lambda>x. x \<in> A) (sorted_list_of_set B))"
    using assms finite_subset [OF assms] by auto
qed (simp_all)

section \<open>Delivery to live subscriptions\<close>

text \<open>The connection is already marked for closing, or its queue holds the message.\<close>

definition queued_or_overflowed :: "connection_id \<Rightarrow> outbound \<Rightarrow> hub \<times> connection_id set \<Rightarrow> bool" where
  "queued_or_overflowed cid m st \<longleftrightarrow>
     cid \<in> snd st \<or> (\<exists>c. h_connections (fst st) cid = Some c \<and> m \<in> set (durable (c_outbound c)))"

lemma set_state_connections [simp]: "h_connections (set_state slot s st h) = h_connections h"
  and set_state_max [simp]: "h_max_outbound_bytes (set_state slot s st h) = h_max_outbound_bytes h"
  by (simp_all add: set_state_def)

lemma deliver_keeps:
  assumes "hub_ok env h" "queued_or_overflowed cid m (h, overflowed)"
  shows "queued_or_overflowed cid m (deliver cid' m' (h, overflowed))"
  using assms offer_durable [OF hub_ok_queue [OF assms(1)], of cid' _ m']
  by (auto simp: queued_or_overflowed_def deliver_def split_beta Let_def split: option.splits)

lemma deliver_queues:
  assumes "hub_ok env h" "h_connections h cid = Some c" "\<not> is_ephemeral m"
  shows "queued_or_overflowed cid m (deliver cid m (h, overflowed))"
  using assms(2,3) offer_durable [OF hub_ok_queue [OF assms(1,2)], of m]
  by (auto simp: queued_or_overflowed_def deliver_def split_beta Let_def)

lemma publish_one_keeps:
  assumes "hub_ok env (fst st)" "queued_or_overflowed cid m st"
  shows "queued_or_overflowed cid m (publish_one env p slot st)"
proof -
  obtain h overflowed where st: "st = (h, overflowed)" by (cases st)
  show ?thesis
  proof (cases "\<exists>s w. h_subscriptions h slot = Some s \<and> s_state s = Live w")
    case True
    then obtain s w where s: "h_subscriptions h slot = Some s" "s_state s = Live w" by blast
    define h1 where "h1 = (case pe_seq p of None \<Rightarrow> h | Some seq \<Rightarrow> set_state slot s (Live seq) h)"
    have "hub_ok env h1" using assms(1) st s(1) by (auto simp: h1_def hub_ok_set_state split: option.split)
    moreover have q: "queued_or_overflowed cid m (h1, overflowed)"
      using assms(2) st by (auto simp: h1_def queued_or_overflowed_def split: option.split)
    ultimately have "queued_or_overflowed cid m (deliver cid' m' (h1, overflowed))" for cid' m'
      by (rule deliver_keeps)
    then show ?thesis
      using assms(2) q st s by (auto simp: publish_one_def Let_def h1_def [symmetric])
  next
    case False
    then show ?thesis
      using assms(2) st
      by (auto simp: publish_one_def Let_def queued_or_overflowed_def
          split: option.split subscription_state.split)
  qed
qed

lemma fold_publish_one_keeps:
  "\<lbrakk>hub_ok env (fst st); queued_or_overflowed cid m st\<rbrakk>
     \<Longrightarrow> queued_or_overflowed cid m (fold (publish_one env p) slots st)"
  by (induction slots arbitrary: st) (simp_all add: hub_ok_publish_one publish_one_keeps)

lemma deliver_connections_dom:
  "h_connections (fst (deliver cid m (h, overflowed))) i = None \<longleftrightarrow> h_connections h i = None"
  by (auto simp: deliver_def split_beta Let_def split: option.split)

lemma publish_one_connections_dom:
  "h_connections (fst (publish_one env p slot st)) i = None \<longleftrightarrow> h_connections (fst st) i = None"
  by (cases st)
    (auto simp: publish_one_def Let_def deliver_connections_dom split: option.split subscription_state.split)

lemma fold_publish_one_connections_dom:
  "h_connections (fst (fold (publish_one env p) slots st)) i = None \<longleftrightarrow> h_connections (fst st) i = None"
  by (induction slots arbitrary: st) (simp_all add: publish_one_connections_dom)

lemma publish_one_live:
  assumes "hub_ok env (fst st)" "h_subscriptions (fst st) slot = Some s" "s_state s = Live w"
    "interested env (pe_event p) s" "pe_seq p = Some seq" "w < seq"
    "h_connections (fst st) (fst (s_key s)) = Some c"
  shows "queued_or_overflowed (fst (s_key s)) (live_message env (s_json s) p) (publish_one env p slot st)"
    and "h_subscriptions (fst (publish_one env p slot st)) slot = Some (s\<lparr>s_state := Live seq\<rparr>)"
proof -
  obtain h overflowed where st: "st = (h, overflowed)" by (cases st)
  have "hub_ok env (set_state slot s (Live seq) h)" using assms(1,2) st by (simp add: hub_ok_set_state)
  then have "queued_or_overflowed (fst (s_key s)) (live_message env (s_json s) p)
      (deliver (fst (s_key s)) (live_message env (s_json s) p) (set_state slot s (Live seq) h, overflowed))"
    by (rule deliver_queues) (use assms st in \<open>simp_all add: live_message_def\<close>)
  moreover have "publish_one env p slot st =
      (if fst (s_key s) \<in> overflowed then (set_state slot s (Live seq) h, overflowed)
       else deliver (fst (s_key s)) (live_message env (s_json s) p) (set_state slot s (Live seq) h, overflowed))"
    using assms st by (simp add: publish_one_def interested_def Let_def)
  ultimately show "queued_or_overflowed (fst (s_key s)) (live_message env (s_json s) p) (publish_one env p slot st)"
    and "h_subscriptions (fst (publish_one env p slot st)) slot = Some (s\<lparr>s_state := Live seq\<rparr>)"
    by (simp_all add: queued_or_overflowed_def set_state_def)
qed

lemma fold_remove_subscriptions:
  "tables_ok env h \<Longrightarrow>
     h_subscriptions (fold (\<lambda>sid. remove_subscription (cid, sid)) sids h) slot =
       (case h_subscriptions h slot of
          None \<Rightarrow> None
        | Some s \<Rightarrow> if fst (s_key s) = cid \<and> snd (s_key s) \<in> set sids then None else Some s)"
proof (induction sids arbitrary: h)
  case (Cons sid sids)
  have "slots_ok h" using Cons.prems by (simp add: tables_ok_def)
  then show ?case
    using Cons.IH [OF tables_ok_remove_subscription [OF Cons.prems, of "(cid, sid)"]]
    by (auto simp: remove_subscription_subscriptions split: option.split)
qed (simp split: option.split)

lemma hub_ok_owner:
  assumes "hub_ok env h" "h_subscriptions h slot = Some s"
  obtains c where "h_connections h (fst (s_key s)) = Some c" "snd (s_key s) \<in> c_subscriptions c"
proof -
  have "h_slots h (fst (s_key s), snd (s_key s)) \<noteq> None"
    using assms slots_okD(2) [of h slot s] by (simp add: hub_ok_def tables_ok_def)
  then show thesis using assms(1) that unfolding hub_ok_def owners_ok_def by blast
qed

lemma close_connection_subscriptions:
  assumes "hub_ok env h"
  shows "h_subscriptions (close_connection cid h) slot =
    (case h_subscriptions h slot of
       None \<Rightarrow> None
     | Some s \<Rightarrow> if fst (s_key s) = cid then None else Some s)"
proof (cases "h_connections h cid")
  case None
  then have "fst (s_key s) \<noteq> cid" if "h_subscriptions h slot = Some s" for s
    using hub_ok_owner [OF assms that] by (metis option.distinct(1))
  with None show ?thesis by (cases "h_subscriptions h slot") (simp_all add: close_connection_def)
next
  case (Some c)
  have "finite (c_subscriptions c)"
    using assms Some by (auto simp: hub_ok_def tables_ok_def queues_ok_def)
  moreover have "tables_ok env (h\<lparr>h_connections := (h_connections h)(cid := None), h_closed := h_closed h @ [cid]\<rparr>)"
    using assms by (simp add: hub_ok_def tables_ok_drop_connection)
  moreover have "snd (s_key s) \<in> c_subscriptions c"
    if "h_subscriptions h slot = Some s" "fst (s_key s) = cid" for s
    using hub_ok_owner [OF assms that(1)] that(2) Some by (metis option.inject)
  ultimately show ?thesis
    using Some by (auto simp: close_connection_def fold_remove_subscriptions split: option.split)
qed

lemma fold_close_subscriptions:
  "hub_ok env h \<Longrightarrow>
   h_subscriptions (fold close_connection cids h) slot =
    (case h_subscriptions h slot of
       None \<Rightarrow> None
     | Some s \<Rightarrow> if fst (s_key s) \<in> set cids then None else Some s)"
proof (induction cids arbitrary: h)
  case (Cons cid cids)
  show ?case
    using Cons.IH [OF hub_ok_close_connection [OF Cons.prems]]
    by (auto simp: close_connection_subscriptions [OF Cons.prems] split: option.split)
qed (simp split: option.split)

lemma finite_overflowed:
  "finite (snd st) \<Longrightarrow> finite (snd (fold (publish_one env p) slots st))"
proof (induction slots arbitrary: st)
  case (Cons slot slots)
  have "finite (snd (publish_one env p slot st))"
    using Cons.prems
    by (cases st) (auto simp: publish_one_def deliver_def split_beta Let_def
        split: option.split subscription_state.split)
  with Cons.IH show ?case by simp
qed simp

section \<open>Private events\<close>

lemma fold_publish_one_nobody:
  assumes "\<And>slot s. h_subscriptions (fst st) slot = Some s \<Longrightarrow> \<not> interested env (pe_event p) s"
  shows "fold (publish_one env p) slots st = st"
proof (induction slots)
  case (Cons slot slots)
  have "publish_one env p slot st = st"
    using assms by (intro publish_one_skip) (simp split: option.split)
  with Cons show ?case by simp
qed simp

lemma fan_out_nobody:
  assumes "\<And>slot s. h_subscriptions h slot = Some s \<Longrightarrow> \<not> interested env (pe_event p) s"
  shows "fan_out env p h = h"
  using fold_publish_one_nobody [of "(h, {})" env p] assms by (simp add: fan_out_def)

lemma deliver_other: "i \<noteq> cid \<Longrightarrow> h_connections (fst (deliver cid m (h, overflowed))) i = h_connections h i"
  by (simp add: deliver_def split_beta Let_def split: option.split)

lemma publish_one_connection:
  assumes "\<And>s. h_subscriptions (fst st) slot = Some s \<Longrightarrow> fst (s_key s) = cid \<Longrightarrow>
      \<not> interested env (pe_event p) s"
  shows "h_connections (fst (publish_one env p slot st)) cid = h_connections (fst st) cid"
proof (cases "\<exists>s. h_subscriptions (fst st) slot = Some s \<and> interested env (pe_event p) s")
  case True
  then obtain s where s: "h_subscriptions (fst st) slot = Some s" "fst (s_key s) \<noteq> cid"
    using assms by blast
  then show ?thesis
    by (cases st) (auto simp: publish_one_def Let_def deliver_other split: option.split subscription_state.split)
next
  case False
  then have "publish_one env p slot st = st"
    by (intro publish_one_skip) (auto split: option.split)
  then show ?thesis by simp
qed

lemma fold_publish_one_connection:
  assumes "\<And>slot s. h_subscriptions h slot = Some s \<Longrightarrow> fst (s_key s) = cid \<Longrightarrow>
      \<not> interested env (pe_event p) s"
    "\<And>slot. map_option static_part (h_subscriptions (fst st) slot) = map_option static_part (h_subscriptions h slot)"
  shows "h_connections (fst (fold (publish_one env p) slots st)) cid = h_connections (fst st) cid"
  using assms(2)
proof (induction slots arbitrary: st)
  case (Cons slot slots)
  have "\<not> interested env (pe_event p) s"
    if s: "h_subscriptions (fst st) slot = Some s" "fst (s_key s) = cid" for s
  proof -
    obtain t where t: "h_subscriptions h slot = Some t" "static_part t = static_part s"
      using Cons.prems [of slot] s(1) by (cases "h_subscriptions h slot") auto
    then have "s_key t = s_key s" by (metis static_part_sel(1))
    with assms(1) [OF t(1)] s(2) show ?thesis using static_part_interested [OF t(2)] by simp
  qed
  then have "h_connections (fst (publish_one env p slot st)) cid = h_connections (fst st) cid"
    by (rule publish_one_connection)
  with Cons.IH [of "publish_one env p slot st"] Cons.prems show ?case by (simp add: publish_one_static)
qed simp

lemma fan_out_reader:
  assumes "h_connections h cid = Some c" "h_connections (fan_out env p h) cid = Some c'"
    "c_outbound c' \<noteq> c_outbound c"
  shows "\<exists>slot s. h_subscriptions h slot = Some s \<and> fst (s_key s) = cid \<and> interested env (pe_event p) s"
proof (rule ccontr)
  assume "\<not> ?thesis"
  then have "h_connections (fst (fold (publish_one env p) (candidates h (pe_event p)) (h, {}))) cid
      = h_connections h cid"
    using fold_publish_one_connection [of h cid env p "(h, {})"] by auto
  then show False
    using assms by (auto simp: fan_out_def split_beta fold_close_connections split: if_splits)
qed

section \<open>Properties\<close>

text \<open>C3: publishing through the subscription index has exactly the effect of trying every
  subscription of the hub in slot order.\<close>

theorem fan_out_indexed:
  assumes "hub_ok env h"
  shows "fan_out env p h = fan_out_all env p h"
proof -
  let ?C = "\<Union>k \<in> event_index_keys (pe_event p). bucket h k"
  have "candidates h (pe_event p) = filter (\<lambda>slot. slot \<in> ?C) (sorted_list_of_set (dom (h_subscriptions h)))"
    unfolding candidates_bucket
    using bucket_subset [OF assms] finite_subscriptions [OF assms] by (rule sorted_list_of_subset)
  moreover have "slot \<in> ?C" if "h_subscriptions h slot = Some s" "interested env (pe_event p) s" for slot s
    using candidates_complete [OF assms that(1), of "he_lower env" "pe_event p"] that(2)
    by (simp add: interested_def set_candidates [OF assms])
  ultimately show ?thesis
    using fold_publish_one_filter [of "(h, {})" h env p "\<lambda>slot. slot \<in> ?C"]
    by (simp add: fan_out_def fan_out_all_def)
qed

text \<open>C2: an admitted event with a newer sequence number than a live subscription has seen,
  and which the subscription matches and may read, is put on the send queue of its
  connection and recorded as seen, unless the connection is closed.\<close>

theorem fan_out_live:
  assumes "hub_ok env h" "h_subscriptions h slot = Some s" "s_state s = Live w"
    "interested env (pe_event p) s" "pe_seq p = Some seq" "w < seq"
  shows "h_connections (fan_out env p h) (fst (s_key s)) = None \<or>
    (\<exists>c. h_connections (fan_out env p h) (fst (s_key s)) = Some c
      \<and> live_message env (s_json s) p \<in> set (durable (c_outbound c))
      \<and> h_subscriptions (fan_out env p h) slot = Some (s\<lparr>s_state := Live seq\<rparr>))"
proof -
  let ?cid = "fst (s_key s)" and ?m = "live_message env (s_json s) p"
  have "slot \<in> set (candidates h (pe_event p))"
    using candidates_complete [OF assms(1,2), of "he_lower env" "pe_event p"] assms(4)
    by (simp add: interested_def)
  then obtain before after where split: "candidates h (pe_event p) = before @ slot # after"
    by (meson split_list)
  have "distinct (candidates h (pe_event p))" by (simp add: candidates_def)
  then have fresh: "slot \<notin> set before" "slot \<notin> set after" using split by auto
  define st1 where "st1 = fold (publish_one env p) before (h, {})"
  define st2 where "st2 = publish_one env p slot st1"
  define st3 where "st3 = fold (publish_one env p) after st2"
  have ok1: "hub_ok env (fst st1)" using assms(1) by (simp add: st1_def hub_ok_fold_publish_one)
  have ok2: "hub_ok env (fst st2)" using ok1 by (simp add: st2_def hub_ok_publish_one)
  have ok3: "hub_ok env (fst st3)" using ok2 by (simp add: st3_def hub_ok_fold_publish_one)
  have s1: "h_subscriptions (fst st1) slot = Some s"
    using assms(2) fresh by (simp add: st1_def fold_publish_one_other)
  obtain c where "h_connections (fst st1) ?cid = Some c" using hub_ok_owner [OF ok1 s1] by blast
  note live = publish_one_live [OF ok1 s1 assms(3-6) this, folded st2_def]
  have q: "queued_or_overflowed ?cid ?m st3"
    unfolding st3_def by (rule fold_publish_one_keeps [OF ok2 live(1)])
  have s3: "h_subscriptions (fst st3) slot = Some (s\<lparr>s_state := Live seq\<rparr>)"
    using live(2) fresh by (simp add: st3_def fold_publish_one_other)
  have fin: "finite (snd st3)" by (simp add: st3_def st2_def st1_def finite_overflowed flip: fold_Cons_rev)
  have "fan_out env p h = fold close_connection (sorted_list_of_set (snd st3)) (fst st3)"
    by (simp add: fan_out_def split st1_def st2_def st3_def split_beta)
  then show ?thesis
    using q s3 fin by (auto simp: queued_or_overflowed_def fold_close_connections
        fold_close_subscriptions [OF ok3])
qed

subsection \<open>A small hub\<close>

definition sample_env :: hub_env where
  "sample_env = \<lparr>he_lower = (\<lambda>s. s), he_json_string = (\<lambda>s. s), he_json_event = ev_content\<rparr>"

definition sample_filter :: filter where
  "sample_filter = \<lparr>f_ids = None, f_authors = None, f_kinds = Some [1], f_tags = [],
     f_since = None, f_until = None, f_limit = None, f_search = None\<rparr>"

definition waiting_hub :: hub where
  "waiting_hub = handle sample_env 0 (Register (1, ''s'') 7 [sample_filter] {})
     (handle sample_env 0 (AddConnection 1 8) (new_hub 4 1000))"

definition sample_note :: "string \<Rightarrow> event" where
  "sample_note i = \<lparr>ev_id = i, ev_pubkey = ''k'', ev_created_at = 10, ev_kind = 1, ev_tags = [],
     ev_content = ''hello'', ev_sig = []\<rparr>"

definition live_hub :: hub where
  "live_hub = handle sample_env 0 (HistoryReady (1, ''s'') 7 5 [sample_note ''a'']) waiting_hub"

lemmas send_defs = send_one_def offer_def push_back_def new_queue_def event_message_def
  event_message_from_json_def eose_message_def sample_env_def sample_note_def

lemma waiting_hub_ok: "hub_ok sample_env waiting_hub"
  unfolding waiting_hub_def
  by (intro hub_ok_handle hub_ok_new_hub) (simp_all add: add_connection_def new_hub_def)

lemma live_hub_ok: "hub_ok sample_env live_hub"
  unfolding live_hub_def by (intro hub_ok_handle waiting_hub_ok) simp

lemma waiting_hub_sel:
  "h_slots waiting_hub (1, ''s'') = Some 0"
  "h_subscriptions waiting_hub = [0 \<mapsto> registered sample_env (1, ''s'') 7 [sample_filter] {}]"
  "h_connections waiting_hub 1 = Some \<lparr>c_outbound = new_queue 8, c_subscriptions = {''s''}\<rparr>"
  "h_max_outbound_bytes waiting_hub = 1000"
  "h_recent_ephemeral_order waiting_hub = []" "h_recent_ephemeral_ids waiting_hub = {}"
  by (simp_all add: waiting_hub_def add_connection_def new_hub_def register_def registered_def Let_def)

lemma live_hub_sel:
  "h_subscriptions live_hub =
     [0 \<mapsto> (registered sample_env (1, ''s'') 7 [sample_filter] {})\<lparr>s_state := Live 5\<rparr>]"
  "h_connections live_hub 1 =
     Some \<lparr>c_outbound = \<lparr>q_items =
              [OutText (event_message sample_env ''s'' (sample_note ''a'')), OutText (eose_message sample_env ''s'')],
              q_ephemeral = 0, q_capacity = 8\<rparr>, c_subscriptions = {''s''}\<rparr>"
  "h_max_outbound_bytes live_hub = 1000"
  by (simp_all add: live_hub_def history_ready_def waiting_hub_sel live_after_history_def
      live_high_water_def List.map_filter_def send_defs durable_def Let_def)

lemma sample_env_sel [simp]: "he_json_string sample_env s = s" "he_json_event sample_env e = ev_content e"
  by (simp_all add: sample_env_def)

lemma sample_note_interesting:
  "interested sample_env (sample_note i) ((registered sample_env (1, ''s'') 7 [sample_filter] {})\<lparr>s_state := st\<rparr>)"
  by (simp add: interested_def matches_any_def filter_matches_def list_matches_def sample_filter_def
      sample_note_def event_visible_to_reader_def word_le_nat_alt)

definition admitted :: "string \<Rightarrow> int \<Rightarrow> published_event" where
  "admitted i seq = \<lparr>pe_event = sample_note i, pe_seq = Some seq\<rparr>"

lemma admitted_sel [simp]: "pe_event (admitted i seq) = sample_note i" "pe_seq (admitted i seq) = Some seq"
  by (simp_all add: admitted_def)

theorem fan_out_indexed_witness:
  "fan_out sample_env (admitted ''b'' 6) live_hub = fan_out_all sample_env (admitted ''b'' 6) live_hub"
  by (rule fan_out_indexed [OF live_hub_ok])

theorem fan_out_live_witness:
  "h_connections (fan_out sample_env (admitted ''b'' 6) live_hub) 1 = None \<or>
    (\<exists>c. h_connections (fan_out sample_env (admitted ''b'' 6) live_hub) 1 = Some c
      \<and> live_message sample_env ''s'' (admitted ''b'' 6) \<in> set (durable (c_outbound c))
      \<and> map_option s_state (h_subscriptions (fan_out sample_env (admitted ''b'' 6) live_hub) 0) = Some (Live 6))"
  using fan_out_live [OF live_hub_ok, of 0 _ 5 "admitted ''b'' 6" 6]
  by (auto simp: live_hub_sel sample_note_interesting)

lemma live_hub_candidates: "candidates live_hub (sample_note ''b'') = [0]"
proof -
  have "KindKey 1 \<in> event_index_keys (sample_note ''b'') \<inter> subscription_index_keys [sample_filter]"
    by (simp add: event_index_keys_def sample_note_def subscription_index_keys_def filter_index_keys_def
        sample_filter_def)
  then have "(\<Union>k \<in> event_index_keys (sample_note ''b''). bucket live_hub k) = {0}"
    by (auto simp: bucket_iff [OF live_hub_ok] live_hub_sel split: if_splits)
  then show ?thesis by (simp add: candidates_bucket)
qed

lemma live_hub_fan_out:
  "h_connections (fan_out sample_env (admitted ''b'' 6) live_hub) 1 =
     Some \<lparr>c_outbound = \<lparr>q_items =
              [OutText (event_message sample_env ''s'' (sample_note ''a'')), OutText (eose_message sample_env ''s''),
               live_message sample_env ''s'' (admitted ''b'' 6)],
              q_ephemeral = 0, q_capacity = 8\<rparr>, c_subscriptions = {''s''}\<rparr>"
  using sample_note_interesting [of "''b''" "Live 5"]
  by (simp add: fan_out_def live_hub_candidates publish_one_def live_hub_sel interested_def Let_def
      deliver_def set_state_def live_message_def offer_def push_back_def)
    (simp add: sample_note_def EVENT_MESSAGE_OVERHEAD_def)

end
