(* ===== verification/Hub_Privacy.thy ===== *)
theory Hub_Privacy
  imports Hub_Delivery
begin

text \<open>
  Who may read an event. The visibility rule of the hub is restated per event kind, and
  both ways an event can reach a subscriber are shown to obey it: the fan-out to live
  subscriptions, and the buffers of waiting subscriptions, which the hub sends once the
  stored history arrives.
\<close>

section \<open>The rule\<close>







section \<open>Commands that only remove subscriptions\<close>








section \<open>Buffers\<close>




lemma interested_state [simp]: "interested env e (s\<lparr>s_state := st\<rparr>) = interested env e s"
  by (simp add: interested_def)











section \<open>Queues\<close>










section \<open>Properties\<close>





end
