(* ===== verification/Hub_History.thy ===== *)
theory Hub_History
  imports Hub_Delivery
begin

text \<open>
  The hand-over from stored history to live events: what \<^const>\<open>history_ready\<close> offers to the
  queue of the connection, when the connection is closed, and which buffered events follow
  the history.
\<close>

section \<open>Offering a list of messages\<close>

lemma offer_all_append:
  "offer_all off q (xs @ ys) =
     (if snd (offer_all off q xs) then offer_all off (fst (offer_all off q xs)) ys else offer_all off q xs)"
  by (induction xs arbitrary: q) (auto split: prod.splits)

lemma offer_room: "length (q_items q) < q_capacity q \<Longrightarrow> offer q m = (push_back m q, Queued)"
  by (simp add: offer_def)

lemma push_back_sel [simp]:
  "q_items (push_back m q) = q_items q @ [m]" "q_capacity (push_back m q) = q_capacity q"
  by (simp_all add: push_back_def)

lemma offer_all_room:
  "length (q_items q) + length ms \<le> q_capacity q \<Longrightarrow>
     snd (offer_all offer q ms) \<and> q_items (fst (offer_all offer q ms)) = q_items q @ ms"
proof (induction ms arbitrary: q)
  case (Cons m ms)
  then show ?case using Cons.IH [of "push_back m q"] by (simp add: offer_room)
qed simp

section \<open>Sending a list of messages\<close>

definition accepted :: "hub \<Rightarrow> outbound_queue \<Rightarrow> outbound list \<Rightarrow> bool" where
  "accepted h q ms \<longleftrightarrow>
     list_all (\<lambda>m. outbound_len m \<le> h_max_outbound_bytes h) ms \<and> snd (offer_all offer q ms)"

lemma send_one_accepted:
  assumes "h_connections h cid = Some c" "accepted h (c_outbound c) [m]"
  shows "send_one cid m h =
    (h\<lparr>h_connections := (h_connections h)(cid \<mapsto> c\<lparr>c_outbound := fst (offer (c_outbound c) m)\<rparr>)\<rparr>, True)"
  using assms by (auto simp: send_one_def accepted_def split_beta Let_def split: if_splits)

lemma send_one_refused:
  "h_connections h cid = Some c \<Longrightarrow> \<not> accepted h (c_outbound c) [m] \<Longrightarrow> \<not> snd (send_one cid m h)"
  by (auto simp: send_one_def accepted_def split_beta Let_def split: if_splits)

lemma send_one_fails: "\<not> snd (send_one cid m h) \<Longrightarrow> h_connections (fst (send_one cid m h)) cid = None"
  by (auto simp: send_one_def split_beta Let_def split: option.splits if_splits)

lemma send_one_closed: "h_connections h cid = None \<Longrightarrow> send_one cid m h = (h, False)"
  by (simp add: send_one_def close_connection_def)

lemma send_each_fails: "\<not> snd (send_each cid ms h) \<Longrightarrow> h_connections (fst (send_each cid ms h)) cid = None"
  by (induction ms arbitrary: h) (auto simp: split_beta send_one_fails)

lemma send_each_append:
  "send_each cid (xs @ ys) h =
     (if snd (send_each cid xs h) then send_each cid ys (fst (send_each cid xs h)) else send_each cid xs h)"
  by (induction xs arbitrary: h) (simp_all add: split_beta)

lemma send_each_single: "send_each cid [m] h = send_one cid m h"
  by (simp add: split_beta prod_eq_iff)

lemma accepted_Cons:
  "accepted h q (m # ms) \<longleftrightarrow> accepted h q [m] \<and> accepted h (fst (offer q m)) ms"
  by (auto simp: accepted_def split_beta)

text \<open>All messages are accepted and queued in turn, or the connection is closed.\<close>

definition set_queue :: "connection_id \<Rightarrow> connection_sink \<Rightarrow> outbound_queue \<Rightarrow> hub \<Rightarrow> hub" where
  "set_queue cid c q h = h\<lparr>h_connections := (h_connections h)(cid \<mapsto> c\<lparr>c_outbound := q\<rparr>)\<rparr>"

lemma set_queue_simps [simp]:
  "h_connections (set_queue cid c q h) cid = Some (c\<lparr>c_outbound := q\<rparr>)"
  "h_subscriptions (set_queue cid c q h) = h_subscriptions h"
  "accepted (set_queue cid c q h) q' ms = accepted h q' ms"
  "set_queue cid (c\<lparr>c_outbound := q\<rparr>) q' (set_queue cid c q h) = set_queue cid c q' h"
  by (simp_all add: set_queue_def accepted_def)

lemma set_queue_same: "h_connections h cid = Some c \<Longrightarrow> set_queue cid c (c_outbound c) h = h"
  by (simp add: set_queue_def fun_upd_idem)

lemma send_each_accepted:
  "\<lbrakk>h_connections h cid = Some c; accepted h (c_outbound c) ms\<rbrakk> \<Longrightarrow>
     send_each cid ms h = (set_queue cid c (fst (offer_all offer (c_outbound c) ms)) h, True)"
proof (induction ms arbitrary: h c)
  case Nil
  then show ?case by (simp add: set_queue_same)
next
  case (Cons m ms)
  let ?q = "fst (offer (c_outbound c) m)"
  have acc: "accepted h (c_outbound c) [m]" "accepted h ?q ms"
    using Cons.prems(2) accepted_Cons [of h _ m ms] by blast+
  have "send_one cid m h = (set_queue cid c ?q h, True)"
    using send_one_accepted [OF Cons.prems(1) acc(1)] by (simp add: set_queue_def)
  moreover have "snd (offer (c_outbound c) m) \<noteq> Full" using acc(1) by (auto simp: accepted_def split_beta)
  ultimately show ?case
    using Cons.IH [of "set_queue cid c ?q h" "c\<lparr>c_outbound := ?q\<rparr>"] acc(2) by (simp add: split_beta)
qed

lemma send_each_refused:
  "\<lbrakk>h_connections h cid = Some c; \<not> accepted h (c_outbound c) ms\<rbrakk> \<Longrightarrow> \<not> snd (send_each cid ms h)"
proof (induction ms arbitrary: h c)
  case Nil
  then show ?case by (simp add: accepted_def)
next
  case (Cons m ms)
  let ?q = "fst (offer (c_outbound c) m)"
  show ?case
  proof (cases "accepted h (c_outbound c) [m]")
    case True
    then have "\<not> accepted h ?q ms" using Cons.prems(2) accepted_Cons [of h _ m ms] by blast
    moreover have "send_one cid m h = (set_queue cid c ?q h, True)"
      using send_one_accepted [OF Cons.prems(1) True] by (simp add: set_queue_def)
    ultimately show ?thesis using Cons.IH [of "set_queue cid c ?q h" "c\<lparr>c_outbound := ?q\<rparr>"] by simp
  next
    case False
    then show ?thesis using send_one_refused [OF Cons.prems(1)] by (simp add: split_beta)
  qed
qed

lemma send_each_result:
  assumes "h_connections h cid = Some c"
  shows "h_connections (fst (send_each cid ms h)) cid =
      (if accepted h (c_outbound c) ms
       then Some (c\<lparr>c_outbound := fst (offer_all offer (c_outbound c) ms)\<rparr>) else None)"
    and "accepted h (c_outbound c) ms \<Longrightarrow> h_subscriptions (fst (send_each cid ms h)) = h_subscriptions h"
  using send_each_accepted [OF assms, of ms] send_each_fails [OF send_each_refused [OF assms, of ms]] by simp_all

section \<open>The hand-over\<close>

lemma live_after_history_filter:
  "live_after_history events high_water buffered =
     filter (\<lambda>p. ev_id (pe_event p) \<notin> ev_id ` set events \<and> (\<forall>seq. pe_seq p = Some seq \<longrightarrow> high_water < seq)) buffered"
  by (auto simp: live_after_history_def is_none_or_def intro!: filter_cong split: option.split)

lemma live_high_water_Max:
  "live_high_water high_water live = Max (insert high_water {seq. \<exists>p \<in> set live. pe_seq p = Some seq})"
proof -
  have "{seq. \<exists>p \<in> set live. pe_seq p = Some seq} = set (List.map_filter pe_seq live)"
    by (force simp: List.map_filter_def)
  then show ?thesis
    using Max.set_eq_fold [of high_water "List.map_filter pe_seq live"] by (simp add: live_high_water_def)
qed

text \<open>The three rounds of sending are one round over all messages.\<close>

lemma history_ready_send_each:
  assumes "h_slots h key = Some slot" "h_subscriptions h slot = Some s"
    "s_state s = Buffering buffered ids" "s_generation s = generation"
  shows "history_ready env key generation high_water events h =
    fst (send_each (fst key)
      (map (\<lambda>e. OutText (event_message env (snd key) e)) events @ [OutText (eose_message env (snd key))]
        @ map (live_message env (s_json s)) (live_after_history events high_water buffered))
      (set_state slot s (Live (live_high_water high_water (live_after_history events high_water buffered))) h))"
proof -
  let ?cid = "fst key" and ?eose = "OutText (eose_message env (snd key))"
    and ?stored = "map (\<lambda>e. OutText (event_message env (snd key) e)) events"
    and ?live = "map (live_message env (s_json s)) (live_after_history events high_water buffered)"
  define h1 where "h1 = set_state slot s (Live (live_high_water high_water (live_after_history events high_water buffered))) h"
  define r where "r = send_each ?cid ?stored h1"
  define r' where "r' = send_one ?cid ?eose (fst r)"
  have "history_ready env key generation high_water events h
      = (if snd r' then fst (send_each ?cid ?live (fst r')) else fst r')"
    using assms by (simp add: history_ready_def h1_def set_state_def r_def r'_def split_beta Let_def)
  moreover have "r' = (fst r, False)" if "\<not> snd r"
    using send_each_fails [of ?cid ?stored h1] that by (simp add: r_def r'_def send_one_closed)
  ultimately show ?thesis
    unfolding h1_def [symmetric] send_each_append send_each_single r_def [symmetric] r'_def [symmetric] by auto
qed

section \<open>Properties\<close>

text \<open>C4: when stored history arrives for a waiting subscription, its connection is offered, in this
  order, the stored events, the end-of-history marker and all buffered events, admitted and
  ephemeral, that the history does not cover: whose ID is not among the stored ones and
  whose sequence number, if any, is above the mark of the history. If one of these messages is too
  long or refused by the queue, the connection is closed. Otherwise its queue is the one that takes
  them all in turn: its durable messages are the old ones followed by the durable ones among
  these, it holds every one of them when it has room for all, and the subscription is live
  from the highest sequence number handed over. No event ID occurs twice among the buffered events
  handed over, and none of them is stored.\<close>

theorem history_hand_over:
  assumes "hub_ok env h" "h_slots h key = Some slot" "h_subscriptions h slot = Some s"
    "s_state s = Buffering buffered ids" "s_generation s = generation"
    "live = filter (\<lambda>p. ev_id (pe_event p) \<notin> ev_id ` set events
                    \<and> (\<forall>seq. pe_seq p = Some seq \<longrightarrow> high_water < seq)) buffered"
    "ms = map (\<lambda>e. OutText (event_message env (snd key) e)) events
            @ [OutText (eose_message env (snd key))]
            @ map (\<lambda>p. OutEvent (s_json s) (he_json_event env (pe_event p)) (pe_seq p = None)) live"
    "h' = history_ready env key generation high_water events h"
  shows "\<exists>c. h_connections h (fst key) = Some c
    \<and> (if list_all (\<lambda>m. outbound_len m \<le> h_max_outbound_bytes h) ms \<and> snd (offer_all offer (c_outbound c) ms)
       then h_connections h' (fst key) = Some (c\<lparr>c_outbound := fst (offer_all offer (c_outbound c) ms)\<rparr>)
         \<and> durable (fst (offer_all offer (c_outbound c) ms))
             = durable (c_outbound c) @ filter (\<lambda>m. \<not> is_ephemeral m) ms
         \<and> h_subscriptions h' slot = Some (s\<lparr>s_state :=
             Live (Max (insert high_water {seq. \<exists>p \<in> set live. pe_seq p = Some seq}))\<rparr>)
       else h_connections h' (fst key) = None)
    \<and> (length (q_items (c_outbound c)) + length ms \<le> q_capacity (c_outbound c) \<longrightarrow>
         snd (offer_all offer (c_outbound c) ms)
         \<and> q_items (fst (offer_all offer (c_outbound c) ms)) = q_items (c_outbound c) @ ms)
    \<and> distinct (map (\<lambda>p. ev_id (pe_event p)) live)
    \<and> ev_id ` set events \<inter> (\<lambda>p. ev_id (pe_event p)) ` set live = {}"
proof -
  have live: "live_after_history events high_water buffered = live" by (simp add: assms(6) live_after_history_filter)
  have "s_key s = key" using assms(1-3) slots_okD(1) [of h key slot] by (auto simp: hub_ok_def tables_ok_def)
  then obtain c where c: "h_connections h (fst key) = Some c" using hub_ok_owner [OF assms(1,3)] by metis
  define h1 where "h1 = set_state slot s (Live (live_high_water high_water live)) h"
  have h': "h' = fst (send_each (fst key) ms h1)"
    using history_ready_send_each [OF assms(2-5), of env high_water events]
    unfolding assms(7,8) h1_def live live_message_def .
  have c1: "h_connections h1 (fst key) = Some c" using c by (simp add: h1_def)
  have acc: "accepted h1 (c_outbound c) ms \<longleftrightarrow>
      list_all (\<lambda>m. outbound_len m \<le> h_max_outbound_bytes h) ms \<and> snd (offer_all offer (c_outbound c) ms)"
    by (simp add: accepted_def h1_def)
  have "h_subscriptions h1 slot = Some (s\<lparr>s_state :=
      Live (Max (insert high_water {seq. \<exists>p \<in> set live. pe_seq p = Some seq}))\<rparr>)"
    by (simp add: h1_def set_state_def live_high_water_Max)
  then have sub: "accepted h1 (c_outbound c) ms \<Longrightarrow> h_subscriptions h' slot = Some (s\<lparr>s_state :=
      Live (Max (insert high_water {seq. \<exists>p \<in> set live. pe_seq p = Some seq}))\<rparr>)"
    unfolding h' using send_each_result(2) [OF c1] by simp
  have "distinct (map (\<lambda>p. ev_id (pe_event p)) buffered)"
    using hub_ok_state [OF assms(1,3)] assms(4) by simp
  then have dist: "distinct (map (\<lambda>p. ev_id (pe_event p)) live)" unfolding assms(6) by (rule distinct_map_filter)
  have "ev_id (pe_event p) \<noteq> ev_id e" if "p \<in> set live" "e \<in> set events" for p e
    using that by (auto simp: assms(6))
  then have disj: "ev_id ` set events \<inter> (\<lambda>p. ev_id (pe_event p)) ` set live = {}" by fastforce
  note res = send_each_result(1) [OF c1, of ms, folded h']
    and kept = outq.offer_all_kept [OF hub_ok_queue [OF assms(1) c], of ms]
  show ?thesis
  proof (rule exI [of _ c], intro conjI)
    show "if list_all (\<lambda>m. outbound_len m \<le> h_max_outbound_bytes h) ms \<and> snd (offer_all offer (c_outbound c) ms)
       then h_connections h' (fst key) = Some (c\<lparr>c_outbound := fst (offer_all offer (c_outbound c) ms)\<rparr>)
         \<and> durable (fst (offer_all offer (c_outbound c) ms))
             = durable (c_outbound c) @ filter (\<lambda>m. \<not> is_ephemeral m) ms
         \<and> h_subscriptions h' slot = Some (s\<lparr>s_state :=
             Live (Max (insert high_water {seq. \<exists>p \<in> set live. pe_seq p = Some seq}))\<rparr>)
       else h_connections h' (fst key) = None"
      unfolding acc [symmetric] using res sub kept acc by (cases "accepted h1 (c_outbound c) ms") simp_all
  qed (use c dist disj offer_all_room [of "c_outbound c" ms] in blast)+
qed

definition buffering_hub :: hub where
  "buffering_hub = set_state 0 (registered sample_env (1, ''s'') 7 [sample_filter] {})
     (Buffering [admitted ''a'' 4, \<lparr>pe_event = sample_note ''b'', pe_seq = None\<rparr>] {''a'', ''b''}) waiting_hub"

lemma buffering_hub_ok: "hub_ok sample_env buffering_hub"
  unfolding buffering_hub_def
  by (rule hub_ok_set_state [OF waiting_hub_ok])
    (simp_all add: waiting_hub_sel admitted_def sample_note_def waiting_hub_def add_connection_def new_hub_def
      register_def Let_def)

theorem history_hand_over_witness:
  "\<exists>c'. h_connections (history_ready sample_env (1, ''s'') 7 5 [sample_note ''a''] buffering_hub) 1 = Some c'
     \<and> q_items (c_outbound c') =
         [OutText (event_message sample_env ''s'' (sample_note ''a'')), OutText (eose_message sample_env ''s''),
          OutEvent ''s'' ''hello'' True]"
proof -
  let ?s = "(registered sample_env (1, ''s'') 7 [sample_filter] {})\<lparr>s_state :=
    Buffering [admitted ''a'' 4, \<lparr>pe_event = sample_note ''b'', pe_seq = None\<rparr>] {''a'', ''b''}\<rparr>"
  have sel: "h_slots buffering_hub (1, ''s'') = Some 0" "h_subscriptions buffering_hub 0 = Some ?s"
    "h_connections buffering_hub 1 = Some \<lparr>c_outbound = new_queue 8, c_subscriptions = {''s''}\<rparr>"
    "h_max_outbound_bytes buffering_hub = 1000"
    by (simp_all add: buffering_hub_def set_state_def waiting_hub_sel)
  let ?b = "[admitted ''a'' 4, \<lparr>pe_event = sample_note ''b'', pe_seq = None\<rparr>]"
    and ?live = "[\<lparr>pe_event = sample_note ''b'', pe_seq = None\<rparr>] :: published_event list"
    and ?ms = "[OutText (event_message sample_env ''s'' (sample_note ''a'')), OutText (eose_message sample_env ''s''),
          OutEvent ''s'' ''hello'' True]"
  have live: "?live = filter (\<lambda>p. ev_id (pe_event p) \<notin> ev_id ` set [sample_note ''a'']
      \<and> (\<forall>seq. pe_seq p = Some seq \<longrightarrow> 5 < seq)) ?b"
    and ms: "?ms = map (\<lambda>e. OutText (event_message sample_env (snd (1 :: u64, ''s'')) e)) [sample_note ''a'']
            @ [OutText (eose_message sample_env (snd (1 :: u64, ''s'')))]
            @ map (\<lambda>p. OutEvent (s_json ?s) (he_json_event sample_env (pe_event p)) (pe_seq p = None)) ?live"
    by (simp_all add: sample_note_def)
  have fits: "list_all (\<lambda>m. outbound_len m \<le> 1000) ?ms"
    by (simp add: sample_note_def event_message_def eose_message_def event_message_from_json_def
        EVENT_MESSAGE_OVERHEAD_def)
  show ?thesis
    using history_hand_over [OF buffering_hub_ok sel(1,2) _ _ live ms refl] fits
    by (simp only: sel fst_conv option.inject) (simp add: new_queue_def)
qed

end
