(* ===== verification/Hub_Dedup.thy ===== *)
theory Hub_Dedup
  imports Hub_Delivery
begin

text \<open>
  Suppression of repeated ephemeral events: the hub remembers the IDs of the ephemeral
  events it accepted, each with the time it was seen. An accepted ID stays in that window
  while the hub handles any other commands, until its time is over or too many newer IDs
  push it out, and a repeat in between changes nothing but the window itself.
\<close>

section \<open>Operations that leave the window alone\<close>

definition recent :: "hub \<Rightarrow> (string \<times> instant) list \<times> string set" where
  "recent h = (h_recent_ephemeral_order h, h_recent_ephemeral_ids h)"

lemma recent_update [simp]:
  "recent (h\<lparr>h_connections := conns\<rparr>) = recent h"
  "recent (h\<lparr>h_connections := conns, h_closed := log\<rparr>) = recent h"
  "recent (h\<lparr>h_subscriptions := subs\<rparr>) = recent h"
  "recent (set_state slot s st h) = recent h"
  "recent (remove_subscription key h) = recent h"
  by (simp_all add: recent_def set_state_def)

lemma fold_remove_recent [simp]:
  "recent (fold (\<lambda>sid. remove_subscription (cid, sid)) sids h) = recent h"
  by (induction sids arbitrary: h) simp_all

lemma close_connection_recent [simp]: "recent (close_connection cid h) = recent h"
  by (simp add: close_connection_def split: option.split)

lemma fold_close_recent [simp]: "recent (fold close_connection cids h) = recent h"
  by (induction cids arbitrary: h) simp_all

lemma send_one_recent [simp]: "recent (fst (send_one cid m h)) = recent h"
  by (simp add: send_one_def split_beta Let_def split: option.split)

lemma send_each_recent [simp]: "recent (fst (send_each cid ms h)) = recent h"
proof (induction ms arbitrary: h)
  case (Cons m ms)
  have "recent (fst (send_one cid m h)) = recent h" by simp
  then show ?case by (simp add: Cons.IH split_beta)
qed simp

lemma register_recent [simp]: "recent (fst (register env key generation filters readers h)) = recent h"
  by (simp add: register_def recent_def Let_def)

lemma add_connection_recent [simp]: "recent (add_connection cid capacity h) = recent h"
  by (simp add: add_connection_def Let_def)

lemma history_ready_recent [simp]: "recent (history_ready env key generation high_water events h) = recent h"
  by (simp add: history_ready_def split_beta Let_def split: option.split subscription_state.split)

lemma deliver_recent [simp]: "recent (fst (deliver cid m (h, overflowed))) = recent h"
  by (simp add: deliver_def split_beta Let_def split: option.split)

lemma publish_one_recent [simp]: "recent (fst (publish_one env p slot st)) = recent (fst st)"
  by (cases st) (auto simp: publish_one_def Let_def split: option.split subscription_state.split)

lemma fold_publish_one_recent [simp]:
  "recent (fst (fold (publish_one env p) slots st)) = recent (fst st)"
  by (induction slots arbitrary: st) simp_all

lemma fan_out_recent [simp]: "recent (fan_out env p h) = recent h"
  by (simp add: fan_out_def split_beta)

section \<open>Runs\<close>

text \<open>
  What happens at the hub between two publications: it handles commands, each at a reading
  of the clock, and the task of a connection takes the next message from its queue.
\<close>

datatype hub_action =
    Handle instant hub_command
  | Write connection_id

fun act :: "hub_env \<Rightarrow> hub_action \<Rightarrow> hub \<Rightarrow> hub" where
  "act env (Handle clock cmd) h = handle env clock cmd h"
| "act env (Write cid) h =
     (case h_connections h cid of
        None \<Rightarrow> h
      | Some c \<Rightarrow> h\<lparr>h_connections := (h_connections h)(cid \<mapsto> c\<lparr>c_outbound := fst (pop (c_outbound c))\<rparr>)\<rparr>)"

definition run :: "hub_env \<Rightarrow> hub_action list \<Rightarrow> hub \<Rightarrow> hub" where
  "run env actions h = fold (act env) actions h"

text \<open>The IDs of the ephemeral events published in a run, and whether it lies in a window.\<close>

fun ephemeral_id :: "hub_action \<Rightarrow> string option" where
  "ephemeral_id (Handle clock (Publish p now)) =
     (if pe_seq p = None then Some (ev_id (pe_event p)) else None)"
| "ephemeral_id _ = None"

definition ephemeral_ids :: "hub_action list \<Rightarrow> string set" where
  "ephemeral_ids actions = set (List.map_filter ephemeral_id actions)"

fun in_window :: "instant \<Rightarrow> nat \<Rightarrow> hub_action \<Rightarrow> bool" where
  "in_window start width (Handle clock cmd) \<longleftrightarrow> clock - start < width"
| "in_window start width (Write cid) \<longleftrightarrow> True"

lemma ephemeral_ids_simps [simp]:
  "ephemeral_ids [] = {}"
  "ephemeral_ids (a # actions) =
     (case ephemeral_id a of None \<Rightarrow> ephemeral_ids actions | Some j \<Rightarrow> insert j (ephemeral_ids actions))"
  by (simp_all add: ephemeral_ids_def List.map_filter_def split: option.split)

lemma finite_ephemeral_ids [simp]: "finite (ephemeral_ids actions)"
  by (simp add: ephemeral_ids_def)

section \<open>An accepted ID stays in the window\<close>

text \<open>The ID is in the window since \<open>start\<close>, and the newer ones are among \<open>others\<close>.\<close>

definition remembered :: "string \<Rightarrow> instant \<Rightarrow> string set \<Rightarrow> hub \<Rightarrow> bool" where
  "remembered i start others h \<longleftrightarrow>
     recent_ok h
     \<and> (\<exists>before after. h_recent_ephemeral_order h = before @ (i, start) # after \<and> fst ` set after \<subseteq> others)"

lemma remembered_recent:
  "\<lbrakk>recent h' = recent h; remembered i start others h\<rbrakk> \<Longrightarrow> remembered i start others h'"
  by (simp add: remembered_def recent_def recent_ok_def)

lemma remembered_newer:
  assumes "recent_ok h" "h_recent_ephemeral_order h = before @ (i, start) # after"
    "fst ` set after \<subseteq> others" "finite others"
  shows "length after \<le> card (others - {i})"
proof -
  have "distinct (map fst after)" "i \<notin> fst ` set after"
    using assms(1,2) by (auto simp: recent_ok_def)
  then have "length after = card (fst ` set after)" "fst ` set after \<subseteq> others - {i}"
    using assms(3) distinct_card [of "map fst after"] by auto
  then show ?thesis using assms(4) by (simp add: card_mono)
qed

lemma drop_expired_keeps:
  assumes "clock - start < EPHEMERAL_DEDUP_WINDOW" "Suc (length after) < MAX_RECENT_EPHEMERAL_IDS"
  shows "\<exists>before'. fst (drop_expired_ephemeral clock (before @ (i, start) # after) ids) = before' @ (i, start) # after"
proof (induction before arbitrary: ids)
  case Nil
  have "drop_expired_ephemeral clock ([] @ (i, start) # after) ids = ((i, start) # after, ids)"
    using assms by simp
  then show ?case by (metis append_Nil fst_conv)
next
  case (Cons x before)
  obtain j t where x: "x = (j, t)" by (cases x)
  show ?case
  proof (cases "EPHEMERAL_DEDUP_WINDOW \<le> clock - t
      \<or> MAX_RECENT_EPHEMERAL_IDS \<le> Suc (length (before @ (i, start) # after))")
    case True
    then have "drop_expired_ephemeral clock ((x # before) @ (i, start) # after) ids
        = drop_expired_ephemeral clock (before @ (i, start) # after) (ids - {j})"
      by (auto simp: x)
    with Cons.IH [of "ids - {j}"] show ?thesis by simp
  next
    case False
    then have "fst (drop_expired_ephemeral clock ((x # before) @ (i, start) # after) ids)
        = (x # before) @ (i, start) # after"
      by (simp add: x)
    then show ?thesis by blast
  qed
qed

lemma accept_remembered:
  assumes "remembered i start others h" "clock - start < EPHEMERAL_DEDUP_WINDOW" "finite others"
    "Suc (card (others - {i})) < MAX_RECENT_EPHEMERAL_IDS"
  shows "\<not> snd (accept_ephemeral_id clock i h)"
    and "j \<in> others \<Longrightarrow> remembered i start others (fst (accept_ephemeral_id clock j h))"
proof -
  obtain before after where o: "recent_ok h" "h_recent_ephemeral_order h = before @ (i, start) # after"
    "fst ` set after \<subseteq> others"
    using assms(1) by (auto simp: remembered_def)
  obtain order ids where d:
    "drop_expired_ephemeral clock (h_recent_ephemeral_order h) (h_recent_ephemeral_ids h) = (order, ids)"
    by fastforce
  have "Suc (length after) < MAX_RECENT_EPHEMERAL_IDS"
    using remembered_newer [OF o assms(3)] assms(4) by simp
  then obtain before' where b: "order = before' @ (i, start) # after"
    using drop_expired_keeps [OF assms(2), of after before i "h_recent_ephemeral_ids h"] d o(2) by auto
  have "ids = fst ` set order" using drop_expired_ok [OF _ _ d] o(1) by (simp add: recent_ok_def)
  then have "i \<in> ids" by (simp add: b)
  then show "\<not> snd (accept_ephemeral_id clock i h)" by (simp add: accept_ephemeral_id_def d)
  assume "j \<in> others"
  then have "\<exists>after'. h_recent_ephemeral_order (fst (accept_ephemeral_id clock j h)) = before' @ (i, start) # after'
      \<and> fst ` set after' \<subseteq> others"
    using b o(3) by (auto simp: accept_ephemeral_id_def d)
  then show "remembered i start others (fst (accept_ephemeral_id clock j h))"
    using recent_ok_accept [OF o(1)] by (auto simp: remembered_def)
qed

lemma accept_starts:
  assumes "recent_ok h" "snd (accept_ephemeral_id clock i h)"
  shows "remembered i clock others (fst (accept_ephemeral_id clock i h))"
proof -
  have "\<exists>before. h_recent_ephemeral_order (fst (accept_ephemeral_id clock i h)) = before @ (i, clock) # []"
    using assms(2) by (auto simp: accept_ephemeral_id_def split_beta Let_def split: if_splits)
  then show ?thesis using recent_ok_accept [OF assms(1), of clock i] by (fastforce simp: remembered_def)
qed

lemma same_window: "\<exists>order ids. h = h\<lparr>h_recent_ephemeral_order := order, h_recent_ephemeral_ids := ids\<rparr>"
  by (rule exI [of _ "h_recent_ephemeral_order h"], rule exI [of _ "h_recent_ephemeral_ids h"]) simp

text \<open>A publication, seen from the window.\<close>

lemma publish_recent:
  "recent (publish env clock p now h) =
     (if ev_kind (pe_event p) = 22242 \<or> is_expired (pe_event p) now \<or> pe_seq p \<noteq> None then recent h
      else recent (fst (accept_ephemeral_id clock (ev_id (pe_event p)) h)))"
  by (simp add: publish_def split_beta Let_def)

lemma act_recent:
  assumes "\<And>clock p now. a \<noteq> Handle clock (Publish p now)"
  shows "recent (act env a h) = recent h"
proof (cases a)
  case (Handle clock cmd)
  then show ?thesis using assms by (cases cmd) auto
qed (simp split: option.split)

lemma act_remembered:
  assumes "remembered i start others h" "in_window start EPHEMERAL_DEDUP_WINDOW a" "finite others"
    "Suc (card (others - {i})) < MAX_RECENT_EPHEMERAL_IDS"
    "case ephemeral_id a of None \<Rightarrow> True | Some j \<Rightarrow> j \<in> others"
  shows "remembered i start others (act env a h)"
proof (cases "\<exists>clock p now. a = Handle clock (Publish p now)")
  case True
  then obtain clock p now where a: "a = Handle clock (Publish p now)" by blast
  show ?thesis
  proof (cases "ev_kind (pe_event p) = 22242 \<or> is_expired (pe_event p) now \<or> pe_seq p \<noteq> None")
    case True
    then have "recent (act env a h) = recent h" by (simp add: a publish_recent)
    then show ?thesis using assms(1) by (rule remembered_recent)
  next
    case False
    then have "recent (act env a h) = recent (fst (accept_ephemeral_id clock (ev_id (pe_event p)) h))"
      by (simp add: a publish_recent)
    moreover have "remembered i start others (fst (accept_ephemeral_id clock (ev_id (pe_event p)) h))"
      using accept_remembered(2) [OF assms(1) _ assms(3,4)] assms(2,5) False a by simp
    ultimately show ?thesis by (rule remembered_recent)
  qed
next
  case False
  then have "recent (act env a h) = recent h" by (intro act_recent) blast
  then show ?thesis using assms(1) by (rule remembered_recent)
qed

lemma run_remembered:
  assumes "finite others" "Suc (card (others - {i})) < MAX_RECENT_EPHEMERAL_IDS"
  shows "\<lbrakk>remembered i start others h; list_all (in_window start EPHEMERAL_DEDUP_WINDOW) actions;
     ephemeral_ids actions \<subseteq> others\<rbrakk> \<Longrightarrow> remembered i start others (run env actions h)"
proof (induction actions arbitrary: h)
  case (Cons a actions)
  have "remembered i start others (act env a h)"
    by (rule act_remembered [OF Cons.prems(1) _ assms]) (use Cons.prems in \<open>auto split: option.splits\<close>)
  with Cons show ?case by (auto simp: run_def split: option.splits)
qed (simp add: run_def)

section \<open>Properties\<close>

text \<open>C6: an ephemeral event that was accepted is not delivered again: whatever commands the
  hub handles and whatever messages are written in the 60 seconds after it, as long as at most
  4094 other ephemeral event IDs are published among them, publishing an ephemeral event with
  its ID again in these 60 seconds changes nothing but the window of remembered IDs. (The window
  holds 4096 IDs and makes room before it looks an ID up, so more IDs push the first one out.)\<close>

theorem accept_ephemeral_once:
  assumes "hub_ok env h" "pe_seq p = None" "ev_kind (pe_event p) \<noteq> 22242" "\<not> is_expired (pe_event p) now"
    "snd (accept_ephemeral_id clock (ev_id (pe_event p)) h)"
    "list_all (in_window clock (from_secs 60)) actions"
    "card (ephemeral_ids actions - {ev_id (pe_event p)}) \<le> 4094"
    "clock' - clock < from_secs 60" "pe_seq p' = None" "ev_id (pe_event p') = ev_id (pe_event p)"
    "h' = run env actions (publish env clock p now h)"
  shows "\<exists>order ids. publish env clock' p' now' h' =
    h'\<lparr>h_recent_ephemeral_order := order, h_recent_ephemeral_ids := ids\<rparr>"
proof -
  let ?i = "ev_id (pe_event p)" and ?J = "ephemeral_ids actions"
  have window: "EPHEMERAL_DEDUP_WINDOW = from_secs 60" by (simp add: EPHEMERAL_DEDUP_WINDOW_def)
  have room: "Suc (card (?J - {?i})) < MAX_RECENT_EPHEMERAL_IDS"
    using assms(7) by (simp add: MAX_RECENT_EPHEMERAL_IDS_def)
  have start: "remembered ?i clock ?J (fst (accept_ephemeral_id clock ?i h))"
    by (rule accept_starts) (use assms(1,5) in \<open>simp_all add: hub_ok_def tables_ok_def\<close>)
  have "remembered ?i clock ?J (publish env clock p now h)"
    by (rule remembered_recent [OF _ start]) (use assms(2-4) in \<open>simp add: publish_recent\<close>)
  then have "remembered ?i clock ?J h'"
    unfolding assms(11) by (rule run_remembered [OF finite_ephemeral_ids room]) (simp_all add: assms(6) window)
  then have "\<not> snd (accept_ephemeral_id clock' ?i h')"
    by (rule accept_remembered(1)) (simp_all add: assms(8) window room)
  then have "publish env clock' p' now' h' = h' \<or> publish env clock' p' now' h' = fst (accept_ephemeral_id clock' ?i h')"
    using assms(9,10) by (simp add: publish_def split_beta Let_def)
  then show ?thesis using accept_window [of clock' ?i h'] same_window [of h'] by (elim disjE) simp_all
qed

definition sample_signal :: "string \<Rightarrow> published_event" where
  "sample_signal i = \<lparr>pe_event = (sample_note i)\<lparr>ev_kind := 20001\<rparr>, pe_seq = None\<rparr>"

theorem accept_ephemeral_once_witness:
  "let h = run sample_env [Write 1, Handle 130 (Publish (sample_signal ''y'') 0), Handle 140 (RemoveConnection 1)]
             (publish sample_env 100 (sample_signal ''x'') 0 waiting_hub)
   in \<exists>order ids. publish sample_env 159 (sample_signal ''x'') 0 h =
        h\<lparr>h_recent_ephemeral_order := order, h_recent_ephemeral_ids := ids\<rparr>"
proof -
  have "snd (accept_ephemeral_id 100 ''x'' waiting_hub)"
    by (simp add: accept_ephemeral_id_def waiting_hub_sel)
  moreover have "\<not> is_expired (pe_event (sample_signal ''x'')) 0"
    by (simp add: sample_signal_def sample_note_def is_expired_def expiration_def)
  ultimately show ?thesis
    unfolding Let_def
    by (intro accept_ephemeral_once [OF waiting_hub_ok, where p = "sample_signal ''x''" and clock = 100
          and now = 0 and actions = "[Write 1, Handle 130 (Publish (sample_signal ''y'') 0), Handle 140 (RemoveConnection 1)]"])
      (simp_all add: sample_signal_def sample_note_def from_secs_def)
qed

end
