(* ===== verification/Rate_Limit.thy ===== *)
theory Rate_Limit
  imports Prelude "HOL-Library.Multiset"
begin

text \<open>
  The rate limiter of \<open>immortal-relay/src/gateway/rate.rs\<close>: connection permits per
  address and fixed-window counters per address or key. An operation is a function of one
  reading of the monotonic clock. The mutex serialises the operations; a poisoned mutex
  is not modelled, since no operation can panic while it holds the lock.
\<close>

section \<open>State\<close>

datatype ip_addr = V4 u32 | V6 "128 word"

record counter =
  ct_started :: instant
  ct_count :: u32

record rate_state =
  rs_connections :: "ip_addr \<rightharpoonup> nat"
  rs_event_ip :: "ip_addr \<rightharpoonup> counter"
  rs_event_pubkey :: "string \<rightharpoonup> counter"
  rs_gift_wrap_recipient :: "string \<rightharpoonup> counter"
  rs_observer_ip :: "ip_addr \<rightharpoonup> counter"
  rs_observer_agent :: "string \<rightharpoonup> counter"
  rs_req_ip :: "ip_addr \<rightharpoonup> counter"
  rs_media_ip :: "ip_addr \<rightharpoonup> counter"
  rs_media_pubkey :: "string \<rightharpoonup> counter"
  rs_last_cleanup :: instant

text \<open>The limits of \<open>GatewayLimits\<close> that the limiter reads.\<close>

record rate_limits =
  max_connections_per_ip :: nat
  events_per_minute_ip :: u32
  events_per_minute_pubkey :: u32
  gift_wraps_per_minute_recipient :: u32
  observer_events_per_second_ip :: u32
  observer_events_per_second_agent :: u32
  req_per_minute_ip :: u32
  media_per_minute_ip :: u32
  media_per_minute_pubkey :: u32

definition RATE_WINDOW :: nat where "RATE_WINDOW = from_secs 60"
definition OBSERVER_WINDOW :: nat where "OBSERVER_WINDOW = from_secs 1"
definition CLEANUP_INTERVAL :: nat where "CLEANUP_INTERVAL = from_secs 10"
definition MAX_RATE_KEYS :: nat where "MAX_RATE_KEYS = 100000"

definition new_limiter :: "instant \<Rightarrow> rate_state" where
  "new_limiter now =
     \<lparr>rs_connections = Map.empty, rs_event_ip = Map.empty, rs_event_pubkey = Map.empty,
      rs_gift_wrap_recipient = Map.empty, rs_observer_ip = Map.empty, rs_observer_agent = Map.empty,
      rs_req_ip = Map.empty, rs_media_ip = Map.empty, rs_media_pubkey = Map.empty,
      rs_last_cleanup = now\<rparr>"

section \<open>Counters\<close>

definition new_counter :: "instant \<Rightarrow> counter" where
  "new_counter now = \<lparr>ct_started = now, ct_count = 0\<rparr>"

definition allow_counter :: "instant \<Rightarrow> counter \<Rightarrow> u32 \<Rightarrow> nat \<Rightarrow> counter \<times> bool" where
  "allow_counter now c limit window =
     (let c1 = (if window \<le> now - ct_started c then new_counter now else c)
      in if limit \<le> ct_count c1 then (c1, False)
         else (c1\<lparr>ct_count := ct_count c1 + 1\<rparr>, True))"

definition allow_for ::
    "instant \<Rightarrow> ('k \<rightharpoonup> counter) \<Rightarrow> 'k \<Rightarrow> u32 \<Rightarrow> nat \<Rightarrow> ('k \<rightharpoonup> counter) \<times> bool" where
  "allow_for now m key limit window =
     (if m key = None \<and> MAX_RATE_KEYS \<le> card (dom m) then (m, False)
      else
        let (c, ok) = allow_counter now (case m key of None \<Rightarrow> new_counter now | Some c \<Rightarrow> c) limit window
        in (m(key \<mapsto> c), ok))"

definition allow_ip_for ::
    "instant \<Rightarrow> (ip_addr \<rightharpoonup> counter) \<Rightarrow> ip_addr \<Rightarrow> u32 \<Rightarrow> nat \<Rightarrow> (ip_addr \<rightharpoonup> counter) \<times> bool" where
  "allow_ip_for = allow_for"

definition allow_ip ::
    "instant \<Rightarrow> (ip_addr \<rightharpoonup> counter) \<Rightarrow> ip_addr \<Rightarrow> u32 \<Rightarrow> (ip_addr \<rightharpoonup> counter) \<times> bool" where
  "allow_ip now m key limit = allow_ip_for now m key limit RATE_WINDOW"

definition allow_string_for ::
    "instant \<Rightarrow> (string \<rightharpoonup> counter) \<Rightarrow> string \<Rightarrow> u32 \<Rightarrow> nat \<Rightarrow> (string \<rightharpoonup> counter) \<times> bool" where
  "allow_string_for = allow_for"

definition allow_string ::
    "instant \<Rightarrow> (string \<rightharpoonup> counter) \<Rightarrow> string \<Rightarrow> u32 \<Rightarrow> (string \<rightharpoonup> counter) \<times> bool" where
  "allow_string now m key limit = allow_string_for now m key limit RATE_WINDOW"

definition retain_fresh :: "instant \<Rightarrow> nat \<Rightarrow> ('k \<rightharpoonup> counter) \<Rightarrow> 'k \<rightharpoonup> counter" where
  "retain_fresh now window m =
     (\<lambda>k. case m k of
            None \<Rightarrow> None
          | Some c \<Rightarrow> if now - ct_started c < window then Some c else None)"

definition cleanup :: "instant \<Rightarrow> rate_state \<Rightarrow> rate_state" where
  "cleanup now st =
     (if now - rs_last_cleanup st < CLEANUP_INTERVAL then st
      else st\<lparr>rs_event_ip := retain_fresh now RATE_WINDOW (rs_event_ip st),
              rs_event_pubkey := retain_fresh now RATE_WINDOW (rs_event_pubkey st),
              rs_gift_wrap_recipient := retain_fresh now RATE_WINDOW (rs_gift_wrap_recipient st),
              rs_observer_ip := retain_fresh now OBSERVER_WINDOW (rs_observer_ip st),
              rs_observer_agent := retain_fresh now OBSERVER_WINDOW (rs_observer_agent st),
              rs_req_ip := retain_fresh now RATE_WINDOW (rs_req_ip st),
              rs_media_ip := retain_fresh now RATE_WINDOW (rs_media_ip st),
              rs_media_pubkey := retain_fresh now RATE_WINDOW (rs_media_pubkey st),
              rs_last_cleanup := now\<rparr>)"

section \<open>Operations\<close>

definition connect :: "rate_limits \<Rightarrow> ip_addr \<Rightarrow> rate_state \<Rightarrow> rate_state \<times> bool" where
  "connect limits ip st =
     (let count = (case rs_connections st ip of None \<Rightarrow> 0 | Some n \<Rightarrow> n)
      in if max_connections_per_ip limits \<le> count
         then (st\<lparr>rs_connections := (rs_connections st)(ip \<mapsto> count)\<rparr>, False)
         else (st\<lparr>rs_connections := (rs_connections st)(ip \<mapsto> count + 1)\<rparr>, True))"

definition drop_permit :: "ip_addr \<Rightarrow> rate_state \<Rightarrow> rate_state" where
  "drop_permit ip st =
     (case rs_connections st ip of
        None \<Rightarrow> st
      | Some n \<Rightarrow>
          st\<lparr>rs_connections := (if n - 1 = 0 then (rs_connections st)(ip := None)
                               else (rs_connections st)(ip \<mapsto> n - 1))\<rparr>)"

definition event_from_ip :: "rate_limits \<Rightarrow> instant \<Rightarrow> ip_addr \<Rightarrow> rate_state \<Rightarrow> rate_state \<times> bool" where
  "event_from_ip limits now ip st =
     (let st1 = cleanup now st; (m, ok) = allow_ip now (rs_event_ip st1) ip (events_per_minute_ip limits)
      in (st1\<lparr>rs_event_ip := m\<rparr>, ok))"

definition event_from_pubkey :: "rate_limits \<Rightarrow> instant \<Rightarrow> string \<Rightarrow> rate_state \<Rightarrow> rate_state \<times> bool" where
  "event_from_pubkey limits now pubkey st =
     (let st1 = cleanup now st;
          (m, ok) = allow_string now (rs_event_pubkey st1) pubkey (events_per_minute_pubkey limits)
      in (st1\<lparr>rs_event_pubkey := m\<rparr>, ok))"

definition gift_wrap_for_recipient ::
    "rate_limits \<Rightarrow> instant \<Rightarrow> string \<Rightarrow> rate_state \<Rightarrow> rate_state \<times> bool" where
  "gift_wrap_for_recipient limits now recipient st =
     (let st1 = cleanup now st;
          (m, ok) = allow_string now (rs_gift_wrap_recipient st1) recipient
                      (gift_wraps_per_minute_recipient limits)
      in (st1\<lparr>rs_gift_wrap_recipient := m\<rparr>, ok))"

definition req_from_ip :: "rate_limits \<Rightarrow> instant \<Rightarrow> ip_addr \<Rightarrow> rate_state \<Rightarrow> rate_state \<times> bool" where
  "req_from_ip limits now ip st =
     (let st1 = cleanup now st; (m, ok) = allow_ip now (rs_req_ip st1) ip (req_per_minute_ip limits)
      in (st1\<lparr>rs_req_ip := m\<rparr>, ok))"

definition observer_from_ip :: "rate_limits \<Rightarrow> instant \<Rightarrow> ip_addr \<Rightarrow> rate_state \<Rightarrow> rate_state \<times> bool" where
  "observer_from_ip limits now ip st =
     (let st1 = cleanup now st;
          (m, ok) = allow_ip_for now (rs_observer_ip st1) ip (observer_events_per_second_ip limits) OBSERVER_WINDOW
      in (st1\<lparr>rs_observer_ip := m\<rparr>, ok))"

definition observer_from_agent :: "rate_limits \<Rightarrow> instant \<Rightarrow> string \<Rightarrow> rate_state \<Rightarrow> rate_state \<times> bool" where
  "observer_from_agent limits now agent_pubkey st =
     (let st1 = cleanup now st;
          (m, ok) = allow_string_for now (rs_observer_agent st1) agent_pubkey
                      (observer_events_per_second_agent limits) OBSERVER_WINDOW
      in (st1\<lparr>rs_observer_agent := m\<rparr>, ok))"

definition media_from_ip :: "rate_limits \<Rightarrow> instant \<Rightarrow> ip_addr \<Rightarrow> rate_state \<Rightarrow> rate_state \<times> bool" where
  "media_from_ip limits now ip st =
     (let st1 = cleanup now st; (m, ok) = allow_ip now (rs_media_ip st1) ip (media_per_minute_ip limits)
      in (st1\<lparr>rs_media_ip := m\<rparr>, ok))"

definition media_from_pubkey :: "rate_limits \<Rightarrow> instant \<Rightarrow> string \<Rightarrow> rate_state \<Rightarrow> rate_state \<times> bool" where
  "media_from_pubkey limits now pubkey st =
     (let st1 = cleanup now st;
          (m, ok) = allow_string now (rs_media_pubkey st1) pubkey (media_per_minute_pubkey limits)
      in (st1\<lparr>rs_media_pubkey := m\<rparr>, ok))"

section \<open>Requests\<close>

text \<open>A request names the dimension and the key that one operation counts.\<close>

datatype request =
    EventIp ip_addr
  | EventPubkey string
  | GiftWrapRecipient string
  | ReqIp ip_addr
  | ObserverIp ip_addr
  | ObserverAgent string
  | MediaIp ip_addr
  | MediaPubkey string

fun ask :: "rate_limits \<Rightarrow> instant \<Rightarrow> request \<Rightarrow> rate_state \<Rightarrow> rate_state \<times> bool" where
  "ask limits now (EventIp ip) st = event_from_ip limits now ip st"
| "ask limits now (EventPubkey k) st = event_from_pubkey limits now k st"
| "ask limits now (GiftWrapRecipient k) st = gift_wrap_for_recipient limits now k st"
| "ask limits now (ReqIp ip) st = req_from_ip limits now ip st"
| "ask limits now (ObserverIp ip) st = observer_from_ip limits now ip st"
| "ask limits now (ObserverAgent k) st = observer_from_agent limits now k st"
| "ask limits now (MediaIp ip) st = media_from_ip limits now ip st"
| "ask limits now (MediaPubkey k) st = media_from_pubkey limits now k st"

fun counter_of :: "rate_state \<Rightarrow> request \<Rightarrow> counter option" where
  "counter_of st (EventIp ip) = rs_event_ip st ip"
| "counter_of st (EventPubkey k) = rs_event_pubkey st k"
| "counter_of st (GiftWrapRecipient k) = rs_gift_wrap_recipient st k"
| "counter_of st (ReqIp ip) = rs_req_ip st ip"
| "counter_of st (ObserverIp ip) = rs_observer_ip st ip"
| "counter_of st (ObserverAgent k) = rs_observer_agent st k"
| "counter_of st (MediaIp ip) = rs_media_ip st ip"
| "counter_of st (MediaPubkey k) = rs_media_pubkey st k"

fun limit_of :: "rate_limits \<Rightarrow> request \<Rightarrow> u32" where
  "limit_of limits (EventIp _) = events_per_minute_ip limits"
| "limit_of limits (EventPubkey _) = events_per_minute_pubkey limits"
| "limit_of limits (GiftWrapRecipient _) = gift_wraps_per_minute_recipient limits"
| "limit_of limits (ReqIp _) = req_per_minute_ip limits"
| "limit_of limits (ObserverIp _) = observer_events_per_second_ip limits"
| "limit_of limits (ObserverAgent _) = observer_events_per_second_agent limits"
| "limit_of limits (MediaIp _) = media_per_minute_ip limits"
| "limit_of limits (MediaPubkey _) = media_per_minute_pubkey limits"

fun window_of :: "request \<Rightarrow> nat" where
  "window_of (ObserverIp _) = OBSERVER_WINDOW"
| "window_of (ObserverAgent _) = OBSERVER_WINDOW"
| "window_of _ = RATE_WINDOW"

text \<open>What a cleanup leaves of one counter.\<close>

definition swept :: "instant \<Rightarrow> nat \<Rightarrow> counter option \<Rightarrow> counter option" where
  "swept now window c =
     (case c of None \<Rightarrow> None | Some c \<Rightarrow> if now - ct_started c < window then Some c else None)"

lemma retain_fresh_swept: "retain_fresh now window m k = swept now window (m k)"
  by (simp add: retain_fresh_def swept_def)

lemma cleanup_counter:
  "counter_of (cleanup now st) r = counter_of st r
   \<or> counter_of (cleanup now st) r = swept now (window_of r) (counter_of st r)"
  by (cases r) (simp_all add: cleanup_def retain_fresh_swept)

lemma allow_for_other: "k \<noteq> key \<Longrightarrow> fst (allow_for now m key limit window) k = m k"
  by (simp add: allow_for_def split_beta Let_def)

lemmas ask_defs = event_from_ip_def event_from_pubkey_def gift_wrap_for_recipient_def req_from_ip_def
  observer_from_ip_def observer_from_agent_def media_from_ip_def media_from_pubkey_def
  allow_ip_def allow_string_def allow_ip_for_def allow_string_for_def

lemma ask_other:
  "r' \<noteq> r \<Longrightarrow> counter_of (fst (ask limits now r st)) r' = counter_of (cleanup now st) r'"
  by (cases r; cases r') (simp_all add: ask_defs split_beta Let_def allow_for_other)

text \<open>An answer either leaves the counter alone and refuses, or is that of the counter.\<close>

lemma ask_self:
  fixes limits now r st
  defines "c0 \<equiv> counter_of (cleanup now st) r"
  shows "counter_of (fst (ask limits now r st)) r = c0 \<and> \<not> snd (ask limits now r st)
    \<or> (let (c, ok) = allow_counter now (case c0 of None \<Rightarrow> new_counter now | Some c \<Rightarrow> c)
                       (limit_of limits r) (window_of r)
       in counter_of (fst (ask limits now r st)) r = Some c \<and> snd (ask limits now r st) = ok)"
  unfolding c0_def by (cases r) (simp_all add: ask_defs allow_for_def split_beta Let_def)

section \<open>One counter over time\<close>

text \<open>
  A log holds, for every granted request, the start of the counter's window and the
  time of the grant. The invariant says how the log relates to the counter.
\<close>

definition grants_from :: "instant \<Rightarrow> (instant \<times> instant) list \<Rightarrow> nat" where
  "grants_from s log = length (filter (\<lambda>g. fst g = s) log)"

definition counter_ok :: "nat \<Rightarrow> nat \<Rightarrow> instant \<Rightarrow> counter option \<Rightarrow> (instant \<times> instant) list \<Rightarrow> bool" where
  "counter_ok window limit now c log \<longleftrightarrow>
     (\<forall>g \<in> set log. fst g \<le> snd g \<and> snd g < fst g + window \<and> snd g \<le> now)
     \<and> (\<forall>s. grants_from s log \<le> limit)
     \<and> (\<forall>g \<in> set log. \<forall>g' \<in> set log. fst g < fst g' \<longrightarrow> fst g + window \<le> fst g')
     \<and> (case c of
          None \<Rightarrow> (\<forall>g \<in> set log. fst g + window \<le> now)
        | Some c \<Rightarrow>
            ct_started c \<le> now
            \<and> grants_from (ct_started c) log = unat (ct_count c)
            \<and> (\<forall>g \<in> set log. fst g = ct_started c \<or> fst g + window \<le> ct_started c))"

lemma grants_from_append [simp]:
  "grants_from s (log @ [g]) = grants_from s log + (if fst g = s then 1 else 0)"
  by (simp add: grants_from_def)

lemma grants_from_0: "(\<forall>g \<in> set log. fst g \<noteq> s) \<Longrightarrow> grants_from s log = 0"
  by (simp add: grants_from_def filter_empty_conv)

lemma counter_ok_later:
  "\<lbrakk>counter_ok window limit now c log; now \<le> now'\<rbrakk> \<Longrightarrow> counter_ok window limit now' c log"
  by (fastforce simp: counter_ok_def split: option.splits)

lemma counter_ok_swept:
  "counter_ok window limit now c log \<Longrightarrow> counter_ok window limit now (swept now window c) log"
  by (fastforce simp: counter_ok_def swept_def split: option.splits)

text \<open>Opening a window: nothing has been granted from it yet.\<close>

lemma counter_ok_open:
  assumes "counter_ok window limit now c log" "0 < window"
    "case c of None \<Rightarrow> True | Some c \<Rightarrow> window \<le> now - ct_started c"
  shows "counter_ok window limit now (Some (new_counter now)) log"
proof -
  have past: "\<forall>g \<in> set log. fst g + window \<le> now"
    using assms by (fastforce simp: counter_ok_def split: option.splits)
  then have "grants_from now log = 0" using assms(2) by (intro grants_from_0) auto
  with past assms(1) show ?thesis by (auto simp: counter_ok_def new_counter_def)
qed

lemma counter_ok_grant:
  assumes "counter_ok window (unat limit) now (Some c) log" "ct_count c < limit"
    "now - ct_started c < window"
  shows "counter_ok window (unat limit) now (Some (c\<lparr>ct_count := ct_count c + 1\<rparr>))
           (log @ [(ct_started c, now)])"
proof -
  have lt: "unat (ct_count c) < unat limit" using assms(2) by (simp add: word_less_nat_alt)
  then have "unat (ct_count c + 1) = unat (ct_count c) + 1"
    using unat_bound [of limit] by (simp add: unat_word_ariths)
  then show ?thesis
    using assms lt by (auto simp: counter_ok_def split: if_splits)
qed

lemma counter_ok_allow:
  assumes "counter_ok window (unat limit) now c0 log" "0 < window"
    "allow_counter now (case c0 of None \<Rightarrow> new_counter now | Some c \<Rightarrow> c) limit window = (c, ok)"
  shows "\<exists>s. counter_ok window (unat limit) now (Some c) (log @ (if ok then [(s, now)] else []))"
proof -
  define c1 where "c1 = (case c0 of None \<Rightarrow> new_counter now
      | Some c \<Rightarrow> if window \<le> now - ct_started c then new_counter now else c)"
  have ok1: "counter_ok window (unat limit) now (Some c1) log"
    using assms(1) counter_ok_open [OF assms(1,2)] by (auto simp: c1_def split: option.splits)
  have fresh: "now - ct_started c1 < window"
    using assms(2) by (auto simp: c1_def new_counter_def split: option.split)
  have "allow_counter now (case c0 of None \<Rightarrow> new_counter now | Some c \<Rightarrow> c) limit window =
      (if limit \<le> ct_count c1 then (c1, False) else (c1\<lparr>ct_count := ct_count c1 + 1\<rparr>, True))"
    using assms(2) by (auto simp: allow_counter_def c1_def new_counter_def Let_def split: option.split)
  then show ?thesis
    using assms(3) ok1 counter_ok_grant [OF ok1 _ fresh] by (fastforce split: if_splits)
qed

text \<open>Any interval as long as the window meets at most two windows of the counter.\<close>

lemma three_windows:
  fixes a b c t0 window :: nat
  assumes "a + window \<le> b" "b + window \<le> c" "t0 < a + window" "c < t0 + window"
  shows False
  using assms by linarith

lemma counter_ok_window:
  assumes "counter_ok window limit now c log"
  shows "length (filter (\<lambda>g. t0 \<le> snd g \<and> snd g < t0 + window) log) \<le> 2 * limit"
proof -
  let ?in = "filter (\<lambda>g. t0 \<le> snd g \<and> snd g < t0 + window) log"
  show ?thesis
  proof (cases "?in")
    case (Cons g0 gs)
    define lo where "lo = Min (fst ` set ?in)"
    define hi where "hi = Max (fst ` set ?in)"
    have ne: "finite (fst ` set ?in)" "fst ` set ?in \<noteq> {}" using Cons by auto
    have lohi: "lo \<in> fst ` set ?in" "hi \<in> fst ` set ?in"
      using Min_in [OF ne] Max_in [OF ne] by (simp_all add: lo_def hi_def)
    have two: "fst g = lo \<or> fst g = hi" if "g \<in> set ?in" for g
    proof (rule ccontr)
      assume "\<not> ?thesis"
      moreover have "lo \<le> fst g" "fst g \<le> hi"
        using that ne by (auto simp: lo_def hi_def)
      ultimately have "lo < fst g" "fst g < hi" by auto
      moreover obtain gl gh where gl: "gl \<in> set ?in" "fst gl = lo" and gh: "gh \<in> set ?in" "fst gh = hi"
        using lohi by auto
      ultimately have "lo + window \<le> fst g" "fst g + window \<le> hi"
        using assms that unfolding counter_ok_def by auto
      moreover have "t0 < lo + window" "hi < t0 + window"
        using assms gl gh by (auto simp: counter_ok_def)
      ultimately show False by (rule three_windows)
    qed
    have "length ?in \<le> length (filter (\<lambda>g. fst g = lo) log) + length (filter (\<lambda>g. fst g = hi) log)"
    proof -
      have "?in = filter (\<lambda>g. (fst g = lo \<or> fst g = hi) \<and> t0 \<le> snd g \<and> snd g < t0 + window) log"
        by (rule filter_cong) (use two in auto)
      also have "length \<dots> \<le> length (filter (\<lambda>g. fst g = lo \<or> fst g = hi) log)"
        by (induction log) auto
      also have "\<dots> \<le> length (filter (\<lambda>g. fst g = lo) log) + length (filter (\<lambda>g. fst g = hi) log)"
        by (induction log) auto
      finally show ?thesis .
    qed
    also have "\<dots> \<le> limit + limit"
      using assms unfolding counter_ok_def grants_from_def by (meson add_mono)
    finally show ?thesis by simp
  qed simp
qed

section \<open>Runs of the limiter\<close>

text \<open>
  A run serves requests, hands out permits and takes them back, at times that never
  decrease. The history lists the requests with their answers; \<open>permits\<close> are the
  addresses of the permits in use.
\<close>

inductive rate_run ::
    "rate_limits \<Rightarrow> rate_state \<Rightarrow> instant \<Rightarrow> (instant \<times> request \<times> bool) list \<Rightarrow> ip_addr list \<Rightarrow> bool"
  for limits where
  run_start: "rate_run limits (new_limiter now) now [] []"
| run_ask: "rate_run limits st now history permits \<Longrightarrow> now \<le> now' \<Longrightarrow>
    rate_run limits (fst (ask limits now' r st)) now' (history @ [(now', r, snd (ask limits now' r st))]) permits"
| run_connect: "rate_run limits st now history permits \<Longrightarrow>
    rate_run limits (fst (connect limits ip st)) now history
      (if snd (connect limits ip st) then ip # permits else permits)"
| run_drop: "rate_run limits st now history permits \<Longrightarrow> ip \<in> set permits \<Longrightarrow>
    rate_run limits (drop_permit ip st) now history (remove1 ip permits)"

definition granted_times :: "request \<Rightarrow> (instant \<times> request \<times> bool) list \<Rightarrow> instant list" where
  "granted_times r history = map fst (filter (\<lambda>(_, r', ok). r' = r \<and> ok) history)"

lemma granted_times_snoc:
  "granted_times r (history @ [(now, r', ok)]) =
     granted_times r history @ (if r' = r \<and> ok then [now] else [])"
  by (simp add: granted_times_def)

lemma window_of_pos: "0 < window_of r"
  by (cases r) (simp_all add: RATE_WINDOW_def OBSERVER_WINDOW_def from_secs_def)

lemma connection_counters [simp]:
  "counter_of (fst (connect limits ip st)) r = counter_of st r"
  "counter_of (drop_permit ip st) r = counter_of st r"
  by (cases r; simp add: connect_def drop_permit_def Let_def split: option.split)+

lemma ask_counter_ok:
  assumes "counter_ok (window_of r') (unat (limit_of limits r')) now (counter_of st r') log" "now \<le> now'"
  shows "\<exists>s. counter_ok (window_of r') (unat (limit_of limits r')) now'
      (counter_of (fst (ask limits now' r st)) r')
      (log @ (if r = r' \<and> snd (ask limits now' r st) then [(s, now')] else []))"
proof -
  have "counter_ok (window_of r') (unat (limit_of limits r')) now' (counter_of st r') log"
    using assms by (rule counter_ok_later)
  then have clean: "counter_ok (window_of r') (unat (limit_of limits r')) now' (counter_of (cleanup now' st) r') log"
    using cleanup_counter [of now' st r'] counter_ok_swept by metis
  show ?thesis
  proof (cases "r = r'")
    case False
    with clean ask_other [of r' r limits now' st] show ?thesis by simp
  next
    case True
    obtain c ok where c: "allow_counter now' (case counter_of (cleanup now' st) r' of
        None \<Rightarrow> new_counter now' | Some c \<Rightarrow> c) (limit_of limits r') (window_of r') = (c, ok)" by fastforce
    show ?thesis
      using True clean ask_self [of limits now' r st] counter_ok_allow [OF clean window_of_pos c]
      by (auto simp: c)
  qed
qed

lemma run_counter_ok:
  "rate_run limits st now history permits \<Longrightarrow>
     \<exists>log. map snd log = granted_times r history
       \<and> counter_ok (window_of r) (unat (limit_of limits r)) now (counter_of st r) log"
proof (induction rule: rate_run.induct)
  case (run_start now)
  have "counter_of (new_limiter now) r = None" by (cases r) (simp_all add: new_limiter_def)
  then show ?case by (auto simp: granted_times_def counter_ok_def grants_from_def)
next
  case (run_ask st now history permits now' r')
  then obtain log where log: "map snd log = granted_times r history"
    "counter_ok (window_of r) (unat (limit_of limits r)) now (counter_of st r) log" by blast
  from ask_counter_ok [OF log(2) run_ask(2), of r'] obtain s where
    "counter_ok (window_of r) (unat (limit_of limits r)) now' (counter_of (fst (ask limits now' r' st)) r)
      (log @ (if r' = r \<and> snd (ask limits now' r' st) then [(s, now')] else []))" by blast
  moreover have "map snd (log @ (if r' = r \<and> snd (ask limits now' r' st) then [(s, now')] else []))
      = granted_times r (history @ [(now', r', snd (ask limits now' r' st))])"
    by (auto simp: granted_times_snoc log(1))
  ultimately show ?case by blast
qed (simp_all)

definition permits_in_use :: "rate_state \<Rightarrow> ip_addr \<Rightarrow> nat" where
  "permits_in_use st ip = (case rs_connections st ip of None \<Rightarrow> 0 | Some n \<Rightarrow> n)"

lemma cleanup_connections [simp]: "rs_connections (cleanup now st) = rs_connections st"
  by (simp add: cleanup_def)

lemma ask_connections [simp]: "rs_connections (fst (ask limits now r st)) = rs_connections st"
  by (cases r) (simp_all add: ask_defs split_beta Let_def)

lemma run_permits:
  "rate_run limits st now history permits \<Longrightarrow>
     permits_in_use st ip = count_list permits ip \<and> count_list permits ip \<le> max_connections_per_ip limits"
proof (induction rule: rate_run.induct)
  case (run_connect st now history permits ip')
  then show ?case by (auto simp: permits_in_use_def connect_def Let_def split: option.splits)
next
  case (run_drop st now history permits ip')
  have "count_list permits ip' \<noteq> 0" using run_drop(2) by (simp add: count_list_0_iff)
  moreover have "count_list (remove1 ip' permits) ip = count_list permits ip - (if ip = ip' then 1 else 0)"
    by (induction permits) auto
  ultimately show ?case
    using run_drop(3) by (auto simp: permits_in_use_def drop_permit_def split: option.splits if_splits)
qed (simp_all add: permits_in_use_def new_limiter_def)

section \<open>Properties\<close>

text \<open>C17: whatever requests are served, in any interval as long as the window of a dimension
  at most twice its limit is granted to one key, and no counter ever wraps around or
  exceeds its limit; the permits in use for an address never exceed the limit on
  connections.\<close>

theorem rate_limit_window:
  assumes "rate_run limits st now history permits"
  shows "length (filter (\<lambda>t. t0 \<le> t \<and> t < t0 + window_of r) (granted_times r history))
           \<le> 2 * unat (limit_of limits r)
    \<and> \<not> (\<exists>c. counter_of st r = Some c \<and> limit_of limits r < ct_count c)
    \<and> count_list permits ip \<le> max_connections_per_ip limits"
proof -
  obtain log where log: "map snd log = granted_times r history"
    and ok: "counter_ok (window_of r) (unat (limit_of limits r)) now (counter_of st r) log"
    using run_counter_ok [OF assms] by blast
  have "length (filter (\<lambda>t. t0 \<le> t \<and> t < t0 + window_of r) (granted_times r history))
      = length (filter (\<lambda>g. t0 \<le> snd g \<and> snd g < t0 + window_of r) log)"
    by (simp add: log [symmetric] filter_map o_def)
  moreover have "unat (ct_count c) \<le> unat (limit_of limits r)" if "counter_of st r = Some c" for c
    using ok that by (metis (mono_tags, lifting) counter_ok_def option.simps(5))
  ultimately show ?thesis
    using counter_ok_window [OF ok] run_permits [OF assms] by (auto simp: word_less_nat_alt not_less)
qed

definition sample_limits :: rate_limits where
  "sample_limits = \<lparr>max_connections_per_ip = 1, events_per_minute_ip = 1, events_per_minute_pubkey = 1,
     gift_wraps_per_minute_recipient = 1, observer_events_per_second_ip = 1,
     observer_events_per_second_agent = 1, req_per_minute_ip = 1, media_per_minute_ip = 1,
     media_per_minute_pubkey = 1\<rparr>"

theorem rate_limit_window_witness:
  "snd (ask sample_limits 5 (EventPubkey ''a'') (new_limiter 3))
   \<and> \<not> snd (ask sample_limits 9 (EventPubkey ''a'') (fst (ask sample_limits 5 (EventPubkey ''a'') (new_limiter 3))))
   \<and> length (filter (\<lambda>t. 4 \<le> t \<and> t < 4 + window_of (EventPubkey ''a'')) [5]) \<le> 2"
proof -
  let ?r = "EventPubkey ''a''"
  let ?s1 = "fst (ask sample_limits 5 ?r (new_limiter 3))"
  have answers: "snd (ask sample_limits 5 ?r (new_limiter 3))" "\<not> snd (ask sample_limits 9 ?r ?s1)"
    by (simp_all add: ask_defs allow_for_def allow_counter_def new_counter_def new_limiter_def cleanup_def
        CLEANUP_INTERVAL_def RATE_WINDOW_def MAX_RATE_KEYS_def from_secs_def sample_limits_def)
  have "rate_run sample_limits ?s1 5 ([] @ [(5, ?r, snd (ask sample_limits 5 ?r (new_limiter 3)))]) []"
    by (rule run_ask [OF run_start]) simp
  then have "rate_run sample_limits (fst (ask sample_limits 9 ?r ?s1)) 9
      (([] @ [(5, ?r, snd (ask sample_limits 5 ?r (new_limiter 3)))]) @ [(9, ?r, snd (ask sample_limits 9 ?r ?s1))]) []"
    by (rule run_ask) simp
  from rate_limit_window [OF this, of 4 ?r] answers show ?thesis
    by (simp add: granted_times_def sample_limits_def)
qed

end
