(* ===== verification/Bit_Groups.thy ===== *)
theory Bit_Groups
  imports Prelude
begin

text \<open>
  Regrouping of bit strings: the accumulator loop that the bech32 and base64 codecs of
  the sources share, and its meaning on lists of bits, most significant bit first.
\<close>

section \<open>Bits of a word\<close>

definition bits_of :: "nat \<Rightarrow> 'a::len word \<Rightarrow> bool list" where
  "bits_of n w = map (bit w) (rev [0..<n])"

lemma length_bits_of [simp]: "length (bits_of n w) = n"
  by (simp add: bits_of_def)

lemma bits_of_0 [simp]: "bits_of 0 w = []"
  by (simp add: bits_of_def)

lemma bits_of_Suc: "bits_of (Suc n) w = bit w n # bits_of n w"
  by (simp add: bits_of_def)

lemma bits_of_add: "bits_of (n + m) w = bits_of n (drop_bit m w) @ bits_of m w"
  by (induction n) (simp_all add: bits_of_Suc bit_drop_bit_eq add.commute)

lemma bits_of_eq_iff: "bits_of n a = bits_of n b \<longleftrightarrow> (\<forall>k < n. bit a k = bit b k)"
  by (auto simp: bits_of_def)

lemma bits_of_inj:
  fixes a b :: "'a::len word"
  assumes "bits_of n a = bits_of n b" "unat a < 2 ^ n" "unat b < 2 ^ n"
  shows "a = b"
proof (rule bit_eqI)
  fix k
  show "bit a k = bit b k"
    using assms not_bit_if_less [of a n k] not_bit_if_less [of b n k]
    by (cases "k < n") (auto simp: bits_of_eq_iff)
qed

lemma not_bit_imp_less:
  fixes w :: "'a::len word"
  assumes "\<And>k. n \<le> k \<Longrightarrow> \<not> bit w k"
  shows "unat w < 2 ^ n"
proof -
  have "take_bit n w = w"
    by (rule bit_eqI) (use assms not_less in \<open>auto simp: bit_take_bit_iff\<close>)
  then show ?thesis using unat_take_bit_less [of n w] by simp
qed

lemma bits_of_zero [simp]: "bits_of n (0 :: 'a::len word) = replicate n False"
  by (induction n) (simp_all add: bits_of_Suc)

lemma bits_of_take_bit: "n \<le> m \<Longrightarrow> bits_of n (take_bit m w) = bits_of n w"
  by (simp add: bits_of_eq_iff bit_take_bit_iff)

lemma bits_of_ucast:
  fixes w :: "'a::len word"
  assumes "n \<le> LENGTH('b)"
  shows "bits_of n (ucast w :: 'b::len word) = bits_of n w"
proof -
  have "bit (ucast w :: 'b word) k = bit w k" if "k < n" for k
    using that assms by (simp add: bit_unsigned_iff)
  then show ?thesis by (simp add: bits_of_eq_iff bits_of_def)
qed

text \<open>Shifting \<open>m\<close> new bits into an accumulator.\<close>

lemma bits_of_shift_in:
  fixes acc :: u32 and v :: u8
  assumes "unat v < 2 ^ m" "n + m \<le> 32" "m \<le> 8"
  shows "bits_of (n + m) (push_bit m acc OR ucast v) = bits_of n acc @ bits_of m v"
proof -
  have high: "bit (drop_bit m (push_bit m acc OR ucast v)) k = bit acc k" if "k < n" for k
    using that assms not_bit_if_less [of v m "m + k"]
    by (simp add: bit_drop_bit_eq bit_or_iff bit_push_bit_iff bit_unsigned_iff)
  have low: "bit (push_bit m acc OR ucast v) k = bit v k" if "k < m" for k
    using that assms by (simp add: bit_or_iff bit_push_bit_iff bit_unsigned_iff)
  show ?thesis
    unfolding bits_of_add using high low by (simp add: bits_of_def)
qed

lemma bits_of_shifted:
  fixes acc :: u32
  assumes "bits \<le> n" "n \<le> 32"
  shows "bits_of n (push_bit (n - bits) acc) = bits_of bits acc @ replicate (n - bits) False"
proof -
  have "bits_of n (push_bit (n - bits) acc) = bits_of (bits + (n - bits)) (push_bit (n - bits) acc)"
    using assms by simp
  also have "\<dots> = bits_of bits (drop_bit (n - bits) (push_bit (n - bits) acc))
      @ bits_of (n - bits) (push_bit (n - bits) acc)" by (rule bits_of_add)
  also have "bits_of bits (drop_bit (n - bits) (push_bit (n - bits) acc)) = bits_of bits acc"
    using assms by (auto simp: bits_of_eq_iff bit_drop_bit_eq bit_push_bit_iff)
  also have "bits_of (n - bits) (push_bit (n - bits) acc) = replicate (n - bits) False"
    using bits_of_eq_iff [of "n - bits" "push_bit (n - bits) acc" 0] by (simp add: bit_push_bit_iff)
  finally show ?thesis .
qed

lemma concat_bits_inj:
  fixes xs ys :: "'a::len word list"
  assumes "concat (map (bits_of n) xs) = concat (map (bits_of n) ys)" "0 < n"
    "list_all (\<lambda>w. unat w < 2 ^ n) xs" "list_all (\<lambda>w. unat w < 2 ^ n) ys"
  shows "xs = ys"
  using assms
proof (induction xs arbitrary: ys)
  case Nil
  then show ?case by (cases ys) (auto simp: bits_of_def)
next
  case (Cons x xs)
  then obtain y ys' where ys: "ys = y # ys'" by (cases ys) (auto simp: bits_of_def)
  with Cons.prems(1) have "bits_of n x = bits_of n y \<and> concat (map (bits_of n) xs) = concat (map (bits_of n) ys')"
    by (simp add: append_eq_append_conv)
  with Cons ys show ?case using bits_of_inj by auto
qed

lemma u8_list_bound: "list_all (\<lambda>w. unat w < 2 ^ 8) (xs :: u8 list)"
  using unat_bound [of "w :: u8" for w] by (simp add: list_all_iff)

lemma length_concat_bits: "length (concat (map (bits_of n) xs)) = n * length xs"
  by (induction xs) simp_all

section \<open>The accumulator loop\<close>

text \<open>The inner loop: whole groups of \<open>to\<close> bits leave the accumulator.\<close>

function drain :: "nat \<Rightarrow> u32 \<Rightarrow> u32 \<Rightarrow> nat \<Rightarrow> nat \<times> u8 list" where
  "drain to low acc bits =
     (if to \<le> bits \<and> 0 < to
      then (case drain to low acc (bits - to) of
              (bits', out) \<Rightarrow> (bits', ucast (drop_bit (bits - to) acc AND low) # out))
      else (bits, []))"
  by pat_completeness auto
termination by (relation "measure (\<lambda>(to, low, acc, bits). bits)") auto

declare drain.simps [simp del]

text \<open>The outer loop over the input groups of \<open>from\<close> bits.\<close>

fun regroup :: "nat \<Rightarrow> nat \<Rightarrow> u32 \<Rightarrow> u8 list \<Rightarrow> u32 \<Rightarrow> nat \<Rightarrow> u8 list \<times> u32 \<times> nat" where
  "regroup from to low [] acc bits = ([], acc, bits)"
| "regroup from to low (x # xs) acc bits =
     (let acc1 = push_bit from acc OR ucast x;
          (bits1, out) = drain to low acc1 (bits + from);
          (rest, acc2, bits2) = regroup from to low xs acc1 bits1
      in (out @ rest, acc2, bits2))"

lemma drain_bits:
  assumes "drain to low acc bits = (bits', out)" "0 < to" "to \<le> 8" "low = 2 ^ to - 1"
  shows "bits_of bits acc = concat (map (bits_of to) out) @ bits_of bits' acc
    \<and> bits' < to \<and> list_all (\<lambda>w. unat w < 2 ^ to) out"
  using assms
proof (induction to low acc bits arbitrary: bits' out rule: drain.induct)
  case (1 to low acc bits)
  show ?case
  proof (cases "to \<le> bits")
    case False
    with 1 show ?thesis by (simp add: drain.simps [of to])
  next
    case True
    obtain bits1 out1 where d: "drain to low acc (bits - to) = (bits1, out1)" by fastforce
    have out: "out = ucast (drop_bit (bits - to) acc AND low) # out1" "bits' = bits1"
      using 1(2,3) True d by (simp_all add: drain.simps [of to low acc bits])
    let ?w = "ucast (drop_bit (bits - to) acc AND low) :: u8"
    have m: "drop_bit (bits - to) acc AND low = take_bit to (drop_bit (bits - to) acc)"
      using 1 by (simp add: take_bit_eq_mask mask_eq_exp_minus_1)
    have "bits_of bits acc = bits_of (to + (bits - to)) acc" using True by simp
    also have "\<dots> = bits_of to (drop_bit (bits - to) acc) @ bits_of (bits - to) acc"
      by (rule bits_of_add)
    also have "bits_of to (drop_bit (bits - to) acc) = bits_of to ?w"
      unfolding m using 1 by (simp add: bits_of_ucast bits_of_take_bit)
    finally have "bits_of bits acc = bits_of to ?w @ bits_of (bits - to) acc" .
    moreover have "unat ?w < 2 ^ to"
    proof -
      have "unat (take_bit to (drop_bit (bits - to) acc)) < 2 ^ to" by (rule unat_take_bit_less)
      moreover have "unat ?w \<le> unat (take_bit to (drop_bit (bits - to) acc))"
        unfolding m by (simp add: unsigned_ucast_eq take_bit_nat_less_eq_self)
      ultimately show ?thesis by simp
    qed
    ultimately show ?thesis using 1 True d out by simp
  qed
qed

lemma regroup_bits:
  assumes "regroup from to low xs acc bits = (out, acc', bits')"
    "0 < to" "to \<le> 8" "low = 2 ^ to - 1" "from \<le> 8" "bits < to"
    "list_all (\<lambda>w. unat w < 2 ^ from) xs"
  shows "bits_of bits acc @ concat (map (bits_of from) xs) = concat (map (bits_of to) out) @ bits_of bits' acc'
    \<and> bits' < to \<and> list_all (\<lambda>w. unat w < 2 ^ to) out"
  using assms
proof (induction "from" to low xs acc bits arbitrary: out acc' bits' rule: regroup.induct)
  case (2 "from" to low x xs acc bits)
  define acc1 where "acc1 = (push_bit from acc OR ucast x :: u32)"
  obtain bits1 out1 where d: "drain to low acc1 (bits + from) = (bits1, out1)" by fastforce
  obtain rest where r: "regroup from to low xs acc1 bits1 = (rest, acc', bits')" "out = out1 @ rest"
    using 2(2) d by (auto simp: acc1_def [symmetric] Let_def split: prod.splits)
  from drain_bits [OF d] 2 have d1: "bits_of (bits + from) acc1 = concat (map (bits_of to) out1) @ bits_of bits1 acc1"
    "bits1 < to" "list_all (\<lambda>w. unat w < 2 ^ to) out1" by auto
  from 2(1) [OF acc1_def d [symmetric] refl r(1)] 2 d1(2) have
    ih: "bits_of bits1 acc1 @ concat (map (bits_of from) xs) = concat (map (bits_of to) rest) @ bits_of bits' acc'"
    "bits' < to" "list_all (\<lambda>w. unat w < 2 ^ to) rest" by auto
  have "bits_of (bits + from) acc1 = bits_of bits acc @ bits_of from x"
    unfolding acc1_def by (rule bits_of_shift_in) (use 2 in auto)
  then have "bits_of bits acc @ concat (map (bits_of from) (x # xs))
      = bits_of (bits + from) acc1 @ concat (map (bits_of from) xs)" by simp
  also have "\<dots> = concat (map (bits_of to) out1) @ bits_of bits1 acc1 @ concat (map (bits_of from) xs)"
    by (simp only: d1(1) append.assoc)
  also have "\<dots> = concat (map (bits_of to) out) @ bits_of bits' acc'"
    by (simp only: ih(1) r(2) map_append concat_append append.assoc)
  finally show ?case using ih d1 r(2) by simp
qed auto

end
