(* ===== verification/Bech32.thy ===== *)
theory Bech32
  imports Bit_Groups
begin

text \<open>
  The bech32 codec of \<open>immortal-core/src/nip19.rs\<close> with its checksum, and the \<open>npub\<close> and
  \<open>nsec\<close> forms of keys. Whether 32 bytes are a key on the curve is an argument
  (\<open>valid_key\<close>), as that check is made by the secp256k1 library.
\<close>

section \<open>Definitions\<close>

datatype nip19_error =
    InvalidLength
  | MixedCase
  | MissingSeparator
  | InvalidCharacter
  | InvalidChecksum
  | InvalidPadding
  | WrongPrefix string string
  | InvalidKey

definition NPUB :: string where "NPUB = ''npub''"
definition NSEC :: string where "NSEC = ''nsec''"

definition CHARSET :: string where
  "CHARSET = ''qpzry9x8gf2tvdw0s3jn54khce6mua7l''"

definition GENERATOR :: "u32 list" where
  "GENERATOR = [0x3b6a57b2, 0x26508e6d, 0x1ea119fa, 0x3d4233dd, 0x2a1462b3]"

definition MAX_ENCODED_CHARS :: nat where "MAX_ENCODED_CHARS = 90"
definition CHECKSUM_CHARS :: nat where "CHECKSUM_CHARS = 6"

text \<open>The inner loop over the generator constants, and one turn of the outer loop.\<close>

fun mix_generators :: "u32 \<Rightarrow> nat \<Rightarrow> u32 list \<Rightarrow> u32 \<Rightarrow> u32" where
  "mix_generators hi i [] c = c"
| "mix_generators hi i (g # gs) c =
     mix_generators hi (Suc i) gs (if drop_bit i hi AND 1 = 1 then c XOR g else c)"

definition polymod_step :: "u32 \<Rightarrow> u8 \<Rightarrow> u32" where
  "polymod_step c v =
     (let hi = drop_bit 25 c
      in mix_generators hi 0 GENERATOR (push_bit 5 (c AND 0x01ffffff) XOR ucast v))"

definition polymod :: "u8 list \<Rightarrow> u8 list \<Rightarrow> u32" where
  "polymod expanded_prefix ws = foldl polymod_step 1 (expanded_prefix @ ws)"

definition expand_prefix :: "string \<Rightarrow> u8 list" where
  "expand_prefix prefix =
     map (\<lambda>c. drop_bit 5 (byte_of c)) prefix @ [0] @ map (\<lambda>c. byte_of c AND 31) prefix"

definition checksum :: "string \<Rightarrow> u8 list \<Rightarrow> u8 list" where
  "checksum prefix ws =
     (let p = polymod (expand_prefix prefix) (ws @ replicate CHECKSUM_CHARS 0) XOR 1
      in map (\<lambda>i. ucast (drop_bit (5 * (5 - i)) p AND 31)) [0..<CHECKSUM_CHARS])"

definition to_words :: "u8 list \<Rightarrow> u8 list" where
  "to_words data =
     (case regroup 8 5 31 data 0 0 of (ws, acc, bits) \<Rightarrow>
        if 0 < bits then ws @ [ucast (push_bit (5 - bits) acc AND 31)] else ws)"

definition from_words :: "u8 list \<Rightarrow> (nip19_error, u8 list) result" where
  "from_words ws =
     (case regroup 5 8 255 ws 0 0 of (bytes, acc, bits) \<Rightarrow>
        if 5 \<le> bits \<or> acc AND (push_bit bits 1 - 1) \<noteq> 0 then Inl InvalidPadding else Inr bytes)"

definition prefix_bytes_ok :: "string \<Rightarrow> bool" where
  "prefix_bytes_ok prefix \<longleftrightarrow> list_all (\<lambda>c. 33 \<le> byte_of c \<and> byte_of c \<le> 126) prefix"

definition bech32_encode :: "string \<Rightarrow> u8 list \<Rightarrow> (nip19_error, string) result" where
  "bech32_encode prefix data =
     (if prefix = [] \<or> \<not> prefix_bytes_ok prefix then Inl MissingSeparator
      else
        let prefix = to_ascii_lowercase prefix;
            ws = to_words data;
            ws = ws @ checksum prefix ws;
            encoded = prefix @ ''1'' @ map (\<lambda>w. CHARSET ! unat w) ws
        in if MAX_ENCODED_CHARS < length encoded then Inl InvalidLength else Inr encoded)"

definition word_of_char :: "char \<Rightarrow> (nip19_error, u8) result" where
  "word_of_char c =
     try_then (ok_or (position (\<lambda>candidate. candidate = c) CHARSET) InvalidCharacter)
       (\<lambda>i. Inr (of_nat i))"

definition bech32_decode :: "string \<Rightarrow> (nip19_error, string \<times> u8 list) result" where
  "bech32_decode text =
     try_then (ensure (\<not> (MAX_ENCODED_CHARS < length text \<or> \<not> is_ascii text)) InvalidLength) (\<lambda>_.
     let has_lower = list_ex (\<lambda>c. is_ascii_lowercase (byte_of c)) text;
         has_upper = list_ex (\<lambda>c. is_ascii_uppercase (byte_of c)) text
     in try_then (ensure (\<not> (has_lower \<and> has_upper)) MixedCase) (\<lambda>_.
     let lowered = to_ascii_lowercase text
     in try_then (ok_or (rfind (CHR ''1'') lowered) MissingSeparator) (\<lambda>separator.
     try_then (ensure (separator \<noteq> 0) MissingSeparator) (\<lambda>_.
     let prefix = take separator lowered; data = drop (Suc separator) lowered
     in try_then (ensure (\<not> (length data < CHECKSUM_CHARS \<or> \<not> prefix_bytes_ok prefix)) InvalidLength) (\<lambda>_.
     try_then (try_map word_of_char data) (\<lambda>ws.
     try_then (ensure (polymod (expand_prefix prefix) ws = 1) InvalidChecksum) (\<lambda>_.
     try_then (from_words (take (length ws - CHECKSUM_CHARS) ws)) (\<lambda>bytes. Inr (prefix, bytes)))))))))"

definition decode_key :: "string \<Rightarrow> string \<Rightarrow> (nip19_error, u8 list) result" where
  "decode_key text expected =
     try_then (bech32_decode text) (\<lambda>(prefix, bytes).
     try_then (ensure (prefix = expected) (WrongPrefix expected prefix)) (\<lambda>_.
     try_then (ensure (length bytes = 32) InvalidLength) (\<lambda>_. Inr bytes)))"

text \<open>The encoders call \<open>expect\<close> on the result: \<^term>\<open>None\<close> is the panic.\<close>

definition encode_npub :: "u8 list \<Rightarrow> string option" where
  "encode_npub pubkey = (case bech32_encode NPUB pubkey of Inl _ \<Rightarrow> None | Inr s \<Rightarrow> Some s)"

definition encode_nsec :: "u8 list \<Rightarrow> string option" where
  "encode_nsec secret = (case bech32_encode NSEC secret of Inl _ \<Rightarrow> None | Inr s \<Rightarrow> Some s)"

definition decode_npub :: "(u8 list \<Rightarrow> bool) \<Rightarrow> string \<Rightarrow> (nip19_error, u8 list) result" where
  "decode_npub valid_key text =
     try_then (decode_key text NPUB) (\<lambda>bytes.
     try_then (ensure (valid_key bytes) InvalidKey) (\<lambda>_. Inr bytes))"

definition decode_nsec :: "(u8 list \<Rightarrow> bool) \<Rightarrow> string \<Rightarrow> (nip19_error, u8 list) result" where
  "decode_nsec valid_key text =
     try_then (decode_key text NSEC) (\<lambda>bytes.
     try_then (ensure (valid_key bytes) InvalidKey) (\<lambda>_. Inr bytes))"

section \<open>Regrouping\<close>

lemma to_words_bits:
  "\<exists>pad < 5. concat (map (bits_of 5) (to_words data)) = concat (map (bits_of 8) data) @ replicate pad False
     \<and> list_all (\<lambda>w. unat w < 32) (to_words data)"
proof -
  obtain ws acc bits where r: "regroup 8 5 31 data 0 0 = (ws, acc, bits)" by (metis prod_cases3)
  from regroup_bits [OF r, simplified] u8_list_bound [of data] have
    b: "concat (map (bits_of 8) data) = concat (map (bits_of 5) ws) @ bits_of bits acc"
    "bits < 5" "list_all (\<lambda>w. unat w < 32) ws" by auto
  show ?thesis
  proof (cases "0 < bits")
    case False
    with r b show ?thesis by (intro exI [of _ 0]) (simp add: to_words_def)
  next
    case True
    let ?w = "ucast (push_bit (5 - bits) acc AND 31) :: u8"
    have m: "push_bit (5 - bits) acc AND 31 = take_bit 5 (push_bit (5 - bits) acc)"
      by (simp add: take_bit_eq_mask mask_eq_exp_minus_1)
    have w: "bits_of 5 ?w = bits_of bits acc @ replicate (5 - bits) False"
      unfolding m using b(2) by (simp add: bits_of_ucast bits_of_take_bit bits_of_shifted)
    have "unat ?w < 32"
    proof -
      have "unat ?w \<le> unat (take_bit 5 (push_bit (5 - bits) acc))"
        unfolding m by (simp add: unsigned_ucast_eq take_bit_nat_less_eq_self)
      then show ?thesis using unat_take_bit_less [of 5 "push_bit (5 - bits) acc"] by simp
    qed
    with w r b True show ?thesis by (intro exI [of _ "5 - bits"]) (simp add: to_words_def)
  qed
qed

lemma low_bits_zero:
  fixes acc :: u32
  assumes "bits \<le> 32"
  shows "acc AND (push_bit bits 1 - 1) = 0 \<longleftrightarrow> bits_of bits acc = replicate bits False"
proof -
  have "acc AND (push_bit bits 1 - 1) = take_bit bits acc"
    by (simp add: take_bit_eq_mask mask_eq_exp_minus_1 push_bit_eq_mult)
  moreover have "take_bit bits acc = 0 \<longleftrightarrow> (\<forall>k < bits. bit acc k = bit (0 :: u32) k)"
    using assms by (auto simp: bit_eq_iff bit_take_bit_iff)
  ultimately show ?thesis using bits_of_eq_iff [of bits acc 0] by simp
qed

lemma from_words_iff:
  assumes "list_all (\<lambda>w. unat w < 32) ws"
  shows "from_words ws = Inr bs \<longleftrightarrow>
    (\<exists>pad < 5. concat (map (bits_of 5) ws) = concat (map (bits_of 8) bs) @ replicate pad False)"
proof -
  obtain out acc bits where r: "regroup 5 8 255 ws 0 0 = (out, acc, bits)" by (metis prod_cases3)
  from regroup_bits [OF r, simplified] assms have
    b: "concat (map (bits_of 5) ws) = concat (map (bits_of 8) out) @ bits_of bits acc"
    "bits < 8" by auto
  have fw: "from_words ws = Inr bs \<longleftrightarrow> bits < 5 \<and> bits_of bits acc = replicate bits False \<and> out = bs"
    using r b(2) low_bits_zero [of bits acc] by (auto simp: from_words_def)
  show ?thesis
  proof
    assume "from_words ws = Inr bs"
    with fw b show "\<exists>pad < 5. concat (map (bits_of 5) ws) = concat (map (bits_of 8) bs) @ replicate pad False"
      by auto
  next
    assume "\<exists>pad < 5. concat (map (bits_of 5) ws) = concat (map (bits_of 8) bs) @ replicate pad False"
    then obtain pad where pad: "pad < 5"
      "concat (map (bits_of 8) out) @ bits_of bits acc = concat (map (bits_of 8) bs) @ replicate pad False"
      using b(1) by auto
    then have eq: "8 * length out + bits = 8 * length bs + pad"
      by (metis length_append length_bits_of length_concat_bits length_replicate)
    with pad(1) b(2) have "length out = length bs" by linarith
    moreover from this eq have "bits = pad" by simp
    ultimately have "concat (map (bits_of 8) out) = concat (map (bits_of 8) bs)"
      "bits_of bits acc = replicate bits False"
      using pad(2) by (simp_all add: append_eq_append_conv length_concat_bits)
    with concat_bits_inj [of 8 out bs] u8_list_bound pad(1) \<open>bits = pad\<close> show "from_words ws = Inr bs"
      by (simp add: fw)
  qed
qed

lemma from_words_to_words: "from_words (to_words data) = Inr data"
  using to_words_bits [of data] by (auto simp: from_words_iff)

lemma to_words_from_words:
  assumes "list_all (\<lambda>w. unat w < 32) ws" "from_words ws = Inr bs"
  shows "to_words bs = ws"
proof -
  obtain p1 where p1: "p1 < 5" "concat (map (bits_of 5) ws) = concat (map (bits_of 8) bs) @ replicate p1 False"
    using assms from_words_iff by blast
  obtain p2 where p2: "p2 < 5"
    "concat (map (bits_of 5) (to_words bs)) = concat (map (bits_of 8) bs) @ replicate p2 False"
    "list_all (\<lambda>w. unat w < 32) (to_words bs)"
    using to_words_bits by blast
  have len: "5 * length ws = 8 * length bs + p1" "5 * length (to_words bs) = 8 * length bs + p2"
    using arg_cong [OF p1(2), of length] arg_cong [OF p2(2), of length] by (simp_all add: length_concat_bits)
  then have "length ws = length (to_words bs)" using p1(1) p2(1) by linarith
  with len have "p1 = p2" by simp
  then show ?thesis
    using concat_bits_inj [of 5 "to_words bs" ws] p1(2) p2(2,3) assms(1) by simp
qed

lemma to_words_less: "w \<in> set (to_words data) \<Longrightarrow> unat w < 32"
  using to_words_bits [of data] by (auto simp: list_all_iff)

lemma length_to_words: "length (to_words data) = (8 * length data + 4) div 5"
proof -
  obtain p where "p < 5" "concat (map (bits_of 5) (to_words data)) = concat (map (bits_of 8) data) @ replicate p False"
    using to_words_bits by blast
  then have "5 * length (to_words data) = 8 * length data + p"
    by (metis length_append length_concat_bits length_replicate)
  with \<open>p < 5\<close> show ?thesis by linarith
qed

section \<open>The checksum\<close>

text \<open>The contribution of the five topmost bits, and one turn without an input.\<close>

definition gen_bit :: "bool \<Rightarrow> u32 \<Rightarrow> u32" where
  "gen_bit b g = (if b then g else 0)"

definition shift_reg :: "u32 \<Rightarrow> u32" where
  "shift_reg c = push_bit 5 (take_bit 25 c)
     XOR gen_bit (bit c 25) 0x3b6a57b2 XOR gen_bit (bit c 26) 0x26508e6d
     XOR gen_bit (bit c 27) 0x1ea119fa XOR gen_bit (bit c 28) 0x3d4233dd
     XOR gen_bit (bit c 29) 0x2a1462b3"

lemma and_one_bit: "(drop_bit n w AND 1 = 1) = bit (w :: u32) n"
  by (simp add: and_one_eq bit_iff_odd_drop_bit odd_iff_mod_2_eq_one [symmetric])

lemma gen_bit_xor: "(if b then c XOR g else c) = c XOR gen_bit b g"
  by (simp add: gen_bit_def)

lemma mix_generators_bits:
  "mix_generators (drop_bit 25 c) 0 GENERATOR x = x
     XOR gen_bit (bit c 25) 0x3b6a57b2 XOR gen_bit (bit c 26) 0x26508e6d
     XOR gen_bit (bit c 27) 0x1ea119fa XOR gen_bit (bit c 28) 0x3d4233dd
     XOR gen_bit (bit c 29) 0x2a1462b3"
  by (simp add: GENERATOR_def and_one_bit gen_bit_xor xor.assoc)

lemma polymod_step_reg: "polymod_step c v = shift_reg c XOR ucast v"
proof -
  have "c AND 0x01ffffff = take_bit 25 c"
    by (simp add: take_bit_eq_mask mask_eq_exp_minus_1)
  then show ?thesis
    unfolding polymod_step_def shift_reg_def Let_def mix_generators_bits
    by (simp only: xor.assoc xor.commute xor.left_commute)
qed

lemma gen_bit_add: "gen_bit (p = (\<not> q)) g = gen_bit p g XOR gen_bit q g"
  by (simp add: gen_bit_def)

lemma shift_reg_xor: "shift_reg (a XOR b) = shift_reg a XOR shift_reg b"
  by (simp add: shift_reg_def bit_xor_iff gen_bit_add take_bit_xor push_bit_xor
      xor.assoc xor.commute xor.left_commute)

lemma shift_reg_small:
  assumes "unat v < 2 ^ 25"
  shows "shift_reg v = push_bit 5 v"
  using assms not_bit_if_less [OF assms]
  by (simp add: shift_reg_def gen_bit_def take_bit_word_ident)

lemma bit_gen_bit:
  assumes "unat g < 2 ^ 30" "30 \<le> k"
  shows "\<not> bit (gen_bit b g) k"
  using not_bit_if_less [OF assms] by (simp add: gen_bit_def)

lemma shift_reg_high: "30 \<le> k \<Longrightarrow> \<not> bit (shift_reg c) k"
  by (auto simp: shift_reg_def bit_xor_iff bit_push_bit_iff bit_take_bit_iff bit_gen_bit)

lemma push_xor_or:
  fixes acc :: u32 and v :: u8
  assumes "unat v < 2 ^ m" "m \<le> 8"
  shows "push_bit m acc XOR ucast v = push_bit m acc OR ucast v"
proof (rule bit_eqI)
  fix k
  assume "possible_bit TYPE(u32) k"
  show "bit (push_bit m acc XOR ucast v) k = bit (push_bit m acc OR ucast v) k"
    using assms not_bit_if_less [of v m k]
    by (auto simp: bit_xor_iff bit_or_iff bit_push_bit_iff bit_unsigned_iff)
qed

text \<open>Six 5-bit groups packed into the low 30 bits.\<close>

definition pack5 :: "u8 list \<Rightarrow> u32" where
  "pack5 ws = foldl (\<lambda>a w. push_bit 5 a XOR ucast w) 0 ws"

lemma pack5_bits:
  assumes "length ws \<le> 6" "list_all (\<lambda>w. unat w < 32) ws"
  shows "bits_of (5 * length ws) (pack5 ws) = concat (map (bits_of 5) ws)
    \<and> (\<forall>k \<ge> 5 * length ws. \<not> bit (pack5 ws) k)"
  using assms
proof (induction ws rule: rev_induct)
  case Nil
  then show ?case by (simp add: pack5_def)
next
  case (snoc w ws)
  then have ih: "bits_of (5 * length ws) (pack5 ws) = concat (map (bits_of 5) ws)"
    "\<forall>k \<ge> 5 * length ws. \<not> bit (pack5 ws) k" and w: "unat w < 2 ^ 5" by simp_all
  have p: "pack5 (ws @ [w]) = push_bit 5 (pack5 ws) OR ucast w"
    using w by (simp add: pack5_def push_xor_or)
  have "bits_of (5 * length ws + 5) (pack5 (ws @ [w])) = bits_of (5 * length ws) (pack5 ws) @ bits_of 5 w"
    unfolding p by (rule bits_of_shift_in) (use w snoc.prems in simp_all)
  moreover have "\<not> bit (pack5 (ws @ [w])) k" if "5 * length ws + 5 \<le> k" for k
    unfolding p using that ih(2) not_bit_if_less [OF w, of k]
    by (auto simp: bit_or_iff bit_push_bit_iff bit_unsigned_iff)
  ultimately show ?case using ih(1) by (simp add: add.commute)
qed

lemma foldl_step_pack5:
  assumes "length ws \<le> 6" "list_all (\<lambda>w. unat w < 32) ws"
  shows "foldl polymod_step c ws = foldl polymod_step c (replicate (length ws) 0) XOR pack5 ws"
  using assms
proof (induction ws rule: rev_induct)
  case (snoc w ws)
  then have ih: "foldl polymod_step c ws = foldl polymod_step c (replicate (length ws) 0) XOR pack5 ws" by simp
  have "unat (pack5 ws) < 2 ^ 25"
    by (rule not_bit_imp_less) (use snoc.prems pack5_bits [of ws] in auto)
  then have "shift_reg (pack5 ws) = push_bit 5 (pack5 ws)" by (rule shift_reg_small)
  then show ?case
    by (simp add: ih polymod_step_reg [of _ w] polymod_step_reg [of _ 0] shift_reg_xor pack5_def
        replicate_append_same [symmetric] xor.assoc)
qed (simp add: pack5_def)

lemma checksum_bits:
  fixes p :: u32
  defines "c \<equiv> map (\<lambda>i. ucast (drop_bit (5 * (5 - i)) p AND 31) :: u8) [0..<6]"
  shows "concat (map (bits_of 5) c) = bits_of 30 p" and "list_all (\<lambda>w. unat w < 32) c" and "length c = 6"
proof -
  have m: "w AND 31 = take_bit 5 w" for w :: u32
    by (simp add: take_bit_eq_mask mask_eq_exp_minus_1)
  have six: "[0..<6] = [0, 1, 2, 3, 4, 5]" by code_simp
  have group: "bits_of 5 (ucast (drop_bit n p AND 31) :: u8) = bits_of 5 (drop_bit n p)" for n
    by (simp add: m bits_of_ucast bits_of_take_bit)
  have "bits_of 30 p = bits_of 5 (drop_bit 25 p) @ bits_of 5 (drop_bit 20 p) @ bits_of 5 (drop_bit 15 p)
      @ bits_of 5 (drop_bit 10 p) @ bits_of 5 (drop_bit 5 p) @ bits_of 5 p"
    using bits_of_add [of 25 5 p] bits_of_add [of 20 5 "drop_bit 5 p"] bits_of_add [of 15 5 "drop_bit 10 p"]
      bits_of_add [of 10 5 "drop_bit 15 p"] bits_of_add [of 5 5 "drop_bit 20 p"]
    by simp
  then show "concat (map (bits_of 5) c) = bits_of 30 p"
    using group [of 0] by (simp add: c_def six group)
  have "unat (ucast (w AND 31) :: u8) < 32" for w :: u32
    using unat_take_bit_less [of 5 w] unfolding m by (simp add: unsigned_ucast_eq take_bit_nat_eq_self)
  then show "list_all (\<lambda>w. unat w < 32) c" by (simp add: c_def list_all_iff)
  show "length c = 6" by (simp add: c_def)
qed

lemma checksum_length [simp]: "length (checksum prefix ws) = 6"
  and checksum_less: "list_all (\<lambda>w. unat w < 32) (checksum prefix ws)"
  using checksum_bits(2,3) [of "polymod (expand_prefix prefix) (ws @ replicate CHECKSUM_CHARS 0) XOR 1"]
  by (simp_all add: checksum_def CHECKSUM_CHARS_def)

lemma xor_solve: "r XOR q = v \<longleftrightarrow> q = r XOR v" for r q v :: u32
proof -
  have cancel: "r XOR (r XOR x) = x" for x by (simp only: xor.assoc [symmetric]) simp
  show ?thesis using cancel [of q] cancel [of v] by auto
qed

lemma pack5_inj:
  assumes "pack5 c = pack5 d" "length c = length d" "length c \<le> 6"
    "list_all (\<lambda>w. unat w < 32) c" "list_all (\<lambda>w. unat w < 32) d"
  shows "c = d"
  using pack5_bits [of c] pack5_bits [of d] assms concat_bits_inj [of 5 c d] by simp

lemma polymod_suffix_inj:
  assumes "polymod p (ws @ c) = polymod p (ws @ d)" "length c = length d" "length c \<le> 6"
    "list_all (\<lambda>w. unat w < 32) c" "list_all (\<lambda>w. unat w < 32) d"
  shows "c = d"
proof (rule pack5_inj [OF _ assms(2-5)])
  have "r XOR pack5 c = r XOR pack5 d \<Longrightarrow> pack5 c = pack5 d" for r
    using xor_solve [of r "pack5 c" "r XOR pack5 d"] xor_solve [of r "pack5 d" "r XOR pack5 d"] by simp
  then show "pack5 c = pack5 d"
    using assms foldl_step_pack5 [of c] foldl_step_pack5 [of d] by (simp add: polymod_def)
qed

text \<open>
  The checksum that makes the remainder a given constant: 1 for bech32, and
  \<open>0x2bc830a3\<close> for the bech32m variant of SegWit addresses.
\<close>

definition checksum_for :: "u32 \<Rightarrow> string \<Rightarrow> u8 list \<Rightarrow> u8 list" where
  "checksum_for v prefix ws =
     (let p = polymod (expand_prefix prefix) (ws @ replicate 6 0) XOR v
      in map (\<lambda>i. ucast (drop_bit (5 * (5 - i)) p AND 31)) [0..<6])"

lemma checksum_for_length [simp]: "length (checksum_for v prefix ws) = 6"
  and checksum_for_less: "list_all (\<lambda>w. unat w < 32) (checksum_for v prefix ws)"
  using checksum_bits(2,3) [of "polymod (expand_prefix prefix) (ws @ replicate 6 0) XOR v"]
  by (simp_all add: checksum_for_def)

lemma checksum_for_unique:
  assumes "length c = 6" "list_all (\<lambda>w. unat w < 32) c" "unat v < 2 ^ 30"
  shows "polymod (expand_prefix prefix) (ws @ c) = v \<longleftrightarrow> c = checksum_for v prefix ws"
proof -
  define r where "r = foldl polymod_step 1 (expand_prefix prefix @ ws @ replicate 6 0)"
  have "polymod (expand_prefix prefix) (ws @ c) = r XOR pack5 c"
    using foldl_step_pack5 [of c] assms by (simp add: polymod_def r_def)
  then have "polymod (expand_prefix prefix) (ws @ c) = v \<longleftrightarrow> pack5 c = r XOR v"
    by (simp add: xor_solve)
  also have "\<dots> \<longleftrightarrow> bits_of 30 (pack5 c) = bits_of 30 (r XOR v)"
  proof
    assume "bits_of 30 (pack5 c) = bits_of 30 (r XOR v)"
    moreover have "unat (pack5 c) < 2 ^ 30"
      by (rule not_bit_imp_less) (use pack5_bits [of c] assms in auto)
    moreover have "unat (r XOR v) < 2 ^ 30"
    proof (rule not_bit_imp_less)
      fix k :: nat
      assume k: "30 \<le> k"
      obtain r' where "r = polymod_step r' 0"
        by (simp add: r_def eval_nat_numeral)
      then show "\<not> bit (r XOR v) k"
        using shift_reg_high [OF k] not_bit_if_less [OF assms(3) k] by (simp add: polymod_step_reg bit_xor_iff)
    qed
    ultimately show "pack5 c = r XOR v" by (rule bits_of_inj)
  qed simp
  also have "\<dots> \<longleftrightarrow> concat (map (bits_of 5) c) = concat (map (bits_of 5) (checksum_for v prefix ws))"
    using pack5_bits [of c] assms checksum_bits(1) [of "r XOR v"]
    by (simp add: checksum_for_def polymod_def r_def)
  also have "\<dots> \<longleftrightarrow> c = checksum_for v prefix ws"
    using concat_bits_inj [of 5 c "checksum_for v prefix ws"] assms(2) checksum_for_less by auto
  finally show ?thesis .
qed

lemma checksum_unique:
  assumes "length c = 6" "list_all (\<lambda>w. unat w < 32) c"
  shows "polymod (expand_prefix prefix) (ws @ c) = 1 \<longleftrightarrow> c = checksum prefix ws"
proof -
  have "checksum prefix ws = checksum_for 1 prefix ws"
    by (simp add: checksum_def checksum_for_def CHECKSUM_CHARS_def)
  then show ?thesis using checksum_for_unique [OF assms, of 1] by simp
qed

section \<open>Characters\<close>

lemma CHARSET_facts:
  "length CHARSET = 32" "distinct CHARSET"
  "list_all (\<lambda>c. c \<noteq> CHR ''1'' \<and> \<not> is_ascii_uppercase (byte_of c) \<and> byte_of c < 128) CHARSET"
  unfolding CHARSET_def by code_simp+

lemma byte_of_one: "byte_of (CHR ''1'') = 49"
  by code_simp

lemma word_of_char_nth: "unat w < 32 \<Longrightarrow> word_of_char (CHARSET ! unat w) = Inr w"
  using CHARSET_facts(1,2) position_nth [of CHARSET "unat w"] by (simp add: word_of_char_def)

lemma word_of_char_InrD:
  assumes "word_of_char c = Inr w"
  shows "unat w < 32 \<and> CHARSET ! unat w = c"
proof -
  obtain i where i: "position (\<lambda>candidate. candidate = c) CHARSET = Some i" "w = of_nat i"
    using assms by (auto simp: word_of_char_def result_simps)
  then have "i < 32" "CHARSET ! i = c" using position_SomeD [OF i(1)] CHARSET_facts(1) by simp_all
  then show ?thesis using i(2) by (simp add: unat_of_nat take_bit_nat_eq_self)
qed

lemma words_of_chars:
  "list_all (\<lambda>w. unat w < 32) ws \<Longrightarrow> try_map word_of_char (map (\<lambda>w. CHARSET ! unat w) ws) = Inr ws"
  by (induction ws) (simp_all add: word_of_char_nth)

lemma words_of_charsD:
  "try_map word_of_char s = Inr ws \<Longrightarrow>
     s = map (\<lambda>w. CHARSET ! unat w) ws \<and> list_all (\<lambda>w. unat w < 32) ws"
proof (induction s arbitrary: ws)
  case (Cons c s)
  then obtain w ws' where "word_of_char c = Inr w" "try_map word_of_char s = Inr ws'" "ws = w # ws'"
    by (auto simp: result_simps)
  with Cons.IH word_of_char_InrD [of c w] show ?case by simp
qed simp

lemma charset_text:
  assumes "list_all (\<lambda>w. unat w < 32) ws"
  shows "list_all (\<lambda>c. c \<noteq> CHR ''1'' \<and> \<not> is_ascii_uppercase (byte_of c) \<and> byte_of c < 128)
    (map (\<lambda>w. CHARSET ! unat w) ws)"
  using assms CHARSET_facts(1,3) by (simp add: list_all_iff)

lemma ascii_lower_range:
  assumes "33 \<le> byte_of c \<and> byte_of c \<le> 126"
  shows "33 \<le> byte_of (ascii_lower c) \<and> byte_of (ascii_lower c) \<le> 126"
proof (cases "is_ascii_uppercase (byte_of c)")
  case True
  then have "unat (byte_of c + 32) = unat (byte_of c) + 32"
    by (simp add: is_ascii_uppercase_def word_le_nat_alt unat_word_ariths)
  with True show ?thesis
    by (simp add: ascii_lower_def is_ascii_uppercase_def word_le_nat_alt)
qed (use assms in \<open>simp add: ascii_lower_def\<close>)

lemma prefix_bytes_ok_lower: "prefix_bytes_ok p \<Longrightarrow> prefix_bytes_ok (to_ascii_lowercase p)"
  using ascii_lower_range by (auto simp: prefix_bytes_ok_def to_ascii_lowercase_def list_all_iff)

lemma prefix_bytes_ok_ascii: "prefix_bytes_ok p \<Longrightarrow> is_ascii p"
  by (auto simp: prefix_bytes_ok_def is_ascii_def list_all_iff word_le_nat_alt word_less_nat_alt)

lemma lower_not_upper: "list_all (\<lambda>c. \<not> is_ascii_uppercase (byte_of c)) (to_ascii_lowercase s)"
  by (simp add: to_ascii_lowercase_def list_all_iff)

section \<open>Round trips\<close>

lemma bech32_encode_InrD:
  assumes "bech32_encode prefix data = Inr text"
  defines "p \<equiv> to_ascii_lowercase prefix"
  shows "p \<noteq> []" "prefix_bytes_ok p" "length text \<le> 90"
    "text = p @ CHR ''1'' # map (\<lambda>w. CHARSET ! unat w) (to_words data @ checksum p (to_words data))"
  using assms prefix_bytes_ok_lower [of prefix]
  by (auto simp: bech32_encode_def Let_def p_def MAX_ENCODED_CHARS_def to_ascii_lowercase_def split: if_splits)

lemma bech32_decode_encode:
  assumes "bech32_encode prefix data = Inr text"
  shows "bech32_decode text = Inr (to_ascii_lowercase prefix, data)"
proof -
  let ?p = "to_ascii_lowercase prefix" and ?ws = "to_words data @ checksum (to_ascii_lowercase prefix) (to_words data)"
  let ?chars = "map (\<lambda>w. CHARSET ! unat w) ?ws"
  note e = bech32_encode_InrD [OF assms]
  have less: "list_all (\<lambda>w. unat w < 32) ?ws"
    using to_words_less checksum_less by (auto simp: list_all_iff)
  have chars: "CHR ''1'' \<notin> set ?chars" "is_ascii ?chars"
    "list_all (\<lambda>c. \<not> is_ascii_uppercase (byte_of c)) ?chars"
    using charset_text [OF less] by (auto simp: list_all_iff is_ascii_def)
  have low: "list_all (\<lambda>c. \<not> is_ascii_uppercase (byte_of c)) text"
    using chars(3) lower_not_upper [of prefix] unfolding e(4) by (simp add: byte_of_one is_ascii_uppercase_def)
  then have lowered: "to_ascii_lowercase text = text" by (rule to_ascii_lowercase_id)
  have ascii: "is_ascii text"
    using prefix_bytes_ok_ascii [OF e(2)] chars(2) unfolding e(4) by (simp add: byte_of_one is_ascii_def)
  have sep: "rfind (CHR ''1'') text = Some (length ?p)"
    unfolding e(4) using chars(1) by (rule rfind_append)
  have upper: "\<not> list_ex (\<lambda>c. is_ascii_uppercase (byte_of c)) text"
    using low by (auto simp: list_all_iff list_ex_iff)
  have parts: "take (length ?p) text = ?p" "drop (Suc (length ?p)) text = ?chars"
    unfolding e(4) by simp_all
  have "polymod (expand_prefix ?p) ?ws = 1"
    using checksum_unique [of "checksum ?p (to_words data)"] checksum_less by simp
  moreover have "prefix \<noteq> []" using e(1) by (simp add: to_ascii_lowercase_def)
  moreover have "length text = Suc (length prefix) + (length (to_words data) + 6)" by (simp add: e(4))
  ultimately show ?thesis
    using e(1-3) ascii upper parts words_of_chars [OF less] from_words_to_words [of data]
    by (simp add: bech32_decode_def Let_def lowered sep MAX_ENCODED_CHARS_def CHECKSUM_CHARS_def
        del: map_append)
qed

lemma bech32_decodeD:
  assumes "bech32_decode text = Inr (prefix, bytes)"
  obtains ws where "to_ascii_lowercase text = prefix @ CHR ''1'' # map (\<lambda>w. CHARSET ! unat w) ws"
    "prefix \<noteq> []" "prefix_bytes_ok prefix" "length text \<le> 90" "list_all (\<lambda>w. unat w < 32) ws"
    "6 \<le> length ws" "polymod (expand_prefix prefix) ws = 1" "from_words (take (length ws - 6) ws) = Inr bytes"
proof -
  let ?l = "to_ascii_lowercase text"
  obtain i ws where d: "rfind (CHR ''1'') ?l = Some i" "i \<noteq> 0" "prefix = take i ?l"
    "\<not> length (drop (Suc i) ?l) < 6" "prefix_bytes_ok prefix" "length text \<le> 90"
    "try_map word_of_char (drop (Suc i) ?l) = Inr ws" "polymod (expand_prefix prefix) ws = 1"
    "from_words (take (length ws - 6) ws) = Inr bytes"
    using assms unfolding bech32_decode_def Let_def MAX_ENCODED_CHARS_def CHECKSUM_CHARS_def
    by (auto simp only: try_then_eq_Inr ensure_eq_Inr ok_or_eq_Inr sum.inject prod.inject not_less de_Morgan_disj)
  note r = rfind_SomeD [OF d(1)] and w = words_of_charsD [OF d(7)]
  have "6 \<le> length ws" using w d(4) by (metis length_map not_less)
  moreover have "?l = prefix @ CHR ''1'' # map (\<lambda>w. CHARSET ! unat w) ws" using r w d(3) by simp
  moreover have "prefix \<noteq> []" using d(2,3) r by auto
  ultimately show thesis using that d w by blast
qed

lemma bech32_encode_decode:
  assumes "bech32_decode text = Inr (prefix, bytes)"
  shows "bech32_encode prefix bytes = Inr (to_ascii_lowercase text)"
proof -
  from assms obtain ws where d: "to_ascii_lowercase text = prefix @ CHR ''1'' # map (\<lambda>w. CHARSET ! unat w) ws"
    "prefix \<noteq> []" "prefix_bytes_ok prefix" "length text \<le> 90" "list_all (\<lambda>w. unat w < 32) ws"
    "6 \<le> length ws" "polymod (expand_prefix prefix) ws = 1" "from_words (take (length ws - 6) ws) = Inr bytes"
    by (rule bech32_decodeD)
  define payload where "payload = take (length ws - 6) ws"
  define c where "c = drop (length ws - 6) ws"
  have ws: "ws = payload @ c" "length c = 6" using d(6) by (simp_all add: payload_def c_def)
  have all: "list_all (\<lambda>w. unat w < 32) payload" "list_all (\<lambda>w. unat w < 32) c" using d(5) ws(1) by simp_all
  have "c = checksum prefix payload"
    using d(7) ws checksum_unique [OF ws(2) all(2)] by simp
  moreover have "to_words bytes = payload"
    using to_words_from_words [OF all(1)] d(8) payload_def by simp
  moreover have "to_ascii_lowercase prefix = prefix"
    using lower_not_upper [of "text"] unfolding d(1) by (intro to_ascii_lowercase_id) simp
  moreover have "length (to_ascii_lowercase text) \<le> 90" using d(4) by simp
  ultimately show ?thesis
    using d(1-3) ws(1) by (simp add: bech32_encode_def MAX_ENCODED_CHARS_def Let_def)
qed

lemma bech32_encode_fits:
  assumes "prefix \<noteq> []" "prefix_bytes_ok prefix" "length prefix + 7 + (8 * length data + 4) div 5 \<le> 90"
  shows "\<exists>text. bech32_encode prefix data = Inr text \<and> length text = length prefix + 7 + (8 * length data + 4) div 5"
  using assms by (simp add: bech32_encode_def Let_def MAX_ENCODED_CHARS_def length_to_words)

lemma key_prefixes:
  "NPUB \<noteq> []" "prefix_bytes_ok NPUB" "length NPUB = 4" "to_ascii_lowercase NPUB = NPUB"
  "NSEC \<noteq> []" "prefix_bytes_ok NSEC" "length NSEC = 4" "to_ascii_lowercase NSEC = NSEC" "NPUB \<noteq> NSEC"
  unfolding NPUB_def NSEC_def by code_simp+

section \<open>Properties\<close>

text \<open>C18: bech32 encoding and decoding are inverse to each other: what the encoder produces
  decodes to the lowercase prefix and the bytes, and what the decoder accepts is the
  encoding of its result, up to letter case. In particular the decoder accepts one string
  only for every prefix and byte string, with no slack in padding or checksum.\<close>

theorem bech32_roundtrip:
  "(bech32_encode prefix data = Inr text \<longrightarrow> bech32_decode text = Inr (to_ascii_lowercase prefix, data))
   \<and> (bech32_decode text = Inr (prefix, data) \<longrightarrow> bech32_encode prefix data = Inr (to_ascii_lowercase text))"
  using bech32_decode_encode bech32_encode_decode by blast

theorem bech32_roundtrip_witness:
  "bech32_decode ''A12UEL5L'' = Inr (''a'', []) \<and> bech32_encode ''a'' [] = Inr ''a12uel5l''
   \<and> bech32_decode ''a12uel5l'' = Inr (''a'', [])"
proof -
  have d: "bech32_decode ''A12UEL5L'' = Inr (''a'', [])" by code_simp
  have l: "to_ascii_lowercase ''A12UEL5L'' = ''a12uel5l''" "to_ascii_lowercase ''a'' = ''a''" by code_simp+
  have e: "bech32_encode ''a'' [] = Inr ''a12uel5l''"
    using bech32_roundtrip [of "''a''" "[]" "''A12UEL5L''"] d by (simp add: l)
  show ?thesis
    using bech32_roundtrip [of "''a''" "[]" "''a12uel5l''"] d e by (simp add: l)
qed

text \<open>Encoding a 32-byte key never panics and gives 63 characters; decoding under the
  same form returns the key exactly when it is valid, and under the other form fails on the
  prefix.\<close>

lemma key_forms:
  assumes "length key = 32"
  shows "\<exists>npub nsec. encode_npub key = Some npub \<and> encode_nsec key = Some nsec
    \<and> length npub = 63 \<and> length nsec = 63
    \<and> decode_npub valid_key npub = (if valid_key key then Inr key else Inl InvalidKey)
    \<and> decode_nsec valid_key nsec = (if valid_key key then Inr key else Inl InvalidKey)
    \<and> decode_nsec valid_key npub = Inl (WrongPrefix NSEC NPUB)
    \<and> decode_npub valid_key nsec = Inl (WrongPrefix NPUB NSEC)"
proof -
  obtain npub nsec where e: "bech32_encode NPUB key = Inr npub" "bech32_encode NSEC key = Inr nsec"
    "length npub = 63" "length nsec = 63"
    using bech32_encode_fits [of NPUB key] bech32_encode_fits [of NSEC key] assms by (auto simp: key_prefixes)
  show ?thesis
    using e assms bech32_decode_encode [OF e(1)] bech32_decode_encode [OF e(2)] key_prefixes
    by (simp add: encode_npub_def encode_nsec_def decode_npub_def decode_nsec_def decode_key_def try_then_ensure)
qed

end
