(* ===== verification/Byte_Codec.thy ===== *)
theory Byte_Codec
  imports Bit_Groups
begin

text \<open>
  The byte reader and writer of \<open>immortal-core/src/mkt_swp_verify.rs\<close>: little-endian
  integers, Bitcoin's compact sizes and length-prefixed byte strings. A \<open>Reader\<close> holds
  a slice and a position that only grows; the model passes the list of bytes that are not
  yet read, which is all the reader ever looks at.

  What the transaction parser relies on is the locale \<open>codec\<close>: a reader that undoes a
  writer, and that accepts nothing but what the writer produces.
\<close>

datatype verification_error =
    Bounds string
  | Encoding string
  | Invalid string
  | Unsupported string
  | Crypto string

type_synonym 'a reader = "u8 list \<Rightarrow> (verification_error, 'a \<times> u8 list) result"

section \<open>Little-endian integers\<close>

text \<open>\<open>to_le_bytes\<close> and \<open>from_le_bytes\<close> for an integer of \<open>n\<close> bytes.\<close>

definition to_le_bytes :: "nat \<Rightarrow> 'a::len word \<Rightarrow> u8 list" where
  "to_le_bytes n w = map (\<lambda>i. ucast (drop_bit (8 * i) w)) [0..<n]"

fun from_le_bytes :: "u8 list \<Rightarrow> 'a::len word" where
  "from_le_bytes [] = 0"
| "from_le_bytes (b # bs) = push_bit 8 (from_le_bytes bs) OR ucast b"

lemma length_to_le_bytes [simp]: "length (to_le_bytes n w) = n"
  by (simp add: to_le_bytes_def)

lemma bit_from_le_bytes:
  "bit (from_le_bytes bs :: 'a::len word) k \<longleftrightarrow>
     k < LENGTH('a) \<and> k div 8 < length bs \<and> bit (bs ! (k div 8)) (k mod 8)"
proof (induction bs arbitrary: k)
  case (Cons b bs)
  have b: "bit b k \<Longrightarrow> k < 8" using bit_imp_le_length [of b k] by simp
  show ?case
  proof (cases "k < 8")
    case True
    then show ?thesis by (simp add: bit_or_iff bit_push_bit_iff bit_unsigned_iff)
  next
    case False
    then have "k div 8 = Suc ((k - 8) div 8)" "(k - 8) mod 8 = k mod 8"
      by (simp_all add: div_if mod_if [of k])
    then show ?thesis
      using False b Cons [of "k - 8"] by (auto simp: bit_or_iff bit_push_bit_iff bit_unsigned_iff)
  qed
qed simp

lemma bit_to_le_bytes:
  assumes "i < n" "k < 8"
  shows "bit (to_le_bytes n w ! i) k = bit w (8 * i + k)"
  using assms by (simp add: to_le_bytes_def bit_unsigned_iff bit_drop_bit_eq)

lemma from_to_le_bytes:
  fixes w :: "'a::len word"
  assumes "LENGTH('a) = 8 * n"
  shows "from_le_bytes (to_le_bytes n w) = w"
proof (rule bit_eqI)
  fix k
  assume "possible_bit TYPE('a word) k"
  then have k: "k < 8 * n" using assms by simp
  then have "k div 8 < n" by (simp add: div_less_iff_less_mult mult.commute)
  then show "bit (from_le_bytes (to_le_bytes n w) :: 'a word) k = bit w k"
    using k assms by (simp add: bit_from_le_bytes bit_to_le_bytes)
qed

lemma to_from_le_bytes:
  assumes "LENGTH('a) = 8 * length bs"
  shows "to_le_bytes (length bs) (from_le_bytes bs :: 'a::len word) = bs"
proof (rule nth_equalityI)
  fix i
  assume "i < length (to_le_bytes (length bs) (from_le_bytes bs :: 'a word))"
  then have i: "i < length bs" by simp
  show "to_le_bytes (length bs) (from_le_bytes bs :: 'a word) ! i = bs ! i"
  proof (rule bit_eqI)
    fix k
    assume "possible_bit TYPE(u8) k"
    then have "k < 8" by simp
    then show "bit (to_le_bytes (length bs) (from_le_bytes bs :: 'a word) ! i) k = bit (bs ! i) k"
      using i assms by (simp add: bit_to_le_bytes bit_from_le_bytes)
  qed
qed simp

section \<open>Reading\<close>

definition reader_remaining :: "u8 list \<Rightarrow> nat" where
  "reader_remaining bs = length bs"

definition peek_at :: "nat \<Rightarrow> u8 list \<Rightarrow> (verification_error, u8) result" where
  "peek_at offset bs = (if offset < length bs then Inr (bs ! offset) else Inl (Encoding ''truncated transaction''))"

definition peek :: "u8 list \<Rightarrow> (verification_error, u8) result" where
  "peek bs = peek_at 0 bs"

definition read_u8 :: "u8 reader" where
  "read_u8 bs = try_then (peek bs) (\<lambda>v. Inr (v, drop 1 bs))"

definition read_array :: "nat \<Rightarrow> u8 list reader" where
  "read_array n bs =
     (if n \<le> length bs then Inr (take n bs, drop n bs) else Inl (Encoding ''truncated transaction''))"

definition read_i32 :: "i32 reader" where
  "read_i32 bs = try_then (read_array 4 bs) (\<lambda>(a, rest). Inr (from_le_bytes a, rest))"

definition read_u16 :: "u16 reader" where
  "read_u16 bs = try_then (read_array 2 bs) (\<lambda>(a, rest). Inr (from_le_bytes a, rest))"

definition read_u32 :: "u32 reader" where
  "read_u32 bs = try_then (read_array 4 bs) (\<lambda>(a, rest). Inr (from_le_bytes a, rest))"

definition read_u64 :: "u64 reader" where
  "read_u64 bs = try_then (read_array 8 bs) (\<lambda>(a, rest). Inr (from_le_bytes a, rest))"

definition read_compact_size :: "nat \<Rightarrow> nat reader" where
  "read_compact_size maximum bs =
     try_then (read_u8 bs) (\<lambda>(marker, bs).
     try_then
       (if marker \<le> 0xfc then Inr (unat marker, bs)
        else if marker = 0xfd then
          try_then (read_u16 bs) (\<lambda>(v, bs).
          try_then (ensure (\<not> v < 0xfd) (Encoding ''noncanonical compact size'')) (\<lambda>_. Inr (unat v, bs)))
        else if marker = 0xfe then
          try_then (read_u32 bs) (\<lambda>(v, bs).
          try_then (ensure (\<not> v \<le> 0xffff) (Encoding ''noncanonical compact size'')) (\<lambda>_. Inr (unat v, bs)))
        else
          try_then (read_u64 bs) (\<lambda>(v, bs).
          try_then (ensure (\<not> v \<le> 0xffffffff) (Encoding ''noncanonical compact size'')) (\<lambda>_. Inr (unat v, bs))))
       (\<lambda>(v, bs).
     try_then (ensure (\<not> maximum < v) (Bounds ''compact size configured limit'')) (\<lambda>_. Inr (v, bs))))"

definition read_var_bytes :: "nat \<Rightarrow> u8 list reader" where
  "read_var_bytes maximum bs =
     try_then (read_compact_size maximum bs) (\<lambda>(n, bs).
       if n \<le> length bs then Inr (take n bs, drop n bs) else Inl (Encoding ''truncated transaction bytes''))"

text \<open>\<open>for _ in 0..n { items.push(read()?) }\<close>\<close>

fun read_many :: "'a reader \<Rightarrow> nat \<Rightarrow> 'a list reader" where
  "read_many rd 0 bs = Inr ([], bs)"
| "read_many rd (Suc n) bs =
     try_then (rd bs) (\<lambda>(x, bs). try_then (read_many rd n bs) (\<lambda>(xs, bs). Inr (x # xs, bs)))"

section \<open>Writing\<close>

definition write_compact_size :: "nat \<Rightarrow> u8 list" where
  "write_compact_size v =
     (if v < 0xfd then [of_nat v]
      else if v \<le> 0xffff then 0xfd # to_le_bytes 2 (of_nat v :: u16)
      else if v \<le> 0xffffffff then 0xfe # to_le_bytes 4 (of_nat v :: u32)
      else 0xff # to_le_bytes 8 (of_nat v :: u64))"

definition write_var_bytes :: "u8 list \<Rightarrow> u8 list" where
  "write_var_bytes bs = write_compact_size (length bs) @ bs"

definition compact_size_length :: "nat \<Rightarrow> nat" where
  "compact_size_length v = (if v < 0xfd then 1 else if v \<le> 0xffff then 3 else if v \<le> 0xffffffff then 5 else 9)"

lemma length_write_compact_size: "length (write_compact_size v) = compact_size_length v"
  by (simp add: write_compact_size_def compact_size_length_def)

section \<open>Codecs\<close>

locale codec =
  fixes enc :: "'a \<Rightarrow> u8 list" and dec :: "'a reader" and ok :: "'a \<Rightarrow> bool"
  assumes dec_enc: "ok x \<Longrightarrow> dec (enc x @ rest) = Inr (x, rest)"
    and enc_dec: "dec bs = Inr (x, rest) \<Longrightarrow> ok x \<and> bs = enc x @ rest"
begin

lemma many:
  "list_all ok xs \<Longrightarrow> read_many dec (length xs) (concat (map enc xs) @ rest) = Inr (xs, rest)"
  by (induction xs) (simp_all add: dec_enc)

lemma many_inv:
  "read_many dec n bs = Inr (xs, rest) \<Longrightarrow> length xs = n \<and> list_all ok xs \<and> bs = concat (map enc xs) @ rest"
proof (induction n arbitrary: bs xs)
  case (Suc n)
  then obtain x bs1 xs' where "dec bs = Inr (x, bs1)" "read_many dec n bs1 = Inr (xs', rest)" "xs = x # xs'"
    by (auto simp: try_then_eq_Inr)
  with Suc.IH enc_dec show ?case by fastforce
qed simp

lemma unambiguous:
  assumes "ok x" "ok y" "enc x @ r = enc y @ s"
  shows "x = y \<and> r = s"
  using dec_enc [OF assms(1), of r] dec_enc [OF assms(2), of s] unfolding assms(3) by simp

lemma concat_unambiguous:
  assumes ne: "\<And>x. enc x \<noteq> []"
  shows "list_all ok xs \<Longrightarrow> list_all ok ys \<Longrightarrow> concat (map enc xs) = concat (map enc ys) \<Longrightarrow> xs = ys"
proof (induction xs arbitrary: ys)
  case Nil
  then show ?case using ne by (cases ys) simp_all
next
  case (Cons x xs)
  show ?case
  proof (cases ys)
    case Nil
    then show ?thesis using Cons.prems(3) ne by simp
  next
    case (Cons y ys')
    have "ok x" "ok y" "enc x @ concat (map enc xs) = enc y @ concat (map enc ys')"
      using Cons.prems unfolding Cons by simp_all
    from unambiguous [OF this] Cons.IH [of ys'] Cons.prems(1,2) show ?thesis unfolding Cons by simp
  qed
qed

end

lemma read_array_append [simp]: "length a = n \<Longrightarrow> read_array n (a @ rest) = Inr (a, rest)"
  by (simp add: read_array_def)

lemma read_array_InrD: "read_array n bs = Inr (a, rest) \<Longrightarrow> length a = n \<and> bs = a @ rest"
  by (auto simp: read_array_def split: if_splits)

lemma le_reader:
  fixes rd :: "'a::len word reader"
  assumes "LENGTH('a) = 8 * n"
    "\<And>bs. rd bs = try_then (read_array n bs) (\<lambda>(a, rest). Inr (from_le_bytes a, rest))"
  shows "codec (to_le_bytes n) rd (\<lambda>_. True)"
proof
  fix x :: "'a word" and rest
  show "rd (to_le_bytes n x @ rest) = Inr (x, rest)"
    using assms by (simp add: from_to_le_bytes)
next
  fix bs x rest
  assume "rd bs = Inr (x, rest)"
  then obtain a where "read_array n bs = Inr (a, rest)" "x = from_le_bytes a"
    using assms(2) by (auto simp: try_then_eq_Inr)
  with read_array_InrD [of n bs a rest] to_from_le_bytes [of a, where 'a = 'a] assms(1)
  show "True \<and> bs = to_le_bytes n x @ rest" by simp
qed

interpretation le16: codec "to_le_bytes 2" read_u16 "\<lambda>_. True"
  by (rule le_reader) (simp_all add: read_u16_def)

interpretation le32: codec "to_le_bytes 4" read_u32 "\<lambda>_. True"
  by (rule le_reader) (simp_all add: read_u32_def)

interpretation le64: codec "to_le_bytes 8" read_u64 "\<lambda>_. True"
  by (rule le_reader) (simp_all add: read_u64_def)

interpretation lei32: codec "to_le_bytes 4" read_i32 "\<lambda>_. True"
  by (rule le_reader) (simp_all add: read_i32_def)

lemma read_u8_Cons [simp]: "read_u8 (b # bs) = Inr (b, bs)"
  by (simp add: read_u8_def peek_def peek_at_def)

lemma read_u8_InrD: "read_u8 bs = Inr (b, rest) \<Longrightarrow> bs = b # rest"
  by (cases bs) (auto simp: read_u8_def peek_def peek_at_def)

section \<open>Compact sizes\<close>

lemma unat_of_nat_small: "n < 2 ^ LENGTH('a) \<Longrightarrow> unat (of_nat n :: 'a::len word) = n"
  by (simp add: unat_of_nat take_bit_nat_eq_self)

lemmas word_nat_alts = word_le_nat_alt word_less_nat_alt

lemma read_compact_size_written:
  assumes "v \<le> maximum" "v < 2 ^ 64"
  shows "read_compact_size maximum (write_compact_size v @ rest) = Inr (v, rest)"
proof -
  consider "v < 0xfd" | "0xfd \<le> v" "v \<le> 0xffff" | "0xffff < v" "v \<le> 0xffffffff" | "0xffffffff < v"
    by linarith
  then show ?thesis
  proof cases
    case 1
    then show ?thesis
      using assms by (simp add: write_compact_size_def read_compact_size_def word_nat_alts unat_of_nat_small)
  next
    case 2
    then show ?thesis
      using assms le16.dec_enc [of "of_nat v" rest]
      by (simp add: write_compact_size_def read_compact_size_def word_nat_alts unat_of_nat_small)
  next
    case 3
    then show ?thesis
      using assms le32.dec_enc [of "of_nat v" rest]
      by (simp add: write_compact_size_def read_compact_size_def word_nat_alts unat_of_nat_small)
  next
    case 4
    then show ?thesis
      using assms le64.dec_enc [of "of_nat v" rest]
      by (simp add: write_compact_size_def read_compact_size_def word_nat_alts unat_of_nat_small)
  qed
qed

lemma u8_cases:
  fixes b :: u8
  obtains "b \<le> 0xfc" | "b = 0xfd" | "b = 0xfe" | "b = 0xff"
proof -
  have "unat b \<le> 0xfc \<or> unat b = 0xfd \<or> unat b = 0xfe \<or> unat b = 0xff"
    using unat_bound [of b] by auto
  then show thesis using that by (auto simp: word_le_nat_alt word_unat_eq_iff)
qed

lemma read_compact_size_InrD:
  assumes "read_compact_size maximum bs = Inr (v, rest)"
  shows "v \<le> maximum \<and> v < 2 ^ 64 \<and> bs = write_compact_size v @ rest"
proof -
  obtain marker bs1 where m: "read_u8 bs = Inr (marker, bs1)" and le: "v \<le> maximum"
    using assms by (auto simp: read_compact_size_def try_then_eq_Inr)
  have bs: "bs = marker # bs1" using read_u8_InrD [OF m] .
  show ?thesis
  proof (cases marker rule: u8_cases)
    case 1
    then have "v = unat marker" "rest = bs1" "unat marker < 0xfd"
      using assms bs by (auto simp: read_compact_size_def try_then_eq_Inr word_nat_alts)
    then show ?thesis using bs le by (simp add: write_compact_size_def)
  next
    case 2
    then obtain w where w: "read_u16 bs1 = Inr (w, rest)" "\<not> w < 0xfd" "v = unat w"
      using assms bs by (auto simp: read_compact_size_def try_then_eq_Inr)
    then have "bs1 = to_le_bytes 2 w @ rest" "unat w \<le> 0xffff" "0xfd \<le> unat w"
      using le16.enc_dec [OF w(1)] unat_bound [of w] by (auto simp: word_nat_alts)
    then show ?thesis using 2 bs le w(3) by (simp add: write_compact_size_def)
  next
    case 3
    then obtain w where w: "read_u32 bs1 = Inr (w, rest)" "\<not> w \<le> 0xffff" "v = unat w"
      using assms bs by (auto simp: read_compact_size_def try_then_eq_Inr word_le_nat_alt)
    then have "bs1 = to_le_bytes 4 w @ rest" "unat w \<le> 0xffffffff" "0xffff < unat w"
      using le32.enc_dec [OF w(1)] unat_bound [of w] by (auto simp: word_nat_alts)
    then show ?thesis using 3 bs le w(3) by (simp add: write_compact_size_def)
  next
    case 4
    then obtain w where w: "read_u64 bs1 = Inr (w, rest)" "\<not> w \<le> 0xffffffff" "v = unat w"
      using assms bs by (auto simp: read_compact_size_def try_then_eq_Inr word_le_nat_alt)
    then have "bs1 = to_le_bytes 8 w @ rest" "unat w < 2 ^ 64" "0xffffffff < unat w"
      using le64.enc_dec [OF w(1)] unat_bound [of w] by (auto simp: word_nat_alts)
    then show ?thesis using 4 bs le w(3) by (simp add: write_compact_size_def)
  qed
qed

interpretation compact: codec write_compact_size "read_compact_size m" "\<lambda>v. v \<le> m \<and> v < 2 ^ 64" for m
  using read_compact_size_written read_compact_size_InrD by unfold_locales blast+

lemma read_var_bytes_InrD:
  assumes "read_var_bytes m bs = Inr (x, rest)"
  shows "length x \<le> m \<and> length x < 2 ^ 64 \<and> bs = write_var_bytes x @ rest"
proof -
  obtain n bs1 where n: "read_compact_size m bs = Inr (n, bs1)" "n \<le> length bs1" "x = take n bs1" "rest = drop n bs1"
    using assms by (auto simp: read_var_bytes_def try_then_eq_Inr split: if_splits)
  with compact.enc_dec [OF n(1)] show ?thesis by (simp add: write_var_bytes_def)
qed

interpretation var_bytes: codec write_var_bytes "read_var_bytes m" "\<lambda>x. length x \<le> m \<and> length x < 2 ^ 64" for m
proof unfold_locales
  fix x :: "u8 list" and rest
  assume "length x \<le> m \<and> length x < 2 ^ 64"
  then show "read_var_bytes m (write_var_bytes x @ rest) = Inr (x, rest)"
    using compact.dec_enc [of "length x" m "x @ rest"] by (simp add: write_var_bytes_def read_var_bytes_def)
qed (use read_var_bytes_InrD in blast)

lemma length_write_var_bytes: "length (write_var_bytes x) = compact_size_length (length x) + length x"
  by (simp add: write_var_bytes_def length_write_compact_size)

end
