(* ===== verification/Payment_Codes.thy ===== *)
theory Payment_Codes
  imports Bech32 Byte_Codec
begin

text \<open>
  Native SegWit addresses as \<open>immortal-core/src/mkt_swp_verify.rs\<close> parses them
  (\<open>parse_segwit_address\<close>). The file has its own bech32 routines; they are shown to agree
  with those of \<open>nip19.rs\<close>, and the parser to accept exactly the BIP173 and BIP350 texts.
\<close>

section \<open>Bech32 helpers\<close>

definition bech32_word :: "char \<Rightarrow> (verification_error, u8) result" where
  "bech32_word c =
     try_then (ok_or (position (\<lambda>candidate. candidate = c) CHARSET) (Encoding ''BOLT11 bech32 character''))
       (\<lambda>i. Inr (of_nat i))"

definition bech32_words :: "string \<Rightarrow> (verification_error, u8 list) result" where
  "bech32_words encoded = try_map bech32_word encoded"

fun xor_generators :: "u32 \<Rightarrow> nat \<Rightarrow> u32 list \<Rightarrow> u32 \<Rightarrow> u32" where
  "xor_generators hi i [] c = c"
| "xor_generators hi i (g # gs) c =
     xor_generators hi (Suc i) gs (if drop_bit i hi AND 1 \<noteq> 0 then c XOR g else c)"

definition bech32_polymod :: "string \<Rightarrow> u8 list \<Rightarrow> u32" where
  "bech32_polymod hrp ws =
     foldl (\<lambda>c v. xor_generators (drop_bit 25 c) 0
                    [0x3b6a57b2, 0x26508e6d, 0x1ea119fa, 0x3d4233dd, 0x2a1462b3]
                    (push_bit 5 (c AND 0x01ffffff) XOR ucast v)) 1
       (map (\<lambda>c. drop_bit 5 (byte_of c)) hrp @ [0] @ map (\<lambda>c. byte_of c AND 31) hrp @ ws)"

definition verify_bech32_checksum :: "string \<Rightarrow> u8 list \<Rightarrow> (verification_error, unit) result" where
  "verify_bech32_checksum hrp ws = ensure (bech32_polymod hrp ws = 1) (Encoding ''BOLT11 checksum'')"

text \<open>The loop of \<open>convert_bits\<close>, and the treatment of the bits that remain.\<close>

fun convert_loop ::
    "nat \<Rightarrow> nat \<Rightarrow> u32 \<Rightarrow> u8 list \<Rightarrow> u32 \<Rightarrow> nat \<Rightarrow> (verification_error, u8 list \<times> u32 \<times> nat) result" where
  "convert_loop from to maximum [] acc bits = Inr ([], acc, bits)"
| "convert_loop from to maximum (v # vs) acc bits =
     try_then (ensure (drop_bit from (ucast v :: u32) = 0) (Encoding ''base conversion value'')) (\<lambda>_.
     let acc1 = push_bit from acc OR ucast v;
         (bits1, out) = drain to maximum acc1 (bits + from)
     in try_then (convert_loop from to maximum vs acc1 bits1) (\<lambda>(rest, acc2, bits2).
        Inr (out @ rest, acc2, bits2)))"

definition convert_bits :: "u8 list \<Rightarrow> nat \<Rightarrow> nat \<Rightarrow> bool \<Rightarrow> (verification_error, u8 list) result" where
  "convert_bits input from to pad =
     (let maximum = push_bit to 1 - 1
      in try_then (convert_loop from to maximum input 0 0) (\<lambda>(out, acc, bits).
           if pad then
             (if bits \<noteq> 0 then Inr (out @ [ucast (push_bit (to - bits) acc AND maximum)]) else Inr out)
           else if from \<le> bits \<or> push_bit (to - bits) acc AND maximum \<noteq> 0
           then Inl (Encoding ''noncanonical base conversion padding'')
           else Inr out))"

section \<open>SegWit addresses\<close>

datatype bitcoin_network = Bitcoin | Testnet | Signet | Regtest

record segwit_address =
  sa_network :: bitcoin_network
  sa_witness_version :: u8
  sa_witness_program :: "u8 list"
  sa_script_pubkey :: "u8 list"

definition hrp_network :: "string \<Rightarrow> bitcoin_network option" where
  "hrp_network hrp =
     (if hrp = ''bc'' then Some Bitcoin
      else if hrp = ''tb'' then Some Testnet
      else if hrp = ''bcrt'' then Some Regtest
      else None)"

definition parse_segwit_address :: "string \<Rightarrow> (verification_error, segwit_address) result" where
  "parse_segwit_address address =
     try_then (ensure (\<not> (length address < 8 \<or> 90 < length address \<or> \<not> is_ascii address))
                (Bounds ''SegWit address length'')) (\<lambda>_.
     try_then (ensure (\<not> list_ex (\<lambda>c. is_ascii_uppercase (byte_of c)) address)
                (Encoding ''SegWit address must be lowercase'')) (\<lambda>_.
     try_then (ok_or (rfind (CHR ''1'') address) (Encoding ''SegWit address separator'')) (\<lambda>separator.
     let hrp = take separator address
     in try_then (ok_or (hrp_network hrp) (Unsupported ''SegWit address network'')) (\<lambda>network.
     let encoded = drop (separator + 1) address
     in try_then (bech32_words encoded) (\<lambda>ws.
     try_then (ensure (\<not> length ws < 7) (Encoding ''SegWit address data length'')) (\<lambda>_.
     let witness_version = ws ! 0
     in try_then (ensure (\<not> 16 < witness_version) (Unsupported ''SegWit witness version'')) (\<lambda>_.
     let expected_checksum = (if witness_version = 0 then 1 else 0x2bc830a3)
     in try_then (ensure (bech32_polymod hrp ws = expected_checksum) (Encoding ''SegWit address checksum'')) (\<lambda>_.
     try_then (convert_bits (drop 1 (take (length ws - 6) ws)) 5 8 False) (\<lambda>witness_program.
     try_then (ensure (\<not> (\<not> (2 \<le> length witness_program \<and> length witness_program \<le> 40)
                          \<or> witness_version = 0 \<and> length witness_program \<notin> {20, 32}))
                (Bounds ''SegWit witness program'')) (\<lambda>_.
     Inr \<lparr>sa_network = network, sa_witness_version = witness_version, sa_witness_program = witness_program,
          sa_script_pubkey = (if witness_version = 0 then 0 else 0x50 + witness_version)
            # of_nat (length witness_program) # witness_program\<rparr>))))))))))"

section \<open>Agreement with the routines of \<open>nip19.rs\<close>\<close>

lemma xor_generators_mix: "xor_generators hi i gs c = mix_generators hi i gs c"
proof (induction gs arbitrary: i c)
  case (Cons g gs)
  have "(drop_bit i hi AND 1 \<noteq> 0) = (drop_bit i hi AND 1 = 1)"
    by (simp add: and_one_eq odd_iff_mod_2_eq_one [symmetric] even_iff_mod_2_eq_zero [symmetric])
  with Cons show ?case by simp
qed simp

lemma bech32_polymod_polymod: "bech32_polymod hrp ws = polymod (expand_prefix hrp) ws"
proof -
  have "(\<lambda>c v. xor_generators (drop_bit 25 c) 0 [0x3b6a57b2, 0x26508e6d, 0x1ea119fa, 0x3d4233dd, 0x2a1462b3]
           (push_bit 5 (c AND 0x01ffffff) XOR ucast v)) = polymod_step"
    by (simp add: fun_eq_iff polymod_step_def Let_def GENERATOR_def xor_generators_mix del: mix_generators.simps)
  then show ?thesis
    unfolding bech32_polymod_def polymod_def expand_prefix_def by simp
qed

lemma bech32_words_iff:
  "bech32_words s = Inr ws \<longleftrightarrow> s = map (\<lambda>w. CHARSET ! unat w) ws \<and> list_all (\<lambda>w. unat w < 32) ws"
proof -
  have word: "bech32_word c = Inr w \<longleftrightarrow> word_of_char c = Inr w" for c w
    by (simp add: bech32_word_def word_of_char_def result_simps)
  have "bech32_words s = Inr ws \<longleftrightarrow> try_map word_of_char s = Inr ws"
    unfolding bech32_words_def by (simp add: try_map_eq_Inr word)
  then show ?thesis using words_of_charsD words_of_chars by blast
qed

lemma high_bits_zero: "drop_bit n (ucast (v :: u8) :: u32) = 0 \<longleftrightarrow> unat v < 2 ^ n"
proof -
  have "drop_bit n (ucast v :: u32) = 0 \<longleftrightarrow> unat (drop_bit n (ucast v :: u32)) = 0"
    by (simp add: unat_eq_0)
  also have "unat (drop_bit n (ucast v :: u32)) = unat v div 2 ^ n"
    unfolding unat_drop_bit_eq unfolding drop_bit_eq_div
    using unat_bound [of v] by (simp add: unsigned_ucast_eq take_bit_nat_eq_self)
  finally show ?thesis by (simp add: div_eq_0_iff)
qed

lemma convert_loop_regroup:
  "list_all (\<lambda>w. unat w < 2 ^ from) ws \<Longrightarrow>
     convert_loop from to m ws acc bits = Inr (regroup from to m ws acc bits)"
  by (induction "from" to m ws acc bits rule: regroup.induct)
    (auto simp: high_bits_zero Let_def split: prod.splits)

lemma convert_loop_refused:
  "\<not> list_all (\<lambda>w. unat w < 2 ^ from) ws \<Longrightarrow>
     convert_loop from to m ws acc bits = Inl (Encoding ''base conversion value'')"
proof (induction ws arbitrary: acc bits)
  case (Cons w ws)
  then show ?case
    by (cases "unat w < 2 ^ from") (auto simp: high_bits_zero Let_def split: prod.splits)
qed simp

lemma shifted_zero:
  fixes acc :: u32
  assumes "bits \<le> to" "to \<le> 8"
  shows "push_bit (to - bits) acc AND (push_bit to 1 - 1) = 0 \<longleftrightarrow> acc AND (push_bit bits 1 - 1) = 0"
  using assms low_bits_zero [of to "push_bit (to - bits) acc"] low_bits_zero [of bits acc]
    replicate_add [of bits "to - bits" False]
  by (simp add: bits_of_shifted)

lemma convert_bits_from_words:
  assumes "list_all (\<lambda>w. unat w < 32) ws"
  shows "convert_bits ws 5 8 False
    = map_err (\<lambda>_. Encoding ''noncanonical base conversion padding'') (from_words ws)"
proof -
  obtain out acc bits where r: "regroup 5 8 255 ws 0 0 = (out, acc, bits)" by (metis prod_cases3)
  have "bits < 8" using regroup_bits [OF r, simplified] assms by auto
  then have "push_bit (8 - bits) acc AND 255 = 0 \<longleftrightarrow> acc AND (push_bit bits 1 - 1) = 0"
    using shifted_zero [of bits 8 acc] by simp
  then show ?thesis
    using assms convert_loop_regroup [of 5 ws 8 255 0 0] r
    by (simp add: convert_bits_def from_words_def Let_def)
qed

lemma convert_bits_to_words: "convert_bits data 8 5 True = Inr (to_words data)"
  using u8_list_bound [of data] convert_loop_regroup [of 8 data 5 31 0 0]
  by (auto simp: convert_bits_def to_words_def Let_def split: prod.splits)

lemma convert_bits_refused:
  "\<not> list_all (\<lambda>w. unat w < 2 ^ from) ws \<Longrightarrow>
     convert_bits ws from to pad = Inl (Encoding ''base conversion value'')"
  by (simp add: convert_bits_def convert_loop_refused Let_def)

section \<open>The form of addresses\<close>

text \<open>The address of a witness program as BIP173 and BIP350 write it.\<close>

definition checksum_constant :: "u8 \<Rightarrow> u32" where
  "checksum_constant version = (if version = 0 then 1 else 0x2bc830a3)"

definition segwit_text :: "string \<Rightarrow> u8 \<Rightarrow> u8 list \<Rightarrow> string" where
  "segwit_text hrp version program =
     (let ws = version # to_words program
      in hrp @ ''1'' @ map (\<lambda>w. CHARSET ! unat w) (ws @ checksum_for (checksum_constant version) hrp ws))"

definition program_length_ok :: "u8 \<Rightarrow> u8 list \<Rightarrow> bool" where
  "program_length_ok version program \<longleftrightarrow> 2 \<le> length program \<and> length program \<le> 40
     \<and> (version = 0 \<longrightarrow> length program \<in> {20, 32})"

definition segwit_output :: "bitcoin_network \<Rightarrow> u8 \<Rightarrow> u8 list \<Rightarrow> segwit_address" where
  "segwit_output network version program =
     \<lparr>sa_network = network, sa_witness_version = version, sa_witness_program = program,
      sa_script_pubkey = (if version = 0 then 0 else 0x50 + version) # of_nat (length program) # program\<rparr>"

lemma program_length_check:
  "(\<not> (\<not> (2 \<le> length program \<and> length program \<le> 40) \<or> version = 0 \<and> length program \<notin> {20, 32}))
     = program_length_ok version program"
  by (auto simp: program_length_ok_def)

lemma checksum_constant_bound: "unat (checksum_constant version) < 2 ^ 30"
  by (simp add: checksum_constant_def)

lemma hrp_network_text:
  assumes "hrp_network hrp = Some network"
  shows "is_ascii hrp" "list_all (\<lambda>c. \<not> is_ascii_uppercase (byte_of c)) hrp" "length hrp \<in> {2, 4}"
proof -
  have "hrp \<in> {''bc'', ''tb'', ''bcrt''}"
    using assms by (auto simp: hrp_network_def split: if_splits)
  moreover have "list_all is_ascii [''bc'', ''tb'', ''bcrt'']"
    "list_all (list_all (\<lambda>c. \<not> is_ascii_uppercase (byte_of c))) [''bc'', ''tb'', ''bcrt'']"
    by code_simp+
  ultimately show "is_ascii hrp" "list_all (\<lambda>c. \<not> is_ascii_uppercase (byte_of c)) hrp" "length hrp \<in> {2, 4}"
    by auto
qed

lemma split_version_checksum:
  assumes "7 \<le> length ws"
  shows "ws = (ws ! 0 # drop 1 (take (length ws - 6) ws)) @ drop (length ws - 6) ws"
proof -
  have "ws ! 0 # drop 1 (take (length ws - 6) ws) = take (length ws - 6) ws"
    using assms Cons_nth_drop_Suc [of 0 "take (length ws - 6) ws"] by simp
  then show ?thesis by simp
qed

lemma parse_segwit_addressD:
  assumes "parse_segwit_address address = Inr s"
  obtains hrp network version program where "hrp_network hrp = Some network" "version \<le> 16"
    "program_length_ok version program" "address = segwit_text hrp version program"
    "s = segwit_output network version program"
proof -
  obtain i network ws program where d: "rfind (CHR ''1'') address = Some i"
    "hrp_network (take i address) = Some network" "bech32_words (drop (i + 1) address) = Inr ws"
    "7 \<le> length ws" "ws ! 0 \<le> 16" "bech32_polymod (take i address) ws = checksum_constant (ws ! 0)"
    "convert_bits (drop 1 (take (length ws - 6) ws)) 5 8 False = Inr program"
    "program_length_ok (ws ! 0) program" "s = segwit_output network (ws ! 0) program"
    using assms
    unfolding parse_segwit_address_def Let_def checksum_constant_def [symmetric] program_length_check
      segwit_output_def [symmetric]
    by (auto simp only: try_then_eq_Inr ensure_eq_Inr ok_or_eq_Inr sum.inject not_less)
  note r = rfind_SomeD [OF d(1)]
  from d(3) have w: "drop (i + 1) address = map (\<lambda>w. CHARSET ! unat w) ws" "list_all (\<lambda>w. unat w < 32) ws"
    by (simp_all add: bech32_words_iff)
  define payload where "payload = drop 1 (take (length ws - 6) ws)"
  define c where "c = drop (length ws - 6) ws"
  have ws: "ws = (ws ! 0 # payload) @ c" "length c = 6"
    unfolding payload_def c_def using split_version_checksum [OF d(4)] d(4) by simp_all
  have all: "list_all (\<lambda>w. unat w < 32) payload" "list_all (\<lambda>w. unat w < 32) c"
    using w(2) by (simp_all add: payload_def c_def list_all_iff) (meson in_set_dropD in_set_takeD)+
  have "from_words payload = Inr program"
    using d(7) unfolding payload_def [symmetric] convert_bits_from_words [OF all(1)] map_err_eq_Inr .
  then have "to_words program = payload" by (rule to_words_from_words [OF all(1)])
  moreover have "c = checksum_for (checksum_constant (ws ! 0)) (take i address) (ws ! 0 # payload)"
    using d(6) unfolding bech32_polymod_polymod
    by (simp only: checksum_for_unique [OF ws(2) all(2) checksum_constant_bound, symmetric] ws(1) [symmetric])
  ultimately have "segwit_text (take i address) (ws ! 0) program
      = take i address @ ''1'' @ map (\<lambda>w. CHARSET ! unat w) ws"
    unfolding segwit_text_def Let_def using ws(1) by simp
  then have "address = segwit_text (take i address) (ws ! 0) program"
    using r w(1) by simp
  with d(2,5,8,9) that show thesis by blast
qed

lemma parse_segwit_text:
  assumes "hrp_network hrp = Some network" "version \<le> 16" "program_length_ok version program"
  shows "parse_segwit_address (segwit_text hrp version program) = Inr (segwit_output network version program)"
proof -
  define ws where "ws = (version # to_words program)
    @ checksum_for (checksum_constant version) hrp (version # to_words program)"
  define chars where "chars = map (\<lambda>w. CHARSET ! unat w) ws"
  define address where "address = segwit_text hrp version program"
  note h = hrp_network_text [OF assms(1)]
  have less: "list_all (\<lambda>w. unat w < 32) ws"
    using assms(2) to_words_less checksum_for_less by (auto simp: ws_def list_all_iff word_le_nat_alt)
  have a: "address = hrp @ CHR ''1'' # chars"
    by (simp add: address_def segwit_text_def Let_def chars_def ws_def)
  have c: "CHR ''1'' \<notin> set chars" "is_ascii chars" "list_all (\<lambda>c. \<not> is_ascii_uppercase (byte_of c)) chars"
    using charset_text [OF less] by (auto simp: chars_def list_all_iff is_ascii_def)
  have "list_all (\<lambda>c. \<not> is_ascii_uppercase (byte_of c)) address"
    using c(3) h(2) unfolding a by (simp add: byte_of_one is_ascii_uppercase_def)
  then have plain: "\<not> list_ex (\<lambda>c. is_ascii_uppercase (byte_of c)) address" "is_ascii address"
    using h(1) c(2) unfolding a by (auto simp: byte_of_one is_ascii_def list_all_iff list_ex_iff)
  have sep: "rfind (CHR ''1'') address = Some (length hrp)" "take (length hrp) address = hrp"
    "drop (length hrp + 1) address = chars"
    unfolding a using rfind_append [OF c(1)] by simp_all
  have words: "bech32_words chars = Inr ws" using less by (simp add: bech32_words_iff chars_def)
  have parts: "ws ! 0 = version" "drop 1 (take (length ws - 6) ws) = to_words program" "\<not> length ws < 7"
    "\<not> 16 < version"
    using assms(2) by (simp_all add: ws_def)
  have sum: "bech32_polymod hrp ws = checksum_constant version"
    unfolding ws_def bech32_polymod_polymod
    by (simp only: checksum_for_unique [OF checksum_for_length checksum_for_less checksum_constant_bound])
  have prog: "convert_bits (to_words program) 5 8 False = Inr program"
    using convert_bits_from_words [of "to_words program"] less from_words_to_words [of program]
    by (simp add: ws_def)
  have "length address = length hrp + 8 + (8 * length program + 4) div 5"
    by (simp add: a chars_def ws_def length_to_words)
  then have "\<not> length address < 8" "\<not> 90 < length address"
    using h(3) assms(3) by (auto simp: program_length_ok_def)
  then show ?thesis
    unfolding parse_segwit_address_def Let_def checksum_constant_def [symmetric] program_length_check
      segwit_output_def [symmetric] address_def [symmetric]
    using assms plain
    by (simp only: sep words parts sum prog ok_or_simps ensure_simps try_then_simps simp_thms)
qed

lemma parse_segwit_address_iff:
  "parse_segwit_address address = Inr s \<longleftrightarrow>
     (\<exists>hrp network version program. hrp_network hrp = Some network \<and> version \<le> 16
        \<and> program_length_ok version program \<and> address = segwit_text hrp version program
        \<and> s = segwit_output network version program)"
    (is "?l \<longleftrightarrow> ?r")
proof
  show "?l \<Longrightarrow> ?r" by (elim parse_segwit_addressD) blast
  show "?r \<Longrightarrow> ?l" using parse_segwit_text by blast
qed

section \<open>Properties\<close>

text \<open>C27: an address is accepted exactly when it is the BIP173 or BIP350 text of a witness
  program of a permitted length and version on a known network, and the result is that
  program with its output script; no two texts give the same program on a network.\<close>

theorem segwit_address_exact:
  "parse_segwit_address address = Inr s \<longleftrightarrow>
     (\<exists>hrp network version program. hrp_network hrp = Some network \<and> version \<le> 16
        \<and> program_length_ok version program \<and> address = segwit_text hrp version program
        \<and> s = segwit_output network version program)"
  by (rule parse_segwit_address_iff)

end
