(* ===== verification/Invoices.thy ===== *)
theory Invoices
  imports Payment_Codes
begin

text \<open>
  BOLT11 invoices as \<open>immortal-core/src/mkt_swp_verify.rs\<close> parses them (\<open>parse_bolt11\<close> and its
  helpers). Hashing and the secp256k1 operations are the argument \<open>crypto\<close>. Amounts and
  word integers are shown to be exact, and a run of the parser is taken apart into the steps
  it consists of; what the tagged fields of an invoice mean is the matter of
  \<open>Invoice_Meaning\<close>.
\<close>

section \<open>Definitions\<close>

definition MAX_INVOICE_CHARS :: nat where "MAX_INVOICE_CHARS = 7089"

definition words_to_u64 :: "u8 list \<Rightarrow> (verification_error, u64) result" where
  "words_to_u64 ws =
     foldl (\<lambda>r w. try_then r (\<lambda>v.
       ok_or (case checked_mul v 32 of None \<Rightarrow> None | Some x \<Rightarrow> checked_add x (ucast w)) (Bounds ''base32 integer'')))
       (Inr 0) ws"

definition minimal_word_integer :: "u8 list \<Rightarrow> string \<Rightarrow> (verification_error, u64) result" where
  "minimal_word_integer ws label =
     (if ws = [] \<or> (1 < length ws \<and> ws ! 0 = 0) \<or> 13 < length ws then Inl (Encoding label)
      else words_to_u64 ws)"

definition set_once_32 :: "u8 list option \<Rightarrow> u8 list \<Rightarrow> string \<Rightarrow> (verification_error, u8 list option) result" where
  "set_once_32 destination field label =
     try_then (ensure (\<not> (destination \<noteq> None \<or> length field \<noteq> 52)) (Invalid label)) (\<lambda>_.
     try_then (convert_bits field 5 8 False) (\<lambda>bytes.
     try_then (ensure (length bytes = 32) (Encoding label)) (\<lambda>_. Inr (Some bytes))))"

definition invoice_prefix :: "string \<Rightarrow> (string \<times> bitcoin_network) option" where
  "invoice_prefix hrp =
     (if starts_with hrp ''lnbcrt'' then Some (''lnbcrt'', Regtest)
      else if starts_with hrp ''lntbs'' then Some (''lntbs'', Signet)
      else if starts_with hrp ''lntb'' then Some (''lntb'', Testnet)
      else if starts_with hrp ''lnbc'' then Some (''lnbc'', Bitcoin)
      else None)"

definition invoice_millisatoshis :: "u64 \<Rightarrow> char option \<Rightarrow> u64 option" where
  "invoice_millisatoshis v multiplier =
     (case multiplier of
        None \<Rightarrow> checked_mul v 100000000000
      | Some u \<Rightarrow>
          if u = CHR ''m'' then checked_mul v 100000000
          else if u = CHR ''u'' then checked_mul v 100000
          else if u = CHR ''n'' then checked_mul v 100
          else if u = CHR ''p'' \<and> v mod 10 = 0 then Some (v div 10)
          else None)"

definition parse_invoice_hrp :: "string \<Rightarrow> (verification_error, bitcoin_network \<times> u64 option) result" where
  "parse_invoice_hrp hrp =
     try_then (ok_or (invoice_prefix hrp) (Unsupported ''BOLT11 network'')) (\<lambda>(prefix, network).
     let amount = drop (length prefix) hrp
     in if amount = [] then Inr (network, None)
        else
          let unit = last amount;
              (digits, multiplier) =
                (if unit \<in> {CHR ''m'', CHR ''u'', CHR ''n'', CHR ''p''} then (butlast amount, Some unit)
                 else (amount, None))
          in try_then (ensure (\<not> (digits = [] \<or> \<not> list_all (\<lambda>c. is_ascii_digit (byte_of c)) digits))
                        (Encoding ''BOLT11 amount'')) (\<lambda>_.
             try_then (ok_or (parse_u64 digits) (Bounds ''BOLT11 amount'')) (\<lambda>v.
             try_then (ok_or (invoice_millisatoshis v multiplier) (Bounds ''BOLT11 millisatoshi amount'')) (\<lambda>m.
             Inr (network, Some m)))))"

record invoice_crypto =
  ic_sha256 :: "u8 list \<Rightarrow> u8 list"
  ic_public_key :: "u8 list \<Rightarrow> u8 list option"
  ic_recoverable :: "u8 list \<Rightarrow> u8 \<Rightarrow> u8 list option"
  ic_recover :: "u8 list \<Rightarrow> u8 list \<Rightarrow> u8 list option"
  ic_signature :: "u8 list \<Rightarrow> u8 list option"
  ic_normalize_s :: "u8 list \<Rightarrow> u8 list"
  ic_verify :: "u8 list \<Rightarrow> u8 list \<Rightarrow> u8 list \<Rightarrow> bool"

record invoice_fields =
  if_payment_hash :: "u8 list option"
  if_payment_secret :: "u8 list option"
  if_explicit_payee :: "u8 list option"
  if_has_description :: bool
  if_has_description_hash :: bool
  if_expiry_seconds :: u64
  if_minimum_final_cltv_delta :: u64
  if_feature_bits :: "u16 list option"

record bolt11_invoice =
  bi_network :: bitcoin_network
  bi_amount_msat :: "u64 option"
  bi_timestamp :: u64
  bi_payment_hash :: "u8 list"
  bi_payment_secret :: "u8 list"
  bi_payee :: "u8 list"
  bi_expiry_seconds :: u64
  bi_minimum_final_cltv_delta :: u64
  bi_feature_bits :: "u16 list"

definition no_fields :: invoice_fields where
  "no_fields = \<lparr>if_payment_hash = None, if_payment_secret = None, if_explicit_payee = None,
     if_has_description = False, if_has_description_hash = False, if_expiry_seconds = 3600,
     if_minimum_final_cltv_delta = 18, if_feature_bits = None\<rparr>"

text \<open>The set bits of a feature field, numbered from the least significant one.\<close>

definition feature_bits :: "u8 list \<Rightarrow> (verification_error, u16 list) result" where
  "feature_bits field =
     try_map (\<lambda>n. ok_or (if n < 2 ^ 16 then Some (of_nat n) else None) (Bounds ''BOLT11 features''))
       (concat (map (\<lambda>(word_offset, w). map (\<lambda>b. word_offset * 5 + b) (filter (\<lambda>b. w AND push_bit b 1 \<noteq> 0) [0..<5]))
                 (enumerate 0 (rev field))))"

definition apply_field ::
    "invoice_crypto \<Rightarrow> u8 \<Rightarrow> u8 list \<Rightarrow> invoice_fields \<Rightarrow> (verification_error, invoice_fields) result" where
  "apply_field crypto field_type field st =
     (if field_type = 1 then
        try_then (set_once_32 (if_payment_hash st) field ''payment hash'') (\<lambda>v. Inr (st\<lparr>if_payment_hash := v\<rparr>))
      else if field_type = 16 then
        try_then (set_once_32 (if_payment_secret st) field ''payment secret'') (\<lambda>v. Inr (st\<lparr>if_payment_secret := v\<rparr>))
      else if field_type = 13 then
        try_then (ensure (\<not> if_has_description st) (Invalid ''duplicate BOLT11 description'')) (\<lambda>_.
        try_then (convert_bits field 5 8 False) (\<lambda>bytes.
        try_then (ensure (utf8_valid bytes) (Encoding ''BOLT11 description UTF-8'')) (\<lambda>_.
        Inr (st\<lparr>if_has_description := True\<rparr>))))
      else if field_type = 23 then
        try_then (ensure (\<not> (if_has_description_hash st \<or> length field \<noteq> 52)) (Invalid ''BOLT11 description hash''))
          (\<lambda>_. Inr (st\<lparr>if_has_description_hash := True\<rparr>))
      else if field_type = 19 then
        try_then (ensure (\<not> (if_explicit_payee st \<noteq> None \<or> length field \<noteq> 53)) (Invalid ''BOLT11 payee field'')) (\<lambda>_.
        try_then (convert_bits field 5 8 False) (\<lambda>bytes.
        try_then (ok_or (ic_public_key crypto bytes) (Crypto ''BOLT11 payee key'')) (\<lambda>k.
        Inr (st\<lparr>if_explicit_payee := Some k\<rparr>))))
      else if field_type = 6 then
        try_then (minimal_word_integer field ''BOLT11 expiry'') (\<lambda>v. Inr (st\<lparr>if_expiry_seconds := v\<rparr>))
      else if field_type = 24 then
        try_then (minimal_word_integer field ''BOLT11 CLTV delta'')
          (\<lambda>v. Inr (st\<lparr>if_minimum_final_cltv_delta := v\<rparr>))
      else if field_type = 5 then
        try_then (ensure (if_feature_bits st = None) (Invalid ''duplicate BOLT11 features'')) (\<lambda>_.
        try_then (feature_bits field) (\<lambda>bs. Inr (st\<lparr>if_feature_bits := Some bs\<rparr>)))
      else Inr st)"

text \<open>The loop over the tagged fields; \<open>ws\<close> are the words from the current position on.\<close>

function read_fields ::
    "invoice_crypto \<Rightarrow> u8 list \<Rightarrow> invoice_fields \<Rightarrow> (verification_error, invoice_fields) result" where
  "read_fields crypto ws st =
     (if ws = [] then Inr st
      else if length ws < 3 then Inl (Encoding ''BOLT11 tagged field header'')
      else
        let field_type = ws ! 0; len = unat (ws ! 1) * 32 + unat (ws ! 2); rest = drop 3 ws
        in if length rest < len then Inl (Encoding ''BOLT11 truncated field'')
           else try_then (apply_field crypto field_type (take len rest) st) (\<lambda>st'.
                read_fields crypto (drop len rest) st'))"
  by pat_completeness auto
termination by (relation "measure (\<lambda>(crypto, ws, st). length ws)") auto

declare read_fields.simps [simp del]

definition parse_bolt11 :: "invoice_crypto \<Rightarrow> string \<Rightarrow> (verification_error, bolt11_invoice) result" where
  "parse_bolt11 crypto invoice =
     try_then (ensure (\<not> (invoice = [] \<or> MAX_INVOICE_CHARS < length invoice \<or> \<not> is_ascii invoice))
                (Bounds ''BOLT11 invoice length'')) (\<lambda>_.
     try_then (ensure (\<not> list_ex (\<lambda>c. is_ascii_uppercase (byte_of c)) invoice)
                (Encoding ''BOLT11 must be lowercase'')) (\<lambda>_.
     try_then (ok_or (rfind (CHR ''1'') invoice) (Encoding ''BOLT11 separator'')) (\<lambda>separator.
     let human_readable = take separator invoice; encoded = drop (separator + 1) invoice
     in try_then (bech32_words encoded) (\<lambda>ws.
     try_then (ensure (\<not> length ws < 6 + 7 + 104) (Encoding ''BOLT11 data length'')) (\<lambda>_.
     try_then (verify_bech32_checksum human_readable ws) (\<lambda>_.
     let data = take (length ws - 6) ws
     in try_then (ensure (\<not> length data < 7 + 104) (Encoding ''BOLT11 signed data length'')) (\<lambda>_.
     let signed_end = length data - 104; signed_words = take signed_end data
     in try_then (convert_bits (drop signed_end data) 5 8 False) (\<lambda>signature_bytes.
     try_then (ensure (\<not> (length signature_bytes \<noteq> 65 \<or> 3 < signature_bytes ! 64))
                (Encoding ''BOLT11 recoverable signature'')) (\<lambda>_.
     try_then (parse_invoice_hrp human_readable) (\<lambda>(network, amount_msat).
     try_then (words_to_u64 (take 7 signed_words)) (\<lambda>timestamp.
     try_then (read_fields crypto (drop 7 signed_words) no_fields) (\<lambda>st.
     try_then (ensure (if_has_description st \<noteq> if_has_description_hash st)
                (Invalid ''BOLT11 description choice'')) (\<lambda>_.
     try_then (convert_bits signed_words 5 8 True) (\<lambda>signed_bytes.
     let digest = ic_sha256 crypto (as_bytes human_readable @ signed_bytes)
     in try_then (ok_or (ic_recoverable crypto (take 64 signature_bytes) (signature_bytes ! 64))
                   (Crypto ''BOLT11 signature encoding'')) (\<lambda>recoverable.
     try_then (ok_or (ic_recover crypto digest recoverable) (Crypto ''BOLT11 signature recovery'')) (\<lambda>recovered.
     try_then (case if_explicit_payee st of
                 None \<Rightarrow> Inr ()
               | Some payee \<Rightarrow>
                   try_then (ok_or (ic_signature crypto (take 64 signature_bytes)) (Crypto ''BOLT11 signature'')) (\<lambda>standard.
                   try_then (ensure (\<not> (ic_normalize_s crypto standard \<noteq> standard \<or> payee \<noteq> recovered))
                              (Crypto ''BOLT11 payee signature'')) (\<lambda>_.
                   ensure (ic_verify crypto digest standard payee) (Crypto ''BOLT11 signature verification''))))
       (\<lambda>_.
     try_then (ok_or (if_payment_hash st) (Invalid ''missing BOLT11 payment hash'')) (\<lambda>payment_hash.
     try_then (ok_or (if_payment_secret st) (Invalid ''missing BOLT11 payment secret'')) (\<lambda>payment_secret.
     Inr \<lparr>bi_network = network, bi_amount_msat = amount_msat, bi_timestamp = timestamp,
          bi_payment_hash = payment_hash, bi_payment_secret = payment_secret, bi_payee = recovered,
          bi_expiry_seconds = if_expiry_seconds st,
          bi_minimum_final_cltv_delta = if_minimum_final_cltv_delta st,
          bi_feature_bits = (case if_feature_bits st of None \<Rightarrow> [] | Some bs \<Rightarrow> bs)\<rparr>)))))))))))))))))))"

section \<open>Numbers in invoices\<close>

definition base32_value :: "u8 list \<Rightarrow> nat" where
  "base32_value ws = foldl (\<lambda>v w. v * 32 + unat w) 0 ws"

lemma base32_value_snoc: "base32_value (ws @ [w]) = base32_value ws * 32 + unat w"
  by (simp add: base32_value_def)

lemma base32_value_less:
  "list_all (\<lambda>w. unat w < 32) ws \<Longrightarrow> base32_value ws < 32 ^ length ws"
  by (induction ws rule: rev_induct) (auto simp: base32_value_snoc, simp add: base32_value_def)

lemma unat_ucast_u8: "unat (ucast (w :: u8) :: u64) = unat w"
  using unat_bound [of w] by (simp add: unsigned_ucast_eq take_bit_nat_eq_self)

lemma word_mul_add:
  fixes v :: u64
  shows "(case checked_mul v 32 of None \<Rightarrow> None | Some x \<Rightarrow> checked_add x (ucast (w :: u8))) =
    (if unat v * 32 + unat w < 2 ^ 64 then Some (of_nat (unat v * 32 + unat w)) else None)"
proof -
  have m: "checked_mul v 32 = (if unat v * 32 < 2 ^ 64 then Some (v * 32) else None)"
    by (simp add: checked_mul_def)
  show ?thesis
  proof (cases "unat v * 32 < 2 ^ 64")
    case True
    then have "unat (v * 32) = unat v * 32" by (simp add: unat_word_ariths)
    then show ?thesis using True by (simp add: m checked_add_def unat_ucast_u8)
  qed (simp add: m)
qed

lemma words_to_u64_exact:
  "words_to_u64 ws =
     (if base32_value ws < 2 ^ 64 then Inr (of_nat (base32_value ws)) else Inl (Bounds ''base32 integer''))"
proof (induction ws rule: rev_induct)
  case Nil
  then show ?case by (simp add: words_to_u64_def base32_value_def)
next
  case (snoc w ws)
  have step: "words_to_u64 (ws @ [w]) = try_then (words_to_u64 ws) (\<lambda>v.
    ok_or (case checked_mul v 32 of None \<Rightarrow> None | Some x \<Rightarrow> checked_add x (ucast w)) (Bounds ''base32 integer''))"
    by (simp add: words_to_u64_def)
  show ?case
  proof (cases "base32_value ws < 2 ^ 64")
    case True
    then have "unat (of_nat (base32_value ws) :: u64) = base32_value ws" by (simp add: unat_of_nat_small)
    with True snoc show ?thesis unfolding step by (simp add: word_mul_add base32_value_snoc)
  qed (use snoc in \<open>simp add: step base32_value_snoc\<close>)
qed

lemma words_to_u64_InrD: "words_to_u64 ws = Inr v \<Longrightarrow> unat v = base32_value ws"
  by (auto simp: words_to_u64_exact unat_of_nat_small split: if_splits)

lemma timestamp_never_overflows:
  assumes "list_all (\<lambda>w. unat w < 32) ws" "length ws \<le> 12"
  shows "words_to_u64 ws = Inr (of_nat (base32_value ws))"
proof -
  have "(32 :: nat) ^ length ws \<le> 32 ^ 12" using assms(2) by (intro power_increasing) simp_all
  then have "base32_value ws < 2 ^ 64"
    using base32_value_less [OF assms(1)] by simp
  then show ?thesis by (simp add: words_to_u64_exact)
qed

text \<open>
  Amounts: the value of a digit string, the multipliers in tenths of a millisatoshi, and
  the human-readable part of an invoice for a network and an amount.
\<close>

definition digits_value :: "string \<Rightarrow> nat" where
  "digits_value s = foldl (\<lambda>v c. v * 10 + (of_char c - 48)) 0 s"

definition digits_only :: "string \<Rightarrow> bool" where
  "digits_only s \<longleftrightarrow> s \<noteq> [] \<and> list_all (\<lambda>c. is_ascii_digit (byte_of c)) s"

fun network_prefix :: "bitcoin_network \<Rightarrow> string" where
  "network_prefix Bitcoin = ''lnbc''"
| "network_prefix Testnet = ''lntb''"
| "network_prefix Signet = ''lntbs''"
| "network_prefix Regtest = ''lnbcrt''"

definition unit_tenths :: "char option \<Rightarrow> nat option" where
  "unit_tenths u =
     (if u = None then Some (10 ^ 12)
      else if u = Some (CHR ''m'') then Some (10 ^ 9)
      else if u = Some (CHR ''u'') then Some (10 ^ 6)
      else if u = Some (CHR ''n'') then Some (10 ^ 3)
      else if u = Some (CHR ''p'') then Some 1
      else None)"

definition unit_text :: "char option \<Rightarrow> string" where
  "unit_text u = (case u of None \<Rightarrow> [] | Some c \<Rightarrow> [c])"

lemma foldl_digits_mono: "acc \<le> foldl (\<lambda>v c. v * 10 + (of_char c - 48)) acc s" for s :: string and acc :: nat
proof (induction s arbitrary: acc)
  case (Cons c s)
  have "acc \<le> acc * 10 + (of_char c - 48)" by simp
  also have "\<dots> \<le> foldl (\<lambda>v c. v * 10 + (of_char c - 48)) (acc * 10 + (of_char c - 48)) s" by (rule Cons)
  finally show ?case by simp
qed simp

lemma parse_digits_value:
  assumes "list_all (\<lambda>c. is_ascii_digit (byte_of c)) s" "acc < limit"
  shows "parse_digits limit acc s =
    (let v = foldl (\<lambda>v c. v * 10 + (of_char c - 48)) acc s in if v < limit then Some v else None)"
  using assms
proof (induction s arbitrary: acc)
  case (Cons c s)
  show ?case
  proof (cases "acc * 10 + (of_char c - 48) < limit")
    case True
    with Cons show ?thesis by (simp add: Let_def)
  next
    case False
    with foldl_digits_mono [of "acc * 10 + (of_char c - 48)" s] Cons.prems show ?thesis by (simp add: Let_def)
  qed
qed simp

lemma plus_not_digit: "digits_only s \<Longrightarrow> strip_prefix s ''+'' = None"
  by (cases s) (auto simp: digits_only_def strip_prefix_def starts_with_def is_ascii_digit_def byte_of_def)

lemma parse_u64_digits:
  assumes "digits_only s"
  shows "parse_u64 s = (if digits_value s < 2 ^ 64 then Some (of_nat (digits_value s)) else None)"
proof -
  have "parse_digits (2 ^ 64) 0 s = (if digits_value s < 2 ^ 64 then Some (digits_value s) else None)"
    using assms parse_digits_value [of s 0 "2 ^ 64"] by (simp add: digits_value_def digits_only_def Let_def)
  then show ?thesis
    using assms plus_not_digit [OF assms] by (simp add: parse_u64_def parse_unsigned_def digits_only_def)
qed

lemma invoice_millisatoshis_exact:
  assumes "unit_tenths u = Some t"
  shows "invoice_millisatoshis v u = Some m \<longleftrightarrow> unat m * 10 = unat v * t"
proof -
  have p: "v mod 10 = 0 \<longleftrightarrow> 10 dvd unat v" "unat (v div 10) = unat v div 10"
    by (simp_all add: unat_mod_distrib unat_div_distrib dvd_eq_mod_eq_0 flip: unat_eq_0)
  have "10 dvd unat v" if "unat m * 10 = unat v" using that by (metis dvd_triv_right)
  then show ?thesis
    using assms p
    by (auto simp: unit_tenths_def invoice_millisatoshis_def checked_mul_Some_iff word_unat_eq_iff [of "_ div _"]
        split: if_splits)
qed

lemma invoice_prefix_SomeD:
  assumes "invoice_prefix hrp = Some (prefix, network)"
  shows "prefix = network_prefix network" "hrp = network_prefix network @ drop (length prefix) hrp"
proof -
  have "prefix = network_prefix network \<and> starts_with hrp prefix"
    using assms by (auto simp: invoice_prefix_def split: if_splits)
  then show "prefix = network_prefix network" "hrp = network_prefix network @ drop (length prefix) hrp"
    by (auto simp: starts_with_def) (metis append_take_drop_id)
qed

lemma invoice_prefix_network:
  assumes "rest = [] \<or> is_ascii_digit (byte_of (hd rest))"
  shows "invoice_prefix (network_prefix network @ rest) = Some (network_prefix network, network)"
proof -
  have "rest = [] \<or> hd rest \<noteq> CHR ''r'' \<and> hd rest \<noteq> CHR ''s''"
    using assms by (auto simp: is_ascii_digit_def byte_of_def)
  then show ?thesis
    by (cases network; cases rest) (auto simp: invoice_prefix_def starts_with_def)
qed

lemma digit_not_unit:
  "is_ascii_digit (byte_of c) \<Longrightarrow> c \<notin> {CHR ''m'', CHR ''u'', CHR ''n'', CHR ''p''}"
  by (auto simp: is_ascii_digit_def byte_of_def)

lemma unit_tenths_dom: "unit_tenths (Some c) \<noteq> None \<longleftrightarrow> c \<in> {CHR ''m'', CHR ''u'', CHR ''n'', CHR ''p''}"
  by (auto simp: unit_tenths_def)

text \<open>Splitting an amount into digits and unit.\<close>

definition split_amount :: "string \<Rightarrow> string \<times> char option" where
  "split_amount amount =
     (if last amount \<in> {CHR ''m'', CHR ''u'', CHR ''n'', CHR ''p''} then (butlast amount, Some (last amount))
      else (amount, None))"

lemma split_amount_text:
  assumes "digits_only digits" "unit_tenths u \<noteq> None"
  shows "split_amount (digits @ unit_text u) = (digits, u)"
proof (cases u)
  case None
  have "is_ascii_digit (byte_of (last digits))" using assms(1) by (simp add: digits_only_def list_all_iff)
  with None digit_not_unit show ?thesis by (simp add: split_amount_def unit_text_def)
next
  case (Some c)
  with assms(2) unit_tenths_dom [of c] show ?thesis by (simp add: split_amount_def unit_text_def)
qed

lemma split_amountD:
  assumes "split_amount amount = (digits, u)" "amount \<noteq> []"
  shows "amount = digits @ unit_text u" "unit_tenths u \<noteq> None"
proof -
  have "amount = butlast amount @ [last amount]" using assms(2) by simp
  then show "amount = digits @ unit_text u"
    using assms(1) by (auto simp only: split_amount_def unit_text_def prod.inject option.case append_Nil2 split: if_splits)
  show "unit_tenths u \<noteq> None"
    using assms(1) unit_tenths_dom [of "last amount"]
    by (auto simp: split_amount_def unit_tenths_def split: if_splits)
qed

lemma digits_check:
  "(\<not> (digits = [] \<or> \<not> list_all (\<lambda>c. is_ascii_digit (byte_of c)) digits)) = digits_only digits"
  by (auto simp: digits_only_def)

definition amount_of :: "string \<Rightarrow> char option \<Rightarrow> u64 \<Rightarrow> bool" where
  "amount_of digits u m \<longleftrightarrow> digits_only digits \<and> digits_value digits < 2 ^ 64
     \<and> (case unit_tenths u of None \<Rightarrow> False | Some t \<Rightarrow> unat m * 10 = digits_value digits * t)"

lemma amount_of_iff:
  assumes "unit_tenths u \<noteq> None"
  shows "amount_of digits u m \<longleftrightarrow>
    digits_only digits \<and> (\<exists>v. parse_u64 digits = Some v \<and> invoice_millisatoshis v u = Some m)"
proof -
  obtain t where t: "unit_tenths u = Some t" using assms by blast
  show ?thesis
    by (auto simp: amount_of_def t parse_u64_digits invoice_millisatoshis_exact [OF t] unat_of_nat_small
        split: if_splits)
qed

lemma parse_invoice_hrp_iff:
  "parse_invoice_hrp hrp = Inr (network, amount) \<longleftrightarrow>
     (hrp = network_prefix network \<and> amount = None)
     \<or> (\<exists>digits u m. hrp = network_prefix network @ digits @ unit_text u \<and> amount_of digits u m \<and> amount = Some m)"
    (is "?l \<longleftrightarrow> ?r")
proof
  assume ?l
  then obtain prefix where p: "invoice_prefix hrp = Some (prefix, network)"
    and rest: "drop (length prefix) hrp = [] \<and> amount = None
      \<or> drop (length prefix) hrp \<noteq> [] \<and> (\<exists>digits u v m. split_amount (drop (length prefix) hrp) = (digits, u)
          \<and> digits_only digits \<and> parse_u64 digits = Some v \<and> invoice_millisatoshis v u = Some m \<and> amount = Some m)"
    unfolding parse_invoice_hrp_def Let_def split_amount_def [symmetric] digits_check
    by (auto simp: try_then_eq_Inr ensure_eq_Inr ok_or_eq_Inr split: if_splits prod.splits)
  note hrp = invoice_prefix_SomeD [OF p]
  from rest show ?r
  proof
    assume "drop (length prefix) hrp = [] \<and> amount = None"
    then show ?r using hrp(2) by simp
  next
    assume "drop (length prefix) hrp \<noteq> [] \<and> (\<exists>digits u v m. split_amount (drop (length prefix) hrp) = (digits, u)
          \<and> digits_only digits \<and> parse_u64 digits = Some v \<and> invoice_millisatoshis v u = Some m \<and> amount = Some m)"
    then obtain digits u v m where s: "drop (length prefix) hrp \<noteq> []"
      "split_amount (drop (length prefix) hrp) = (digits, u)" "digits_only digits" "parse_u64 digits = Some v"
      "invoice_millisatoshis v u = Some m" "amount = Some m" by blast
    note d = split_amountD [OF s(2) s(1)]
    have "amount_of digits u m" unfolding amount_of_iff [OF d(2)] using s by blast
    moreover have "hrp = network_prefix network @ digits @ unit_text u" using hrp(2) d(1) by simp
    ultimately show ?r using s(6) by blast
  qed
next
  assume ?r
  then show ?l
  proof (elim disjE exE conjE)
    assume "hrp = network_prefix network" "amount = None"
    then show ?l using invoice_prefix_network [of "[]" network] by (simp add: parse_invoice_hrp_def)
  next
    fix digits u m
    assume hrp: "hrp = network_prefix network @ digits @ unit_text u" and a: "amount_of digits u m" "amount = Some m"
    then have dom: "digits_only digits" "unit_tenths u \<noteq> None"
      by (auto simp: amount_of_def split: option.splits)
    then have ne: "digits \<noteq> []" "is_ascii_digit (byte_of (hd digits))"
      by (auto simp: digits_only_def list_all_iff)
    obtain v where v: "parse_u64 digits = Some v" "invoice_millisatoshis v u = Some m"
      using a(1) unfolding amount_of_iff [OF dom(2)] by blast
    have "invoice_prefix hrp = Some (network_prefix network, network)"
      unfolding hrp by (rule invoice_prefix_network) (use ne in simp)
    moreover have "drop (length (network_prefix network)) hrp = digits @ unit_text u" by (simp add: hrp)
    ultimately show ?l
      unfolding parse_invoice_hrp_def Let_def split_amount_def [symmetric] digits_check
      using ne(1) split_amount_text [OF dom] dom(1) v a(2) by (simp add: hrp)
  qed
qed

section \<open>Accepted invoices\<close>

definition payee_ok :: "invoice_crypto \<Rightarrow> u8 list \<Rightarrow> u8 list \<Rightarrow> u8 list \<Rightarrow> u8 list option \<Rightarrow> bool" where
  "payee_ok crypto digest signature recovered explicit \<longleftrightarrow>
     (case explicit of
        None \<Rightarrow> True
      | Some payee \<Rightarrow> payee = recovered \<and> (\<exists>standard. ic_signature crypto signature = Some standard
          \<and> ic_normalize_s crypto standard = standard \<and> ic_verify crypto digest standard payee))"

lemma payee_check:
  "(case explicit of
      None \<Rightarrow> Inr ()
    | Some payee \<Rightarrow>
        try_then (ok_or (ic_signature crypto signature) (Crypto ''BOLT11 signature'')) (\<lambda>standard.
        try_then (ensure (ic_normalize_s crypto standard = standard \<and> payee = recovered)
                   (Crypto ''BOLT11 payee signature'')) (\<lambda>_.
        ensure (ic_verify crypto digest standard payee) (Crypto ''BOLT11 signature verification'')))) = Inr x
   \<longleftrightarrow> payee_ok crypto digest signature recovered explicit"
  by (auto simp: payee_ok_def try_then_eq_Inr ensure_eq_Inr ok_or_eq_Inr split: option.splits)

lemma invoice_split:
  "ws = take (length ws - 110) ws @ drop (length ws - 110) (take (length ws - 6) ws) @ drop (length ws - 6) ws"
proof -
  have "take (length ws - 110) ws = take (length ws - 110) (take (length ws - 6) ws)" by simp
  then show ?thesis by (metis append_take_drop_id append_assoc)
qed

definition one_description :: "invoice_fields \<Rightarrow> bool" where
  "one_description st \<longleftrightarrow> if_has_description st \<noteq> if_has_description_hash st"

lemma invoice_cuts:
  "length (take (length ws - 6) ws) - 104 = length ws - 110"
  "take (length ws - 110) (take (length ws - 6) ws) = take (length ws - 110) ws"
  "6 + 7 + 104 = (117 :: nat)"
  by simp_all

text \<open>The text of an invoice with the given signed words and signature, and how the parser reads it.\<close>

definition invoice_text :: "string \<Rightarrow> u8 list \<Rightarrow> u8 list \<Rightarrow> string" where
  "invoice_text hrp content signature =
     (let ws = content @ to_words signature
      in hrp @ ''1'' @ map (\<lambda>w. CHARSET ! unat w) (ws @ checksum hrp ws))"

definition invoice_reads ::
    "invoice_crypto \<Rightarrow> string \<Rightarrow> u8 list \<Rightarrow> u8 list \<Rightarrow> bolt11_invoice \<Rightarrow> bool" where
  "invoice_reads crypto hrp content signature bill \<longleftrightarrow>
     parse_invoice_hrp hrp = Inr (bi_network bill, bi_amount_msat bill)
     \<and> words_to_u64 (take 7 content) = Inr (bi_timestamp bill)
     \<and> (\<exists>st bytes recoverable. read_fields crypto (drop 7 content) no_fields = Inr st \<and> one_description st
         \<and> convert_bits content 5 8 True = Inr bytes
         \<and> ic_recoverable crypto (take 64 signature) (signature ! 64) = Some recoverable
         \<and> ic_recover crypto (ic_sha256 crypto (as_bytes hrp @ bytes)) recoverable = Some (bi_payee bill)
         \<and> payee_ok crypto (ic_sha256 crypto (as_bytes hrp @ bytes)) (take 64 signature) (bi_payee bill)
              (if_explicit_payee st)
         \<and> if_payment_hash st = Some (bi_payment_hash bill) \<and> if_payment_secret st = Some (bi_payment_secret bill)
         \<and> bi_expiry_seconds bill = if_expiry_seconds st
         \<and> bi_minimum_final_cltv_delta bill = if_minimum_final_cltv_delta st
         \<and> bi_feature_bits bill = (case if_feature_bits st of None \<Rightarrow> [] | Some bs \<Rightarrow> bs))"

definition words_accepted :: "string \<Rightarrow> u8 list \<Rightarrow> u8 list \<Rightarrow> bool" where
  "words_accepted hrp ws signature \<longleftrightarrow> \<not> length ws < 117 \<and> bech32_polymod hrp ws = 1
     \<and> convert_bits (drop (length ws - 110) (take (length ws - 6) ws)) 5 8 False = Inr signature
     \<and> length signature = 65 \<and> \<not> 3 < signature ! 64"

lemma parse_bolt11D:
  assumes "parse_bolt11 crypto invoice = Inr bill"
  obtains i ws signature where "length invoice \<le> MAX_INVOICE_CHARS"
    "rfind (CHR ''1'') invoice = Some i" "bech32_words (drop (i + 1) invoice) = Inr ws"
    "words_accepted (take i invoice) ws signature"
    "invoice_reads crypto (take i invoice) (take (length ws - 110) ws) signature bill"
proof -
  obtain i ws signature st bytes recoverable where d: "length invoice \<le> MAX_INVOICE_CHARS"
    "rfind (CHR ''1'') invoice = Some i" "bech32_words (drop (i + 1) invoice) = Inr ws" "117 \<le> length ws"
    "bech32_polymod (take i invoice) ws = 1"
    "convert_bits (drop (length ws - 110) (take (length ws - 6) ws)) 5 8 False = Inr signature"
    "length signature = 65" "signature ! 64 \<le> 3"
    "parse_invoice_hrp (take i invoice) = Inr (bi_network bill, bi_amount_msat bill)"
    "words_to_u64 (take 7 (take (length ws - 110) ws)) = Inr (bi_timestamp bill)"
    "read_fields crypto (drop 7 (take (length ws - 110) ws)) no_fields = Inr st"
    "one_description st"
    "convert_bits (take (length ws - 110) ws) 5 8 True = Inr bytes"
    "ic_recoverable crypto (take 64 signature) (signature ! 64) = Some recoverable"
    "ic_recover crypto (ic_sha256 crypto (as_bytes (take i invoice) @ bytes)) recoverable = Some (bi_payee bill)"
    "payee_ok crypto (ic_sha256 crypto (as_bytes (take i invoice) @ bytes)) (take 64 signature) (bi_payee bill)
       (if_explicit_payee st)"
    "if_payment_hash st = Some (bi_payment_hash bill)" "if_payment_secret st = Some (bi_payment_secret bill)"
    "bi_expiry_seconds bill = if_expiry_seconds st"
    "bi_minimum_final_cltv_delta bill = if_minimum_final_cltv_delta st"
    "bi_feature_bits bill = (case if_feature_bits st of None \<Rightarrow> [] | Some bs \<Rightarrow> bs)"
    using assms
    unfolding parse_bolt11_def Let_def verify_bech32_checksum_def one_description_def [symmetric]
    by (auto simp only: try_then_eq_Inr ensure_eq_Inr ok_or_eq_Inr payee_check invoice_cuts sum.inject not_less
        de_Morgan_disj not_not split_paired_Ex prod.case bolt11_invoice.simps)
  have "words_accepted (take i invoice) ws signature" using d by (simp add: words_accepted_def)
  moreover have "invoice_reads crypto (take i invoice) (take (length ws - 110) ws) signature bill"
    unfolding invoice_reads_def using d(9-) by blast
  ultimately show thesis using that d(1-3) by blast
qed

lemma parse_bolt11I:
  assumes "invoice \<noteq> []" "length invoice \<le> MAX_INVOICE_CHARS" "is_ascii invoice"
    "\<not> list_ex (\<lambda>c. is_ascii_uppercase (byte_of c)) invoice" "rfind (CHR ''1'') invoice = Some i"
    "bech32_words (drop (i + 1) invoice) = Inr ws" "words_accepted (take i invoice) ws signature"
    "invoice_reads crypto (take i invoice) (take (length ws - 110) ws) signature bill"
  shows "parse_bolt11 crypto invoice = Inr bill"
proof -
  have guards: "\<not> (invoice = [] \<or> MAX_INVOICE_CHARS < length invoice \<or> \<not> is_ascii invoice)"
    using assms(1-3) by simp
  have w: "\<not> length ws < 117" "bech32_polymod (take i invoice) ws = 1"
    "convert_bits (drop (length ws - 110) (take (length ws - 6) ws)) 5 8 False = Inr signature"
    "length signature = 65" "\<not> 3 < signature ! 64" "\<not> length (take (length ws - 6) ws) < 7 + 104"
    using assms(7) by (auto simp: words_accepted_def)
  obtain st bytes recoverable where m: "parse_invoice_hrp (take i invoice) = Inr (bi_network bill, bi_amount_msat bill)"
    "words_to_u64 (take 7 (take (length ws - 110) ws)) = Inr (bi_timestamp bill)"
    "read_fields crypto (drop 7 (take (length ws - 110) ws)) no_fields = Inr st" "one_description st"
    "convert_bits (take (length ws - 110) ws) 5 8 True = Inr bytes"
    "ic_recoverable crypto (take 64 signature) (signature ! 64) = Some recoverable"
    "ic_recover crypto (ic_sha256 crypto (as_bytes (take i invoice) @ bytes)) recoverable = Some (bi_payee bill)"
    "payee_ok crypto (ic_sha256 crypto (as_bytes (take i invoice) @ bytes)) (take 64 signature) (bi_payee bill)
       (if_explicit_payee st)"
    "if_payment_hash st = Some (bi_payment_hash bill)" "if_payment_secret st = Some (bi_payment_secret bill)"
    and rest: "bi_expiry_seconds bill = if_expiry_seconds st"
    "bi_minimum_final_cltv_delta bill = if_minimum_final_cltv_delta st"
    "bi_feature_bits bill = (case if_feature_bits st of None \<Rightarrow> [] | Some bs \<Rightarrow> bs)"
    using assms(8) unfolding invoice_reads_def by blast
  note payee = iffD2 [OF payee_check m(8), of "()"]
  show ?thesis
    unfolding parse_bolt11_def Let_def verify_bech32_checksum_def one_description_def [symmetric]
    using guards assms(4) w(6) m(4)
    by (simp only: assms(5,6) w m payee invoice_cuts ok_or_simps ensure_simps try_then_simps prod.case
        de_Morgan_disj not_not simp_thms) (simp add: rest [symmetric])
qed

lemma hrp_text_plain:
  assumes "parse_invoice_hrp hrp = Inr (network, amount)"
  shows "list_all (\<lambda>c. \<not> is_ascii_uppercase (byte_of c) \<and> byte_of c < 128) hrp"
proof -
  let ?plain = "\<lambda>c. \<not> is_ascii_uppercase (byte_of c) \<and> byte_of c < 128"
  have "list_all ?plain (network_prefix network)"
    by (cases network) (simp_all add: byte_of_def is_ascii_uppercase_def)
  moreover have "list_all ?plain digits" if "digits_only digits" for digits
    using that unfolding digits_only_def list_all_iff
    by (auto simp: is_ascii_digit_def is_ascii_uppercase_def word_le_nat_alt word_less_nat_alt)
  moreover have "list_all ?plain (unit_text u)" if "unit_tenths u \<noteq> None" for u
    using that by (cases u) (auto simp: unit_text_def unit_tenths_def byte_of_def is_ascii_uppercase_def split: if_splits)
  ultimately show ?thesis
    using assms unfolding parse_invoice_hrp_iff amount_of_def by (auto split: option.splits)
qed

lemma words_accepted_text:
  assumes "list_all (\<lambda>w. unat w < 32) ws"
  shows "words_accepted hrp ws signature \<longleftrightarrow>
    (\<exists>content. ws = content @ to_words signature @ checksum hrp (content @ to_words signature)
       \<and> 7 \<le> length content \<and> length signature = 65 \<and> signature ! 64 \<le> 3)"
    (is "_ \<longleftrightarrow> (\<exists>content. ?ok content)")
proof
  assume a: "words_accepted hrp ws signature"
  define content where "content = take (length ws - 110) ws"
  define sigwords where "sigwords = drop (length ws - 110) (take (length ws - 6) ws)"
  define c where "c = drop (length ws - 6) ws"
  have ws: "ws = content @ sigwords @ c" "length c = 6" "7 \<le> length content"
    using a invoice_split [of ws] by (auto simp: words_accepted_def content_def sigwords_def c_def)
  have all: "list_all (\<lambda>w. unat w < 32) sigwords" "list_all (\<lambda>w. unat w < 32) c"
    using assms unfolding ws(1) by simp_all
  have "from_words sigwords = Inr signature"
    using a unfolding words_accepted_def sigwords_def [symmetric] convert_bits_from_words [OF all(1)] map_err_eq_Inr
    by blast
  then have sig: "to_words signature = sigwords" by (rule to_words_from_words [OF all(1)])
  have "c = checksum hrp (content @ sigwords)"
    using a checksum_unique [OF ws(2) all(2), of hrp "content @ sigwords"]
    unfolding words_accepted_def bech32_polymod_polymod ws(1) by simp
  with ws sig a have "?ok content" by (simp add: words_accepted_def not_less)
  then show "\<exists>content. ?ok content" by blast
next
  assume "\<exists>content. ?ok content"
  then obtain content where c: "?ok content" by blast
  have len: "length (to_words signature) = 104" using c by (simp add: length_to_words)
  have "bech32_polymod hrp ws = 1"
    using c checksum_unique [OF checksum_length checksum_less, of hrp "content @ to_words signature" hrp]
    by (simp add: bech32_polymod_polymod)
  moreover have "drop (length ws - 110) (take (length ws - 6) ws) = to_words signature"
    using c len by simp
  moreover have "convert_bits (to_words signature) 5 8 False = Inr signature"
    using convert_bits_from_words [of "to_words signature"] to_words_less [of _ signature] from_words_to_words [of signature]
    by (simp add: list_all_iff)
  ultimately show "words_accepted hrp ws signature"
    using c len by (simp add: words_accepted_def not_less)
qed

end
