(* ===== verification/Invoice_Meaning.thy ===== *)
theory Invoice_Meaning
  imports Invoices
begin

text \<open>
  What a BOLT11 invoice means, without reference to the parser: the signed words are a
  timestamp and a sequence of tagged fields, and each entry of the invoice is determined by
  the fields with its tag. The parser is shown to accept exactly the texts of such invoices,
  with this meaning.
\<close>

section \<open>Tagged fields\<close>

type_synonym tagged_field = "u8 \<times> u8 list"

text \<open>A field is written as its tag, its length in two words, and its data.\<close>

definition field_words :: "tagged_field \<Rightarrow> u8 list" where
  "field_words f = [fst f, of_nat (length (snd f) div 32), of_nat (length (snd f) mod 32)] @ snd f"

definition short :: "tagged_field \<Rightarrow> bool" where
  "short f \<longleftrightarrow> length (snd f) < 1024"

definition tagged :: "u8 \<Rightarrow> tagged_field list \<Rightarrow> u8 list list" where
  "tagged tag fs = map snd (filter (\<lambda>f. fst f = tag) fs)"

lemma tagged_simps [simp]:
  "tagged tag [] = []"
  "tagged tag (fs @ [f]) = tagged tag fs @ (if fst f = tag then [snd f] else [])"
  by (simp_all add: tagged_def)

definition plain_words :: "u8 list \<Rightarrow> bool" where
  "plain_words ws \<longleftrightarrow> list_all (\<lambda>w. unat w < 32) ws"

lemma plain_words_append [simp]: "plain_words (xs @ ys) \<longleftrightarrow> plain_words xs \<and> plain_words ys"
  by (simp add: plain_words_def)

fun apply_all ::
    "invoice_crypto \<Rightarrow> tagged_field list \<Rightarrow> invoice_fields \<Rightarrow> (verification_error, invoice_fields) result" where
  "apply_all crypto [] st = Inr st"
| "apply_all crypto (f # fs) st = try_then (apply_field crypto (fst f) (snd f) st) (apply_all crypto fs)"

lemma apply_all_snoc:
  "apply_all crypto (fs @ [f]) st = Inr st' \<longleftrightarrow>
     (\<exists>st1. apply_all crypto fs st = Inr st1 \<and> apply_field crypto (fst f) (snd f) st1 = Inr st')"
  by (induction fs arbitrary: st) (auto simp: try_then_eq_Inr)

lemma field_length:
  assumes "length data < 1024"
  shows "unat (of_nat (length data div 32) :: u8) * 32 + unat (of_nat (length data mod 32) :: u8) = length data"
proof -
  have "length data div 32 < 2 ^ 8" "length data mod 32 < 2 ^ 8" using assms by auto
  then have "unat (of_nat (length data div 32) :: u8) = length data div 32"
    "unat (of_nat (length data mod 32) :: u8) = length data mod 32"
    by (simp_all add: unat_of_nat_small)
  then show ?thesis by simp
qed

lemma read_fields_words:
  assumes "short f"
  shows "read_fields crypto (field_words f @ rest) st =
    try_then (apply_field crypto (fst f) (snd f) st) (read_fields crypto rest)"
proof -
  define len where "len = unat (of_nat (length (snd f) div 32) :: u8) * 32 + unat (of_nat (length (snd f) mod 32) :: u8)"
  have "len = length (snd f)" using assms unfolding len_def short_def by (rule field_length)
  then show ?thesis
    by (subst read_fields.simps) (simp add: field_words_def Let_def len_def [symmetric])
qed

lemma read_fields_concat: "list_all short fs \<Longrightarrow> read_fields crypto (concat (map field_words fs)) = apply_all crypto fs"
proof (induction fs)
  case Nil
  then show ?case by (simp add: fun_eq_iff read_fields.simps)
next
  case (Cons f fs)
  then have "read_fields crypto (concat (map field_words fs)) = apply_all crypto fs" by simp
  then show ?case using Cons.prems by (intro ext) (simp add: read_fields_words)
qed

lemma header_words:
  fixes a b :: u8
  assumes "unat a < 32" "unat b < 32" "length data = unat a * 32 + unat b"
  shows "field_words (t, data) = t # a # b # data" "short (t, data)"
  using assms by (simp_all add: field_words_def short_def word_unat_eq_iff unat_of_nat)

lemma read_fields_split:
  "\<lbrakk>read_fields crypto ws st = Inr st'; plain_words ws\<rbrakk> \<Longrightarrow>
     \<exists>fs. ws = concat (map field_words fs) \<and> list_all short fs \<and> apply_all crypto fs st = Inr st'"
proof (induction crypto ws st rule: read_fields.induct)
  case (1 crypto ws st)
  show ?case
  proof (cases "ws = []")
    case True
    with 1(2) have "ws = concat (map field_words []) \<and> list_all short [] \<and> apply_all crypto [] st = Inr st'"
      by (simp add: read_fields.simps)
    then show ?thesis by blast
  next
    case False
    let ?len = "unat (ws ! 1) * 32 + unat (ws ! 2)"
    obtain st1 where a: "apply_field crypto (ws ! 0) (take ?len (drop 3 ws)) st = Inr st1"
      and r: "read_fields crypto (drop ?len (drop 3 ws)) st1 = Inr st'"
      and c: "\<not> length ws < 3" "\<not> length (drop 3 ws) < ?len"
      using 1(2) False by (subst (asm) read_fields.simps) (auto simp: Let_def try_then_eq_Inr split: if_splits)
    have "plain_words (drop ?len (drop 3 ws))" using 1(3) by (simp add: plain_words_def list_all_iff in_set_dropD)
    with 1(1) [OF False c(1) refl refl refl c(2) r] obtain fs where
      fs: "drop ?len (drop 3 ws) = concat (map field_words fs)" "list_all short fs" "apply_all crypto fs st1 = Inr st'"
      by blast
    let ?f = "(ws ! 0, take ?len (drop 3 ws))"
    have small: "unat (ws ! 1) < 32" "unat (ws ! 2) < 32"
      using 1(3) c(1) by (simp_all add: plain_words_def list_all_length)
    have "length (take ?len (drop 3 ws)) = ?len" using c(2) by simp
    note f = header_words [OF small this]
    have "ws = [ws ! 0, ws ! 1, ws ! 2] @ drop 3 ws"
      using c(1) by (auto simp: not_less numeral_3_eq_3 Suc_le_length_iff)
    also have "drop 3 ws = take ?len (drop 3 ws) @ drop ?len (drop 3 ws)" by (rule append_take_drop_id [symmetric])
    finally have "ws = concat (map field_words (?f # fs))" unfolding list.map concat.simps f(1) fs(1) [symmetric] by simp
    moreover have "list_all short (?f # fs)" using f(2) fs(2) by simp
    moreover have "apply_all crypto (?f # fs) st = Inr st'" using a fs(3) by simp
    ultimately show ?thesis by blast
  qed
qed

lemma read_fields_iff:
  assumes "plain_words ws"
  shows "read_fields crypto ws st = Inr st' \<longleftrightarrow>
    (\<exists>fs. ws = concat (map field_words fs) \<and> list_all short fs \<and> apply_all crypto fs st = Inr st')"
proof
  assume "\<exists>fs. ws = concat (map field_words fs) \<and> list_all short fs \<and> apply_all crypto fs st = Inr st'"
  then obtain fs where "ws = concat (map field_words fs)" "list_all short fs" "apply_all crypto fs st = Inr st'" by blast
  then show "read_fields crypto ws st = Inr st'" by (simp add: read_fields_concat)
qed (rule read_fields_split [OF _ assms])

section \<open>What the fields mean\<close>

text \<open>
  One 32-byte value, at most one text, at most one key, numbers of which the last counts, and
  the set bits of a number. Data that stands for bytes is the canonical regrouping of them
  into words.
\<close>

definition bytes_mean :: "u8 list list \<Rightarrow> u8 list option \<Rightarrow> bool" where
  "bytes_mean ds v \<longleftrightarrow> (case v of None \<Rightarrow> ds = [] | Some h \<Rightarrow> ds = [to_words h] \<and> length h = 32)"

definition text_means :: "u8 list list \<Rightarrow> bool \<Rightarrow> bool" where
  "text_means ds present \<longleftrightarrow>
     (if present then \<exists>t. ds = [to_words t] \<and> utf8_valid t else ds = [])"

definition hash_means :: "u8 list list \<Rightarrow> bool \<Rightarrow> bool" where
  "hash_means ds present \<longleftrightarrow> (if present then \<exists>d. ds = [d] \<and> length d = 52 else ds = [])"

definition key_means :: "invoice_crypto \<Rightarrow> u8 list list \<Rightarrow> u8 list option \<Rightarrow> bool" where
  "key_means crypto ds v \<longleftrightarrow>
     (case v of
        None \<Rightarrow> ds = []
      | Some k \<Rightarrow> \<exists>b. ds = [to_words b] \<and> length b = 33 \<and> ic_public_key crypto b = Some k)"

definition minimal :: "u8 list \<Rightarrow> bool" where
  "minimal d \<longleftrightarrow> d \<noteq> [] \<and> (hd d = 0 \<longrightarrow> length d = 1) \<and> length d \<le> 13 \<and> base32_value d < 2 ^ 64"

definition number_means :: "nat \<Rightarrow> u8 list list \<Rightarrow> u64 \<Rightarrow> bool" where
  "number_means preset ds v \<longleftrightarrow>
     list_all minimal ds \<and> unat v = (if ds = [] then preset else base32_value (last ds))"

definition set_bits_of :: "u8 list \<Rightarrow> nat list" where
  "set_bits_of d = filter (bit (base32_value d)) [0..<5 * length d]"

definition bits_mean :: "u8 list list \<Rightarrow> u16 list option \<Rightarrow> bool" where
  "bits_mean ds v \<longleftrightarrow> (case v of None \<Rightarrow> ds = [] | Some bs \<Rightarrow> \<exists>d. ds = [d] \<and> bs = map of_nat (set_bits_of d))"

text \<open>One more field of the kind in question.\<close>

lemma convert_bits_iff:
  assumes "plain_words d"
  shows "convert_bits d 5 8 False = Inr b \<longleftrightarrow> d = to_words b"
  using convert_bits_from_words [OF assms [unfolded plain_words_def]]
    to_words_from_words [OF assms [unfolded plain_words_def], of b] from_words_to_words [of b]
  by (auto simp: map_err_eq_Inr)

lemma convert_bits_words [simp]: "convert_bits (to_words b) 5 8 False = Inr b"
  by (subst convert_bits_iff) (simp_all add: plain_words_def list_all_iff to_words_less)

lemma length_52: "length (to_words h) = 52 \<longleftrightarrow> length h = 32"
  and length_53: "length (to_words h) = 53 \<longleftrightarrow> length h = 33"
  unfolding length_to_words by (rule iffI; linarith)+

lemma set_once_32_iff:
  assumes "plain_words d"
  shows "set_once_32 v d label = Inr v' \<longleftrightarrow> v = None \<and> (\<exists>h. v' = Some h \<and> d = to_words h \<and> length h = 32)"
  using assms by (auto simp: set_once_32_def try_then_eq_Inr ensure_eq_Inr convert_bits_iff length_52)

lemma bytes_mean_snoc:
  assumes "plain_words d"
  shows "bytes_mean (ds @ [d]) v' \<longleftrightarrow> (\<exists>v. bytes_mean ds v \<and> set_once_32 v d label = Inr v')"
  unfolding set_once_32_iff [OF assms] by (auto simp: bytes_mean_def split: option.splits)

lemma minimal_word_integer_iff:
  "minimal_word_integer d label = Inr v \<longleftrightarrow> minimal d \<and> unat v = base32_value d"
proof -
  have "d = [] \<or> 1 < length d \<and> d ! 0 = 0 \<or> 13 < length d \<longleftrightarrow>
      \<not> (d \<noteq> [] \<and> (hd d = 0 \<longrightarrow> length d = 1) \<and> length d \<le> 13)"
    by (cases d) (auto simp: not_less)
  moreover have "v = of_nat (base32_value d) \<longleftrightarrow> unat v = base32_value d" if "base32_value d < 2 ^ 64"
    using that by (simp add: word_unat_eq_iff unat_of_nat_small)
  ultimately show ?thesis
    by (auto simp: minimal_word_integer_def minimal_def words_to_u64_exact split: if_splits)
qed

lemma number_means_ex:
  assumes "preset < 2 ^ 64"
  shows "(\<exists>v. number_means preset ds v) \<longleftrightarrow> list_all minimal ds"
proof
  assume a: "list_all minimal ds"
  define n where "n = (if ds = [] then preset else base32_value (last ds))"
  have "n < 2 ^ 64" using a assms by (auto simp: n_def list_all_iff minimal_def)
  then have "number_means preset ds (of_nat n)"
    using a unfolding number_means_def n_def [symmetric] by (simp add: unat_of_nat_small)
  then show "\<exists>v. number_means preset ds v" ..
qed (auto simp: number_means_def)

lemma number_means_snoc:
  assumes "preset < 2 ^ 64"
  shows "number_means preset (ds @ [d]) v' \<longleftrightarrow>
    (\<exists>v. number_means preset ds v) \<and> minimal_word_integer d label = Inr v'"
  unfolding number_means_ex [OF assms] minimal_word_integer_iff by (auto simp: number_means_def)

text \<open>The numbers of the bits that the feature loop collects.\<close>

definition feature_positions :: "nat \<Rightarrow> u8 list \<Rightarrow> nat list" where
  "feature_positions n ws =
     concat (map (\<lambda>(offset, w). map (\<lambda>b. offset * 5 + b) (filter (\<lambda>b. w AND push_bit b 1 \<noteq> 0) [0..<5])) (enumerate n ws))"

lemma feature_positions_Suc: "feature_positions (Suc n) ws = map ((+) 5) (feature_positions n ws)"
proof (induction ws arbitrary: n)
  case (Cons w ws)
  then show ?case by (simp add: feature_positions_def)
qed (simp add: feature_positions_def)

lemma base32_bit:
  assumes "unat w < 32"
  shows "n < 5 \<Longrightarrow> bit (base32_value (ws @ [w])) n = bit w n"
    and "bit (base32_value (ws @ [w])) (5 + n) = bit (base32_value ws) n"
proof -
  have m: "base32_value (ws @ [w]) mod 32 = unat w" "base32_value (ws @ [w]) div 32 = base32_value ws"
    using assms by (simp_all add: base32_value_snoc)
  show "bit (base32_value (ws @ [w])) n = bit w n" if "n < 5"
    using that bit_take_bit_iff [of 5 "base32_value (ws @ [w])" n]
    by (simp add: take_bit_eq_mod m(1) bit_unsigned_iff)
  show "bit (base32_value (ws @ [w])) (5 + n) = bit (base32_value ws) n"
    using bit_drop_bit_eq [of 5 "base32_value (ws @ [w])"] by (simp add: drop_bit_eq_div m(2))
qed

lemma feature_positions_set_bits: "plain_words d \<Longrightarrow> feature_positions 0 (rev d) = set_bits_of d"
proof (induction d rule: rev_induct)
  case Nil
  then show ?case by (simp add: feature_positions_def set_bits_of_def)
next
  case (snoc w d)
  then have w: "unat w < 32" and d: "feature_positions 0 (rev d) = set_bits_of d" by (simp_all add: plain_words_def)
  have "(\<lambda>b. w AND push_bit b 1 \<noteq> 0) = bit w"
    by (rule ext) (rule bit_iff_and_push_bit_not_eq_0 [symmetric])
  then have "feature_positions 0 (rev (d @ [w])) = filter (bit w) [0..<5] @ feature_positions 1 (rev d)"
    unfolding feature_positions_def by (simp add: map_idI)
  also have "feature_positions 1 (rev d) = map ((+) 5) (set_bits_of d)" using d feature_positions_Suc [of 0] by simp
  also have "map ((+) 5) (set_bits_of d) = filter (bit (base32_value (d @ [w]))) (map ((+) 5) [0..<5 * length d])"
    unfolding set_bits_of_def by (simp add: filter_map o_def base32_bit(2) [OF w])
  also have "map ((+) 5) [0..<5 * length d] = [5..<5 * length (d @ [w])]"
    using map_add_upt [of 5 "5 * length d"] by (simp add: add.commute [of _ 5])
  also have "filter (bit w) [0..<5] = filter (bit (base32_value (d @ [w]))) [0..<5]"
    by (rule filter_cong) (simp_all add: base32_bit(1) [OF w])
  also have "filter (bit (base32_value (d @ [w]))) [0..<5] @ filter (bit (base32_value (d @ [w]))) [5..<5 * length (d @ [w])]
      = set_bits_of (d @ [w])"
    unfolding set_bits_of_def filter_append [symmetric] using upt_add_eq_append [of 0 5 "5 * length d"] by simp
  finally show ?case .
qed

lemma try_map_total: "(\<And>x. x \<in> set xs \<Longrightarrow> f x = Inr (g x)) \<Longrightarrow> try_map f xs = Inr (map g xs)"
  by (induction xs) simp_all

lemma feature_bits_exact:
  assumes "plain_words d" "length d < 1024"
  shows "feature_bits d = Inr (map of_nat (set_bits_of d))"
proof -
  have "n < 2 ^ 16" if "n \<in> set (set_bits_of d)" for n
    using that assms(2) by (auto simp: set_bits_of_def)
  then show ?thesis
    unfolding feature_bits_def feature_positions_def [of 0, symmetric] feature_positions_set_bits [OF assms(1)]
    by (intro try_map_total) simp
qed

text \<open>All fields together.\<close>

definition fields_mean :: "invoice_crypto \<Rightarrow> tagged_field list \<Rightarrow> invoice_fields \<Rightarrow> bool" where
  "fields_mean crypto fs st \<longleftrightarrow>
     bytes_mean (tagged 1 fs) (if_payment_hash st) \<and> bytes_mean (tagged 16 fs) (if_payment_secret st)
     \<and> key_means crypto (tagged 19 fs) (if_explicit_payee st)
     \<and> text_means (tagged 13 fs) (if_has_description st) \<and> hash_means (tagged 23 fs) (if_has_description_hash st)
     \<and> number_means 3600 (tagged 6 fs) (if_expiry_seconds st)
     \<and> number_means 18 (tagged 24 fs) (if_minimum_final_cltv_delta st)
     \<and> bits_mean (tagged 5 fs) (if_feature_bits st)"

lemma key_means_snoc:
  "key_means crypto (ds @ [d]) v' \<longleftrightarrow>
     key_means crypto ds None \<and> (\<exists>b k. v' = Some k \<and> d = to_words b \<and> length b = 33 \<and> ic_public_key crypto b = Some k)"
  by (auto simp: key_means_def split: option.split)

lemma text_means_snoc:
  "text_means (ds @ [d]) b' \<longleftrightarrow> text_means ds False \<and> b' \<and> (\<exists>t. d = to_words t \<and> utf8_valid t)"
  by (auto simp: text_means_def)

lemma hash_means_snoc: "hash_means (ds @ [d]) b' \<longleftrightarrow> hash_means ds False \<and> b' \<and> length d = 52"
  by (auto simp: hash_means_def)

lemma bits_mean_snoc:
  "bits_mean (ds @ [d]) v' \<longleftrightarrow> bits_mean ds None \<and> v' = Some (map of_nat (set_bits_of d))"
  by (auto simp: bits_mean_def split: option.split)

lemmas result_iffs = try_then_eq_Inr ensure_eq_Inr ok_or_eq_Inr

lemma fields_mean_text:
  assumes "plain_words d"
  shows "(\<exists>st. fields_mean crypto fs st \<and> apply_field crypto 13 d st = Inr st') \<longleftrightarrow>
    fields_mean crypto (fs @ [(13, d)]) st'"
proof -
  have step: "apply_field crypto 13 d st = Inr st' \<longleftrightarrow> \<not> if_has_description st
      \<and> (\<exists>t. d = to_words t \<and> utf8_valid t) \<and> st\<lparr>if_has_description := True\<rparr> = st'" for st
    by (auto simp: apply_field_def result_iffs convert_bits_iff [OF assms])
  show ?thesis
  proof
    assume m: "fields_mean crypto (fs @ [(13, d)]) st'"
    then have "fields_mean crypto fs (st'\<lparr>if_has_description := False\<rparr>)"
      by (simp add: fields_mean_def text_means_snoc)
    moreover have "apply_field crypto 13 d (st'\<lparr>if_has_description := False\<rparr>) = Inr st'"
      unfolding step using m by (cases st') (simp add: fields_mean_def text_means_snoc)
    ultimately show "\<exists>st. fields_mean crypto fs st \<and> apply_field crypto 13 d st = Inr st'" by blast
  qed (auto simp: step fields_mean_def text_means_snoc)
qed

lemma fields_mean_hash:
  "(\<exists>st. fields_mean crypto fs st \<and> apply_field crypto 23 d st = Inr st') \<longleftrightarrow>
     fields_mean crypto (fs @ [(23, d)]) st'"
proof -
  have step: "apply_field crypto 23 d st = Inr st' \<longleftrightarrow> \<not> if_has_description_hash st
      \<and> length d = 52 \<and> st\<lparr>if_has_description_hash := True\<rparr> = st'" for st
    by (auto simp: apply_field_def result_iffs)
  show ?thesis
  proof
    assume m: "fields_mean crypto (fs @ [(23, d)]) st'"
    then have "fields_mean crypto fs (st'\<lparr>if_has_description_hash := False\<rparr>)"
      by (simp add: fields_mean_def hash_means_snoc)
    moreover have "apply_field crypto 23 d (st'\<lparr>if_has_description_hash := False\<rparr>) = Inr st'"
      unfolding step using m by (cases st') (simp add: fields_mean_def hash_means_snoc)
    ultimately show "\<exists>st. fields_mean crypto fs st \<and> apply_field crypto 23 d st = Inr st'" by blast
  qed (auto simp: step fields_mean_def hash_means_snoc)
qed

lemma fields_mean_snoc:
  assumes "plain_words d" "length d < 1024"
  shows "(\<exists>st. fields_mean crypto fs st \<and> apply_field crypto tag d st = Inr st') \<longleftrightarrow>
    fields_mean crypto (fs @ [(tag, d)]) st'"
proof -
  note ex = fields_mean_def apply_field_def invoice_fields.splits
  consider "tag = 1" | "tag = 16" | "tag = 19" | "tag = 13" | "tag = 23" | "tag = 6" | "tag = 24" | "tag = 5"
    | "tag \<notin> {1, 16, 19, 13, 23, 6, 24, 5}" by blast
  then show ?thesis
  proof cases
    case 1
    then show ?thesis unfolding ex
      by (cases st') (auto simp: try_then_eq_Inr bytes_mean_snoc [OF assms(1), of _ _ "''payment hash''"])
  next
    case 2
    then show ?thesis unfolding ex
      by (cases st') (auto simp: try_then_eq_Inr bytes_mean_snoc [OF assms(1), of _ _ "''payment secret''"])
  next
    case 3
    then show ?thesis unfolding ex
      by (cases st') (simp add: result_iffs key_means_snoc convert_bits_iff [OF assms(1)], use length_53 in blast)
  next
    case 4
    then show ?thesis using fields_mean_text [OF assms(1)] by blast
  next
    case 5
    then show ?thesis using fields_mean_hash by blast
  next
    case 6
    then show ?thesis unfolding ex
      by (cases st') (auto simp: try_then_eq_Inr number_means_snoc [of _ _ _ _ "''BOLT11 expiry''"])
  next
    case 7
    then show ?thesis unfolding ex
      by (cases st') (auto simp: try_then_eq_Inr number_means_snoc [of _ _ _ _ "''BOLT11 CLTV delta''"])
  next
    case 8
    then show ?thesis unfolding ex
      by (cases st') (simp add: result_iffs bits_mean_snoc feature_bits_exact [OF assms], blast)
  next
    case 9
    then show ?thesis unfolding fields_mean_def apply_field_def by auto
  qed
qed

lemma no_fields_iff: "fields_mean crypto [] st \<longleftrightarrow> st = no_fields"
proof -
  have "unat v = n \<longleftrightarrow> v = of_nat n" if "n < 2 ^ 64" for v :: u64 and n
    using that by (simp add: word_unat_eq_iff unat_of_nat_small)
  from this [of 3600] this [of 18] show ?thesis
    by (cases st) (auto simp: fields_mean_def no_fields_def bytes_mean_def key_means_def text_means_def hash_means_def
        number_means_def bits_mean_def split: option.splits)
qed

lemma apply_all_iff:
  "list_all (\<lambda>f. plain_words (snd f) \<and> short f) fs \<Longrightarrow>
     apply_all crypto fs no_fields = Inr st \<longleftrightarrow> fields_mean crypto fs st"
proof (induction fs arbitrary: st rule: rev_induct)
  case Nil
  then show ?case by (auto simp: no_fields_iff)
next
  case (snoc f fs)
  have f: "plain_words (snd f)" "length (snd f) < 1024" using snoc.prems by (simp_all add: short_def)
  show ?case
    unfolding apply_all_snoc using snoc fields_mean_snoc [OF f, of crypto fs "fst f" st] by simp
qed

section \<open>What an invoice means\<close>

text \<open>
  The human-readable part names the network and the amount; the signed words are seven for
  the timestamp and then the fields; the signature is over the hash of the human-readable part
  and the signed words, as bytes padded with zero bits.
\<close>

definition hrp_means :: "string \<Rightarrow> bitcoin_network \<Rightarrow> u64 option \<Rightarrow> bool" where
  "hrp_means hrp network amount \<longleftrightarrow>
     (case amount of
        None \<Rightarrow> hrp = network_prefix network
      | Some m \<Rightarrow> \<exists>digits u. hrp = network_prefix network @ digits @ unit_text u \<and> amount_of digits u m)"

definition padded_bytes :: "u8 list \<Rightarrow> u8 list \<Rightarrow> bool" where
  "padded_bytes ws bytes \<longleftrightarrow>
     (\<exists>pad < 8. concat (map (bits_of 8) bytes) = concat (map (bits_of 5) ws) @ replicate pad False)"

definition described :: "tagged_field list \<Rightarrow> bool" where
  "described fs \<longleftrightarrow>
     (\<exists>t. tagged 13 fs = [to_words t] \<and> utf8_valid t) \<and> tagged 23 fs = []
     \<or> tagged 13 fs = [] \<and> (\<exists>d. tagged 23 fs = [d] \<and> length d = 52)"

definition signed_by :: "invoice_crypto \<Rightarrow> string \<Rightarrow> u8 list \<Rightarrow> u8 list \<Rightarrow> u8 list list \<Rightarrow> u8 list \<Rightarrow> bool" where
  "signed_by crypto hrp content signature keys payee \<longleftrightarrow>
     (\<exists>bytes recoverable. padded_bytes content bytes
        \<and> ic_recoverable crypto (take 64 signature) (signature ! 64) = Some recoverable
        \<and> ic_recover crypto (ic_sha256 crypto (as_bytes hrp @ bytes)) recoverable = Some payee
        \<and> (keys = []
           \<or> (\<exists>key standard. keys = [to_words key] \<and> length key = 33 \<and> ic_public_key crypto key = Some payee
                \<and> ic_signature crypto (take 64 signature) = Some standard
                \<and> ic_normalize_s crypto standard = standard
                \<and> ic_verify crypto (ic_sha256 crypto (as_bytes hrp @ bytes)) standard payee)))"

definition invoice_means :: "invoice_crypto \<Rightarrow> string \<Rightarrow> u8 list \<Rightarrow> u8 list \<Rightarrow> bolt11_invoice \<Rightarrow> bool" where
  "invoice_means crypto hrp content signature bill \<longleftrightarrow>
     hrp_means hrp (bi_network bill) (bi_amount_msat bill)
     \<and> unat (bi_timestamp bill) = base32_value (take 7 content)
     \<and> (\<exists>fs. drop 7 content = concat (map field_words fs) \<and> list_all short fs
         \<and> tagged 1 fs = [to_words (bi_payment_hash bill)] \<and> length (bi_payment_hash bill) = 32
         \<and> tagged 16 fs = [to_words (bi_payment_secret bill)] \<and> length (bi_payment_secret bill) = 32
         \<and> described fs
         \<and> number_means 3600 (tagged 6 fs) (bi_expiry_seconds bill)
         \<and> number_means 18 (tagged 24 fs) (bi_minimum_final_cltv_delta bill)
         \<and> (tagged 5 fs = [] \<and> bi_feature_bits bill = []
             \<or> (\<exists>d. tagged 5 fs = [d] \<and> bi_feature_bits bill = map of_nat (set_bits_of d)))
         \<and> signed_by crypto hrp content signature (tagged 19 fs) (bi_payee bill))"

lemma hrp_means_iff: "parse_invoice_hrp hrp = Inr (network, amount) \<longleftrightarrow> hrp_means hrp network amount"
  unfolding parse_invoice_hrp_iff by (auto simp: hrp_means_def split: option.split)

lemma timestamp_iff:
  assumes "plain_words content"
  shows "words_to_u64 (take 7 content) = Inr v \<longleftrightarrow> unat v = base32_value (take 7 content)"
proof -
  have "list_all (\<lambda>w. unat w < 32) (take 7 content)"
    using assms by (auto simp: plain_words_def list_all_iff dest: in_set_takeD)
  then have "words_to_u64 (take 7 content) = Inr (of_nat (base32_value (take 7 content)))"
    by (rule timestamp_never_overflows) simp
  then show ?thesis using words_to_u64_InrD [of "take 7 content"] by (auto simp: word_unat_eq_iff)
qed

text \<open>The padded conversion of the signed words.\<close>

lemma convert_bits_padded:
  assumes "plain_words ws"
  obtains bytes where "convert_bits ws 5 8 True = Inr bytes" "padded_bytes ws bytes"
proof -
  obtain out acc bits where r: "regroup 5 8 255 ws 0 0 = (out, acc, bits)" by (metis prod_cases3)
  have b: "concat (map (bits_of 5) ws) = concat (map (bits_of 8) out) @ bits_of bits acc" "bits < 8"
    using regroup_bits [OF r, simplified] assms by (auto simp: plain_words_def)
  let ?last = "ucast (push_bit (8 - bits) acc AND 255) :: u8"
  have "(255 :: u32) = mask 8" by (simp add: mask_eq_exp_minus_1)
  then have "push_bit (8 - bits) acc AND 255 = take_bit 8 (push_bit (8 - bits) acc)"
    by (simp only: take_bit_eq_mask)
  then have "bits_of 8 ?last = bits_of 8 (push_bit (8 - bits) acc)"
    by (simp add: bits_of_ucast bits_of_take_bit)
  also have "\<dots> = bits_of bits acc @ replicate (8 - bits) False" using b(2) by (intro bits_of_shifted) simp_all
  finally have last: "bits_of 8 ?last = bits_of bits acc @ replicate (8 - bits) False" .
  have c: "convert_bits ws 5 8 True = Inr (if bits \<noteq> 0 then out @ [?last] else out)"
    using assms convert_loop_regroup [of 5 ws 8 255 0 0] r
    by (simp add: convert_bits_def plain_words_def Let_def)
  have "padded_bytes ws (if bits \<noteq> 0 then out @ [?last] else out)"
    unfolding padded_bytes_def b(1)
    by (rule exI [of _ "if bits = 0 then 0 else 8 - bits"]) (use last in simp)
  with c show thesis by (rule that)
qed

lemma padded_bytes_unique:
  assumes "padded_bytes ws xs" "padded_bytes ws ys"
  shows "xs = ys"
proof -
  obtain p q where p: "p < 8" "concat (map (bits_of 8) xs) = concat (map (bits_of 5) ws) @ replicate p False"
    and q: "q < 8" "concat (map (bits_of 8) ys) = concat (map (bits_of 5) ws) @ replicate q False"
    using assms by (auto simp: padded_bytes_def)
  have "8 * length xs = 5 * length ws + p" "8 * length ys = 5 * length ws + q"
    using arg_cong [OF p(2), of length] arg_cong [OF q(2), of length] by (simp_all add: length_concat_bits)
  moreover from this have "length xs = length ys" using p(1) q(1) by linarith
  ultimately have "p = q" by simp
  then show ?thesis using p(2) q(2) concat_bits_inj [of 8 xs ys] u8_list_bound by simp
qed

lemma convert_bits_pad_iff:
  assumes "plain_words ws"
  shows "convert_bits ws 5 8 True = Inr bytes \<longleftrightarrow> padded_bytes ws bytes"
proof -
  obtain b where "convert_bits ws 5 8 True = Inr b" "padded_bytes ws b" by (rule convert_bits_padded [OF assms])
  then show ?thesis using padded_bytes_unique by auto
qed

section \<open>Accepted invoices\<close>

lemma payee_iff:
  "(\<exists>k. key_means crypto keys k \<and> payee_ok crypto digest signature payee k) \<longleftrightarrow>
     keys = []
     \<or> (\<exists>key standard. keys = [to_words key] \<and> length key = 33 \<and> ic_public_key crypto key = Some payee
          \<and> ic_signature crypto signature = Some standard \<and> ic_normalize_s crypto standard = standard
          \<and> ic_verify crypto digest standard payee)"
    (is "?l \<longleftrightarrow> ?r")
proof
  assume ?r
  then show ?l
  proof
    assume "keys = []"
    then have "key_means crypto keys None \<and> payee_ok crypto digest signature payee None"
      by (simp add: key_means_def payee_ok_def)
    then show ?l ..
  next
    assume "\<exists>key standard. keys = [to_words key] \<and> length key = 33 \<and> ic_public_key crypto key = Some payee
          \<and> ic_signature crypto signature = Some standard \<and> ic_normalize_s crypto standard = standard
          \<and> ic_verify crypto digest standard payee"
    then have "key_means crypto keys (Some payee) \<and> payee_ok crypto digest signature payee (Some payee)"
      by (auto simp: key_means_def payee_ok_def)
    then show ?l ..
  qed
qed (auto simp: key_means_def payee_ok_def split: option.splits)

lemma described_iff:
  "described fs \<longleftrightarrow> (\<exists>a b. text_means (tagged 13 fs) a \<and> hash_means (tagged 23 fs) b \<and> a \<noteq> b)"
  by (auto simp: described_def text_means_def hash_means_def)

lemma bits_mean_iff:
  "(\<exists>v. bits_mean ds v \<and> bs = (case v of None \<Rightarrow> [] | Some bs \<Rightarrow> bs)) \<longleftrightarrow>
     ds = [] \<and> bs = [] \<or> (\<exists>d. ds = [d] \<and> bs = map of_nat (set_bits_of d))"
  by (auto simp: bits_mean_def split: option.splits)

lemma fields_mean_invoice:
  "(\<exists>st. fields_mean crypto fs st \<and> one_description st \<and> payee_ok crypto digest signature payee (if_explicit_payee st)
      \<and> if_payment_hash st = Some hash \<and> if_payment_secret st = Some secret \<and> expiry = if_expiry_seconds st
      \<and> delta = if_minimum_final_cltv_delta st
      \<and> bs = (case if_feature_bits st of None \<Rightarrow> [] | Some bs \<Rightarrow> bs)) \<longleftrightarrow>
   bytes_mean (tagged 1 fs) (Some hash) \<and> bytes_mean (tagged 16 fs) (Some secret) \<and> described fs
   \<and> number_means 3600 (tagged 6 fs) expiry \<and> number_means 18 (tagged 24 fs) delta
   \<and> (\<exists>v. bits_mean (tagged 5 fs) v \<and> bs = (case v of None \<Rightarrow> [] | Some bs \<Rightarrow> bs))
   \<and> (\<exists>k. key_means crypto (tagged 19 fs) k \<and> payee_ok crypto digest signature payee k)"
    (is "?l \<longleftrightarrow> ?r")
proof
  assume ?l
  then show ?r unfolding described_iff fields_mean_def one_description_def by (elim exE conjE) (intro conjI exI; simp)
next
  assume ?r
  then obtain a b v k where r: "bytes_mean (tagged 1 fs) (Some hash)" "bytes_mean (tagged 16 fs) (Some secret)"
    "text_means (tagged 13 fs) a" "hash_means (tagged 23 fs) b" "a \<noteq> b"
    "number_means 3600 (tagged 6 fs) expiry" "number_means 18 (tagged 24 fs) delta"
    "bits_mean (tagged 5 fs) v" "bs = (case v of None \<Rightarrow> [] | Some bs \<Rightarrow> bs)"
    "key_means crypto (tagged 19 fs) k" "payee_ok crypto digest signature payee k"
    unfolding described_iff by blast
  show ?l
    by (rule exI [of _ "\<lparr>if_payment_hash = Some hash, if_payment_secret = Some secret, if_explicit_payee = k,
          if_has_description = a, if_has_description_hash = b, if_expiry_seconds = expiry,
          if_minimum_final_cltv_delta = delta, if_feature_bits = v\<rparr>"])
      (use r in \<open>simp add: fields_mean_def one_description_def\<close>)
qed

lemma plain_fields: "plain_words (concat (map field_words fs)) \<Longrightarrow> list_all (\<lambda>f. plain_words (snd f)) fs"
  by (induction fs) (simp_all add: field_words_def plain_words_def)

lemma invoice_reads_iff:
  assumes "plain_words content"
  shows "invoice_reads crypto hrp content signature bill \<longleftrightarrow> invoice_means crypto hrp content signature bill"
proof -
  let ?digest = "\<lambda>bytes. ic_sha256 crypto (as_bytes hrp @ bytes)"
  have plain: "plain_words (drop 7 content)"
    using assms by (auto simp: plain_words_def list_all_iff dest: in_set_dropD)
  have "read_fields crypto (drop 7 content) no_fields = Inr st \<longleftrightarrow>
      (\<exists>fs. drop 7 content = concat (map field_words fs) \<and> list_all short fs \<and> fields_mean crypto fs st)" for st
    unfolding read_fields_iff [OF plain]
    using plain_fields apply_all_iff plain by (metis (no_types, lifting) list_all_iff)
  then have "invoice_reads crypto hrp content signature bill \<longleftrightarrow>
    hrp_means hrp (bi_network bill) (bi_amount_msat bill)
    \<and> unat (bi_timestamp bill) = base32_value (take 7 content)
    \<and> (\<exists>fs bytes recoverable. drop 7 content = concat (map field_words fs) \<and> list_all short fs
        \<and> padded_bytes content bytes
        \<and> ic_recoverable crypto (take 64 signature) (signature ! 64) = Some recoverable
        \<and> ic_recover crypto (?digest bytes) recoverable = Some (bi_payee bill)
        \<and> (\<exists>st. fields_mean crypto fs st \<and> one_description st
            \<and> payee_ok crypto (?digest bytes) (take 64 signature) (bi_payee bill) (if_explicit_payee st)
            \<and> if_payment_hash st = Some (bi_payment_hash bill) \<and> if_payment_secret st = Some (bi_payment_secret bill)
            \<and> bi_expiry_seconds bill = if_expiry_seconds st
            \<and> bi_minimum_final_cltv_delta bill = if_minimum_final_cltv_delta st
            \<and> bi_feature_bits bill = (case if_feature_bits st of None \<Rightarrow> [] | Some bs \<Rightarrow> bs)))"
    unfolding invoice_reads_def hrp_means_iff timestamp_iff [OF assms] convert_bits_pad_iff [OF assms] by blast
  then show ?thesis
    unfolding fields_mean_invoice payee_iff bits_mean_iff invoice_means_def signed_by_def
    by (simp only: bytes_mean_def option.case) blast
qed

definition well_signed :: "invoice_crypto \<Rightarrow> string \<Rightarrow> string \<Rightarrow> u8 list \<Rightarrow> u8 list \<Rightarrow> bolt11_invoice \<Rightarrow> bool" where
  "well_signed crypto invoice hrp content signature bill \<longleftrightarrow>
     invoice = invoice_text hrp content signature \<and> length invoice \<le> MAX_INVOICE_CHARS
     \<and> list_all (\<lambda>w. unat w < 32) content \<and> 7 \<le> length content
     \<and> length signature = 65 \<and> signature ! 64 \<le> 3
     \<and> invoice_means crypto hrp content signature bill"

lemma parse_bolt11_well_signed:
  assumes "parse_bolt11 crypto invoice = Inr bill"
  shows "\<exists>hrp content signature. well_signed crypto invoice hrp content signature bill"
proof -
  from assms obtain i ws signature where d: "length invoice \<le> MAX_INVOICE_CHARS" "rfind (CHR ''1'') invoice = Some i"
    "bech32_words (drop (i + 1) invoice) = Inr ws" "words_accepted (take i invoice) ws signature"
    "invoice_reads crypto (take i invoice) (take (length ws - 110) ws) signature bill"
    by (rule parse_bolt11D)
  have w: "list_all (\<lambda>w. unat w < 32) ws" "drop (i + 1) invoice = map (\<lambda>w. CHARSET ! unat w) ws"
    using d(3) by (simp_all add: bech32_words_iff)
  obtain content where c: "ws = content @ to_words signature @ checksum (take i invoice) (content @ to_words signature)"
    "7 \<le> length content" "length signature = 65" "signature ! 64 \<le> 3"
    using d(4) unfolding words_accepted_text [OF w(1)] by blast
  have cut: "take (length ws - 110) ws = content" by (simp add: c(1,3) length_to_words)
  have "invoice = invoice_text (take i invoice) content signature"
    using rfind_SomeD [OF d(2)] w(2) unfolding c(1) invoice_text_def Let_def by simp
  moreover have plain: "plain_words content" using w(1) unfolding c(1) plain_words_def by simp
  moreover have "invoice_means crypto (take i invoice) content signature bill"
    using d(5) unfolding cut invoice_reads_iff [OF plain] .
  ultimately have "well_signed crypto invoice (take i invoice) content signature bill"
    unfolding well_signed_def plain_words_def using c(2-4) d(1) by simp
  then show ?thesis by blast
qed

lemma well_signed_parses:
  assumes "well_signed crypto invoice hrp content signature bill"
  shows "parse_bolt11 crypto invoice = Inr bill"
proof -
  note ok = assms [unfolded well_signed_def]
  define ws where "ws = content @ to_words signature @ checksum hrp (content @ to_words signature)"
  have less: "list_all (\<lambda>w. unat w < 32) ws"
    using ok to_words_less [of _ signature] checksum_less by (auto simp: ws_def list_all_iff)
  have inv: "invoice = hrp @ CHR ''1'' # map (\<lambda>w. CHARSET ! unat w) ws"
    using ok by (simp add: invoice_text_def ws_def Let_def)
  have hrp: "take (length hrp) invoice = hrp" by (simp add: inv)
  note chars = charset_text [OF less]
  have "list_all (\<lambda>c. \<not> is_ascii_uppercase (byte_of c) \<and> byte_of c < 128) hrp"
    by (rule hrp_text_plain) (use ok in \<open>auto simp: invoice_means_def hrp_means_iff\<close>)
  with chars have plain: "is_ascii invoice" "\<not> list_ex (\<lambda>c. is_ascii_uppercase (byte_of c)) invoice"
    unfolding inv by (auto simp: is_ascii_def list_all_iff list_ex_iff byte_of_one is_ascii_uppercase_def)
  have sep: "rfind (CHR ''1'') invoice = Some (length hrp)"
    unfolding inv by (rule rfind_append) (use chars in \<open>auto simp: list_all_iff\<close>)
  have "bech32_words (drop (length hrp + 1) invoice) = Inr ws"
    unfolding inv using less by (simp add: bech32_words_iff)
  moreover have "words_accepted (take (length hrp) invoice) ws signature"
    unfolding hrp words_accepted_text [OF less] using ok ws_def by blast
  moreover have "invoice_reads crypto (take (length hrp) invoice) (take (length ws - 110) ws) signature bill"
    unfolding hrp using ok invoice_reads_iff [of content crypto hrp signature bill]
    by (simp add: ws_def length_to_words plain_words_def)
  moreover have "invoice \<noteq> []" by (simp add: inv)
  ultimately show ?thesis using parse_bolt11I [OF _ _ plain sep] ok by blast
qed

section \<open>Properties\<close>

text \<open>C28: an invoice is accepted exactly when it is the bech32 text of a human-readable part, at
  least seven signed words and a 65-byte signature that stand for the result: the
  human-readable part is the network prefix followed by nothing or by digits and a unit that
  make up the amount; the first seven words are the timestamp in base 32; the others are tagged
  fields, of which exactly one with tag 1 is the payment hash and exactly one with tag 16 the
  payment secret, of 32 bytes each; there is one description text (tag 13, valid UTF-8)
  or one description hash (tag 23) and not both; the expiry is the last number with tag 6, else
  3600, the final delta the last with tag 24, else 18, all in minimal form; the feature
  bits are the set bits of the one number with tag 5, if there is one; and the payee is the key
  recovered from the signature over the hash of the human-readable part and the padded words,
  with a normalised valid signature when the one field with tag 19 names it. Fields with other
  tags are ignored.\<close>

theorem invoice_exact:
  "parse_bolt11 crypto invoice = Inr bill \<longleftrightarrow>
     (\<exists>hrp content signature. well_signed crypto invoice hrp content signature bill)"
  using parse_bolt11_well_signed well_signed_parses by blast

end
