(* ===== verification/Tx_Codec.thy ===== *)
theory Tx_Codec
  imports Byte_Codec
begin

text \<open>
  Bitcoin transactions as \<open>immortal-core/src/mkt_swp_verify.rs\<close> parses and serialises
  them (\<open>Transaction\<close>), with their weight and virtual size. SHA-256 is the argument
  \<open>sha256\<close>.
\<close>

section \<open>Transactions\<close>

record tx_input =
  ti_previous_txid :: "u8 list"
  ti_previous_output :: u32
  ti_script_sig :: "u8 list"
  ti_sequence :: u32
  ti_witness :: "u8 list list"

record tx_output =
  to_value_sat :: u64
  to_script_pubkey :: "u8 list"

record transaction =
  t_version :: i32
  t_inputs :: "tx_input list"
  t_outputs :: "tx_output list"
  t_lock_time :: u32
  t_has_witness :: bool

definition MAX_TRANSACTION_BYTES :: nat where "MAX_TRANSACTION_BYTES = 1000000"
definition MAX_INPUTS :: nat where "MAX_INPUTS = 4096"
definition MAX_OUTPUTS :: nat where "MAX_OUTPUTS = 4096"
definition MAX_SCRIPT_BYTES :: nat where "MAX_SCRIPT_BYTES = 10000"
definition MAX_WITNESS_ITEMS :: nat where "MAX_WITNESS_ITEMS = 1024"
definition MAX_WITNESS_ITEM_BYTES :: nat where "MAX_WITNESS_ITEM_BYTES = 80000"

lemmas tx_limits = MAX_TRANSACTION_BYTES_def MAX_INPUTS_def MAX_OUTPUTS_def MAX_SCRIPT_BYTES_def
  MAX_WITNESS_ITEMS_def MAX_WITNESS_ITEM_BYTES_def

definition any_witness :: "tx_input list \<Rightarrow> bool" where
  "any_witness inputs \<longleftrightarrow> list_ex (\<lambda>i. ti_witness i \<noteq> []) inputs"

definition new_transaction :: "i32 \<Rightarrow> tx_input list \<Rightarrow> tx_output list \<Rightarrow> u32 \<Rightarrow> transaction" where
  "new_transaction version inputs outputs lock_time =
     \<lparr>t_version = version, t_inputs = inputs, t_outputs = outputs, t_lock_time = lock_time,
      t_has_witness = any_witness inputs\<rparr>"

definition validate_witness_items :: "u8 list list \<Rightarrow> (verification_error, unit) result" where
  "validate_witness_items witness =
     try_then (ensure (\<not> MAX_WITNESS_ITEMS < length witness) (Bounds ''witness item count'')) (\<lambda>_.
     ensure (\<not> list_ex (\<lambda>item. MAX_WITNESS_ITEM_BYTES < length item) witness)
       (Bounds ''witness item byte length''))"

definition set_input_witness ::
    "nat \<Rightarrow> u8 list list \<Rightarrow> transaction \<Rightarrow> (verification_error, transaction) result" where
  "set_input_witness input_index witness tx =
     try_then (validate_witness_items witness) (\<lambda>_.
     try_then (ensure (input_index < length (t_inputs tx)) (Bounds ''witness input index'')) (\<lambda>_.
     let inputs = (t_inputs tx)[input_index := (t_inputs tx ! input_index)\<lparr>ti_witness := witness\<rparr>]
     in Inr (tx\<lparr>t_inputs := inputs, t_has_witness := any_witness inputs\<rparr>)))"

section \<open>Parsing\<close>

definition read_input :: "tx_input reader" where
  "read_input bs =
     try_then (read_array 32 bs) (\<lambda>(previous_txid, bs).
     try_then (read_u32 bs) (\<lambda>(previous_output, bs).
     try_then (read_var_bytes MAX_SCRIPT_BYTES bs) (\<lambda>(script_sig, bs).
     try_then (read_u32 bs) (\<lambda>(sequence, bs).
     Inr (\<lparr>ti_previous_txid = previous_txid, ti_previous_output = previous_output,
           ti_script_sig = script_sig, ti_sequence = sequence, ti_witness = []\<rparr>, bs)))))"

definition read_output :: "tx_output reader" where
  "read_output bs =
     try_then (read_u64 bs) (\<lambda>(value_sat, bs).
     try_then (read_var_bytes MAX_SCRIPT_BYTES bs) (\<lambda>(script_pubkey, bs).
     Inr (\<lparr>to_value_sat = value_sat, to_script_pubkey = script_pubkey\<rparr>, bs)))"

definition read_witness :: "u8 list list reader" where
  "read_witness bs =
     try_then (read_compact_size MAX_WITNESS_ITEMS bs) (\<lambda>(item_count, bs).
     read_many (read_var_bytes MAX_WITNESS_ITEM_BYTES) item_count bs)"

text \<open>The loop that reads a witness for every input in turn.\<close>

fun read_witnesses :: "tx_input list \<Rightarrow> tx_input list reader" where
  "read_witnesses [] bs = Inr ([], bs)"
| "read_witnesses (i # is) bs =
     try_then (read_witness bs) (\<lambda>(w, bs).
     try_then (read_witnesses is bs) (\<lambda>(is', bs). Inr (i\<lparr>ti_witness := w\<rparr> # is', bs)))"

definition parse_transaction :: "u8 list \<Rightarrow> (verification_error, transaction) result" where
  "parse_transaction bytes =
     try_then (ensure (\<not> (bytes = [] \<or> MAX_TRANSACTION_BYTES < length bytes))
                (Bounds ''transaction byte length'')) (\<lambda>_.
     try_then (read_i32 bytes) (\<lambda>(version, bs).
     try_then (if 2 \<le> reader_remaining bs
               then try_then (peek bs) (\<lambda>a. if a = 0 then try_then (peek_at 1 bs) (\<lambda>b. Inr (b \<noteq> 0)) else Inr False)
               else Inr False) (\<lambda>has_witness.
     try_then (if has_witness
               then try_then (read_u8 bs) (\<lambda>(_, bs).
                    try_then (read_u8 bs) (\<lambda>(flag, bs).
                    try_then (ensure (flag = 1) (Unsupported ''transaction witness flag'')) (\<lambda>_. Inr ((), bs))))
               else Inr ((), bs)) (\<lambda>(_, bs).
     try_then (read_compact_size MAX_INPUTS bs) (\<lambda>(input_count, bs).
     try_then (ensure (input_count \<noteq> 0) (Invalid ''transaction has no inputs'')) (\<lambda>_.
     try_then (read_many read_input input_count bs) (\<lambda>(inputs, bs).
     try_then (read_compact_size MAX_OUTPUTS bs) (\<lambda>(output_count, bs).
     try_then (ensure (output_count \<noteq> 0) (Invalid ''transaction has no outputs'')) (\<lambda>_.
     try_then (read_many read_output output_count bs) (\<lambda>(outputs, bs).
     try_then (if has_witness then read_witnesses inputs bs else Inr (inputs, bs)) (\<lambda>(inputs, bs).
     try_then (read_u32 bs) (\<lambda>(lock_time, bs).
     try_then (ensure (reader_remaining bs = 0) (Encoding ''transaction trailing bytes'')) (\<lambda>_.
     Inr \<lparr>t_version = version, t_inputs = inputs, t_outputs = outputs, t_lock_time = lock_time,
          t_has_witness = has_witness\<rparr>)))))))))))))"

section \<open>Serialising\<close>

definition input_bytes :: "tx_input \<Rightarrow> u8 list" where
  "input_bytes i = ti_previous_txid i @ to_le_bytes 4 (ti_previous_output i)
     @ write_var_bytes (ti_script_sig i) @ to_le_bytes 4 (ti_sequence i)"

definition write_input :: "tx_input \<Rightarrow> (verification_error, u8 list) result" where
  "write_input i =
     try_then (ensure (\<not> MAX_SCRIPT_BYTES < length (ti_script_sig i)) (Bounds ''scriptSig byte length''))
       (\<lambda>_. Inr (input_bytes i))"

definition output_bytes :: "tx_output \<Rightarrow> u8 list" where
  "output_bytes t = to_le_bytes 8 (to_value_sat t) @ write_var_bytes (to_script_pubkey t)"

definition write_output :: "tx_output \<Rightarrow> (verification_error, u8 list) result" where
  "write_output t =
     try_then (ensure (\<not> MAX_SCRIPT_BYTES < length (to_script_pubkey t)) (Bounds ''scriptPubKey byte length''))
       (\<lambda>_. Inr (output_bytes t))"

definition witness_bytes :: "u8 list list \<Rightarrow> u8 list" where
  "witness_bytes w = write_compact_size (length w) @ concat (map write_var_bytes w)"

definition write_witness :: "tx_input \<Rightarrow> (verification_error, u8 list) result" where
  "write_witness i =
     try_then (ensure (\<not> MAX_WITNESS_ITEMS < length (ti_witness i)) (Bounds ''witness item count'')) (\<lambda>_.
     try_then (ensure (\<not> list_ex (\<lambda>item. MAX_WITNESS_ITEM_BYTES < length item) (ti_witness i))
                (Bounds ''witness item byte length'')) (\<lambda>_.
     Inr (witness_bytes (ti_witness i))))"

definition serialize :: "transaction \<Rightarrow> bool \<Rightarrow> (verification_error, u8 list) result" where
  "serialize tx include_witness =
     try_then (ensure (\<not> (t_inputs tx = [] \<or> MAX_INPUTS < length (t_inputs tx)))
                (Bounds ''transaction input count'')) (\<lambda>_.
     try_then (ensure (\<not> (t_outputs tx = [] \<or> MAX_OUTPUTS < length (t_outputs tx)))
                (Bounds ''transaction output count'')) (\<lambda>_.
     let include_witness = (include_witness \<and> t_has_witness tx \<and> any_witness (t_inputs tx))
     in try_then (try_map write_input (t_inputs tx)) (\<lambda>ins.
     try_then (try_map write_output (t_outputs tx)) (\<lambda>outs.
     try_then (if include_witness then try_map write_witness (t_inputs tx) else Inr []) (\<lambda>wits.
     let output = to_le_bytes 4 (t_version tx) @ (if include_witness then [0, 1] else [])
                  @ write_compact_size (length (t_inputs tx)) @ concat ins
                  @ write_compact_size (length (t_outputs tx)) @ concat outs
                  @ concat wits @ to_le_bytes 4 (t_lock_time tx)
     in try_then (ensure (\<not> MAX_TRANSACTION_BYTES < length output) (Bounds ''serialized transaction byte length''))
          (\<lambda>_. Inr output))))))"

definition double_sha256 :: "(u8 list \<Rightarrow> u8 list) \<Rightarrow> u8 list \<Rightarrow> u8 list" where
  "double_sha256 sha256 bs = sha256 (sha256 bs)"

definition display_hash :: "u8 list \<Rightarrow> u8 list" where
  "display_hash bs = rev bs"

definition txid :: "(u8 list \<Rightarrow> u8 list) \<Rightarrow> transaction \<Rightarrow> (verification_error, u8 list) result" where
  "txid sha256 tx =
     try_then (serialize tx False) (\<lambda>bs. Inr (display_hash (double_sha256 sha256 bs)))"

definition wtxid :: "(u8 list \<Rightarrow> u8 list) \<Rightarrow> transaction \<Rightarrow> (verification_error, u8 list) result" where
  "wtxid sha256 tx =
     try_then (serialize tx True) (\<lambda>bs. Inr (display_hash (double_sha256 sha256 bs)))"

definition weight :: "transaction \<Rightarrow> (verification_error, u64) result" where
  "weight tx =
     try_then (serialize tx False) (\<lambda>stripped.
     try_then (serialize tx True) (\<lambda>total.
     ok_or (case checked_mul (of_nat (length stripped)) 3 of
              None \<Rightarrow> None
            | Some w \<Rightarrow> checked_add w (of_nat (length total)))
       (Bounds ''transaction weight'')))"

definition virtual_size :: "transaction \<Rightarrow> (verification_error, u64) result" where
  "virtual_size tx =
     try_then (weight tx) (\<lambda>w.
     ok_or (case checked_add w 3 of None \<Rightarrow> None | Some x \<Rightarrow> Some (x div 4)) (Bounds ''transaction virtual size''))"

section \<open>Codecs of the parts\<close>

definition input_ok :: "tx_input \<Rightarrow> bool" where
  "input_ok i \<longleftrightarrow> length (ti_previous_txid i) = 32 \<and> length (ti_script_sig i) \<le> MAX_SCRIPT_BYTES \<and> ti_witness i = []"

interpretation txin: codec input_bytes read_input input_ok
proof unfold_locales
  fix i :: tx_input and rest
  assume "input_ok i"
  then show "read_input (input_bytes i @ rest) = Inr (i, rest)"
    by (simp add: read_input_def input_bytes_def input_ok_def le32.dec_enc var_bytes.dec_enc tx_limits)
next
  fix bs i rest
  assume "read_input bs = Inr (i, rest)"
  then obtain txid b1 out b2 ss b3 seq where r: "read_array 32 bs = Inr (txid, b1)" "read_u32 b1 = Inr (out, b2)"
    "read_var_bytes MAX_SCRIPT_BYTES b2 = Inr (ss, b3)" "read_u32 b3 = Inr (seq, rest)"
    "i = \<lparr>ti_previous_txid = txid, ti_previous_output = out, ti_script_sig = ss, ti_sequence = seq, ti_witness = []\<rparr>"
    by (auto simp: read_input_def try_then_eq_Inr)
  then show "input_ok i \<and> bs = input_bytes i @ rest"
    using read_array_InrD [OF r(1)] le32.enc_dec [OF r(2)] var_bytes.enc_dec [OF r(3)] le32.enc_dec [OF r(4)]
    by (simp add: input_ok_def input_bytes_def)
qed

interpretation txout: codec output_bytes read_output "\<lambda>t. length (to_script_pubkey t) \<le> MAX_SCRIPT_BYTES"
proof unfold_locales
  fix t :: tx_output and rest
  assume "length (to_script_pubkey t) \<le> MAX_SCRIPT_BYTES"
  then show "read_output (output_bytes t @ rest) = Inr (t, rest)"
    by (simp add: read_output_def output_bytes_def le64.dec_enc var_bytes.dec_enc tx_limits)
next
  fix bs t rest
  assume "read_output bs = Inr (t, rest)"
  then obtain v b1 sp where r: "read_u64 bs = Inr (v, b1)" "read_var_bytes MAX_SCRIPT_BYTES b1 = Inr (sp, rest)"
    "t = \<lparr>to_value_sat = v, to_script_pubkey = sp\<rparr>"
    by (auto simp: read_output_def try_then_eq_Inr)
  then show "length (to_script_pubkey t) \<le> MAX_SCRIPT_BYTES \<and> bs = output_bytes t @ rest"
    using le64.enc_dec [OF r(1)] var_bytes.enc_dec [OF r(2)] by (simp add: output_bytes_def)
qed

definition witness_ok :: "u8 list list \<Rightarrow> bool" where
  "witness_ok w \<longleftrightarrow> length w \<le> MAX_WITNESS_ITEMS \<and> list_all (\<lambda>item. length item \<le> MAX_WITNESS_ITEM_BYTES) w"

interpretation txwit: codec witness_bytes read_witness witness_ok
proof unfold_locales
  fix w rest
  assume "witness_ok w"
  then have "list_all (\<lambda>x. length x \<le> MAX_WITNESS_ITEM_BYTES \<and> length x < 2 ^ 64) w"
    "length w \<le> MAX_WITNESS_ITEMS \<and> length w < 2 ^ 64"
    by (auto simp: witness_ok_def list_all_iff tx_limits)
  then show "read_witness (witness_bytes w @ rest) = Inr (w, rest)"
    using var_bytes.many [of MAX_WITNESS_ITEM_BYTES w rest]
    by (simp add: read_witness_def witness_bytes_def compact.dec_enc)
next
  fix bs w rest
  assume "read_witness bs = Inr (w, rest)"
  then obtain n b1 where r: "read_compact_size MAX_WITNESS_ITEMS bs = Inr (n, b1)"
    "read_many (read_var_bytes MAX_WITNESS_ITEM_BYTES) n b1 = Inr (w, rest)"
    by (auto simp: read_witness_def try_then_eq_Inr)
  then show "witness_ok w \<and> bs = witness_bytes w @ rest"
    using compact.enc_dec [OF r(1)] var_bytes.many_inv [OF r(2)]
    by (auto simp: witness_ok_def witness_bytes_def list_all_iff)
qed

section \<open>The layout of a transaction\<close>

definition strip_witness :: "tx_input \<Rightarrow> tx_input" where
  "strip_witness i = i\<lparr>ti_witness := []\<rparr>"

lemma strip_witness_bytes [simp]: "input_bytes (strip_witness i) = input_bytes i"
  by (simp add: strip_witness_def input_bytes_def)

lemma strip_witness_update [simp]: "(strip_witness i)\<lparr>ti_witness := ti_witness i\<rparr> = i"
  by (simp add: strip_witness_def)

lemma strip_witness_id: "ti_witness i = [] \<Longrightarrow> strip_witness i = i"
  by (simp add: strip_witness_def)

definition layout :: "transaction \<Rightarrow> bool \<Rightarrow> u8 list" where
  "layout tx w = to_le_bytes 4 (t_version tx) @ (if w then [0, 1] else [])
     @ write_compact_size (length (t_inputs tx)) @ concat (map input_bytes (t_inputs tx))
     @ write_compact_size (length (t_outputs tx)) @ concat (map output_bytes (t_outputs tx))
     @ concat (if w then map (\<lambda>i. witness_bytes (ti_witness i)) (t_inputs tx) else [])
     @ to_le_bytes 4 (t_lock_time tx)"

definition within_limits :: "transaction \<Rightarrow> bool \<Rightarrow> bool" where
  "within_limits tx w \<longleftrightarrow>
     t_inputs tx \<noteq> [] \<and> length (t_inputs tx) \<le> MAX_INPUTS
     \<and> t_outputs tx \<noteq> [] \<and> length (t_outputs tx) \<le> MAX_OUTPUTS
     \<and> list_all (\<lambda>i. length (ti_script_sig i) \<le> MAX_SCRIPT_BYTES) (t_inputs tx)
     \<and> list_all (\<lambda>t. length (to_script_pubkey t) \<le> MAX_SCRIPT_BYTES) (t_outputs tx)
     \<and> (w \<longrightarrow> list_all (\<lambda>i. witness_ok (ti_witness i)) (t_inputs tx))
     \<and> length (layout tx w) \<le> MAX_TRANSACTION_BYTES"

lemma try_map_written:
  assumes "\<And>x y. f x = Inr y \<longleftrightarrow> p x \<and> y = g x"
  shows "try_map f xs = Inr ys \<longleftrightarrow> list_all p xs \<and> ys = map g xs"
  by (induction xs arbitrary: ys) (auto simp: try_then_eq_Inr assms)

lemma write_parts:
  "try_map write_input is = Inr ins \<longleftrightarrow>
     list_all (\<lambda>i. length (ti_script_sig i) \<le> MAX_SCRIPT_BYTES) is \<and> ins = map input_bytes is"
  "try_map write_output os = Inr outs \<longleftrightarrow>
     list_all (\<lambda>t. length (to_script_pubkey t) \<le> MAX_SCRIPT_BYTES) os \<and> outs = map output_bytes os"
  "try_map write_witness is = Inr wits \<longleftrightarrow>
     list_all (\<lambda>i. witness_ok (ti_witness i)) is \<and> wits = map (\<lambda>i. witness_bytes (ti_witness i)) is"
  by (rule try_map_written;
      auto simp: write_input_def write_output_def write_witness_def try_then_eq_Inr witness_ok_def list_all_iff list_ex_iff not_less)+

lemma serialize_iff:
  "serialize tx w = Inr bs \<longleftrightarrow>
     (let w = (w \<and> t_has_witness tx \<and> any_witness (t_inputs tx)) in within_limits tx w \<and> bs = layout tx w)"
  by (auto simp: serialize_def Let_def try_then_eq_Inr write_parts within_limits_def layout_def not_less
      split: if_splits)

section \<open>Parsing a layout\<close>

lemma compact_head:
  assumes "0 < n" "n \<le> 4096"
  shows "\<exists>b bs. write_compact_size n = b # bs \<and> b \<noteq> 0"
proof (cases "n < 0xfd")
  case True
  then have "(of_nat n :: u8) \<noteq> 0" using assms by (simp add: word_unat_eq_iff unat_of_nat_small)
  with True show ?thesis by (simp add: write_compact_size_def)
qed (use assms in \<open>simp add: write_compact_size_def\<close>)

lemma read_witnesses_written:
  "list_all (\<lambda>i. witness_ok (ti_witness i)) is \<Longrightarrow>
     read_witnesses (map strip_witness is) (concat (map (\<lambda>i. witness_bytes (ti_witness i)) is) @ rest)
       = Inr (is, rest)"
  by (induction "is") (simp_all add: txwit.dec_enc)

lemma read_witnessesD:
  "read_witnesses is bs = Inr (js, rest) \<Longrightarrow>
     length js = length is \<and> map strip_witness js = map strip_witness is
     \<and> list_all (\<lambda>i. witness_ok (ti_witness i)) js
     \<and> bs = concat (map (\<lambda>i. witness_bytes (ti_witness i)) js) @ rest"
proof (induction "is" arbitrary: bs js)
  case (Cons i "is")
  then obtain w b1 js' where r: "read_witness bs = Inr (w, b1)" "read_witnesses is b1 = Inr (js', rest)"
    "js = i\<lparr>ti_witness := w\<rparr> # js'"
    by (auto simp: try_then_eq_Inr)
  from txwit.enc_dec [OF r(1)] Cons.IH [OF r(2)] r(3) show ?case
    by (simp add: strip_witness_def)
qed simp

definition txids_ok :: "transaction \<Rightarrow> bool" where
  "txids_ok tx \<longleftrightarrow> list_all (\<lambda>i. length (ti_previous_txid i) = 32) (t_inputs tx)"

lemma stripped_inputs_ok:
  "\<lbrakk>within_limits tx w; txids_ok tx\<rbrakk> \<Longrightarrow> list_all input_ok (map strip_witness (t_inputs tx))"
  by (simp add: list_all_iff input_ok_def strip_witness_def within_limits_def txids_ok_def)

lemma parse_layout:
  assumes "within_limits tx w" "txids_ok tx" "w \<or> \<not> any_witness (t_inputs tx)"
  shows "parse_transaction (layout tx w) = Inr (tx\<lparr>t_has_witness := w\<rparr>)"
proof -
  let ?is = "t_inputs tx" and ?os = "t_outputs tx"
  have lim: "?is \<noteq> []" "length ?is \<le> 4096" "?os \<noteq> []" "length ?os \<le> 4096"
    using assms(1) by (simp_all add: within_limits_def tx_limits)
  have size: "layout tx w \<noteq> []" "length (layout tx w) \<le> MAX_TRANSACTION_BYTES"
    using assms(1) by (auto simp: within_limits_def layout_def dest: arg_cong [of _ _ length])
  have ins: "read_many read_input (length ?is) (concat (map input_bytes ?is) @ r) = Inr (map strip_witness ?is, r)" for r
    using txin.many [OF stripped_inputs_ok [OF assms(1,2)], of r] by (simp add: o_def)
  have outs: "read_many read_output (length ?os) (concat (map output_bytes ?os) @ r) = Inr (?os, r)" for r
    using txout.many [of ?os r] assms(1) by (simp add: within_limits_def)
  have nowit: "\<not> w \<Longrightarrow> map strip_witness ?is = ?is"
    using assms(3) by (auto simp: any_witness_def list_ex_iff strip_witness_id intro!: map_idI)
  obtain b bs where head: "write_compact_size (length ?is) = b # bs" "b \<noteq> 0"
    using compact_head [of "length ?is"] lim by auto
  have in_count: "read_compact_size MAX_INPUTS (write_compact_size (length ?is) @ r) = Inr (length ?is, r)" for r
    using lim by (intro compact.dec_enc) (simp add: tx_limits)
  have out_count: "read_compact_size MAX_OUTPUTS (write_compact_size (length ?os) @ r) = Inr (length ?os, r)" for r
    using lim by (intro compact.dec_enc) (simp add: tx_limits)
  have final: "read_u32 (to_le_bytes 4 (t_lock_time tx)) = Inr (t_lock_time tx, [])"
    using le32.dec_enc [of "t_lock_time tx" "[]"] by simp
  show ?thesis
  proof (cases w)
    case True
    then have "list_all (\<lambda>i. witness_ok (ti_witness i)) ?is" using assms(1) by (simp add: within_limits_def)
    note wits = read_witnesses_written [OF this]
    show ?thesis
      using True size lim
      by (simp add: parse_transaction_def layout_def lei32.dec_enc reader_remaining_def peek_def peek_at_def
          in_count ins out_count outs wits final)
  next
    case False
    have "try_then (peek (write_compact_size (length ?is) @ r)) (\<lambda>a. if a = 0
        then try_then (peek_at 1 (write_compact_size (length ?is) @ r)) (\<lambda>b. Inr (b \<noteq> 0)) else Inr False) = Inr False" for r
      using head by (simp add: peek_def peek_at_def)
    then show ?thesis
      using False size lim nowit
      by (simp add: parse_transaction_def layout_def lei32.dec_enc in_count ins out_count outs final
          reader_remaining_def)
  qed
qed

lemma has_witness_prefix:
  assumes "(if 2 \<le> reader_remaining bs
      then try_then (peek bs) (\<lambda>a. if a = 0 then try_then (peek_at 1 bs) (\<lambda>b. Inr (b \<noteq> 0)) else Inr False)
      else Inr False) = Inr has"
    "(if has then try_then (read_u8 bs) (\<lambda>(_, bs).
                    try_then (read_u8 bs) (\<lambda>(flag, bs).
                    try_then (ensure (flag = 1) e) (\<lambda>_. Inr ((), bs))))
      else Inr ((), bs)) = Inr (u, bs')"
  shows "bs = (if has then [0, 1] else []) @ bs'"
proof (cases has)
  case True
  then have "bs ! 0 = 0" "2 \<le> length bs"
    using assms(1) by (auto simp: reader_remaining_def peek_def peek_at_def split: if_splits)
  then obtain b r where "bs = 0 # b # r"
    by (cases bs; cases "tl bs") auto
  with True assms(2) show ?thesis by (auto simp: try_then_ensure split: if_splits)
qed (use assms in simp)

lemma read_all_witnesses:
  assumes "(if has then read_witnesses ins bs else Inr (ins, bs)) = Inr (ins', rest)" "list_all input_ok ins"
  shows "length ins' = length ins \<and> map strip_witness ins' = ins
    \<and> (has \<longrightarrow> list_all (\<lambda>i. witness_ok (ti_witness i)) ins') \<and> (has \<or> \<not> any_witness ins')
    \<and> bs = concat (if has then map (\<lambda>i. witness_bytes (ti_witness i)) ins' else []) @ rest"
proof -
  have "map strip_witness ins = ins"
    using assms(2) by (auto simp: list_all_iff input_ok_def strip_witness_id intro!: map_idI)
  moreover have "\<not> any_witness ins"
    using assms(2) by (auto simp: any_witness_def list_ex_iff list_all_iff input_ok_def)
  ultimately show ?thesis
    using assms(1) read_witnessesD [of ins bs ins' rest] by (auto split: if_splits)
qed

lemma parse_transactionD:
  assumes "parse_transaction bytes = Inr tx"
  shows "within_limits tx (t_has_witness tx) \<and> txids_ok tx
    \<and> (t_has_witness tx \<or> \<not> any_witness (t_inputs tx)) \<and> bytes = layout tx (t_has_witness tx)"
proof -
  obtain version b1 has u b2 m b3 ins b4 n b5 outs b6 ins' b7 lock b8 where r:
    "length bytes \<le> MAX_TRANSACTION_BYTES" "read_i32 bytes = Inr (version, b1)"
    "(if 2 \<le> reader_remaining b1
      then try_then (peek b1) (\<lambda>a. if a = 0 then try_then (peek_at 1 b1) (\<lambda>b. Inr (b \<noteq> 0)) else Inr False)
      else Inr False) = Inr has"
    "(if has then try_then (read_u8 b1) (\<lambda>(_, bs).
                    try_then (read_u8 bs) (\<lambda>(flag, bs).
                    try_then (ensure (flag = 1) (Unsupported ''transaction witness flag'')) (\<lambda>_. Inr ((), bs))))
      else Inr ((), b1)) = Inr (u, b2)"
    "read_compact_size MAX_INPUTS b2 = Inr (m, b3)" "m \<noteq> 0" "read_many read_input m b3 = Inr (ins, b4)"
    "read_compact_size MAX_OUTPUTS b4 = Inr (n, b5)" "n \<noteq> 0" "read_many read_output n b5 = Inr (outs, b6)"
    "(if has then read_witnesses ins b6 else Inr (ins, b6)) = Inr (ins', b7)"
    "read_u32 b7 = Inr (lock, b8)" "b8 = []"
    and tx: "tx = \<lparr>t_version = version, t_inputs = ins', t_outputs = outs, t_lock_time = lock, t_has_witness = has\<rparr>"
    using assms unfolding parse_transaction_def reader_remaining_def length_0_conv
    by (auto simp only: try_then_eq_Inr ensure_eq_Inr split_paired_Ex prod.case sum.inject de_Morgan_disj not_less)
  have ins: "length ins = m" "list_all input_ok ins" "b3 = concat (map input_bytes ins) @ b4"
    using txin.many_inv [OF r(7)] by auto
  have outs: "length outs = n" "list_all (\<lambda>t. length (to_script_pubkey t) \<le> MAX_SCRIPT_BYTES) outs"
    "b5 = concat (map output_bytes outs) @ b6"
    using txout.many_inv [OF r(10)] by auto
  note wit = read_all_witnesses [OF r(11) ins(2)]
  then have stripped: "ins = map strip_witness ins'" and lens: "length ins' = m"
    and wit_ok: "has \<longrightarrow> list_all (\<lambda>i. witness_ok (ti_witness i)) ins'" "has \<or> \<not> any_witness ins'"
    using ins(1) by simp_all
  have same: "map input_bytes ins = map input_bytes ins'" unfolding stripped by simp
  have fields: "ti_previous_txid (strip_witness i) = ti_previous_txid i"
    "ti_script_sig (strip_witness i) = ti_script_sig i" for i by (simp_all add: strip_witness_def)
  have ok: "list_all input_ok (map strip_witness ins')" using ins(2) unfolding stripped .
  have counts: "m \<le> MAX_INPUTS" "n \<le> MAX_OUTPUTS"
    using compact.enc_dec [OF r(5)] compact.enc_dec [OF r(8)] by simp_all
  have layout: "bytes = layout tx has"
    using lei32.enc_dec [OF r(2)] has_witness_prefix [OF r(3,4)] compact.enc_dec [OF r(5)] ins
      compact.enc_dec [OF r(8)] outs wit le32.enc_dec [OF r(12)] r(13) same
    by (simp add: tx layout_def)
  moreover have "within_limits tx has"
    unfolding within_limits_def layout [symmetric]
    using ok outs(1,2) wit_ok(1) lens r(1,6,9) counts
    by (simp add: tx list_all_iff input_ok_def fields flip: length_greater_0_conv)
  moreover have "txids_ok tx" using ok by (simp add: txids_ok_def tx list_all_iff input_ok_def fields)
  ultimately show ?thesis using wit_ok(2) by (simp add: tx)
qed

section \<open>Properties\<close>

definition tx_ok :: "transaction \<Rightarrow> bool" where
  "tx_ok tx \<longleftrightarrow> within_limits tx (t_has_witness tx) \<and> txids_ok tx
     \<and> (any_witness (t_inputs tx) \<longrightarrow> t_has_witness tx)"

lemma parse_transaction_iff:
  "parse_transaction bytes = Inr tx \<longleftrightarrow> tx_ok tx \<and> bytes = layout tx (t_has_witness tx)"
proof
  show "parse_transaction bytes = Inr tx \<Longrightarrow> tx_ok tx \<and> bytes = layout tx (t_has_witness tx)"
    using parse_transactionD [of bytes tx] by (auto simp: tx_ok_def)
  show "tx_ok tx \<and> bytes = layout tx (t_has_witness tx) \<Longrightarrow> parse_transaction bytes = Inr tx"
    using parse_layout [of tx "t_has_witness tx"] by (auto simp: tx_ok_def)
qed

lemma layout_inj_witness: "t_inputs tx \<noteq> [] \<Longrightarrow> layout tx True \<noteq> layout tx False"
  by (auto simp: layout_def witness_bytes_def write_compact_size_def dest!: arg_cong [of _ _ length])

text \<open>C19: the parser accepts exactly the byte layouts of transactions within the limits, and
  returns the transaction laid out; in particular every compact size is minimal and nothing
  may follow the lock time.\<close>

theorem tx_parse_exact:
  "parse_transaction bytes = Inr tx \<longleftrightarrow> tx_ok tx \<and> bytes = layout tx (t_has_witness tx)"
  by (rule parse_transaction_iff)

text \<open>C20: serialising and parsing a transaction whose witness flag is that of its inputs gives
  the transaction back, and a parsed transaction serialises to the bytes it was read from
  exactly when its witness flag is that of its inputs.\<close>

theorem tx_roundtrip:
  "(serialize tx True = Inr bytes \<and> txids_ok tx \<and> t_has_witness tx = any_witness (t_inputs tx)
      \<longrightarrow> parse_transaction bytes = Inr tx)
   \<and> (parse_transaction bytes = Inr tx \<longrightarrow>
        (serialize tx True = Inr bytes \<longleftrightarrow> t_has_witness tx = any_witness (t_inputs tx)))"
proof (intro conjI impI)
  assume a: "serialize tx True = Inr bytes \<and> txids_ok tx \<and> t_has_witness tx = any_witness (t_inputs tx)"
  then show "parse_transaction bytes = Inr tx"
    by (auto simp: parse_transaction_iff tx_ok_def serialize_iff Let_def)
next
  assume p: "parse_transaction bytes = Inr tx"
  then have "t_inputs tx \<noteq> []" by (simp add: parse_transaction_iff tx_ok_def within_limits_def)
  then show "serialize tx True = Inr bytes \<longleftrightarrow> t_has_witness tx = any_witness (t_inputs tx)"
    using p layout_inj_witness [of tx]
    by (cases "t_has_witness tx"; cases "any_witness (t_inputs tx)")
      (auto simp: parse_transaction_iff tx_ok_def serialize_iff)
qed

definition sample_tx :: transaction where
  "sample_tx = new_transaction 2
     [\<lparr>ti_previous_txid = replicate 32 1, ti_previous_output = 3, ti_script_sig = [], ti_sequence = - 1,
       ti_witness = [[7, 8]]\<rparr>]
     [\<lparr>to_value_sat = 5000, to_script_pubkey = [0x51]\<rparr>] 0"

lemma sample_tx_bytes:
  "\<exists>bytes. serialize sample_tx False = Inr bytes \<and> length bytes = 61"
  "\<exists>bytes. serialize sample_tx True = Inr bytes \<and> length bytes = 67"
  by (simp_all add: serialize_def sample_tx_def new_transaction_def any_witness_def write_input_def
      write_output_def write_witness_def input_bytes_def output_bytes_def witness_bytes_def
      write_var_bytes_def write_compact_size_def tx_limits)

theorem tx_roundtrip_witness:
  "\<exists>bytes. serialize sample_tx True = Inr bytes \<and> length bytes = 67 \<and> parse_transaction bytes = Inr sample_tx"
proof -
  obtain bytes where b: "serialize sample_tx True = Inr bytes" "length bytes = 67"
    using sample_tx_bytes(2) by blast
  then show ?thesis
    using tx_roundtrip [of sample_tx bytes]
    by (simp add: txids_ok_def sample_tx_def new_transaction_def)
qed

text \<open>The weight of a serialisable transaction is three times its stripped size plus its
  full size, its virtual size is a quarter of that rounded up, and neither overflows.\<close>

lemma tx_weight:
  assumes "serialize tx False = Inr stripped" "serialize tx True = Inr full"
  shows "\<exists>w v. weight tx = Inr w \<and> virtual_size tx = Inr v
    \<and> unat w = 3 * length stripped + length full \<and> unat v = (unat w + 3) div 4
    \<and> length stripped \<le> length full \<and> unat w \<le> 4 * MAX_TRANSACTION_BYTES"
proof -
  have len: "length stripped \<le> 1000000" "length full \<le> 1000000"
    using assms by (auto simp: serialize_iff within_limits_def tx_limits Let_def)
  have le: "length stripped \<le> length full"
    using assms by (auto simp: serialize_iff Let_def layout_def)
  define w :: u64 where "w = of_nat (3 * length stripped + length full)"
  have uw: "unat w = 3 * length stripped + length full"
    unfolding w_def by (rule unat_of_nat_small) (use len in simp)
  have m: "checked_mul (of_nat (length stripped)) (3 :: u64) = Some (of_nat (3 * length stripped))"
    using len by (simp add: checked_mul_Some_iff unat_of_nat_small word_unat_eq_iff unat_word_ariths)
  have a: "checked_add (of_nat (3 * length stripped)) (of_nat (length full)) = Some w"
    unfolding checked_add_Some_iff uw
    using unat_of_nat_small [of "3 * length stripped", where 'a = 64]
      unat_of_nat_small [of "length full", where 'a = 64] len by simp
  have w: "weight tx = Inr w" using assms m a by (simp add: weight_def)
  have "checked_add w 3 = Some (w + 3)" "unat (w + 3) = unat w + 3"
    using len uw by (simp_all add: checked_add_Some_iff unat_word_ariths)
  then have "virtual_size tx = Inr ((w + 3) div 4)" "unat ((w + 3) div 4) = (unat w + 3) div 4"
    using w by (simp_all add: virtual_size_def unat_div)
  then show ?thesis using w uw le len by (auto simp: tx_limits)
qed

definition superfluous_witness_bytes :: "u8 list" where
  "superfluous_witness_bytes =
     [1, 0, 0, 0, 0, 1, 1] @ replicate 32 0 @ [0, 0, 0, 0, 0, 0xff, 0xff, 0xff, 0xff]
     @ [1, 1, 0, 0, 0, 0, 0, 0, 0, 0] @ [0] @ [0, 0, 0, 0]"

text \<open>C21: a transaction whose inputs all have an empty witness, but which is written in the
  extended format, is accepted; serialising the result gives other bytes.\<close>

theorem superfluous_witness_accepted:
  "\<exists>tx bytes. parse_transaction superfluous_witness_bytes = Inr tx \<and> t_has_witness tx
     \<and> serialize tx True = Inr bytes \<and> bytes \<noteq> superfluous_witness_bytes"
proof -
  define tx where "tx = \<lparr>t_version = 1,
    t_inputs = [\<lparr>ti_previous_txid = replicate 32 0, ti_previous_output = 0, ti_script_sig = [], ti_sequence = - 1,
                 ti_witness = []\<rparr>],
    t_outputs = [\<lparr>to_value_sat = 1, to_script_pubkey = []\<rparr>], t_lock_time = 0, t_has_witness = True\<rparr>"
  have le: "to_le_bytes 4 (1 :: u32) = [1, 0, 0, 0]" "to_le_bytes 4 (0 :: u32) = [0, 0, 0, 0]"
    "to_le_bytes 4 (- 1 :: u32) = [0xff, 0xff, 0xff, 0xff]" "to_le_bytes 8 (1 :: u64) = [1, 0, 0, 0, 0, 0, 0, 0]"
    by code_simp+
  have layout: "layout tx True = superfluous_witness_bytes"
    by (simp add: tx_def layout_def superfluous_witness_bytes_def le input_bytes_def output_bytes_def
        witness_bytes_def write_var_bytes_def write_compact_size_def)
  then have "length (layout tx True) = 63" by (simp add: superfluous_witness_bytes_def)
  then have "tx_ok tx"
    by (simp add: tx_ok_def within_limits_def txids_ok_def witness_ok_def tx_limits) (simp add: tx_def)
  moreover have "serialize tx True = Inr (layout tx False)"
    by (simp add: serialize_iff any_witness_def within_limits_def tx_limits tx_def layout_def le
        input_bytes_def output_bytes_def write_var_bytes_def write_compact_size_def)
  moreover have "t_inputs tx \<noteq> []" "t_has_witness tx" by (simp_all add: tx_def)
  ultimately show ?thesis
    using layout layout_inj_witness [of tx] by (auto simp: parse_transaction_iff)
qed

end
