(* ===== verification/Swap_Scripts.thy ===== *)
theory Swap_Scripts
  imports Tx_Codec
begin

text \<open>
  The leaf scripts of a swap as \<open>immortal-core/src/mkt_swp_verify.rs\<close> reads them: the script
  tokeniser (\<open>parse_swap_script\<close>), script numbers, the three leaf forms
  (\<open>parse_swap_leaf_script\<close>) and the time locks. Whether 32 bytes are an x-only public key is
  the argument \<open>xonly_ok\<close>, a check of the secp256k1 library; a key is its 32 bytes.
\<close>

section \<open>Definitions\<close>

datatype swap_leaf_condition =
    Hashlock "u8 list"
  | Cltv u32
  | Csv u32

record parsed_swap_leaf =
  pl_signing_key :: "u8 list"
  pl_condition :: swap_leaf_condition

datatype script_instruction =
    Opcode u8
  | Push "u8 list"

text \<open>The accumulating loop \<open>value |= byte << (index * 8)\<close>.\<close>

definition or_shifted :: "u8 list \<Rightarrow> 'a::len word" where
  "or_shifted bytes = foldl (\<lambda>v (i, b). v OR push_bit (i * 8) (ucast b)) 0 (enumerate 0 bytes)"

text \<open>Scripts are read from the bytes that remain after the current position.\<close>

definition read_script_length :: "u8 list \<Rightarrow> nat \<Rightarrow> (verification_error, nat \<times> u8 list) result" where
  "read_script_length rest byte_count =
     (if length rest < byte_count then Inl (Encoding ''truncated script length'')
      else Inr (unat (or_shifted (take byte_count rest) :: u32), drop byte_count rest))"

definition push_length :: "u8 \<Rightarrow> u8 list \<Rightarrow> (verification_error, nat option \<times> u8 list) result" where
  "push_length opcode rest =
     (if 1 \<le> opcode \<and> opcode \<le> 75 then Inr (Some (unat opcode), rest)
      else if opcode = 0x4c then try_then (read_script_length rest 1) (\<lambda>(n, rest). Inr (Some n, rest))
      else if opcode = 0x4d then try_then (read_script_length rest 2) (\<lambda>(n, rest). Inr (Some n, rest))
      else if opcode = 0x4e then try_then (read_script_length rest 4) (\<lambda>(n, rest). Inr (Some n, rest))
      else Inr (None, rest))"

definition swap_opcode :: "u8 \<Rightarrow> bool" where
  "swap_opcode opcode \<longleftrightarrow>
     opcode = 0 \<or> (0x51 \<le> opcode \<and> opcode \<le> 0x60)
     \<or> opcode \<in> {0x63, 0x64, 0x67, 0x68, 0x69, 0x75, 0x76, 0x82, 0x87, 0x88, 0xa8, 0xa9, 0xb1, 0xb2, 0xac, 0xad}"

text \<open>One turn of the loop: the instruction at the current position, and the bytes after it.\<close>

definition read_instruction :: "u8 \<Rightarrow> u8 list \<Rightarrow> (verification_error, script_instruction \<times> u8 list) result" where
  "read_instruction opcode rest =
     try_then (push_length opcode rest) (\<lambda>(len, rest).
       case len of
         Some n \<Rightarrow> if length rest < n then Inl (Encoding ''truncated script push'')
                   else Inr (Push (take n rest), drop n rest)
       | None \<Rightarrow> if swap_opcode opcode then Inr (Opcode opcode, rest)
                 else Inl (Unsupported ''swap script opcode''))"

lemma read_instruction_shorter:
  "read_instruction opcode rest = Inr (i, rest') \<Longrightarrow> length rest' \<le> length rest"
  by (auto simp: read_instruction_def push_length_def read_script_length_def try_then_eq_Inr
      split: if_splits option.splits)

function script_loop ::
    "script_instruction list \<Rightarrow> u8 list \<Rightarrow> (verification_error, script_instruction list) result" where
  "script_loop instructions [] = Inr instructions"
| "script_loop instructions (opcode # rest) =
     (case read_instruction opcode rest of
        Inl e \<Rightarrow> Inl e
      | Inr (i, rest') \<Rightarrow>
          if 256 < length (instructions @ [i]) then Inl (Bounds ''swap script instruction count'')
          else script_loop (instructions @ [i]) rest')"
  by pat_completeness auto
termination
  by (relation "measure (\<lambda>(ins, bytes). length bytes)")
    (auto dest: read_instruction_shorter simp: less_Suc_eq_le)

definition parse_swap_script :: "u8 list \<Rightarrow> (verification_error, script_instruction list) result" where
  "parse_swap_script script =
     (if script = [] \<or> MAX_SCRIPT_BYTES < length script then Inl (Bounds ''swap script byte length'')
      else script_loop [] script)"

definition parse_script_number :: "u8 list \<Rightarrow> (verification_error, u32) result" where
  "parse_script_number bytes =
     (if bytes = [] \<or> 5 < length bytes \<or> last bytes AND 0x80 \<noteq> 0
      then Inl (Invalid ''swap timelock script number'')
      else if last bytes AND 0x7f = 0 \<and> (length bytes = 1 \<or> bytes ! (length bytes - 2) AND 0x80 = 0)
      then Inl (Encoding ''noncanonical swap timelock script number'')
      else
        let v = or_shifted bytes :: u64
        in if unat v < 2 ^ 32 then Inr (ucast v) else Inl (Bounds ''swap timelock value''))"

text \<open>The match on the instructions, and the check of the key.\<close>

fun swap_leaf_form ::
    "script_instruction list \<Rightarrow> (verification_error, u8 list \<times> swap_leaf_condition) result" where
  "swap_leaf_form [Opcode op1, Push width, Opcode op2, Opcode op3, Push payment_hash, Opcode op4, Push key, Opcode op5] =
     (if op1 = 0x82 \<and> op2 = 0x88 \<and> op3 = 0xa8 \<and> op4 = 0x88 \<and> op5 = 0xac
         \<and> width = [32] \<and> length payment_hash = 32 \<and> length key = 32
      then Inr (key, Hashlock payment_hash)
      else Inl (Unsupported ''swap leaf is not an exact hashlock, CLTV, or CSV path''))"
| "swap_leaf_form [Push v, Opcode op1, Opcode op2, Push key, Opcode op3] =
     (if op1 = 0xb1 \<and> op2 = 0x75 \<and> op3 = 0xac \<and> length key = 32
      then try_then (parse_script_number v) (\<lambda>n. Inr (key, Cltv n))
      else if op1 = 0xb2 \<and> op2 = 0x75 \<and> op3 = 0xac \<and> length key = 32
      then try_then (parse_script_number v) (\<lambda>n. Inr (key, Csv n))
      else Inl (Unsupported ''swap leaf is not an exact hashlock, CLTV, or CSV path''))"
| "swap_leaf_form _ = Inl (Unsupported ''swap leaf is not an exact hashlock, CLTV, or CSV path'')"

definition parse_swap_leaf_script ::
    "(u8 list \<Rightarrow> bool) \<Rightarrow> u8 list \<Rightarrow> (verification_error, parsed_swap_leaf) result" where
  "parse_swap_leaf_script xonly_ok script =
     try_then (parse_swap_script script) (\<lambda>instructions.
     try_then (swap_leaf_form instructions) (\<lambda>(key, condition).
     try_then (ensure (xonly_ok key) (Crypto ''swap leaf signing key'')) (\<lambda>_.
     Inr \<lparr>pl_signing_key = key, pl_condition = condition\<rparr>)))"

section \<open>Time locks\<close>

datatype timelock =
    BlockHeight u32
  | UnixTime u32

definition check_pair :: "timelock \<Rightarrow> timelock \<Rightarrow> (verification_error, unit) result" where
  "check_pair t u =
     (case (t, u) of
        (BlockHeight earlier, BlockHeight later) \<Rightarrow>
          if earlier < later then Inr () else Inl (Invalid ''non-increasing timelock ladder'')
      | (UnixTime earlier, UnixTime later) \<Rightarrow>
          if earlier < later then Inr () else Inl (Invalid ''non-increasing timelock ladder'')
      | _ \<Rightarrow> Inl (Invalid ''mixed timelock units''))"

fun check_pairs :: "timelock list \<Rightarrow> (verification_error, unit) result" where
  "check_pairs (t # u # ts) = try_then (check_pair t u) (\<lambda>_. check_pairs (u # ts))"
| "check_pairs ts = Inr ()"

definition validate_timelock_ladder :: "timelock list \<Rightarrow> (verification_error, unit) result" where
  "validate_timelock_ladder timelocks =
     (if length timelocks < 2 \<or> 16 < length timelocks then Inl (Bounds ''timelock ladder length'')
      else check_pairs timelocks)"

definition check_cltv :: "timelock \<Rightarrow> u32 \<Rightarrow> bool" where
  "check_cltv lock_time transaction_lock_time =
     (case lock_time of
        BlockHeight required \<Rightarrow> transaction_lock_time < 500000000 \<and> required \<le> transaction_lock_time
      | UnixTime required \<Rightarrow> 500000000 \<le> transaction_lock_time \<and> required \<le> transaction_lock_time)"

definition DISABLE_FLAG :: u32 where "DISABLE_FLAG = push_bit 31 1"
definition TYPE_FLAG :: u32 where "TYPE_FLAG = push_bit 22 1"
definition CSV_MASK :: u32 where "CSV_MASK = 0xffff"

definition check_csv :: "u32 \<Rightarrow> u32 \<Rightarrow> bool" where
  "check_csv required sequence \<longleftrightarrow>
     required AND DISABLE_FLAG = 0 \<and> sequence AND DISABLE_FLAG = 0
     \<and> required AND TYPE_FLAG = sequence AND TYPE_FLAG
     \<and> required AND CSV_MASK \<le> sequence AND CSV_MASK"

section \<open>Little-endian values\<close>

fun le_nat :: "u8 list \<Rightarrow> nat" where
  "le_nat [] = 0"
| "le_nat (b # bs) = unat b + 256 * le_nat bs"

lemma le_nat_append: "le_nat (xs @ ys) = le_nat xs + 256 ^ length xs * le_nat ys"
  by (induction xs) (simp_all add: algebra_simps)

lemma le_nat_less: "le_nat bs < 256 ^ length bs"
proof (induction bs)
  case (Cons b bs)
  moreover have "unat b < 256" using unat_bound [of b] by simp
  ultimately show ?case by simp
qed simp

lemma le_nat_inj: "length xs = length ys \<Longrightarrow> le_nat xs = le_nat ys \<Longrightarrow> xs = ys"
proof (induction xs ys rule: list_induct2)
  case (Cons x xs y ys)
  have b: "unat x < 256" "unat y < 256" using unat_bound [of x] unat_bound [of y] by simp_all
  have "unat x = unat y"
    using arg_cong [OF Cons.prems, of "\<lambda>n. n mod 256"] b by simp
  with Cons show ?case by (simp add: word_unat_eq_iff)
qed simp

lemma or_shifted_snoc:
  "(or_shifted (bs @ [b]) :: 'a::len word) = or_shifted bs OR push_bit (length bs * 8) (ucast b)"
  by (simp add: or_shifted_def enumerate_append_eq)

lemma bit_or_shifted:
  "bit (or_shifted bs :: 'a::len word) k \<longleftrightarrow>
     k < LENGTH('a) \<and> k div 8 < length bs \<and> bit (bs ! (k div 8)) (k mod 8)"
proof (induction bs rule: rev_induct)
  case Nil
  then show ?case by (simp add: or_shifted_def)
next
  case (snoc b bs)
  have b: "bit b i \<Longrightarrow> i < 8" for i using bit_imp_le_length [of b i] by simp
  consider "k div 8 < length bs" | "k div 8 = length bs" | "length bs < k div 8" by linarith
  then show ?case
  proof cases
    case 1
    then have "k < length bs * 8" by (simp add: div_less_iff_less_mult)
    with 1 snoc show ?thesis by (simp add: or_shifted_snoc bit_or_iff bit_push_bit_iff nth_append)
  next
    case 2
    then have "k = length bs * 8 + k mod 8" by (metis div_mult_mod_eq)
    then have "length bs * 8 \<le> k" "k - length bs * 8 = k mod 8" by simp_all
    with 2 snoc show ?thesis
      by (auto simp: or_shifted_snoc bit_or_iff bit_push_bit_iff bit_unsigned_iff nth_append)
  next
    case 3
    then have "Suc (length bs) * 8 \<le> k" by (simp add: less_eq_div_iff_mult_less_eq Suc_le_eq)
    then have "\<not> bit b (k - length bs * 8)" using b [of "k - length bs * 8"] by fastforce
    with 3 snoc show ?thesis
      by (auto simp: or_shifted_snoc bit_or_iff bit_push_bit_iff bit_unsigned_iff)
  qed
qed

lemma or_shifted_from_le_bytes: "or_shifted bs = from_le_bytes bs"
  by (rule bit_eqI) (simp add: bit_or_shifted bit_from_le_bytes)

lemma unat_from_le_bytes:
  assumes "8 * length bs \<le> LENGTH('a)"
  shows "unat (from_le_bytes bs :: 'a::len word) = le_nat bs"
  using assms
proof (induction bs)
  case (Cons b bs)
  let ?r = "from_le_bytes bs :: 'a word"
  have "le_nat (b # bs) < 256 ^ length (b # bs)" by (rule le_nat_less)
  also have "(256 :: nat) ^ length (b # bs) = 2 ^ (8 * length (b # bs))"
    by (simp only: power_mult) simp
  also have "\<dots> \<le> 2 ^ LENGTH('a)" using Cons.prems by (intro power_increasing) simp_all
  finally have small: "unat b + 256 * le_nat bs < 2 ^ LENGTH('a)" by simp
  have "push_bit 8 ?r OR ucast b = push_bit 8 ?r + ucast b"
  proof (rule disjunctive_add [symmetric])
    fix k
    show "\<not> bit (push_bit 8 ?r) k \<or> \<not> bit (ucast b :: 'a word) k"
      using bit_imp_le_length [of b k] by (auto simp: bit_push_bit_iff bit_unsigned_iff)
  qed
  moreover have "unat (push_bit 8 ?r + ucast b) = unat b + 256 * le_nat bs"
  proof -
    have "push_bit 8 ?r + ucast b = of_nat (256 * le_nat bs + unat b)"
      using Cons by (simp add: push_bit_eq_mult mult.commute flip: Cons.IH)
    then show ?thesis using small by (simp only: unat_of_nat_small add.commute)
  qed
  ultimately show ?case by simp
qed simp

section \<open>Script numbers\<close>

text \<open>The minimal encoding of a positive number; the topmost bit is the sign.\<close>

definition number_bytes :: "u32 \<Rightarrow> nat" where
  "number_bytes v =
     (if v < 0x80 then 1 else if v < 0x8000 then 2 else if v < 0x800000 then 3 else if v < 0x80000000 then 4 else 5)"

definition script_number :: "u32 \<Rightarrow> u8 list" where
  "script_number v = to_le_bytes (number_bytes v) (ucast v :: u64)"

lemma le_nat_to_le_bytes:
  assumes "unat w < 256 ^ n" "8 * n \<le> LENGTH('a)"
  shows "le_nat (to_le_bytes n (w :: 'a::len word)) = unat w"
proof -
  have "(from_le_bytes (to_le_bytes n w) :: 'a word) = w"
  proof (rule bit_eqI)
    fix k
    have "unat w < 2 ^ (8 * n)" using assms(1) by (simp add: power_mult)
    then have "bit w k \<Longrightarrow> k < 8 * n" using not_bit_if_less [of w "8 * n" k] by (meson not_less)
    moreover have "k < 8 * n \<longleftrightarrow> k div 8 < n" by (simp add: div_less_iff_less_mult mult.commute)
    ultimately show "bit (from_le_bytes (to_le_bytes n w) :: 'a word) k = bit w k"
      using assms(2) by (auto simp: bit_from_le_bytes bit_to_le_bytes dest: bit_imp_le_length)
  qed
  then show ?thesis using unat_from_le_bytes [of "to_le_bytes n w", where 'a = 'a] assms(2) by simp
qed

lemma sign_bit:
  fixes b :: u8
  shows "b AND 0x80 = 0 \<longleftrightarrow> unat b < 128"
proof -
  have "b AND 0x80 = 0 \<longleftrightarrow> \<not> bit b 7"
    using and_exp_eq_0_iff_not_bit [of b 7] by simp
  also have "\<dots> \<longleftrightarrow> unat b < 2 ^ 7"
  proof
    assume b7: "\<not> bit b 7"
    have "\<not> bit b k" if "7 \<le> k" for k
      using that b7 bit_imp_le_length [of b k] by (cases "k = 7") auto
    then show "unat b < 2 ^ 7" by (rule not_bit_imp_less)
  qed (use not_bit_if_less [of b 7 7] in simp)
  finally show ?thesis by simp
qed

lemma magnitude_bits:
  fixes b :: u8
  assumes "unat b < 128"
  shows "b AND 0x7f = 0 \<longleftrightarrow> unat b = 0"
proof -
  have "b AND 0x7f = take_bit 7 b" by (simp add: take_bit_eq_mask mask_eq_exp_minus_1)
  also have "\<dots> = b" using assms by (intro take_bit_word_ident) simp
  finally show ?thesis by (simp add: unat_eq_0)
qed

lemma number_bytes_unat:
  "number_bytes v = (if unat v < 0x80 then 1 else if unat v < 0x8000 then 2 else if unat v < 0x800000 then 3
     else if unat v < 0x80000000 then 4 else 5)"
  by (simp add: number_bytes_def word_less_nat_alt)

lemma parse_script_number_value:
  "parse_script_number bs = Inr v \<longleftrightarrow>
     bs \<noteq> [] \<and> length bs \<le> 5 \<and> unat (last bs) < 128
     \<and> \<not> (unat (last bs) = 0 \<and> (length bs = 1 \<or> unat (bs ! (length bs - 2)) < 128))
     \<and> le_nat bs = unat v"
proof -
  have "unat (or_shifted bs :: u64) = le_nat bs" if "length bs \<le> 5"
    using that unat_from_le_bytes [of bs, where 'a = 64] by (simp add: or_shifted_from_le_bytes)
  moreover have "ucast w = v \<longleftrightarrow> unat w = unat v" if "unat w < 2 ^ 32" for w :: u64
    using that by (auto simp: word_unat_eq_iff unsigned_ucast_eq take_bit_nat_eq_self)
  moreover have "unat v < 2 ^ 32" using unat_bound [of v] by simp
  ultimately show ?thesis
    unfolding parse_script_number_def Let_def sign_bit
    by (auto simp: magnitude_bits split: if_splits)
qed

lemma parse_script_number_length:
  "parse_script_number bs = Inr v \<longleftrightarrow> length bs = number_bytes v \<and> le_nat bs = unat v \<and> v \<noteq> 0"
proof -
  have byte: "unat b < 256" for b :: u8 using unat_bound [of b] by simp
  consider "bs = []" | a where "bs = [a]" | a b where "bs = [a, b]" | a b c where "bs = [a, b, c]"
    | a b c d where "bs = [a, b, c, d]" | a b c d e where "bs = [a, b, c, d, e]"
    | a b c d e f xs where "bs = a # b # c # d # e # f # xs"
    by (metis neq_Nil_conv)
  then show ?thesis
  proof cases
    case 2
    then show ?thesis unfolding parse_script_number_value number_bytes_unat
      by (auto simp flip: unat_eq_0)
  next
    case (3 a b)
    then show ?thesis unfolding parse_script_number_value number_bytes_unat
      using byte [of a] byte [of b] by (auto simp flip: unat_eq_0)
  next
    case (4 a b c)
    then show ?thesis unfolding parse_script_number_value number_bytes_unat
      using byte [of a] byte [of b] byte [of c] by (auto simp flip: unat_eq_0)
  next
    case (5 a b c d)
    then show ?thesis unfolding parse_script_number_value number_bytes_unat
      using byte [of a] byte [of b] byte [of c] byte [of d] by (auto simp flip: unat_eq_0)
  next
    case (6 a b c d e)
    then show ?thesis unfolding parse_script_number_value number_bytes_unat
      using byte [of a] byte [of b] byte [of c] byte [of d] byte [of e] unat_bound [of v]
      by (auto simp flip: unat_eq_0)
  qed (auto simp: parse_script_number_value number_bytes_unat)
qed

lemma script_number_facts: "length (script_number v) = number_bytes v" "le_nat (script_number v) = unat v"
proof -
  have "unat v < 256 ^ number_bytes v"
    using unat_bound [of v] by (auto simp: number_bytes_unat)
  moreover have "unat (ucast v :: u64) = unat v"
    using unat_bound [of v] by (simp add: unsigned_ucast_eq take_bit_nat_eq_self)
  ultimately show "le_nat (script_number v) = unat v"
    unfolding script_number_def by (subst le_nat_to_le_bytes) (auto simp: number_bytes_unat)
qed (simp add: script_number_def)

lemma parse_script_number_iff: "parse_script_number bs = Inr v \<longleftrightarrow> v \<noteq> 0 \<and> bs = script_number v"
  using le_nat_inj [of bs "script_number v"] by (auto simp: parse_script_number_length script_number_facts)

section \<open>Writing scripts\<close>

definition push_bytes :: "u8 list \<Rightarrow> u8 list" where
  "push_bytes data =
     (if 1 \<le> length data \<and> length data \<le> 75 then [of_nat (length data)]
      else if length data < 0x100 then [0x4c, of_nat (length data)]
      else if length data < 0x10000 then 0x4d # to_le_bytes 2 (of_nat (length data) :: u16)
      else 0x4e # to_le_bytes 4 (of_nat (length data) :: u32)) @ data"

fun instruction_bytes :: "script_instruction \<Rightarrow> u8 list" where
  "instruction_bytes (Opcode opcode) = [opcode]"
| "instruction_bytes (Push data) = push_bytes data"

fun instruction_ok :: "script_instruction \<Rightarrow> bool" where
  "instruction_ok (Opcode opcode) = swap_opcode opcode"
| "instruction_ok (Push data) = (length data < 2 ^ 32)"

definition script_bytes :: "script_instruction list \<Rightarrow> u8 list" where
  "script_bytes instructions = concat (map instruction_bytes instructions)"

lemma read_script_length_le:
  assumes "length bytes = n" "n \<le> 4"
  shows "read_script_length (bytes @ rest) n = Inr (le_nat bytes, rest)"
  using assms unat_from_le_bytes [of bytes, where 'a = 32]
  by (simp add: read_script_length_def or_shifted_from_le_bytes)

lemma swap_opcode_not_push: "swap_opcode opcode \<Longrightarrow> push_length opcode rest = Inr (None, rest)"
proof -
  assume "swap_opcode opcode"
  then have "opcode = 0 \<or> 0x51 \<le> opcode"
    by (auto simp: swap_opcode_def)
  then have "\<not> (1 \<le> opcode \<and> opcode \<le> 75) \<and> opcode \<notin> {0x4c, 0x4d, 0x4e}"
    by (auto simp: word_le_nat_alt)
  then show ?thesis by (simp add: push_length_def)
qed

lemma read_push_bytes:
  assumes "length data < 2 ^ 32"
  shows "\<exists>opcode tail. push_bytes data = opcode # tail
    \<and> read_instruction opcode (tail @ rest) = Inr (Push data, rest)"
proof -
  let ?n = "length data"
  consider "1 \<le> ?n \<and> ?n \<le> 75" | "\<not> (1 \<le> ?n \<and> ?n \<le> 75)" "?n < 0x100"
    | "0x100 \<le> ?n" "?n < 0x10000" | "0x10000 \<le> ?n" by linarith
  then show ?thesis
  proof cases
    case 1
    then have "unat (of_nat ?n :: u8) = ?n" by (simp add: unat_of_nat_small)
    with 1 show ?thesis
      by (auto simp: push_bytes_def read_instruction_def push_length_def word_le_nat_alt)
  next
    case 2
    then have "read_script_length ([of_nat ?n] @ data @ rest) 1 = Inr (?n, data @ rest)"
      by (subst read_script_length_le) (simp_all add: unat_of_nat_small)
    moreover have "push_bytes data = 0x4c # of_nat ?n # data" using 2 by (auto simp: push_bytes_def)
    ultimately show ?thesis
      by (simp add: read_instruction_def push_length_def word_le_nat_alt)
  next
    case 3
    then have "read_script_length (to_le_bytes 2 (of_nat ?n :: u16) @ data @ rest) 2 = Inr (?n, data @ rest)"
      by (subst read_script_length_le) (simp_all add: le_nat_to_le_bytes unat_of_nat_small)
    with 3 show ?thesis
      by (simp add: push_bytes_def read_instruction_def push_length_def word_le_nat_alt)
  next
    case 4
    then have "read_script_length (to_le_bytes 4 (of_nat ?n :: u32) @ data @ rest) 4 = Inr (?n, data @ rest)"
      using assms by (subst read_script_length_le) (simp_all add: le_nat_to_le_bytes unat_of_nat_small)
    with 4 show ?thesis
      by (simp add: push_bytes_def read_instruction_def push_length_def word_le_nat_alt)
  qed
qed

lemma read_instruction_bytes:
  assumes "instruction_ok i"
  shows "\<exists>opcode tail. instruction_bytes i = opcode # tail
    \<and> read_instruction opcode (tail @ rest) = Inr (i, rest)"
  using assms read_push_bytes
  by (cases i) (auto simp: read_instruction_def swap_opcode_not_push)

lemma script_loop_bytes:
  assumes "list_all instruction_ok is" "length ins + length is \<le> 256"
  shows "script_loop ins (script_bytes is) = Inr (ins @ is)"
  using assms
proof (induction "is" arbitrary: ins)
  case (Cons i "is")
  obtain opcode tail where r: "instruction_bytes i = opcode # tail"
    "read_instruction opcode (tail @ script_bytes is) = Inr (i, script_bytes is)"
    using read_instruction_bytes [of i] Cons.prems(1) by fastforce
  then have "script_bytes (i # is) = opcode # tail @ script_bytes is" by (simp add: script_bytes_def)
  with r Cons show ?case by simp
qed (simp add: script_bytes_def)

lemma parse_script_bytes:
  assumes "list_all instruction_ok is" "is \<noteq> []" "length is \<le> 256" "length (script_bytes is) \<le> MAX_SCRIPT_BYTES"
  shows "parse_swap_script (script_bytes is) = Inr is"
proof -
  have "script_bytes is \<noteq> []"
    using assms(1,2) read_instruction_bytes by (cases "is") (fastforce simp: script_bytes_def)+
  then show ?thesis using assms script_loop_bytes [of "is" "[]"] by (simp add: parse_swap_script_def)
qed

section \<open>Leaf scripts\<close>

definition leaf_instructions :: "parsed_swap_leaf \<Rightarrow> script_instruction list" where
  "leaf_instructions leaf =
     (case pl_condition leaf of
        Hashlock h \<Rightarrow> [Opcode 0x82, Push [32], Opcode 0x88, Opcode 0xa8, Push h, Opcode 0x88,
                       Push (pl_signing_key leaf), Opcode 0xac]
      | Cltv n \<Rightarrow> [Push (script_number n), Opcode 0xb1, Opcode 0x75, Push (pl_signing_key leaf), Opcode 0xac]
      | Csv n \<Rightarrow> [Push (script_number n), Opcode 0xb2, Opcode 0x75, Push (pl_signing_key leaf), Opcode 0xac])"

definition leaf_ok :: "(u8 list \<Rightarrow> bool) \<Rightarrow> parsed_swap_leaf \<Rightarrow> bool" where
  "leaf_ok xonly_ok leaf \<longleftrightarrow>
     xonly_ok (pl_signing_key leaf) \<and> length (pl_signing_key leaf) = 32
     \<and> (case pl_condition leaf of Hashlock h \<Rightarrow> length h = 32 | Cltv n \<Rightarrow> n \<noteq> 0 | Csv n \<Rightarrow> n \<noteq> 0)"

lemma parse_leaf_instructions:
  assumes "parse_swap_script script = Inr (leaf_instructions leaf)" "leaf_ok xonly_ok leaf"
  shows "parse_swap_leaf_script xonly_ok script = Inr leaf"
proof -
  have "parse_script_number (script_number n) = Inr n" if "n \<noteq> 0" for n
    using that by (simp add: parse_script_number_iff)
  with assms show ?thesis
    by (cases leaf)
      (auto simp: parse_swap_leaf_script_def leaf_instructions_def leaf_ok_def split: swap_leaf_condition.splits)
qed

lemma parse_swap_leaf_scriptD:
  assumes "parse_swap_leaf_script xonly_ok script = Inr leaf"
  shows "leaf_ok xonly_ok leaf \<and> parse_swap_script script = Inr (leaf_instructions leaf)"
proof -
  obtain ins key condition where ins: "parse_swap_script script = Inr ins"
    "swap_leaf_form ins = Inr (key, condition)" "xonly_ok key"
    "leaf = \<lparr>pl_signing_key = key, pl_condition = condition\<rparr>"
    using assms by (auto simp: parse_swap_leaf_script_def try_then_eq_Inr)
  have "leaf_ok xonly_ok leaf \<and> ins = leaf_instructions leaf"
    using ins(2-4)
    by (elim swap_leaf_form.elims)
      (auto simp: try_then_eq_Inr parse_script_number_iff leaf_ok_def leaf_instructions_def split: if_splits
        dest!: sym [of "Inr _" "try_then _ _"])
  with ins(1) show ?thesis by blast
qed

lemma leaf_opcodes:
  "list_all swap_opcode [0x82, 0x88, 0xa8, 0xac, 0xb1, 0x75, 0xb2]"
  by (simp add: swap_opcode_def)

lemma number_bytes_le: "number_bytes n \<le> 5" "1 \<le> number_bytes n"
  by (simp_all add: number_bytes_def)

lemma script_bytes_bound:
  "list_all (\<lambda>i. length (instruction_bytes i) \<le> n) is \<Longrightarrow> length (script_bytes is) \<le> n * length is"
  by (induction "is") (simp_all add: script_bytes_def)

lemma leaf_bytes:
  assumes "leaf_ok xonly_ok leaf"
  shows "parse_swap_script (script_bytes (leaf_instructions leaf)) = Inr (leaf_instructions leaf)"
proof (rule parse_script_bytes)
  have l: "length (script_number n) \<le> 5" for n by (simp add: script_number_facts number_bytes_le)
  show "list_all instruction_ok (leaf_instructions leaf)"
    using assms leaf_opcodes le_less_trans [OF l, of "2 ^ 32"]
    by (auto simp: leaf_instructions_def leaf_ok_def split: swap_leaf_condition.splits)
  show "leaf_instructions leaf \<noteq> []" "length (leaf_instructions leaf) \<le> 256"
    by (simp_all add: leaf_instructions_def split: swap_leaf_condition.splits)
  have n: "length (push_bytes data) \<le> 37" if "length data \<le> 32" for data
    using that by (simp add: push_bytes_def)
  have "list_all (\<lambda>i. length (instruction_bytes i) \<le> 37) (leaf_instructions leaf)"
    using assms n le_trans [OF l, of 32]
    by (auto simp: leaf_instructions_def leaf_ok_def split: swap_leaf_condition.splits)
  then have "length (script_bytes (leaf_instructions leaf)) \<le> 37 * length (leaf_instructions leaf)"
    by (rule script_bytes_bound)
  also have "\<dots> \<le> 37 * 8" by (simp add: leaf_instructions_def split: swap_leaf_condition.splits)
  finally show "length (script_bytes (leaf_instructions leaf)) \<le> MAX_SCRIPT_BYTES" by (simp add: tx_limits)
qed

section \<open>Time locks\<close>

lemma check_pair_iff:
  "check_pair t u = Inr x \<longleftrightarrow>
     (\<exists>a b. t = BlockHeight a \<and> u = BlockHeight b \<and> a < b) \<or> (\<exists>a b. t = UnixTime a \<and> u = UnixTime b \<and> a < b)"
  by (auto simp: check_pair_def split: timelock.splits)

lemma check_pairs_map:
  assumes "ctor = BlockHeight \<or> ctor = UnixTime"
  shows "check_pairs (map ctor ts) = Inr () \<longleftrightarrow> sorted_wrt (<) ts"
proof (induction ts)
  case (Cons t ts)
  then show ?case
    using assms by (cases ts) (auto simp: try_then_eq_Inr check_pair_iff intro: less_trans)
qed simp

lemma check_pairs_same_unit:
  "check_pairs (t # ts) = Inr () \<Longrightarrow>
     (\<exists>hs. t # ts = map BlockHeight hs) \<or> (\<exists>hs. t # ts = map UnixTime hs)"
proof (induction ts arbitrary: t)
  case Nil
  then show ?case by (cases t) (auto intro: exI [of _ "[_]"])
next
  case (Cons u ts)
  then have p: "check_pair t u = Inr ()" and "check_pairs (u # ts) = Inr ()" by (auto simp: try_then_eq_Inr)
  with Cons.IH have "(\<exists>hs. u # ts = map BlockHeight hs) \<or> (\<exists>hs. u # ts = map UnixTime hs)" by blast
  with p show ?case
    unfolding check_pair_iff by (metis list.simps(9) map_eq_Cons_conv timelock.distinct(1))
qed

lemma validate_timelock_ladder_iff:
  "validate_timelock_ladder ts = Inr () \<longleftrightarrow>
     2 \<le> length ts \<and> length ts \<le> 16
     \<and> (\<exists>hs. sorted_wrt (<) hs \<and> (ts = map BlockHeight hs \<or> ts = map UnixTime hs))"
proof -
  have "check_pairs ts = Inr () \<longleftrightarrow> (\<exists>hs. sorted_wrt (<) hs \<and> (ts = map BlockHeight hs \<or> ts = map UnixTime hs))"
    if "ts \<noteq> []"
    using that check_pairs_same_unit [of "hd ts" "tl ts"] check_pairs_map by (metis list.collapse)
  then show ?thesis
    by (cases "ts = []") (auto simp: validate_timelock_ladder_def)
qed

text \<open>Locks as BIP65 and BIP112 define them.\<close>

definition bip65_satisfied :: "u32 \<Rightarrow> u32 \<Rightarrow> u32 \<Rightarrow> bool" where
  "bip65_satisfied required lock_time sequence \<longleftrightarrow>
     (required < 500000000 \<longleftrightarrow> lock_time < 500000000) \<and> required \<le> lock_time \<and> sequence \<noteq> 0xffffffff"

definition bip112_satisfied :: "u32 \<Rightarrow> i32 \<Rightarrow> u32 \<Rightarrow> bool" where
  "bip112_satisfied required version sequence \<longleftrightarrow>
     bit required 31
     \<or> (2 \<le> unat version \<and> \<not> bit sequence 31 \<and> bit required 22 = bit sequence 22
        \<and> unat required mod 2 ^ 16 \<le> unat sequence mod 2 ^ 16)"

lemma flag_zero: "(w :: u32) AND push_bit n 1 = 0 \<longleftrightarrow> \<not> bit w n"
  using and_exp_eq_0_iff_not_bit [of w n] by (simp add: push_bit_eq_mult)

lemma flag_eq:
  assumes "n < 32"
  shows "(a :: u32) AND push_bit n 1 = b AND push_bit n 1 \<longleftrightarrow> bit a n = bit b n"
proof
  assume "a AND push_bit n 1 = b AND push_bit n 1"
  then have "bit (a AND push_bit n 1) n = bit (b AND push_bit n 1) n" by simp
  then show "bit a n = bit b n" using assms by (simp add: bit_and_iff bit_exp_iff)
next
  assume e: "bit a n = bit b n"
  show "a AND push_bit n 1 = b AND push_bit n 1"
  proof (rule bit_eqI)
    fix k
    show "bit (a AND push_bit n 1) k = bit (b AND push_bit n 1) k"
      using e by (cases "k = n") (auto simp: bit_and_iff bit_exp_iff)
  qed
qed

lemma csv_mask: "unat (w AND CSV_MASK) = unat w mod 2 ^ 16"
proof -
  have "w AND CSV_MASK = take_bit 16 w" by (simp add: CSV_MASK_def take_bit_eq_mask mask_eq_exp_minus_1)
  then show ?thesis by (simp only: unsigned_take_bit_eq) (simp add: take_bit_eq_mod)
qed

lemma check_csv_iff:
  "check_csv required sequence \<longleftrightarrow>
     \<not> bit required 31 \<and> \<not> bit sequence 31 \<and> bit required 22 = bit sequence 22
     \<and> unat required mod 2 ^ 16 \<le> unat sequence mod 2 ^ 16"
proof -
  have "required AND push_bit 22 1 = sequence AND push_bit 22 1 \<longleftrightarrow> bit required 22 = bit sequence 22"
    by (rule flag_eq) simp
  then show ?thesis
    unfolding check_csv_def DISABLE_FLAG_def TYPE_FLAG_def flag_zero word_le_nat_alt csv_mask by blast
qed

lemma check_cltv_height:
  "check_cltv (BlockHeight required) lock_time \<and> sequence \<noteq> 0xffffffff \<longleftrightarrow>
     required < 500000000 \<and> bip65_satisfied required lock_time sequence"
  by (auto simp: check_cltv_def bip65_satisfied_def)

section \<open>Properties\<close>

text \<open>C26: a script is read as a leaf exactly when its instructions are those of the leaf, and the
  leaf has a valid key, a 32-byte hash or a positive lock; the script written for such a leaf is
  read back as the leaf.\<close>

theorem swap_leaf_exact:
  "(parse_swap_leaf_script xonly_ok script = Inr leaf \<longleftrightarrow>
      leaf_ok xonly_ok leaf \<and> parse_swap_script script = Inr (leaf_instructions leaf))
   \<and> (leaf_ok xonly_ok leaf \<longrightarrow>
      parse_swap_leaf_script xonly_ok (script_bytes (leaf_instructions leaf)) = Inr leaf)"
  using parse_swap_leaf_scriptD parse_leaf_instructions leaf_bytes by blast

theorem swap_leaf_exact_witness:
  "parse_swap_leaf_script (\<lambda>key. length key = 32)
     (script_bytes (leaf_instructions \<lparr>pl_signing_key = replicate 32 7, pl_condition = Cltv 800000\<rparr>))
   = Inr \<lparr>pl_signing_key = replicate 32 7, pl_condition = Cltv 800000\<rparr>"
proof -
  have "leaf_ok (\<lambda>key. length key = 32) \<lparr>pl_signing_key = replicate 32 7, pl_condition = Cltv 800000\<rparr>"
    by (simp add: leaf_ok_def)
  then show ?thesis using swap_leaf_exact by blast
qed

end
