(* ===== verification/Taproot.thy ===== *)
theory Taproot
  imports Swap_Scripts
begin

text \<open>
  Taproot commitments and script-path spending as \<open>immortal-core/src/mkt_swp_verify.rs\<close> checks
  them: tagged hashes, control blocks, the BIP341 signature messages, and the assembly and
  validation of claim and refund witnesses. SHA-256 and the secp256k1 operations on x-only
  keys are the argument \<open>crypto\<close>; a key is its 32 bytes.
\<close>

section \<open>Hashes and commitments\<close>

datatype parity = Even | Odd

record taproot_crypto =
  tc_sha256 :: "u8 list \<Rightarrow> u8 list"
  tc_xonly_ok :: "u8 list \<Rightarrow> bool"
  tc_scalar_ok :: "u8 list \<Rightarrow> bool"
  tc_add_tweak :: "u8 list \<Rightarrow> u8 list \<Rightarrow> (u8 list \<times> parity) option"

definition TAPROOT_LEAF_VERSION :: u8 where "TAPROOT_LEAF_VERSION = 0xc0"
definition TAPROOT_SIGHASH_DEFAULT :: u8 where "TAPROOT_SIGHASH_DEFAULT = 0"
definition TAPROOT_KEY_VERSION :: u8 where "TAPROOT_KEY_VERSION = 0"
definition TAPROOT_NO_CODE_SEPARATOR :: u32 where "TAPROOT_NO_CODE_SEPARATOR = - 1"

definition constant_time_equal :: "u8 list \<Rightarrow> u8 list \<Rightarrow> bool" where
  "constant_time_equal left right =
     (if length left \<noteq> length right then False
      else foldl (\<lambda>difference (l, r). difference OR (l XOR r)) 0 (zip left right) = 0)"

definition verify_preimage :: "taproot_crypto \<Rightarrow> u8 list \<Rightarrow> u8 list \<Rightarrow> bool" where
  "verify_preimage crypto preimage payment_hash = constant_time_equal (tc_sha256 crypto preimage) payment_hash"

definition tagged_hash :: "taproot_crypto \<Rightarrow> string \<Rightarrow> u8 list \<Rightarrow> u8 list" where
  "tagged_hash crypto tag message =
     (let tag_hash = tc_sha256 crypto (as_bytes tag) in tc_sha256 crypto (tag_hash @ tag_hash @ message))"

definition tapleaf_hash :: "taproot_crypto \<Rightarrow> u8 \<Rightarrow> u8 list \<Rightarrow> (verification_error, u8 list) result" where
  "tapleaf_hash crypto leaf_version script =
     (if leaf_version AND 1 \<noteq> 0 \<or> MAX_SCRIPT_BYTES < length script
      then Inl (Invalid ''tapleaf version or script length'')
      else Inr (tagged_hash crypto ''TapLeaf'' (leaf_version # write_compact_size (length script) @ script)))"

text \<open>The order on byte arrays is lexicographic.\<close>

fun bytes_le :: "u8 list \<Rightarrow> u8 list \<Rightarrow> bool" where
  "bytes_le [] ys = True"
| "bytes_le (x # xs) [] = False"
| "bytes_le (x # xs) (y # ys) = (x < y \<or> x = y \<and> bytes_le xs ys)"

definition tapbranch_hash :: "taproot_crypto \<Rightarrow> u8 list \<Rightarrow> u8 list \<Rightarrow> u8 list" where
  "tapbranch_hash crypto left right =
     (let (first, second) = (if bytes_le left right then (left, right) else (right, left))
      in tagged_hash crypto ''TapBranch'' (first @ second))"

definition taproot_output_key ::
    "taproot_crypto \<Rightarrow> u8 list \<Rightarrow> u8 list option \<Rightarrow> (verification_error, u8 list \<times> parity) result" where
  "taproot_output_key crypto internal_key merkle_root =
     (let tweak = tagged_hash crypto ''TapTweak''
            (internal_key @ (case merkle_root of None \<Rightarrow> [] | Some root \<Rightarrow> root))
      in try_then (ensure (tc_scalar_ok crypto tweak) (Crypto ''taproot tweak exceeds curve order'')) (\<lambda>_.
         ok_or (tc_add_tweak crypto internal_key tweak) (Crypto ''taproot output key tweak failed'')))"

function chunks_exact :: "nat \<Rightarrow> 'a list \<Rightarrow> 'a list list" where
  "chunks_exact n xs = (if n = 0 \<or> length xs < n then [] else take n xs # chunks_exact n (drop n xs))"
  by pat_completeness auto
termination by (relation "measure (\<lambda>(n, xs). length xs)") auto

declare chunks_exact.simps [simp del]

definition verify_control_block ::
    "taproot_crypto \<Rightarrow> u8 list \<Rightarrow> u8 list \<Rightarrow> u8 list \<Rightarrow> (verification_error, unit) result" where
  "verify_control_block crypto output_key script control_block =
     (if length control_block < 33 \<or> 33 + 32 * 128 < length control_block \<or> (length control_block - 33) mod 32 \<noteq> 0
      then Inl (Encoding ''taproot control block length'')
      else
        let leaf_version = control_block ! 0 AND 0xfe
        in try_then (ensure (leaf_version \<noteq> 0x50) (Invalid ''taproot annex leaf version'')) (\<lambda>_.
           let internal_key = take 32 (drop 1 control_block)
           in try_then (ensure (tc_xonly_ok crypto internal_key) (Crypto ''taproot internal key'')) (\<lambda>_.
              try_then (tapleaf_hash crypto leaf_version script) (\<lambda>leaf.
              let root = foldl (tapbranch_hash crypto) leaf (chunks_exact 32 (drop 33 control_block))
              in try_then (taproot_output_key crypto internal_key (Some root)) (\<lambda>(candidate, p).
                 let expected_parity = (if control_block ! 0 AND 1 = 0 then Even else Odd)
                 in ensure (\<not> (candidate \<noteq> output_key \<or> p \<noteq> expected_parity))
                      (Invalid ''taproot control block commitment''))))))"

section \<open>Signature messages\<close>

definition taproot_output_key_from_script_pubkey ::
    "taproot_crypto \<Rightarrow> u8 list \<Rightarrow> (verification_error, u8 list) result" where
  "taproot_output_key_from_script_pubkey crypto script_pubkey =
     try_then (ensure (take 2 script_pubkey = [0x51, 0x20]) (Invalid ''prevout is not a v1 Taproot output'')) (\<lambda>_.
     let output_key = drop 2 script_pubkey
     in try_then (ensure (length output_key = 32) (Encoding ''Taproot output key length'')) (\<lambda>_.
        try_then (ensure (tc_xonly_ok crypto output_key) (Crypto ''Taproot output key'')) (\<lambda>_. Inr output_key)))"

definition validate_taproot_spend_inputs ::
    "taproot_crypto \<Rightarrow> transaction \<Rightarrow> tx_output list \<Rightarrow> nat \<Rightarrow> u8 list \<Rightarrow> u8 list \<Rightarrow> (verification_error, unit) result" where
  "validate_taproot_spend_inputs crypto tx prevouts input_index script control_block =
     try_then (ensure (\<not> (t_inputs tx = [] \<or> MAX_INPUTS < length (t_inputs tx) \<or> length (t_inputs tx) \<noteq> length prevouts))
                (Invalid ''Taproot prevout count'')) (\<lambda>_.
     try_then (ensure (\<not> (t_outputs tx = [] \<or> MAX_OUTPUTS < length (t_outputs tx)))
                (Bounds ''Taproot transaction output count'')) (\<lambda>_.
     try_then (ensure (input_index < length (t_inputs tx)) (Bounds ''Taproot input index'')) (\<lambda>_.
     try_then (ensure (ti_script_sig (t_inputs tx ! input_index) = []) (Invalid ''Taproot scriptSig must be empty'')) (\<lambda>_.
     try_then (try_all (\<lambda>i. ensure (\<not> MAX_SCRIPT_BYTES < length (ti_script_sig i))
                  (Bounds ''Taproot scriptSig byte length'')) (t_inputs tx)) (\<lambda>_.
     try_then (try_all (\<lambda>p. ensure (\<not> MAX_SCRIPT_BYTES < length (to_script_pubkey p))
                  (Bounds ''Taproot prevout scriptPubKey length'')) prevouts) (\<lambda>_.
     try_then (taproot_output_key_from_script_pubkey crypto (to_script_pubkey (prevouts ! input_index))) (\<lambda>output_key.
     try_then (ensure (control_block \<noteq> [] \<and> hd control_block AND 0xfe = TAPROOT_LEAF_VERSION)
                (Unsupported ''Taproot leaf version'')) (\<lambda>_.
     try_then (parse_swap_leaf_script (tc_xonly_ok crypto) script) (\<lambda>_.
     verify_control_block crypto output_key script control_block)))))))))"

definition validate_taproot_key_spend_inputs ::
    "taproot_crypto \<Rightarrow> transaction \<Rightarrow> tx_output list \<Rightarrow> nat \<Rightarrow> (verification_error, unit) result" where
  "validate_taproot_key_spend_inputs crypto tx prevouts input_index =
     try_then (ensure (\<not> (t_inputs tx = [] \<or> MAX_INPUTS < length (t_inputs tx) \<or> length (t_inputs tx) \<noteq> length prevouts))
                (Invalid ''Taproot prevout count'')) (\<lambda>_.
     try_then (ensure (\<not> (t_outputs tx = [] \<or> MAX_OUTPUTS < length (t_outputs tx)))
                (Bounds ''Taproot transaction output count'')) (\<lambda>_.
     try_then (ensure (input_index < length (t_inputs tx)) (Bounds ''Taproot input index'')) (\<lambda>_.
     try_then (ensure (ti_script_sig (t_inputs tx ! input_index) = []) (Invalid ''Taproot scriptSig must be empty'')) (\<lambda>_.
     try_then (try_all (\<lambda>i. ensure (ti_script_sig i = []) (Invalid ''Taproot scriptSig must be empty'')) (t_inputs tx)) (\<lambda>_.
     try_then (try_all (\<lambda>p. ensure (\<not> MAX_SCRIPT_BYTES < length (to_script_pubkey p))
                  (Bounds ''Taproot prevout scriptPubKey length'')) prevouts) (\<lambda>_.
     try_then (taproot_output_key_from_script_pubkey crypto (to_script_pubkey (prevouts ! input_index))) (\<lambda>_.
     Inr ())))))))"

text \<open>The part that the two messages share: everything up to the spend type.\<close>

definition prevouts_bytes :: "transaction \<Rightarrow> tx_output list \<Rightarrow> u8 list" where
  "prevouts_bytes tx prevouts =
     concat (map (\<lambda>(i, p). ti_previous_txid i @ to_le_bytes 4 (ti_previous_output i)) (zip (t_inputs tx) prevouts))"

definition amounts_bytes :: "transaction \<Rightarrow> tx_output list \<Rightarrow> u8 list" where
  "amounts_bytes tx prevouts = concat (map (\<lambda>(i, p). to_le_bytes 8 (to_value_sat p)) (zip (t_inputs tx) prevouts))"

definition script_pubkeys_bytes :: "transaction \<Rightarrow> tx_output list \<Rightarrow> u8 list" where
  "script_pubkeys_bytes tx prevouts =
     concat (map (\<lambda>(i, p). write_var_bytes (to_script_pubkey p)) (zip (t_inputs tx) prevouts))"

definition sequences_bytes :: "transaction \<Rightarrow> tx_output list \<Rightarrow> u8 list" where
  "sequences_bytes tx prevouts = concat (map (\<lambda>(i, p). to_le_bytes 4 (ti_sequence i)) (zip (t_inputs tx) prevouts))"

definition common_message :: "taproot_crypto \<Rightarrow> transaction \<Rightarrow> tx_output list \<Rightarrow> (verification_error, u8 list) result" where
  "common_message crypto tx prevouts =
     try_then (try_map write_output (t_outputs tx)) (\<lambda>outs.
     Inr ([0, TAPROOT_SIGHASH_DEFAULT] @ to_le_bytes 4 (t_version tx) @ to_le_bytes 4 (t_lock_time tx)
          @ tc_sha256 crypto (prevouts_bytes tx prevouts) @ tc_sha256 crypto (amounts_bytes tx prevouts)
          @ tc_sha256 crypto (script_pubkeys_bytes tx prevouts) @ tc_sha256 crypto (sequences_bytes tx prevouts)
          @ tc_sha256 crypto (concat outs)))"

definition taproot_script_spend_signature_message ::
    "taproot_crypto \<Rightarrow> transaction \<Rightarrow> tx_output list \<Rightarrow> nat \<Rightarrow> u8 list \<Rightarrow> u8 list \<Rightarrow> (verification_error, u8 list) result" where
  "taproot_script_spend_signature_message crypto tx prevouts input_index script control_block =
     try_then (validate_taproot_spend_inputs crypto tx prevouts input_index script control_block) (\<lambda>_.
     try_then (ensure (input_index < 2 ^ 32) (Bounds ''Taproot input index'')) (\<lambda>_.
     try_then (common_message crypto tx prevouts) (\<lambda>message.
     try_then (tapleaf_hash crypto TAPROOT_LEAF_VERSION script) (\<lambda>leaf.
     Inr (message @ [2] @ to_le_bytes 4 (of_nat input_index :: u32) @ leaf
          @ [TAPROOT_KEY_VERSION] @ to_le_bytes 4 TAPROOT_NO_CODE_SEPARATOR)))))"

definition taproot_script_spend_sighash ::
    "taproot_crypto \<Rightarrow> transaction \<Rightarrow> tx_output list \<Rightarrow> nat \<Rightarrow> u8 list \<Rightarrow> u8 list \<Rightarrow> (verification_error, u8 list) result" where
  "taproot_script_spend_sighash crypto tx prevouts input_index script control_block =
     try_then (taproot_script_spend_signature_message crypto tx prevouts input_index script control_block)
       (\<lambda>message. Inr (tagged_hash crypto ''TapSighash'' message))"

definition taproot_key_spend_signature_message ::
    "taproot_crypto \<Rightarrow> transaction \<Rightarrow> tx_output list \<Rightarrow> nat \<Rightarrow> (verification_error, u8 list) result" where
  "taproot_key_spend_signature_message crypto tx prevouts input_index =
     try_then (validate_taproot_key_spend_inputs crypto tx prevouts input_index) (\<lambda>_.
     try_then (ensure (input_index < 2 ^ 32) (Bounds ''Taproot input index'')) (\<lambda>_.
     try_then (common_message crypto tx prevouts) (\<lambda>message.
     Inr (message @ [0] @ to_le_bytes 4 (of_nat input_index :: u32)))))"

definition taproot_key_spend_sighash ::
    "taproot_crypto \<Rightarrow> transaction \<Rightarrow> tx_output list \<Rightarrow> nat \<Rightarrow> (verification_error, u8 list) result" where
  "taproot_key_spend_sighash crypto tx prevouts input_index =
     try_then (taproot_key_spend_signature_message crypto tx prevouts input_index)
       (\<lambda>message. Inr (tagged_hash crypto ''TapSighash'' message))"

section \<open>Witnesses\<close>

record validated_taproot_witness =
  vw_signature :: "u8 list"
  vw_signing_key :: "u8 list"
  vw_sighash :: "u8 list"

definition validate_control_block_shape :: "u8 list \<Rightarrow> (verification_error, unit) result" where
  "validate_control_block_shape control_block =
     ensure (\<not> (length control_block < 33 \<or> 33 + 32 * 128 < length control_block
               \<or> (length control_block - 33) mod 32 \<noteq> 0
               \<or> \<not> (control_block \<noteq> [] \<and> hd control_block AND 0xfe = TAPROOT_LEAF_VERSION)))
       (Encoding ''Taproot control block shape'')"

definition exact_default_signature :: "u8 list \<Rightarrow> (verification_error, u8 list) result" where
  "exact_default_signature signature =
     (if length signature = 64 then Inr signature
      else Inl (Invalid ''Taproot signature must use implicit SIGHASH_DEFAULT''))"

definition assemble_taproot_claim_witness ::
    "taproot_crypto \<Rightarrow> u8 list \<Rightarrow> u8 list \<Rightarrow> u8 list \<Rightarrow> u8 list \<Rightarrow> (verification_error, u8 list list) result" where
  "assemble_taproot_claim_witness crypto signature preimage script control_block =
     try_then (parse_swap_leaf_script (tc_xonly_ok crypto) script) (\<lambda>leaf.
     case pl_condition leaf of
       Hashlock payment_hash \<Rightarrow>
         try_then (ensure (verify_preimage crypto preimage payment_hash) (Invalid ''claim witness preimage'')) (\<lambda>_.
         try_then (validate_control_block_shape control_block) (\<lambda>_.
         Inr [signature, preimage, script, control_block]))
     | _ \<Rightarrow> Inl (Invalid ''claim witness requires hashlock leaf''))"

definition assemble_taproot_refund_witness ::
    "taproot_crypto \<Rightarrow> u8 list \<Rightarrow> u8 list \<Rightarrow> u8 list \<Rightarrow> (verification_error, u8 list list) result" where
  "assemble_taproot_refund_witness crypto signature script control_block =
     try_then (parse_swap_leaf_script (tc_xonly_ok crypto) script) (\<lambda>leaf.
     try_then (ensure (case pl_condition leaf of Cltv _ \<Rightarrow> True | Csv _ \<Rightarrow> True | Hashlock _ \<Rightarrow> False)
                (Invalid ''refund witness requires timelock leaf'')) (\<lambda>_.
     try_then (validate_control_block_shape control_block) (\<lambda>_.
     Inr [signature, script, control_block])))"

definition validate_taproot_claim_witness ::
    "taproot_crypto \<Rightarrow> transaction \<Rightarrow> tx_output list \<Rightarrow> nat \<Rightarrow> u8 list \<Rightarrow> u8 list
      \<Rightarrow> (verification_error, validated_taproot_witness) result" where
  "validate_taproot_claim_witness crypto tx prevouts input_index expected_script expected_control_block =
     try_then (ensure (input_index < length (t_inputs tx)) (Bounds ''claim witness input index'')) (\<lambda>_.
     case ti_witness (t_inputs tx ! input_index) of
       [signature, preimage, script, control_block] \<Rightarrow>
         try_then (exact_default_signature signature) (\<lambda>signature.
         try_then (ensure (length preimage = 32) (Invalid ''claim preimage length'')) (\<lambda>_.
         try_then (ensure (\<not> (script \<noteq> expected_script \<or> control_block \<noteq> expected_control_block))
                    (Invalid ''claim witness path mismatch'')) (\<lambda>_.
         try_then (parse_swap_leaf_script (tc_xonly_ok crypto) script) (\<lambda>leaf.
         case pl_condition leaf of
           Hashlock payment_hash \<Rightarrow>
             try_then (ensure (verify_preimage crypto preimage payment_hash) (Invalid ''claim witness preimage'')) (\<lambda>_.
             try_then (taproot_script_spend_sighash crypto tx prevouts input_index script control_block) (\<lambda>sighash.
             Inr \<lparr>vw_signature = signature, vw_signing_key = pl_signing_key leaf, vw_sighash = sighash\<rparr>))
         | _ \<Rightarrow> Inl (Invalid ''claim witness leaf condition'')))))
     | _ \<Rightarrow> Inl (Invalid ''claim witness shape''))"

definition check_refund_lock :: "transaction \<Rightarrow> tx_input \<Rightarrow> swap_leaf_condition \<Rightarrow> (verification_error, unit) result" where
  "check_refund_lock tx input condition =
     (case condition of
        Cltv required \<Rightarrow>
          ensure (\<not> (ti_sequence input = - 1 \<or> \<not> check_cltv (BlockHeight required) (t_lock_time tx)))
            (Invalid ''refund CLTV is not satisfied'')
      | Csv required \<Rightarrow>
          ensure (\<not> (sint (t_version tx) < 2 \<or> \<not> check_csv required (ti_sequence input)))
            (Invalid ''refund CSV is not satisfied'')
      | Hashlock _ \<Rightarrow> Inl (Invalid ''refund witness leaf condition''))"

definition validate_taproot_refund_witness ::
    "taproot_crypto \<Rightarrow> transaction \<Rightarrow> tx_output list \<Rightarrow> nat \<Rightarrow> u8 list \<Rightarrow> u8 list
      \<Rightarrow> (verification_error, validated_taproot_witness) result" where
  "validate_taproot_refund_witness crypto tx prevouts input_index expected_script expected_control_block =
     try_then (ensure (input_index < length (t_inputs tx)) (Bounds ''refund witness input index'')) (\<lambda>_.
     case ti_witness (t_inputs tx ! input_index) of
       [signature, script, control_block] \<Rightarrow>
         try_then (exact_default_signature signature) (\<lambda>signature.
         try_then (ensure (\<not> (script \<noteq> expected_script \<or> control_block \<noteq> expected_control_block))
                    (Invalid ''refund witness path mismatch'')) (\<lambda>_.
         try_then (parse_swap_leaf_script (tc_xonly_ok crypto) script) (\<lambda>leaf.
         try_then (check_refund_lock tx (t_inputs tx ! input_index) (pl_condition leaf)) (\<lambda>_.
         try_then (taproot_script_spend_sighash crypto tx prevouts input_index script control_block) (\<lambda>sighash.
         Inr \<lparr>vw_signature = signature, vw_signing_key = pl_signing_key leaf, vw_sighash = sighash\<rparr>)))))
     | _ \<Rightarrow> Inl (Invalid ''refund witness shape''))"

section \<open>Comparisons and trees\<close>

lemma xor_zero: "(a :: u8) XOR b = 0 \<longleftrightarrow> a = b"
  by (auto simp: bit_eq_iff bit_xor_iff)

lemma constant_time_equal_iff: "constant_time_equal left right \<longleftrightarrow> left = right"
proof -
  have "length xs = length ys \<Longrightarrow>
      foldl (\<lambda>d (l, r). d OR (l XOR r)) acc (zip xs ys) = 0 \<longleftrightarrow> acc = 0 \<and> xs = ys" for xs ys :: "u8 list" and acc
    by (induction xs ys arbitrary: acc rule: list_induct2) (auto simp: or_eq_0_iff xor_zero)
  then show ?thesis by (auto simp: constant_time_equal_def)
qed

lemma bytes_le_total: "bytes_le xs ys \<or> bytes_le ys xs"
  by (induction xs ys rule: bytes_le.induct) auto

lemma bytes_le_antisym: "bytes_le xs ys \<Longrightarrow> bytes_le ys xs \<Longrightarrow> xs = ys"
proof (induction xs ys rule: bytes_le.induct)
  case (1 ys)
  then show ?case by (cases ys) auto
qed auto

lemma tapbranch_commute: "tapbranch_hash crypto a b = tapbranch_hash crypto b a"
  using bytes_le_total [of a b] bytes_le_antisym [of a b] by (auto simp: tapbranch_hash_def)

lemma chunks_exact_concat:
  assumes "0 < n" "list_all (\<lambda>x. length x = n) xs"
  shows "chunks_exact n (concat xs) = xs"
  using assms(2)
proof (induction xs)
  case Nil
  then show ?case using assms(1) by (simp add: chunks_exact.simps)
next
  case (Cons x xs)
  then show ?case using assms(1) by (subst chunks_exact.simps) simp
qed

text \<open>A tree of leaf scripts, its root, and every leaf with the siblings on its way to the root.\<close>

datatype tap_tree = TapLeaf "u8 list" | TapBranch tap_tree tap_tree

fun tree_root :: "taproot_crypto \<Rightarrow> tap_tree \<Rightarrow> u8 list" where
  "tree_root crypto (TapLeaf script) =
     tagged_hash crypto ''TapLeaf'' (TAPROOT_LEAF_VERSION # write_compact_size (length script) @ script)"
| "tree_root crypto (TapBranch l r) = tapbranch_hash crypto (tree_root crypto l) (tree_root crypto r)"

fun leaf_paths :: "taproot_crypto \<Rightarrow> tap_tree \<Rightarrow> (u8 list \<times> u8 list list) list" where
  "leaf_paths crypto (TapLeaf script) = [(script, [])]"
| "leaf_paths crypto (TapBranch l r) =
     map (\<lambda>(script, path). (script, path @ [tree_root crypto r])) (leaf_paths crypto l)
     @ map (\<lambda>(script, path). (script, path @ [tree_root crypto l])) (leaf_paths crypto r)"

definition path_control_block :: "parity \<Rightarrow> u8 list \<Rightarrow> u8 list list \<Rightarrow> u8 list" where
  "path_control_block p internal_key path =
     (TAPROOT_LEAF_VERSION OR (case p of Even \<Rightarrow> 0 | Odd \<Rightarrow> 1)) # internal_key @ concat path"

lemma leaf_path_root:
  "(script, path) \<in> set (leaf_paths crypto tree) \<Longrightarrow>
     foldl (tapbranch_hash crypto) (tree_root crypto (TapLeaf script)) path = tree_root crypto tree"
proof (induction tree arbitrary: script path)
  case (TapBranch l r)
  then show ?case using tapbranch_commute [of crypto "tree_root crypto r"] by fastforce
qed simp

lemma leaf_path_lengths:
  assumes "\<And>m. length (tc_sha256 crypto m) = 32"
  shows "(script, path) \<in> set (leaf_paths crypto tree) \<Longrightarrow> list_all (\<lambda>h. length h = 32) path"
proof (induction tree arbitrary: script path)
  case (TapBranch l r)
  have "length (tree_root crypto t) = 32" for t
    by (cases t) (simp_all add: tagged_hash_def tapbranch_hash_def assms Let_def split: prod.splits)
  with TapBranch show ?case by fastforce
qed simp

lemma leaf_version_bits:
  "TAPROOT_LEAF_VERSION AND 0xfe = TAPROOT_LEAF_VERSION" "(TAPROOT_LEAF_VERSION OR 1) AND 0xfe = TAPROOT_LEAF_VERSION"
  "(TAPROOT_LEAF_VERSION OR 1) AND 1 = 1"
  "TAPROOT_LEAF_VERSION AND 1 = 0" "TAPROOT_LEAF_VERSION \<noteq> 0x50"
  unfolding TAPROOT_LEAF_VERSION_def by code_simp+

lemma path_control_block_verifies:
  assumes sha: "\<And>m. length (tc_sha256 crypto m) = 32"
    and leaf: "(script, path) \<in> set (leaf_paths crypto tree)" "length script \<le> MAX_SCRIPT_BYTES" "length path \<le> 128"
    and key: "tc_xonly_ok crypto internal_key" "length internal_key = 32"
    and out: "taproot_output_key crypto internal_key (Some (tree_root crypto tree)) = Inr (output_key, p)"
  shows "verify_control_block crypto output_key script (path_control_block p internal_key path) = Inr ()"
proof -
  let ?cb = "path_control_block p internal_key path"
  note paths = leaf_path_lengths [OF sha leaf(1)]
  have "length (concat path) = 32 * length path" using paths by (induction path) auto
  then have len: "length ?cb = 33 + 32 * length path" by (simp add: path_control_block_def key(2))
  have head: "?cb ! 0 AND 0xfe = TAPROOT_LEAF_VERSION" "(if ?cb ! 0 AND 1 = 0 then Even else Odd) = p"
    by (cases p; simp add: path_control_block_def leaf_version_bits)+
  have parts: "take 32 (drop 1 ?cb) = internal_key" "drop 33 ?cb = concat path"
    by (simp_all add: path_control_block_def key(2))
  have "tapleaf_hash crypto TAPROOT_LEAF_VERSION script = Inr (tree_root crypto (TapLeaf script))"
    using leaf(2) by (simp add: tapleaf_hash_def leaf_version_bits)
  moreover have "foldl (tapbranch_hash crypto) (tree_root crypto (TapLeaf script)) (chunks_exact 32 (concat path))
      = tree_root crypto tree"
    using leaf_path_root [OF leaf(1)] chunks_exact_concat [OF _ paths] by simp
  ultimately show ?thesis
    using len leaf(3) key(1) out
    by (simp add: verify_control_block_def Let_def head parts parts(1) [simplified] leaf_version_bits)
qed

section \<open>Signature messages and witnesses\<close>

text \<open>No message depends on the witnesses of the inputs.\<close>

definition strip_tx :: "transaction \<Rightarrow> transaction" where
  "strip_tx tx = tx\<lparr>t_inputs := map strip_witness (t_inputs tx), t_has_witness := False\<rparr>"

lemma strip_witness_sel [simp]:
  "ti_previous_txid (strip_witness i) = ti_previous_txid i" "ti_previous_output (strip_witness i) = ti_previous_output i"
  "ti_script_sig (strip_witness i) = ti_script_sig i" "ti_sequence (strip_witness i) = ti_sequence i"
  by (simp_all add: strip_witness_def)

lemma parts_stripped:
  "prevouts_bytes (strip_tx tx) prevouts = prevouts_bytes tx prevouts"
  "amounts_bytes (strip_tx tx) prevouts = amounts_bytes tx prevouts"
  "script_pubkeys_bytes (strip_tx tx) prevouts = script_pubkeys_bytes tx prevouts"
  "sequences_bytes (strip_tx tx) prevouts = sequences_bytes tx prevouts"
  by (simp_all add: prevouts_bytes_def amounts_bytes_def script_pubkeys_bytes_def sequences_bytes_def
      strip_tx_def zip_map1 o_def case_prod_unfold)

lemma try_all_map: "try_all f (map g xs) = try_all (\<lambda>x. f (g x)) xs"
  by (induction xs) simp_all

lemma spend_inputs_stripped:
  "validate_taproot_spend_inputs crypto (strip_tx tx) prevouts i script cb
     = validate_taproot_spend_inputs crypto tx prevouts i script cb"
proof -
  have "ti_script_sig (map strip_witness (t_inputs tx) ! i) = ti_script_sig (t_inputs tx ! i)"
    if "i < length (t_inputs tx)" using that by simp
  then show ?thesis
    by (simp add: validate_taproot_spend_inputs_def strip_tx_def try_all_map result_simps)
qed

lemma script_message_stripped:
  "taproot_script_spend_signature_message crypto (strip_tx tx) prevouts i script cb
     = taproot_script_spend_signature_message crypto tx prevouts i script cb"
proof -
  have "common_message crypto (strip_tx tx) prevouts = common_message crypto tx prevouts"
    by (simp add: common_message_def parts_stripped) (simp add: strip_tx_def)
  then show ?thesis
    by (simp add: taproot_script_spend_signature_message_def spend_inputs_stripped)
qed

lemma script_sighash_stripped:
  "taproot_script_spend_sighash crypto (strip_tx tx) prevouts i script cb
     = taproot_script_spend_sighash crypto tx prevouts i script cb"
  by (simp add: taproot_script_spend_sighash_def script_message_stripped)

lemma set_input_witness_InrD:
  assumes "set_input_witness i witness tx = Inr tx'"
  shows "i < length (t_inputs tx)" "strip_tx tx' = strip_tx tx" "length (t_inputs tx') = length (t_inputs tx)"
    "t_inputs tx' ! i = (t_inputs tx ! i)\<lparr>ti_witness := witness\<rparr>"
    "t_version tx' = t_version tx" "t_lock_time tx' = t_lock_time tx"
proof -
  let ?ins = "(t_inputs tx)[i := (t_inputs tx ! i)\<lparr>ti_witness := witness\<rparr>]"
  have tx': "tx' = tx\<lparr>t_inputs := ?ins, t_has_witness := any_witness ?ins\<rparr>" and i: "i < length (t_inputs tx)"
    using assms by (auto simp: set_input_witness_def try_then_eq_Inr Let_def)
  have "strip_witness ((t_inputs tx ! i)\<lparr>ti_witness := witness\<rparr>) = map strip_witness (t_inputs tx) ! i"
    using i by (simp add: strip_witness_def)
  then have "map strip_witness ?ins = map strip_witness (t_inputs tx)"
    by (simp only: map_update list_update_id)
  then show "strip_tx tx' = strip_tx tx" by (simp add: strip_tx_def tx')
  show "i < length (t_inputs tx)" "length (t_inputs tx') = length (t_inputs tx)"
    "t_inputs tx' ! i = (t_inputs tx ! i)\<lparr>ti_witness := witness\<rparr>"
    "t_version tx' = t_version tx" "t_lock_time tx' = t_lock_time tx"
    using i by (simp_all add: tx')
qed

lemma sighash_same:
  "strip_tx tx' = strip_tx tx \<Longrightarrow>
     taproot_script_spend_sighash crypto tx' prevouts i script cb = taproot_script_spend_sighash crypto tx prevouts i script cb"
  by (metis script_sighash_stripped)

lemma assembled_claim:
  assumes "assemble_taproot_claim_witness crypto signature preimage script cb = Inr witness"
    "length signature = 64" "length preimage = 32" "set_input_witness i witness tx = Inr tx'"
  obtains leaf where "parse_swap_leaf_script (tc_xonly_ok crypto) script = Inr leaf"
    "validate_taproot_claim_witness crypto tx' prevouts i script cb
       = try_then (taproot_script_spend_sighash crypto tx prevouts i script cb) (\<lambda>sighash.
           Inr \<lparr>vw_signature = signature, vw_signing_key = pl_signing_key leaf, vw_sighash = sighash\<rparr>)"
proof -
  obtain leaf h where leaf: "parse_swap_leaf_script (tc_xonly_ok crypto) script = Inr leaf"
    "pl_condition leaf = Hashlock h" "verify_preimage crypto preimage h" "witness = [signature, preimage, script, cb]"
    using assms(1) unfolding assemble_taproot_claim_witness_def
    by (cases "parse_swap_leaf_script (tc_xonly_ok crypto) script")
      (auto simp: try_then_eq_Inr split: swap_leaf_condition.split_asm)
  note s = set_input_witness_InrD [OF assms(4)]
  have "validate_taproot_claim_witness crypto tx' prevouts i script cb
       = try_then (taproot_script_spend_sighash crypto tx' prevouts i script cb) (\<lambda>sighash.
           Inr \<lparr>vw_signature = signature, vw_signing_key = pl_signing_key leaf, vw_sighash = sighash\<rparr>)"
    using s(1,3,4) leaf assms(2,3)
    by (simp add: validate_taproot_claim_witness_def exact_default_signature_def)
  with that leaf(1) sighash_same [OF s(2)] show thesis by simp
qed

lemma assembled_refund:
  assumes "assemble_taproot_refund_witness crypto signature script cb = Inr witness"
    "length signature = 64" "set_input_witness i witness tx = Inr tx'"
  obtains leaf where "parse_swap_leaf_script (tc_xonly_ok crypto) script = Inr leaf"
    "validate_taproot_refund_witness crypto tx' prevouts i script cb
       = try_then (check_refund_lock tx (t_inputs tx ! i) (pl_condition leaf)) (\<lambda>_.
         try_then (taproot_script_spend_sighash crypto tx prevouts i script cb) (\<lambda>sighash.
           Inr \<lparr>vw_signature = signature, vw_signing_key = pl_signing_key leaf, vw_sighash = sighash\<rparr>))"
proof -
  obtain leaf where leaf: "parse_swap_leaf_script (tc_xonly_ok crypto) script = Inr leaf" "witness = [signature, script, cb]"
    using assms(1) unfolding assemble_taproot_refund_witness_def
    by (cases "parse_swap_leaf_script (tc_xonly_ok crypto) script") (auto simp: try_then_eq_Inr)
  note s = set_input_witness_InrD [OF assms(3)]
  have "check_refund_lock tx' (t_inputs tx' ! i) (pl_condition leaf) = check_refund_lock tx (t_inputs tx ! i) (pl_condition leaf)"
    by (simp add: check_refund_lock_def s(4-6) split: swap_leaf_condition.splits)
  then have "validate_taproot_refund_witness crypto tx' prevouts i script cb
       = try_then (check_refund_lock tx (t_inputs tx ! i) (pl_condition leaf)) (\<lambda>_.
         try_then (taproot_script_spend_sighash crypto tx' prevouts i script cb) (\<lambda>sighash.
           Inr \<lparr>vw_signature = signature, vw_signing_key = pl_signing_key leaf, vw_sighash = sighash\<rparr>))"
    using s(1,3,4) leaf assms(2)
    by (simp add: validate_taproot_refund_witness_def exact_default_signature_def)
  with that leaf(1) sighash_same [OF s(2)] show thesis by simp
qed

text \<open>What a validated witness shows.\<close>

lemma ex_unit: "(\<exists>u :: unit. P u) \<longleftrightarrow> P ()"
  by (metis old.unit.exhaust)

lemma spend_inputsD:
  assumes "validate_taproot_spend_inputs crypto tx prevouts i script cb = Inr ()"
  obtains output_key where "length (t_inputs tx) = length prevouts" "i < length (t_inputs tx)"
    "to_script_pubkey (prevouts ! i) = 0x51 # 0x20 # output_key" "length output_key = 32"
    "verify_control_block crypto output_key script cb = Inr ()"
    "list_all (\<lambda>p. length (to_script_pubkey p) \<le> MAX_SCRIPT_BYTES) prevouts"
    "length (t_inputs tx) \<le> MAX_INPUTS"
proof -
  obtain output_key where d: "length (t_inputs tx) = length prevouts" "i < length (t_inputs tx)"
    "taproot_output_key_from_script_pubkey crypto (to_script_pubkey (prevouts ! i)) = Inr output_key"
    "verify_control_block crypto output_key script cb = Inr ()" "\<not> MAX_INPUTS < length (t_inputs tx)"
    "try_all (\<lambda>p. ensure (\<not> MAX_SCRIPT_BYTES < length (to_script_pubkey p))
       (Bounds ''Taproot prevout scriptPubKey length'')) prevouts = Inr ()"
    using assms unfolding validate_taproot_spend_inputs_def
    by (auto simp only: try_then_eq_Inr ensure_eq_Inr ex_unit sum.inject de_Morgan_disj not_not simp_thms)
  have k: "take 2 (to_script_pubkey (prevouts ! i)) = [0x51, 0x20]" "output_key = drop 2 (to_script_pubkey (prevouts ! i))"
    "length output_key = 32"
    using d(3) unfolding taproot_output_key_from_script_pubkey_def Let_def
    by (auto simp only: try_then_eq_Inr ensure_eq_Inr sum.inject)
  then have "to_script_pubkey (prevouts ! i) = 0x51 # 0x20 # output_key"
    using append_take_drop_id [of 2 "to_script_pubkey (prevouts ! i)"] by simp
  moreover have "list_all (\<lambda>p. length (to_script_pubkey p) \<le> MAX_SCRIPT_BYTES) prevouts"
    using d(6) by (auto simp: try_all_eq_Inr is_ok_iff list_all_iff)
  ultimately show thesis using that d k(3) by simp
qed

lemma script_messageD:
  assumes "taproot_script_spend_signature_message crypto tx prevouts i script cb = Inr m"
  obtains "validate_taproot_spend_inputs crypto tx prevouts i script cb = Inr ()" "i < 2 ^ 32"
    "list_all (\<lambda>t. length (to_script_pubkey t) \<le> MAX_SCRIPT_BYTES) (t_outputs tx)"
    "length script \<le> MAX_SCRIPT_BYTES"
    "m = [0, TAPROOT_SIGHASH_DEFAULT] @ to_le_bytes 4 (t_version tx) @ to_le_bytes 4 (t_lock_time tx)
      @ tc_sha256 crypto (prevouts_bytes tx prevouts) @ tc_sha256 crypto (amounts_bytes tx prevouts)
      @ tc_sha256 crypto (script_pubkeys_bytes tx prevouts) @ tc_sha256 crypto (sequences_bytes tx prevouts)
      @ tc_sha256 crypto (concat (map output_bytes (t_outputs tx)))
      @ [2] @ to_le_bytes 4 (of_nat i :: u32) @ tree_root crypto (TapLeaf script)
      @ [TAPROOT_KEY_VERSION] @ to_le_bytes 4 TAPROOT_NO_CODE_SEPARATOR"
proof -
  from assms obtain outs leaf where d: "validate_taproot_spend_inputs crypto tx prevouts i script cb = Inr ()" "i < 2 ^ 32"
    "try_map write_output (t_outputs tx) = Inr outs" "tapleaf_hash crypto TAPROOT_LEAF_VERSION script = Inr leaf"
    "m = ([0, TAPROOT_SIGHASH_DEFAULT] @ to_le_bytes 4 (t_version tx) @ to_le_bytes 4 (t_lock_time tx)
      @ tc_sha256 crypto (prevouts_bytes tx prevouts) @ tc_sha256 crypto (amounts_bytes tx prevouts)
      @ tc_sha256 crypto (script_pubkeys_bytes tx prevouts) @ tc_sha256 crypto (sequences_bytes tx prevouts)
      @ tc_sha256 crypto (concat outs)) @ [2] @ to_le_bytes 4 (of_nat i :: u32) @ leaf
      @ [TAPROOT_KEY_VERSION] @ to_le_bytes 4 TAPROOT_NO_CODE_SEPARATOR"
    unfolding taproot_script_spend_signature_message_def common_message_def
    by (auto simp only: try_then_eq_Inr ensure_eq_Inr ex_unit sum.inject)
  have "length script \<le> MAX_SCRIPT_BYTES" "leaf = tree_root crypto (TapLeaf script)"
    using d(4) by (auto simp: tapleaf_hash_def split: if_splits)
  with d that show thesis by (simp add: write_parts(2))
qed

lemma claim_witnessD:
  assumes "validate_taproot_claim_witness crypto tx prevouts i script cb = Inr v"
  obtains preimage leaf where "i < length (t_inputs tx)"
    "ti_witness (t_inputs tx ! i) = [vw_signature v, preimage, script, cb]" "length (vw_signature v) = 64"
    "length preimage = 32" "parse_swap_leaf_script (tc_xonly_ok crypto) script = Inr leaf"
    "pl_condition leaf = Hashlock (tc_sha256 crypto preimage)" "vw_signing_key v = pl_signing_key leaf"
    "taproot_script_spend_sighash crypto tx prevouts i script cb = Inr (vw_sighash v)"
proof -
  let ?w = "ti_witness (t_inputs tx ! i)"
  have i: "i < length (t_inputs tx)" using assms by (auto simp: validate_taproot_claim_witness_def try_then_eq_Inr)
  then obtain signature preimage where w: "?w = [signature, preimage, script, cb]" "length signature = 64"
    using assms by (auto simp: validate_taproot_claim_witness_def try_then_eq_Inr exact_default_signature_def
        split: list.split_asm if_split_asm)
  obtain leaf where leaf: "parse_swap_leaf_script (tc_xonly_ok crypto) script = Inr leaf" "length preimage = 32"
    using assms i w by (auto simp: validate_taproot_claim_witness_def try_then_eq_Inr)
  then obtain h where "pl_condition leaf = Hashlock h" "verify_preimage crypto preimage h"
    "vw_signature v = signature" "vw_signing_key v = pl_signing_key leaf"
    "taproot_script_spend_sighash crypto tx prevouts i script cb = Inr (vw_sighash v)"
    using assms i w
    by (auto simp: validate_taproot_claim_witness_def try_then_eq_Inr exact_default_signature_def
        split: swap_leaf_condition.split_asm)
  with that i w leaf show thesis by (simp add: verify_preimage_def constant_time_equal_iff)
qed

lemma refund_witnessD:
  assumes "validate_taproot_refund_witness crypto tx prevouts i script cb = Inr v"
  obtains leaf where "i < length (t_inputs tx)"
    "ti_witness (t_inputs tx ! i) = [vw_signature v, script, cb]" "length (vw_signature v) = 64"
    "parse_swap_leaf_script (tc_xonly_ok crypto) script = Inr leaf"
    "check_refund_lock tx (t_inputs tx ! i) (pl_condition leaf) = Inr ()" "vw_signing_key v = pl_signing_key leaf"
    "taproot_script_spend_sighash crypto tx prevouts i script cb = Inr (vw_sighash v)"
proof -
  let ?w = "ti_witness (t_inputs tx ! i)"
  have i: "i < length (t_inputs tx)" using assms by (auto simp: validate_taproot_refund_witness_def try_then_eq_Inr)
  then obtain signature where w: "?w = [signature, script, cb]" "length signature = 64"
    using assms by (auto simp: validate_taproot_refund_witness_def try_then_eq_Inr exact_default_signature_def
        split: list.split_asm if_split_asm)
  obtain leaf where leaf: "parse_swap_leaf_script (tc_xonly_ok crypto) script = Inr leaf"
    using assms i w by (auto simp: validate_taproot_refund_witness_def try_then_eq_Inr)
  with assms i w that show thesis
    by (auto simp: validate_taproot_refund_witness_def try_then_eq_Inr exact_default_signature_def)
qed

text \<open>What a message commits to.\<close>

definition leaf_message :: "taproot_crypto \<Rightarrow> u8 list \<Rightarrow> u8 list" where
  "leaf_message crypto script =
     (let t = tc_sha256 crypto (as_bytes ''TapLeaf'')
      in t @ t @ TAPROOT_LEAF_VERSION # write_compact_size (length script) @ script)"

definition committed_parts :: "taproot_crypto \<Rightarrow> transaction \<Rightarrow> tx_output list \<Rightarrow> u8 list \<Rightarrow> u8 list set" where
  "committed_parts crypto tx prevouts script =
     {prevouts_bytes tx prevouts, amounts_bytes tx prevouts, script_pubkeys_bytes tx prevouts,
      sequences_bytes tx prevouts, concat (map output_bytes (t_outputs tx)), leaf_message crypto script}"

lemma map_zip_fst: "length xs = length ys \<Longrightarrow> map (\<lambda>(x, y). f x) (zip xs ys) = map f xs"
  by (induction xs ys rule: list_induct2) simp_all

lemma map_zip_snd: "length xs = length ys \<Longrightarrow> map (\<lambda>(x, y). f y) (zip xs ys) = map f ys"
  by (induction xs ys rule: list_induct2) simp_all

lemma concat_fixed_inj:
  assumes "concat (map f xs) = concat (map g ys)" "0 < n" "\<forall>x \<in> set xs. length (f x) = n" "\<forall>y \<in> set ys. length (g y) = n"
  shows "map f xs = map g ys"
proof -
  have "map f xs = chunks_exact n (concat (map f xs))"
    by (rule chunks_exact_concat [symmetric]) (use assms(2,3) in \<open>simp_all add: list_all_iff\<close>)
  also have "\<dots> = chunks_exact n (concat (map g ys))" by (simp only: assms(1))
  also have "\<dots> = map g ys"
    by (rule chunks_exact_concat) (use assms(2,4) in \<open>simp_all add: list_all_iff\<close>)
  finally show ?thesis .
qed

lemma to_le_bytes_inj:
  fixes v w :: "'a::len word"
  assumes "LENGTH('a) = 8 * n"
  shows "to_le_bytes n v = to_le_bytes n w \<longleftrightarrow> v = w"
proof
  assume e: "to_le_bytes n v = to_le_bytes n w"
  have "v = from_le_bytes (to_le_bytes n v)" by (rule from_to_le_bytes [OF assms, symmetric])
  also have "\<dots> = w" unfolding e by (rule from_to_le_bytes [OF assms])
  finally show "v = w" .
qed simp

lemma outpoints_inj:
  assumes "prevouts_bytes tx ps = prevouts_bytes tx' ps'" "length (t_inputs tx) = length ps" "length (t_inputs tx') = length ps'"
    "txids_ok tx" "txids_ok tx'"
  shows "map ti_previous_txid (t_inputs tx) = map ti_previous_txid (t_inputs tx')
    \<and> map ti_previous_output (t_inputs tx) = map ti_previous_output (t_inputs tx')"
proof -
  let ?f = "\<lambda>i. ti_previous_txid i @ to_le_bytes 4 (ti_previous_output i)"
  have len: "length (ti_previous_txid i) = 32" if "i \<in> set (t_inputs tx) \<union> set (t_inputs tx')" for i
    using that assms(4,5) by (auto simp: txids_ok_def list_all_iff)
  have "concat (map ?f (t_inputs tx)) = concat (map ?f (t_inputs tx'))"
    using assms(1-3) by (simp add: prevouts_bytes_def map_zip_fst)
  then have m: "map ?f (t_inputs tx) = map ?f (t_inputs tx')"
    by (rule concat_fixed_inj [of _ _ _ _ 36]) (simp_all add: len)
  from arg_cong [OF this, of length] have l: "length (t_inputs tx) = length (t_inputs tx')" by simp
  have "ti_previous_txid (t_inputs tx ! k) = ti_previous_txid (t_inputs tx' ! k)
      \<and> ti_previous_output (t_inputs tx ! k) = ti_previous_output (t_inputs tx' ! k)" if "k < length (t_inputs tx)" for k
    using that arg_cong [OF m, of "\<lambda>xs. xs ! k"] l len [of "t_inputs tx ! k"] len [of "t_inputs tx' ! k"]
    by (simp add: to_le_bytes_inj)
  with l show ?thesis by (simp add: list_eq_iff_nth_eq)
qed

lemma prevouts_inj:
  assumes "amounts_bytes tx ps = amounts_bytes tx' ps'" "script_pubkeys_bytes tx ps = script_pubkeys_bytes tx' ps'"
    "length (t_inputs tx) = length ps" "length (t_inputs tx') = length ps'"
    "list_all (\<lambda>p. length (to_script_pubkey p) \<le> MAX_SCRIPT_BYTES) ps"
    "list_all (\<lambda>p. length (to_script_pubkey p) \<le> MAX_SCRIPT_BYTES) ps'"
  shows "ps = ps'"
proof -
  have "concat (map (\<lambda>p. to_le_bytes 8 (to_value_sat p)) ps) = concat (map (\<lambda>p. to_le_bytes 8 (to_value_sat p)) ps')"
    using assms(1,3,4) by (simp add: amounts_bytes_def map_zip_snd)
  then have a: "map (\<lambda>p. to_le_bytes 8 (to_value_sat p)) ps = map (\<lambda>p. to_le_bytes 8 (to_value_sat p)) ps'"
    by (rule concat_fixed_inj [of _ _ _ _ 8]) auto
  then have l: "length ps = length ps'" by (metis length_map)
  have "concat (map write_var_bytes (map to_script_pubkey ps)) = concat (map write_var_bytes (map to_script_pubkey ps'))"
    using assms(2-4) by (simp add: script_pubkeys_bytes_def map_zip_snd o_def)
  moreover have "write_var_bytes b \<noteq> []" for b
    by (simp add: write_var_bytes_def write_compact_size_def)
  ultimately have s: "map to_script_pubkey ps = map to_script_pubkey ps'"
    using assms(5,6) by (intro var_bytes.concat_unambiguous [of MAX_SCRIPT_BYTES]) (auto simp: list_all_iff tx_limits)
  have "ps ! k = ps' ! k" if "k < length ps" for k
    using that l arg_cong [OF a, of "\<lambda>xs. xs ! k"] arg_cong [OF s, of "\<lambda>xs. xs ! k"]
    by (auto simp: to_le_bytes_inj intro: tx_output.equality)
  with l show ?thesis by (simp add: list_eq_iff_nth_eq)
qed

lemma leaf_message_hash: "tree_root crypto (TapLeaf script) = tc_sha256 crypto (leaf_message crypto script)"
  by (simp add: tagged_hash_def leaf_message_def Let_def)

lemma equal_messages:
  assumes sha: "\<And>m. length (tc_sha256 crypto m) = 32"
    and m: "taproot_script_spend_signature_message crypto tx ps i script cb = Inr m"
    and m': "taproot_script_spend_signature_message crypto tx' ps' i' script' cb' = Inr m"
  shows "t_version tx = t_version tx' \<and> t_lock_time tx = t_lock_time tx' \<and> i = i'
    \<and> tc_sha256 crypto (prevouts_bytes tx ps) = tc_sha256 crypto (prevouts_bytes tx' ps')
    \<and> tc_sha256 crypto (amounts_bytes tx ps) = tc_sha256 crypto (amounts_bytes tx' ps')
    \<and> tc_sha256 crypto (script_pubkeys_bytes tx ps) = tc_sha256 crypto (script_pubkeys_bytes tx' ps')
    \<and> tc_sha256 crypto (sequences_bytes tx ps) = tc_sha256 crypto (sequences_bytes tx' ps')
    \<and> tc_sha256 crypto (concat (map output_bytes (t_outputs tx)))
        = tc_sha256 crypto (concat (map output_bytes (t_outputs tx')))
    \<and> tc_sha256 crypto (leaf_message crypto script) = tc_sha256 crypto (leaf_message crypto script')"
proof -
  have idx: "(of_nat i :: u32) = of_nat i' \<longleftrightarrow> i = i'" if "i < 2 ^ 32" "i' < 2 ^ 32"
    using that unat_of_nat_small [of i, where 'a = 32] unat_of_nat_small [of i', where 'a = 32]
    by (auto simp: word_unat_eq_iff)
  from m m' show ?thesis
    by (elim script_messageD) (simp add: leaf_message_hash sha to_le_bytes_inj idx del: tree_root.simps)
qed

lemma sighash_binds:
  assumes sha: "\<And>m. length (tc_sha256 crypto m) = 32"
    and m: "taproot_script_spend_signature_message crypto tx ps i script cb = Inr m"
    and m': "taproot_script_spend_signature_message crypto tx' ps' i' script' cb' = Inr m"
    and inj: "inj_on (tc_sha256 crypto) (committed_parts crypto tx ps script \<union> committed_parts crypto tx' ps' script')"
    and ids: "txids_ok tx" "txids_ok tx'"
  shows "t_version tx = t_version tx' \<and> t_lock_time tx = t_lock_time tx' \<and> i = i' \<and> script = script'
    \<and> map ti_previous_txid (t_inputs tx) = map ti_previous_txid (t_inputs tx')
    \<and> map ti_previous_output (t_inputs tx) = map ti_previous_output (t_inputs tx')
    \<and> map ti_sequence (t_inputs tx) = map ti_sequence (t_inputs tx')
    \<and> t_outputs tx = t_outputs tx' \<and> ps = ps'"
proof -
  note eq = equal_messages [OF sha m m']
  from m obtain ok: "validate_taproot_spend_inputs crypto tx ps i script cb = Inr ()"
    "list_all (\<lambda>t. length (to_script_pubkey t) \<le> MAX_SCRIPT_BYTES) (t_outputs tx)" "length script \<le> MAX_SCRIPT_BYTES"
    by (rule script_messageD)
  from m' obtain ok': "validate_taproot_spend_inputs crypto tx' ps' i' script' cb' = Inr ()"
    "list_all (\<lambda>t. length (to_script_pubkey t) \<le> MAX_SCRIPT_BYTES) (t_outputs tx')" "length script' \<le> MAX_SCRIPT_BYTES"
    by (rule script_messageD)
  from ok(1) obtain len: "length (t_inputs tx) = length ps"
    "list_all (\<lambda>p. length (to_script_pubkey p) \<le> MAX_SCRIPT_BYTES) ps" by (rule spend_inputsD)
  from ok'(1) obtain len': "length (t_inputs tx') = length ps'"
    "list_all (\<lambda>p. length (to_script_pubkey p) \<le> MAX_SCRIPT_BYTES) ps'" by (rule spend_inputsD)
  have parts: "prevouts_bytes tx ps = prevouts_bytes tx' ps'" "amounts_bytes tx ps = amounts_bytes tx' ps'"
    "script_pubkeys_bytes tx ps = script_pubkeys_bytes tx' ps'" "sequences_bytes tx ps = sequences_bytes tx' ps'"
    "concat (map output_bytes (t_outputs tx)) = concat (map output_bytes (t_outputs tx'))"
    "leaf_message crypto script = leaf_message crypto script'"
    using eq by (auto intro!: inj_onD [OF inj] simp: committed_parts_def)
  have "t_outputs tx = t_outputs tx'"
    using parts(5) ok(2) ok'(2)
    by (intro txout.concat_unambiguous) (auto simp: output_bytes_def write_var_bytes_def write_compact_size_def)
  moreover have "map ti_sequence (t_inputs tx) = map ti_sequence (t_inputs tx')"
  proof -
    have "concat (map (to_le_bytes 4) (map ti_sequence (t_inputs tx))) = concat (map (to_le_bytes 4) (map ti_sequence (t_inputs tx')))"
      using parts(4) len(1) len'(1) by (simp add: sequences_bytes_def map_zip_fst o_def)
    moreover have "to_le_bytes 4 w \<noteq> []" for w :: u32 by (simp add: to_le_bytes_def)
    ultimately show ?thesis by (intro le32.concat_unambiguous) (simp_all add: list_all_iff)
  qed
  moreover have "script = script'"
  proof -
    have "write_var_bytes script @ [] = write_var_bytes script' @ []"
      using parts(6) by (simp add: leaf_message_def Let_def write_var_bytes_def)
    then show ?thesis
      using var_bytes.unambiguous [of script MAX_SCRIPT_BYTES script' "[]" "[]"] ok(3) ok'(3) by (simp add: tx_limits)
  qed
  ultimately show ?thesis
    using eq outpoints_inj [OF parts(1) len(1) len'(1) ids] prevouts_inj [OF parts(2,3) len(1) len'(1) len(2) len'(2)]
    by simp
qed

lemma valid_claim_witness:
  assumes "validate_taproot_claim_witness crypto tx prevouts i script cb = Inr v"
  shows "\<exists>preimage output_key. ti_witness (t_inputs tx ! i) = [vw_signature v, preimage, script, cb]
    \<and> i < length (t_inputs tx) \<and> length (vw_signature v) = 64 \<and> length preimage = 32
    \<and> parse_swap_leaf_script (tc_xonly_ok crypto) script
        = Inr \<lparr>pl_signing_key = vw_signing_key v, pl_condition = Hashlock (tc_sha256 crypto preimage)\<rparr>
    \<and> to_script_pubkey (prevouts ! i) = 0x51 # 0x20 # output_key
    \<and> verify_control_block crypto output_key script cb = Inr ()
    \<and> taproot_script_spend_sighash crypto tx prevouts i script cb = Inr (vw_sighash v)"
proof -
  obtain preimage leaf where d: "i < length (t_inputs tx)"
    "ti_witness (t_inputs tx ! i) = [vw_signature v, preimage, script, cb]" "length (vw_signature v) = 64"
    "length preimage = 32" "parse_swap_leaf_script (tc_xonly_ok crypto) script = Inr leaf"
    "pl_condition leaf = Hashlock (tc_sha256 crypto preimage)" "vw_signing_key v = pl_signing_key leaf"
    "taproot_script_spend_sighash crypto tx prevouts i script cb = Inr (vw_sighash v)"
    using assms by (rule claim_witnessD)
  obtain output_key where "to_script_pubkey (prevouts ! i) = 0x51 # 0x20 # output_key"
    "verify_control_block crypto output_key script cb = Inr ()"
    using d(8) by (auto simp: taproot_script_spend_sighash_def try_then_eq_Inr elim!: script_messageD spend_inputsD)
  moreover have "leaf = \<lparr>pl_signing_key = vw_signing_key v, pl_condition = Hashlock (tc_sha256 crypto preimage)\<rparr>"
    using d(6,7) by (cases leaf) simp
  ultimately show ?thesis using d by blast
qed

lemma valid_refund_witness:
  assumes "validate_taproot_refund_witness crypto tx prevouts i script cb = Inr v"
  shows "\<exists>leaf. parse_swap_leaf_script (tc_xonly_ok crypto) script = Inr leaf
    \<and> ti_witness (t_inputs tx ! i) = [vw_signature v, script, cb]
    \<and> (case pl_condition leaf of
          Hashlock h \<Rightarrow> False
        | Cltv n \<Rightarrow> n < 500000000 \<and> bip65_satisfied n (t_lock_time tx) (ti_sequence (t_inputs tx ! i))
        | Csv n \<Rightarrow> \<not> bit n 31 \<and> bip112_satisfied n (t_version tx) (ti_sequence (t_inputs tx ! i)))"
proof -
  obtain leaf where d: "ti_witness (t_inputs tx ! i) = [vw_signature v, script, cb]"
    "parse_swap_leaf_script (tc_xonly_ok crypto) script = Inr leaf"
    "check_refund_lock tx (t_inputs tx ! i) (pl_condition leaf) = Inr ()"
    using assms by (rule refund_witnessD)
  have "2 \<le> unat (t_version tx)" if "\<not> sint (t_version tx) < 2"
  proof (rule ccontr)
    assume "\<not> 2 \<le> unat (t_version tx)"
    then have "t_version tx = 0 \<or> t_version tx = 1" by (auto simp: word_unat_eq_iff)
    with that show False by auto
  qed
  moreover have ones: "(0xffffffff :: u32) = - 1" by simp
  have "n < 500000000 \<and> bip65_satisfied n (t_lock_time tx) (ti_sequence (t_inputs tx ! i))"
    if "check_cltv (BlockHeight n) (t_lock_time tx)" "ti_sequence (t_inputs tx ! i) \<noteq> - 1" for n
    using that check_cltv_height [of n "t_lock_time tx" "ti_sequence (t_inputs tx ! i)", unfolded ones]
    by blast
  ultimately have "case pl_condition leaf of
      Hashlock h \<Rightarrow> False
    | Cltv n \<Rightarrow> n < 500000000 \<and> bip65_satisfied n (t_lock_time tx) (ti_sequence (t_inputs tx ! i))
    | Csv n \<Rightarrow> \<not> bit n 31 \<and> bip112_satisfied n (t_version tx) (ti_sequence (t_inputs tx ! i))"
    using d(3)
    by (auto simp: check_refund_lock_def check_csv_iff bip112_satisfied_def split: swap_leaf_condition.splits)
  with d show ?thesis by blast
qed

section \<open>Properties\<close>

text \<open>C25: every leaf of a script tree can be spent: the control block that lists the siblings on
  the way from the leaf to the root verifies against the output key made from the internal key
  and the root of the tree.\<close>

theorem control_block_complete:
  assumes "\<forall>m. length (tc_sha256 crypto m) = 32"
    "(script, path) \<in> set (leaf_paths crypto tree)" "length script \<le> MAX_SCRIPT_BYTES" "length path \<le> 128"
    "tc_xonly_ok crypto internal_key" "length internal_key = 32"
    "taproot_output_key crypto internal_key (Some (tree_root crypto tree)) = Inr (output_key, p)"
  shows "verify_control_block crypto output_key script (path_control_block p internal_key path) = Inr ()"
  using path_control_block_verifies [OF _ assms(2-)] assms(1) by blast

text \<open>C22: a validated claim reveals the preimage: its witness is a 64-byte signature, 32 bytes that
  hash to the payment hash of the leaf, and the expected script and control block; the script
  is committed to by the output that is spent, and the returned key and message digest are
  those of the leaf and of the transaction.\<close>

theorem claim_witness_sound:
  assumes "validate_taproot_claim_witness crypto tx prevouts i script cb = Inr v"
  shows "\<exists>preimage output_key. ti_witness (t_inputs tx ! i) = [vw_signature v, preimage, script, cb]
    \<and> i < length (t_inputs tx) \<and> length (vw_signature v) = 64 \<and> length preimage = 32
    \<and> parse_swap_leaf_script (tc_xonly_ok crypto) script
        = Inr \<lparr>pl_signing_key = vw_signing_key v, pl_condition = Hashlock (tc_sha256 crypto preimage)\<rparr>
    \<and> to_script_pubkey (prevouts ! i) = 0x51 # 0x20 # output_key
    \<and> verify_control_block crypto output_key script cb = Inr ()
    \<and> taproot_script_spend_sighash crypto tx prevouts i script cb = Inr (vw_sighash v)"
  using assms by (rule valid_claim_witness)

text \<open>C23: a validated refund waits for its lock: the leaf is a time lock and the transaction
  satisfies it as BIP65 or BIP112 demand; an absolute lock is a block height.\<close>

theorem refund_witness_sound:
  assumes "validate_taproot_refund_witness crypto tx prevouts i script cb = Inr v"
  shows "\<exists>leaf. parse_swap_leaf_script (tc_xonly_ok crypto) script = Inr leaf
    \<and> ti_witness (t_inputs tx ! i) = [vw_signature v, script, cb]
    \<and> (case pl_condition leaf of
          Hashlock h \<Rightarrow> False
        | Cltv n \<Rightarrow> n < 500000000 \<and> bip65_satisfied n (t_lock_time tx) (ti_sequence (t_inputs tx ! i))
        | Csv n \<Rightarrow> \<not> bit n 31 \<and> bip112_satisfied n (t_version tx) (ti_sequence (t_inputs tx ! i)))"
  using assms by (rule valid_refund_witness)

text \<open>What is assembled is accepted: a claim witness put into its input validates exactly when
  the spent output commits to the script, with the signature and the key of the leaf; for a
  refund witness the lock must also be satisfied.\<close>

lemma assembled_witness_accepted:
  assumes "length signature = 64" "set_input_witness i witness tx = Inr tx'"
  shows "(assemble_taproot_claim_witness crypto signature preimage script cb = Inr witness \<and> length preimage = 32 \<longrightarrow>
      (\<exists>leaf. parse_swap_leaf_script (tc_xonly_ok crypto) script = Inr leaf
        \<and> validate_taproot_claim_witness crypto tx' prevouts i script cb
          = try_then (taproot_script_spend_sighash crypto tx prevouts i script cb) (\<lambda>sighash.
              Inr \<lparr>vw_signature = signature, vw_signing_key = pl_signing_key leaf, vw_sighash = sighash\<rparr>)))
    \<and> (assemble_taproot_refund_witness crypto signature script cb = Inr witness \<longrightarrow>
      (\<exists>leaf. parse_swap_leaf_script (tc_xonly_ok crypto) script = Inr leaf
        \<and> validate_taproot_refund_witness crypto tx' prevouts i script cb
          = try_then (check_refund_lock tx (t_inputs tx ! i) (pl_condition leaf)) (\<lambda>_.
            try_then (taproot_script_spend_sighash crypto tx prevouts i script cb) (\<lambda>sighash.
              Inr \<lparr>vw_signature = signature, vw_signing_key = pl_signing_key leaf, vw_sighash = sighash\<rparr>))))"
proof (intro conjI impI)
  assume "assemble_taproot_claim_witness crypto signature preimage script cb = Inr witness \<and> length preimage = 32"
  then show "\<exists>leaf. parse_swap_leaf_script (tc_xonly_ok crypto) script = Inr leaf
        \<and> validate_taproot_claim_witness crypto tx' prevouts i script cb
          = try_then (taproot_script_spend_sighash crypto tx prevouts i script cb) (\<lambda>sighash.
              Inr \<lparr>vw_signature = signature, vw_signing_key = pl_signing_key leaf, vw_sighash = sighash\<rparr>)"
    using assms by (elim conjE assembled_claim) blast+
next
  assume "assemble_taproot_refund_witness crypto signature script cb = Inr witness"
  then show "\<exists>leaf. parse_swap_leaf_script (tc_xonly_ok crypto) script = Inr leaf
        \<and> validate_taproot_refund_witness crypto tx' prevouts i script cb
          = try_then (check_refund_lock tx (t_inputs tx ! i) (pl_condition leaf)) (\<lambda>_.
            try_then (taproot_script_spend_sighash crypto tx prevouts i script cb) (\<lambda>sighash.
              Inr \<lparr>vw_signature = signature, vw_signing_key = pl_signing_key leaf, vw_sighash = sighash\<rparr>))"
    using assms by (elim assembled_refund) blast+
qed

text \<open>C24: the signature message of a script-path spend commits to the whole transaction: two
  spends with the same message have the same version, lock time, input index, outpoints,
  sequences, outputs, spent outputs and leaf script, unless the hash collides on them.\<close>

theorem sighash_commits:
  assumes "\<forall>m. length (tc_sha256 crypto m) = 32"
    "taproot_script_spend_signature_message crypto tx ps i script cb = Inr m"
    "taproot_script_spend_signature_message crypto tx' ps' i' script' cb' = Inr m"
    "inj_on (tc_sha256 crypto) (committed_parts crypto tx ps script \<union> committed_parts crypto tx' ps' script')"
    "txids_ok tx" "txids_ok tx'"
  shows "t_version tx = t_version tx' \<and> t_lock_time tx = t_lock_time tx' \<and> i = i' \<and> script = script'
    \<and> map ti_previous_txid (t_inputs tx) = map ti_previous_txid (t_inputs tx')
    \<and> map ti_previous_output (t_inputs tx) = map ti_previous_output (t_inputs tx')
    \<and> map ti_sequence (t_inputs tx) = map ti_sequence (t_inputs tx')
    \<and> t_outputs tx = t_outputs tx' \<and> ps = ps'"
  using sighash_binds [OF _ assms(2-)] assms(1) by blast

subsection \<open>Sample spends\<close>

text \<open>
  A stand-in for the hash, with 32-byte results that differ on inputs of different
  lengths, and for the key operations; a tree of a claim and a refund leaf.
\<close>

definition sample_crypto :: taproot_crypto where
  "sample_crypto = \<lparr>tc_sha256 = \<lambda>m. take 32 (of_nat (length m) # m @ replicate 32 0),
     tc_xonly_ok = \<lambda>k. length k = 32, tc_scalar_ok = \<lambda>_. True, tc_add_tweak = \<lambda>k t. Some (k, Even)\<rparr>"

definition sample_key :: "u8 list" where "sample_key = replicate 32 7"

definition claim_leaf :: parsed_swap_leaf where
  "claim_leaf = \<lparr>pl_signing_key = sample_key, pl_condition = Hashlock (tc_sha256 sample_crypto (replicate 32 1))\<rparr>"

definition refund_leaf :: parsed_swap_leaf where
  "refund_leaf = \<lparr>pl_signing_key = sample_key, pl_condition = Cltv 800000\<rparr>"

definition leaf_script :: "parsed_swap_leaf \<Rightarrow> u8 list" where
  "leaf_script leaf = script_bytes (leaf_instructions leaf)"

definition sample_tree :: tap_tree where
  "sample_tree = TapBranch (TapLeaf (leaf_script claim_leaf)) (TapLeaf (leaf_script refund_leaf))"

definition sample_block :: "parsed_swap_leaf \<Rightarrow> u8 list" where
  "sample_block other = path_control_block Even sample_key [tree_root sample_crypto (TapLeaf (leaf_script other))]"

definition sample_spend :: "u8 list list \<Rightarrow> transaction" where
  "sample_spend witness = new_transaction 2
     [\<lparr>ti_previous_txid = replicate 32 9, ti_previous_output = 1, ti_script_sig = [], ti_sequence = 0xfffffffe,
       ti_witness = witness\<rparr>]
     [\<lparr>to_value_sat = 90000, to_script_pubkey = [0x51]\<rparr>] 800000"

definition sample_prevouts :: "tx_output list" where
  "sample_prevouts = [\<lparr>to_value_sat = 100000, to_script_pubkey = 0x51 # 0x20 # sample_key\<rparr>]"

lemma sample_crypto_sel [simp]:
  "length (tc_sha256 sample_crypto m) = 32" "tc_xonly_ok sample_crypto k \<longleftrightarrow> length k = 32"
  "length sample_key = 32" "taproot_output_key sample_crypto k r = Inr (k, Even)"
  by (simp_all add: sample_crypto_def sample_key_def taproot_output_key_def)

lemma sample_leaf_ok: "leaf_ok (tc_xonly_ok sample_crypto) claim_leaf" "leaf_ok (tc_xonly_ok sample_crypto) refund_leaf"
  by (simp_all add: leaf_ok_def claim_leaf_def refund_leaf_def)

lemma sample_leaf_parses:
  assumes "leaf \<in> {claim_leaf, refund_leaf}"
  shows "parse_swap_leaf_script (tc_xonly_ok sample_crypto) (leaf_script leaf) = Inr leaf"
    "length (leaf_script leaf) \<le> MAX_SCRIPT_BYTES"
proof -
  have ok: "leaf_ok (tc_xonly_ok sample_crypto) leaf" using assms sample_leaf_ok by blast
  show "parse_swap_leaf_script (tc_xonly_ok sample_crypto) (leaf_script leaf) = Inr leaf"
    unfolding leaf_script_def by (rule parse_leaf_instructions [OF leaf_bytes [OF ok] ok])
  show "length (leaf_script leaf) \<le> MAX_SCRIPT_BYTES"
    using leaf_bytes [OF ok] by (auto simp: leaf_script_def parse_swap_script_def split: if_splits)
qed

lemma sample_paths:
  "(leaf_script claim_leaf, [tree_root sample_crypto (TapLeaf (leaf_script refund_leaf))]) \<in> set (leaf_paths sample_crypto sample_tree)"
  "(leaf_script refund_leaf, [tree_root sample_crypto (TapLeaf (leaf_script claim_leaf))]) \<in> set (leaf_paths sample_crypto sample_tree)"
  by (simp_all add: sample_tree_def)

lemma sample_block_verifies:
  assumes "leaf = claim_leaf \<and> other = refund_leaf \<or> leaf = refund_leaf \<and> other = claim_leaf"
  shows "verify_control_block sample_crypto sample_key (leaf_script leaf) (sample_block other) = Inr ()"
  unfolding sample_block_def
  by (rule path_control_block_verifies [where tree = sample_tree])
    (use assms sample_paths sample_leaf_parses(2) in auto)

lemma sample_spend_message:
  assumes "leaf = claim_leaf \<and> other = refund_leaf \<or> leaf = refund_leaf \<and> other = claim_leaf"
  shows "\<exists>m. taproot_script_spend_signature_message sample_crypto (sample_spend w) sample_prevouts 0
    (leaf_script leaf) (sample_block other) = Inr m"
proof -
  have leaf: "leaf \<in> {claim_leaf, refund_leaf}" using assms by blast
  have "hd (sample_block other) AND 0xfe = TAPROOT_LEAF_VERSION" "sample_block other \<noteq> []"
    by (simp_all add: sample_block_def path_control_block_def leaf_version_bits)
  then have "validate_taproot_spend_inputs sample_crypto (sample_spend w) sample_prevouts 0
      (leaf_script leaf) (sample_block other) = Inr ()"
    using sample_leaf_parses [OF leaf] sample_block_verifies [OF assms]
    by (simp add: validate_taproot_spend_inputs_def sample_spend_def sample_prevouts_def new_transaction_def
        taproot_output_key_from_script_pubkey_def Let_def tx_limits)
  moreover note sample_leaf_parses(2) [OF leaf]
  ultimately show ?thesis
    by (simp add: taproot_script_spend_signature_message_def common_message_def tapleaf_hash_def leaf_version_bits
        sample_spend_def new_transaction_def write_output_def tx_limits)
qed

lemma sample_sighash:
  assumes "leaf = claim_leaf \<and> other = refund_leaf \<or> leaf = refund_leaf \<and> other = claim_leaf"
  shows "\<exists>h. taproot_script_spend_sighash sample_crypto (sample_spend w) sample_prevouts 0
    (leaf_script leaf) (sample_block other) = Inr h"
  using sample_spend_message [OF assms, of w] by (auto simp: taproot_script_spend_sighash_def)

lemma sample_claim_validates:
  "\<exists>v. validate_taproot_claim_witness sample_crypto
     (sample_spend [replicate 64 5, replicate 32 1, leaf_script claim_leaf, sample_block refund_leaf])
     sample_prevouts 0 (leaf_script claim_leaf) (sample_block refund_leaf) = Inr v"
  using sample_sighash [of claim_leaf refund_leaf
      "[replicate 64 5, replicate 32 1, leaf_script claim_leaf, sample_block refund_leaf]"]
    sample_leaf_parses(1) [of claim_leaf]
  by (auto simp: validate_taproot_claim_witness_def sample_spend_def new_transaction_def exact_default_signature_def
      verify_preimage_def constant_time_equal_iff claim_leaf_def [THEN arg_cong, of pl_condition])

lemma sample_refund_validates:
  "\<exists>v. validate_taproot_refund_witness sample_crypto
     (sample_spend [replicate 64 5, leaf_script refund_leaf, sample_block claim_leaf])
     sample_prevouts 0 (leaf_script refund_leaf) (sample_block claim_leaf) = Inr v"
  using sample_sighash [of refund_leaf claim_leaf "[replicate 64 5, leaf_script refund_leaf, sample_block claim_leaf]"]
    sample_leaf_parses(1) [of refund_leaf]
  by (auto simp: validate_taproot_refund_witness_def sample_spend_def new_transaction_def exact_default_signature_def
      check_refund_lock_def check_cltv_def refund_leaf_def [THEN arg_cong, of pl_condition])

lemma sample_sha_inj:
  "inj_on (tc_sha256 sample_crypto) (committed_parts sample_crypto (sample_spend w) sample_prevouts (leaf_script claim_leaf))"
proof (rule inj_onI)
  fix x y
  let ?parts = "committed_parts sample_crypto (sample_spend w) sample_prevouts (leaf_script claim_leaf)"
  assume xy: "x \<in> ?parts" "y \<in> ?parts" "tc_sha256 sample_crypto x = tc_sha256 sample_crypto y"
  have h: "hd (tc_sha256 sample_crypto m) = of_nat (length m)" for m by (simp add: sample_crypto_def)
  have len: "(of_nat (length x) :: u8) = of_nat (length y)"
    using arg_cong [OF xy(3), of hd] by (simp only: h)
  have "length (leaf_script claim_leaf) = 73"
    by (simp add: leaf_script_def script_bytes_def leaf_instructions_def claim_leaf_def push_bytes_def)
  then have l: "length (leaf_message sample_crypto (leaf_script claim_leaf)) = 139"
    by (simp add: leaf_message_def Let_def write_compact_size_def)
  have p: "length (prevouts_bytes (sample_spend w) sample_prevouts) = 36"
    "length (amounts_bytes (sample_spend w) sample_prevouts) = 8"
    "length (script_pubkeys_bytes (sample_spend w) sample_prevouts) = 35"
    "length (sequences_bytes (sample_spend w) sample_prevouts) = 4"
    "length (concat (map output_bytes (t_outputs (sample_spend w)))) = 10"
    by (simp_all add: prevouts_bytes_def amounts_bytes_def script_pubkeys_bytes_def sequences_bytes_def output_bytes_def
        sample_spend_def sample_prevouts_def new_transaction_def write_var_bytes_def write_compact_size_def)
  show "x = y"
    using xy(1,2) len unfolding committed_parts_def by (elim insertE emptyE) (simp_all add: l p)
qed

theorem control_block_complete_witness:
  "verify_control_block sample_crypto sample_key (leaf_script claim_leaf) (sample_block refund_leaf) = Inr ()"
  unfolding sample_block_def
  using sample_paths(1) sample_leaf_parses(2)
  by (intro control_block_complete [where tree = sample_tree]) simp_all

theorem claim_witness_sound_witness:
  "\<exists>v preimage. validate_taproot_claim_witness sample_crypto
     (sample_spend [replicate 64 5, replicate 32 1, leaf_script claim_leaf, sample_block refund_leaf])
     sample_prevouts 0 (leaf_script claim_leaf) (sample_block refund_leaf) = Inr v
   \<and> parse_swap_leaf_script (tc_xonly_ok sample_crypto) (leaf_script claim_leaf)
        = Inr \<lparr>pl_signing_key = vw_signing_key v, pl_condition = Hashlock (tc_sha256 sample_crypto preimage)\<rparr>"
  using sample_claim_validates claim_witness_sound by blast

theorem refund_witness_sound_witness:
  "\<exists>v leaf. validate_taproot_refund_witness sample_crypto
     (sample_spend [replicate 64 5, leaf_script refund_leaf, sample_block claim_leaf])
     sample_prevouts 0 (leaf_script refund_leaf) (sample_block claim_leaf) = Inr v
   \<and> parse_swap_leaf_script (tc_xonly_ok sample_crypto) (leaf_script refund_leaf) = Inr leaf"
  using sample_refund_validates refund_witness_sound by blast

lemma sample_message_same:
  "taproot_script_spend_signature_message sample_crypto (sample_spend w) ps i script cb
     = taproot_script_spend_signature_message sample_crypto (sample_spend []) ps i script cb"
proof -
  have "strip_tx (sample_spend w) = strip_tx (sample_spend [])"
    by (simp add: strip_tx_def strip_witness_def sample_spend_def new_transaction_def)
  then show ?thesis by (metis script_message_stripped)
qed

theorem sighash_commits_witness:
  "\<exists>m. taproot_script_spend_signature_message sample_crypto (sample_spend []) sample_prevouts 0
       (leaf_script claim_leaf) (sample_block refund_leaf) = Inr m
     \<and> taproot_script_spend_signature_message sample_crypto (sample_spend [replicate 64 5]) sample_prevouts 0
       (leaf_script claim_leaf) (sample_block refund_leaf) = Inr m
     \<and> t_outputs (sample_spend []) = t_outputs (sample_spend [replicate 64 5])"
proof -
  obtain m where m: "taproot_script_spend_signature_message sample_crypto (sample_spend w) sample_prevouts 0
       (leaf_script claim_leaf) (sample_block refund_leaf) = Inr m" for w
    using sample_spend_message sample_message_same by metis
  have "committed_parts sample_crypto (sample_spend w) sample_prevouts (leaf_script claim_leaf)
      = committed_parts sample_crypto (sample_spend []) sample_prevouts (leaf_script claim_leaf)" for w
    by (simp add: committed_parts_def sample_spend_def new_transaction_def prevouts_bytes_def amounts_bytes_def
        script_pubkeys_bytes_def sequences_bytes_def sample_prevouts_def)
  then have "t_outputs (sample_spend []) = t_outputs (sample_spend [replicate 64 5])"
    using sighash_commits [OF _ m m] sample_sha_inj
    by (simp add: txids_ok_def sample_spend_def new_transaction_def)
  with m show ?thesis by blast
qed

end
