(* ===== verification/Scalars.thy ===== *)
theory Scalars
  imports Taproot
begin

text \<open>
  Arithmetic modulo the order of secp256k1 on 32-byte big-endian arrays, as
  \<open>immortal-core/src/mkt_swp_verify.rs\<close> does it for the public values of a MuSig2 session
  (\<open>scalar_add_mod\<close>, \<open>scalar_negate_mod\<close>, \<open>scalar_multiply_public\<close>, \<open>subtract_be\<close>,
  \<open>scalar_bytes_from_hash\<close>): a schoolbook sum with carries, a borrow chain and double-and-add.
  The byte routines are shown to refine arithmetic on natural numbers.
\<close>

section \<open>The byte routines\<close>

definition CURVE_ORDER :: "u8 list" where
  "CURVE_ORDER =
     [0xff, 0xff, 0xff, 0xff, 0xff, 0xff, 0xff, 0xff, 0xff, 0xff, 0xff, 0xff, 0xff, 0xff, 0xff, 0xfe,
      0xba, 0xae, 0xdc, 0xe6, 0xaf, 0x48, 0xa0, 0x3b, 0xbf, 0xd2, 0x5e, 0x8c, 0xd0, 0x36, 0x41, 0x41]"

text \<open>The loops run from the last index down to the first, which is a right fold.\<close>

definition subtract_step :: "u8 \<times> u8 \<Rightarrow> u8 list \<times> u16 \<Rightarrow> u8 list \<times> u16" where
  "subtract_step = (\<lambda>(l, r) (out, borrow).
     let minuend = ucast l :: u16; subtrahend = ucast r + borrow
     in if subtrahend \<le> minuend then (ucast (minuend - subtrahend) # out, 0)
        else (ucast (minuend + 256 - subtrahend) # out, 1))"

definition subtract_be :: "u8 list \<Rightarrow> u8 list \<Rightarrow> u8 list" where
  "subtract_be left right = fst (foldr subtract_step (zip left right) ([], 0))"

definition add_step :: "u8 \<times> u8 \<Rightarrow> u8 list \<times> u16 \<Rightarrow> u8 list \<times> u16" where
  "add_step = (\<lambda>(l, r) (out, carry).
     let v = ucast l + ucast r + carry :: u16 in (ucast v # out, drop_bit 8 v))"

definition scalar_add_mod :: "u8 list \<Rightarrow> u8 list \<Rightarrow> u8 list" where
  "scalar_add_mod left right =
     (let (digits, carry) = foldr add_step (zip left right) ([], 0);
          s = ucast carry # digits;
          order = 0 # CURVE_ORDER;
          reduced = (if bytes_le order s then subtract_be s order else s)
      in tl reduced)"

definition scalar_negate_mod :: "u8 list \<Rightarrow> u8 list" where
  "scalar_negate_mod v = (if v = replicate 32 0 then v else subtract_be CURVE_ORDER v)"

text \<open>One bit of double-and-add, then the bits of a byte from the highest down.\<close>

definition multiply_bit :: "u8 list \<Rightarrow> u8 \<Rightarrow> u8 list \<Rightarrow> nat \<Rightarrow> u8 list" where
  "multiply_bit right byte r i =
     (let doubled = scalar_add_mod r r
      in if drop_bit i byte AND 1 = 1 then scalar_add_mod doubled right else doubled)"

definition scalar_multiply_public :: "u8 list \<Rightarrow> u8 list \<Rightarrow> (verification_error, u8 list) result" where
  "scalar_multiply_public left right =
     (if bytes_le CURVE_ORDER left \<or> bytes_le CURVE_ORDER right
      then Inl (Crypto ''MuSig2 scalar multiplication input'')
      else Inr (foldl (\<lambda>r byte. foldl (multiply_bit right byte) r (rev [0..<8])) (replicate 32 0) left))"

definition scalar_bytes_from_hash :: "u8 list \<Rightarrow> u8 list" where
  "scalar_bytes_from_hash hash = (if bytes_le CURVE_ORDER hash then subtract_be hash CURVE_ORDER else hash)"

section \<open>Big-endian values\<close>

lemma unat_ucast_mod: "unat (ucast w :: 'b::len word) = unat w mod 2 ^ LENGTH('b)"
  by (simp add: unsigned_ucast_eq take_bit_eq_mod)

definition be_nat :: "u8 list \<Rightarrow> nat" where
  "be_nat bs = foldl (\<lambda>a b. 256 * a + unat b) 0 bs"

lemma be_nat_le_nat: "be_nat bs = le_nat (rev bs)"
  by (induction bs rule: rev_induct) (simp_all add: be_nat_def)

lemma be_nat_Nil [simp]: "be_nat [] = 0"
  by (simp add: be_nat_def)

lemma be_nat_Cons [simp]: "be_nat (b # bs) = unat b * 256 ^ length bs + be_nat bs"
  by (simp add: be_nat_le_nat le_nat_append)

lemma be_nat_snoc: "be_nat (bs @ [b]) = 256 * be_nat bs + unat b"
  by (simp add: be_nat_def)

lemma be_nat_less: "be_nat bs < 256 ^ length bs"
  using le_nat_less [of "rev bs"] by (simp add: be_nat_le_nat)

lemma be_nat_inj: "\<lbrakk>length xs = length ys; be_nat xs = be_nat ys\<rbrakk> \<Longrightarrow> xs = ys"
  using le_nat_inj [of "rev xs" "rev ys"] by (simp add: be_nat_le_nat)

lemma be_nat_zeros [simp]: "be_nat (replicate k 0) = 0"
  by (induction k) simp_all

lemma be_nat_ones: "be_nat (replicate k 255) = 256 ^ k - 1"
proof (induction k)
  case (Suc k)
  have "(1 :: nat) \<le> 256 ^ k" by simp
  with Suc show ?case by simp
qed simp

lemma be_nat_eq_0: "be_nat bs = 0 \<longleftrightarrow> bs = replicate (length bs) 0"
  using be_nat_inj [of bs "replicate (length bs) 0"] be_nat_zeros [of "length bs"]
  by (metis length_replicate)

lemma bytes_le_be_nat: "length xs = length ys \<Longrightarrow> bytes_le xs ys \<longleftrightarrow> be_nat xs \<le> be_nat ys"
proof (induction xs ys rule: list_induct2)
  case (Cons x xs y ys)
  have l: "be_nat xs < 256 ^ length ys" "be_nat ys < 256 ^ length ys"
    using be_nat_less [of xs] be_nat_less [of ys] Cons.hyps by simp_all
  have less: "unat a * 256 ^ length ys + m < unat b * 256 ^ length ys + k"
    if "a < b" "m < 256 ^ length ys" for a b :: u8 and m k
  proof -
    have "(unat a + 1) * 256 ^ length ys \<le> unat b * 256 ^ length ys"
      using that(1) by (intro mult_right_mono) (simp_all add: word_less_nat_alt)
    then show ?thesis using that(2) by (simp add: algebra_simps)
  qed
  consider "x < y" | "x = y" | "y < x" by force
  then show ?case
    by cases (use Cons l less [of x y "be_nat xs" "be_nat ys"] less [of y x "be_nat ys" "be_nat xs"] in auto)
qed simp

text \<open>The order of the curve as a number.\<close>

definition curve_n :: nat where "curve_n = be_nat CURVE_ORDER"

lemma length_CURVE_ORDER [simp]: "length CURVE_ORDER = 32"
  by (simp add: CURVE_ORDER_def)

lemma curve_n_value: "curve_n = 0xfffffffffffffffffffffffffffffffebaaedce6af48a03bbfd25e8cd0364141"
  by (simp add: curve_n_def CURVE_ORDER_def)

lemma curve_n_bounds: "1 < curve_n" "curve_n < 256 ^ 32" "256 ^ 32 < 2 * curve_n"
  by (simp_all add: curve_n_value)

text \<open>Canonical scalars: 32 bytes below the order.\<close>

definition scalar32 :: "u8 list \<Rightarrow> bool" where
  "scalar32 s \<longleftrightarrow> length s = 32 \<and> be_nat s < curve_n"

lemma scalar32_iff_bytes: "length s = 32 \<Longrightarrow> scalar32 s \<longleftrightarrow> \<not> bytes_le CURVE_ORDER s"
  by (simp add: scalar32_def bytes_le_be_nat curve_n_def not_le)

lemma scalar32_zeros [simp]: "scalar32 (replicate 32 0)"
  using curve_n_bounds(1) by (simp add: scalar32_def)

lemma scalar32_inj: "\<lbrakk>scalar32 a; scalar32 b; be_nat a = be_nat b\<rbrakk> \<Longrightarrow> a = b"
  by (auto simp: scalar32_def intro: be_nat_inj)

section \<open>The routines compute modulo the order\<close>

lemma length_foldr_step:
  assumes "\<And>p st. length (fst (f p st)) = Suc (length (fst st))"
  shows "length (fst (foldr f ps st)) = length ps + length (fst st)"
  by (induction ps) (simp_all add: assms)

lemma length_add_step: "length (fst (add_step p st)) = Suc (length (fst st))"
  by (simp add: add_step_def Let_def split: prod.split)

lemma length_subtract_step: "length (fst (subtract_step p st)) = Suc (length (fst st))"
  by (simp add: subtract_step_def Let_def split: prod.split)

lemma length_subtract_be: "length left = length right \<Longrightarrow> length (subtract_be left right) = length left"
  by (simp add: subtract_be_def length_foldr_step [OF length_subtract_step])

lemma u16_of_bytes:
  fixes l r :: u8 and c :: u16
  assumes "unat c \<le> 1"
  shows "unat (ucast l + ucast r + c) = unat l + unat r + unat c"
    "unat (ucast r + c) = unat r + unat c" "unat (ucast l :: u16) = unat l"
proof -
  have b: "unat l < 256" "unat r < 256" using unat_bound [of l] unat_bound [of r] by simp_all
  then show "unat (ucast l :: u16) = unat l" by (simp add: unat_ucast_mod)
  from b have "unat (ucast l :: u16) = unat l" "unat (ucast r :: u16) = unat r" by (simp_all add: unat_ucast_mod)
  then show "unat (ucast l + ucast r + c) = unat l + unat r + unat c" "unat (ucast r + c) = unat r + unat c"
    using assms b by (simp_all add: unat_word_ariths)
qed

lemma add_fold:
  assumes "length left = length right" "foldr add_step (zip left right) ([], 0) = (digits, carry)"
  shows "unat carry \<le> 1 \<and> length digits = length left
    \<and> unat carry * 256 ^ length left + be_nat digits = be_nat left + be_nat right"
  using assms
proof (induction left right arbitrary: digits carry rule: list_induct2)
  case (Cons l left r right)
  obtain d c where f: "foldr add_step (zip left right) ([], 0) = (d, c)" by fastforce
  note IH = Cons.IH [OF f]
  define v where "v = (ucast l + ucast r + c :: u16)"
  have dc: "digits = ucast v # d" "carry = drop_bit 8 v"
    using Cons.prems f by (simp_all add: add_step_def v_def Let_def)
  have v: "unat v = unat l + unat r + unat c" using IH u16_of_bytes(1) [of c l r] by (simp add: v_def)
  have "unat l < 256" "unat r < 256" using unat_bound [of l] unat_bound [of r] by simp_all
  then have "unat v < 512" using v IH by linarith
  then have "unat v div 256 \<le> 1" by linarith
  moreover have "unat (drop_bit 8 v) = unat v div 256"
    using unat_drop_bit_eq [of 8 v] by (simp add: drop_bit_eq_div del: drop_bit_numeral_minus_bit1)
  ultimately have c1: "unat (drop_bit 8 v) = unat v div 256" "unat v div 256 \<le> 1" by blast+
  have lo: "unat (ucast v :: u8) = unat v mod 256" by (simp add: unat_ucast_mod)
  have split: "256 * (unat v div 256) + unat v mod 256 = unat v" by simp
  let ?B = "256 ^ length left :: nat"
  have gen: "q * (256 * ?B) + r * ?B = (256 * q + r) * ?B" for q r by (simp add: algebra_simps)
  have "unat carry * (256 * ?B) + unat (ucast v :: u8) * ?B = unat v * ?B"
    by (simp only: dc(2) c1(1) lo gen split)
  moreover have "unat v * ?B = unat l * ?B + unat r * ?B + unat c * ?B" by (simp add: v algebra_simps)
  ultimately show ?case using IH Cons.hyps c1 dc by simp
qed simp

lemma subtract_fold:
  assumes "length left = length right" "foldr subtract_step (zip left right) ([], 0) = (out, borrow)"
  shows "unat borrow \<le> 1 \<and> length out = length left
    \<and> be_nat out + be_nat right = be_nat left + unat borrow * 256 ^ length left"
  using assms
proof (induction left right arbitrary: out borrow rule: list_induct2)
  case (Cons l left r right)
  obtain d c where f: "foldr subtract_step (zip left right) ([], 0) = (d, c)" by fastforce
  note IH = Cons.IH [OF f]
  have lr: "unat l < 256" "unat r < 256" using unat_bound [of l] unat_bound [of r] by simp_all
  define m s where "m = (ucast l :: u16)" and "s = (ucast r + c :: u16)"
  have ms: "unat m = unat l" "unat s = unat r + unat c"
    using IH u16_of_bytes(2,3) [of c] by (simp_all add: m_def s_def)
  have ob: "(out, borrow) = (if s \<le> m then (ucast (m - s) # d, 0) else (ucast (m + 256 - s) # d, 1))"
    using Cons.prems unfolding m_def s_def zip_Cons_Cons foldr_Cons comp_def f
    by (simp add: subtract_step_def Let_def)
  let ?B = "256 ^ length left :: nat"
  have digit: "\<exists>x. out = x # d \<and> unat borrow \<le> 1 \<and> unat x + unat s = unat m + 256 * unat borrow"
  proof (cases "s \<le> m")
    case True
    then have "unat (m - s) = unat m - unat s" by (simp add: unat_sub)
    then show ?thesis using True ob ms lr by (simp add: unat_ucast_mod word_le_nat_alt)
  next
    case False
    then have lt: "unat m < unat s" by (simp add: word_le_nat_alt)
    have "unat (m + 256) = unat m + 256" using ms lr by (simp add: unat_word_ariths)
    moreover have "s \<le> m + 256" using calculation ms lr IH by (simp add: word_le_nat_alt)
    ultimately have "unat (m + 256 - s) = unat m + 256 - unat s" by (simp add: unat_sub)
    then show ?thesis using False ob ms lr lt IH by (simp add: unat_ucast_mod)
  qed
  then obtain x where x: "out = x # d" "unat borrow \<le> 1" "unat x + unat s = unat m + 256 * unat borrow" by blast
  have "unat x * ?B + unat r * ?B + unat c * ?B = unat l * ?B + unat borrow * (256 * ?B)"
    using arg_cong [OF x(3), of "\<lambda>k. k * ?B"] by (simp add: ms algebra_simps)
  then show ?case using IH Cons.hyps x by simp
qed simp

lemma be_nat_subtract_be:
  assumes "length left = length right" "be_nat right \<le> be_nat left"
  shows "be_nat (subtract_be left right) = be_nat left - be_nat right"
proof -
  obtain out borrow where f: "foldr subtract_step (zip left right) ([], 0) = (out, borrow)" by fastforce
  note s = subtract_fold [OF assms(1) f]
  have "be_nat out < 256 ^ length left" using be_nat_less [of out] s by simp
  then have "unat borrow = 0" using s assms(2) by (cases "unat borrow") auto
  then have "be_nat out + be_nat right = be_nat left" using s by simp
  then show ?thesis using f by (simp add: subtract_be_def)
qed

lemma scalar_add_mod_value:
  assumes "scalar32 a" "scalar32 b"
  shows "scalar32 (scalar_add_mod a b)" "be_nat (scalar_add_mod a b) = (be_nat a + be_nat b) mod curve_n"
proof -
  obtain digits carry where f: "foldr add_step (zip a b) ([], 0) = (digits, carry)" by fastforce
  have ab: "length a = 32" "length b = 32" "be_nat a < curve_n" "be_nat b < curve_n"
    using assms by (simp_all add: scalar32_def)
  note d = add_fold [OF _ f]
  define s where "s = (ucast carry :: u8) # digits"
  have c: "unat (ucast carry :: u8) = unat carry" using d ab by (simp add: unat_ucast_mod)
  have s: "length s = 33" "be_nat s = be_nat a + be_nat b" using d ab by (simp_all add: s_def c)
  define t where "t = (if bytes_le (0 # CURVE_ORDER) s then subtract_be s (0 # CURVE_ORDER) else s)"
  have le: "bytes_le (0 # CURVE_ORDER) s \<longleftrightarrow> curve_n \<le> be_nat s"
    using s by (simp add: bytes_le_be_nat curve_n_def)
  have t: "length t = 33" "be_nat t = (be_nat a + be_nat b) mod curve_n"
  proof -
    show "length t = 33" using s by (simp add: t_def length_subtract_be)
    have "be_nat t = (if curve_n \<le> be_nat s then be_nat s - curve_n else be_nat s)"
      using s by (simp only: t_def le if_split) (simp add: be_nat_subtract_be curve_n_def)
    then show "be_nat t = (be_nat a + be_nat b) mod curve_n"
      using s ab by (simp add: mod_if [of "be_nat a + be_nat b"] le_mod_geq)
  qed
  obtain x xs where txs: "t = x # xs" "length xs = 32" using t(1) by (cases t) auto
  have "be_nat t < curve_n" using t(2) curve_n_bounds(1) by simp
  then have "unat x * 256 ^ 32 < 1 * 256 ^ 32" using txs curve_n_bounds(2) by simp
  then have "unat x = 0" by simp
  moreover have "scalar_add_mod a b = tl t" using f by (simp add: scalar_add_mod_def s_def t_def Let_def)
  ultimately have "be_nat (scalar_add_mod a b) = be_nat t" "length (scalar_add_mod a b) = 32"
    using txs by simp_all
  then show "scalar32 (scalar_add_mod a b)" "be_nat (scalar_add_mod a b) = (be_nat a + be_nat b) mod curve_n"
    using t(2) curve_n_bounds(1) by (simp_all add: scalar32_def)
qed

lemma scalar_negate_mod_value:
  assumes "scalar32 a"
  shows "scalar32 (scalar_negate_mod a)" "be_nat (scalar_negate_mod a) = (curve_n - be_nat a) mod curve_n"
proof -
  have a: "length a = 32" "be_nat a < curve_n" using assms by (simp_all add: scalar32_def)
  have "scalar32 (scalar_negate_mod a) \<and> be_nat (scalar_negate_mod a) = (curve_n - be_nat a) mod curve_n"
  proof (cases "be_nat a = 0")
    case True
    then have "a = replicate 32 0" using a be_nat_eq_0 [of a] by simp
    then show ?thesis by (simp add: scalar_negate_mod_def)
  next
    case False
    then have ne: "a \<noteq> replicate 32 0" by auto
    have "be_nat (subtract_be CURVE_ORDER a) = curve_n - be_nat a"
      using a by (simp add: be_nat_subtract_be curve_n_def)
    then show ?thesis using False a ne by (simp add: scalar_negate_mod_def scalar32_def length_subtract_be)
  qed
  then show "scalar32 (scalar_negate_mod a)" "be_nat (scalar_negate_mod a) = (curve_n - be_nat a) mod curve_n"
    by simp_all
qed

lemma scalar_bytes_from_hash_value:
  assumes "length h = 32"
  shows "scalar32 (scalar_bytes_from_hash h)" "be_nat (scalar_bytes_from_hash h) = be_nat h mod curve_n"
proof -
  have "be_nat h < 2 * curve_n" using be_nat_less [of h] assms curve_n_bounds(3) by simp
  moreover have "bytes_le CURVE_ORDER h \<longleftrightarrow> curve_n \<le> be_nat h" using assms by (simp add: bytes_le_be_nat curve_n_def)
  ultimately have "be_nat (scalar_bytes_from_hash h) = be_nat h mod curve_n \<and> length (scalar_bytes_from_hash h) = 32"
    using assms
    by (cases "curve_n \<le> be_nat h")
      (simp_all add: scalar_bytes_from_hash_def be_nat_subtract_be length_subtract_be le_mod_geq flip: curve_n_def)
  then show "scalar32 (scalar_bytes_from_hash h)" "be_nat (scalar_bytes_from_hash h) = be_nat h mod curve_n"
    using curve_n_bounds(1) by (simp_all add: scalar32_def)
qed

lemma multiply_bit_value:
  assumes "scalar32 r" "scalar32 right" "be_nat r = k * be_nat right mod curve_n"
  shows "scalar32 (multiply_bit right byte r i)
    \<and> be_nat (multiply_bit right byte r i) = (2 * k + of_bool (bit byte i)) * be_nat right mod curve_n"
proof -
  let ?d = "scalar_add_mod r r"
  have d: "scalar32 ?d" "be_nat ?d = 2 * k * be_nat right mod curve_n"
    using scalar_add_mod_value [OF assms(1,1)]
    by (simp_all add: assms(3) mod_add_eq mult_2 add_mult_distrib)
  have "be_nat (scalar_add_mod ?d right) = (2 * k * be_nat right + be_nat right) mod curve_n"
    using scalar_add_mod_value(2) [OF d(1) assms(2)] d(2) by (simp add: mod_add_left_eq)
  moreover have "drop_bit i byte AND 1 = 1 \<longleftrightarrow> bit byte i"
    by (simp add: and_one_eq bit_iff_odd_drop_bit mod2_eq_if)
  ultimately show ?thesis
    using d scalar_add_mod_value(1) [OF d(1) assms(2)]
    by (cases "bit byte i") (simp_all add: multiply_bit_def Let_def algebra_simps)
qed

lemma take_bit_Suc_top:
  "unat (byte :: u8) mod 2 ^ Suc m = of_bool (bit byte m) * 2 ^ m + unat byte mod 2 ^ m"
proof -
  have "unat byte mod (2 ^ m * 2) = 2 ^ m * (unat byte div 2 ^ m mod 2) + unat byte mod 2 ^ m"
    by (rule mod_mult2_eq)
  moreover have "unat byte div 2 ^ m mod 2 = of_bool (bit byte m)"
    using bit_unsigned_iff [of byte m, where 'a = nat] by (auto simp: mod2_eq_if bit_iff_odd)
  ultimately show ?thesis by (simp add: mult.commute)
qed

lemma multiply_bits_value:
  assumes "scalar32 r" "scalar32 right" "be_nat r = k * be_nat right mod curve_n"
  shows "scalar32 (foldl (multiply_bit right byte) r (rev [0..<m]))
    \<and> be_nat (foldl (multiply_bit right byte) r (rev [0..<m]))
        = (2 ^ m * k + unat byte mod 2 ^ m) * be_nat right mod curve_n"
  using assms
proof (induction m arbitrary: r k)
  case (Suc m)
  note b = multiply_bit_value [OF Suc.prems, of byte m]
  have "2 ^ m * (2 * k + of_bool (bit byte m)) + unat byte mod 2 ^ m = 2 ^ Suc m * k + unat byte mod 2 ^ Suc m"
    unfolding take_bit_Suc_top by (simp add: algebra_simps)
  then show ?case using Suc.IH [OF conjunct1 [OF b] Suc.prems(2) conjunct2 [OF b]] by simp
qed simp

lemma multiply_bytes_value:
  assumes "scalar32 r" "scalar32 right" "be_nat r = k * be_nat right mod curve_n"
  shows "let r' = foldl (\<lambda>r byte. foldl (multiply_bit right byte) r (rev [0..<8])) r bytes
    in scalar32 r' \<and> be_nat r' = (k * 256 ^ length bytes + be_nat bytes) * be_nat right mod curve_n"
  using assms
proof (induction bytes arbitrary: r k)
  case (Cons b bs)
  have "unat b mod 256 = unat b" using unat_bound [of b] by simp
  then have r: "scalar32 (foldl (multiply_bit right b) r (rev [0..<8]))"
    "be_nat (foldl (multiply_bit right b) r (rev [0..<8])) = (256 * k + unat b) * be_nat right mod curve_n"
    using multiply_bits_value [OF Cons.prems, of b 8] by simp_all
  show ?case using Cons.IH [OF r(1) Cons.prems(2) r(2)]
    by (simp only: Let_def foldl_Cons be_nat_Cons length_Cons power_Suc) (simp add: algebra_simps)
qed simp

lemma scalar_multiply_public_value:
  assumes "scalar32 a" "scalar32 b"
  shows "\<exists>c. scalar_multiply_public a b = Inr c \<and> scalar32 c \<and> be_nat c = be_nat a * be_nat b mod curve_n"
proof -
  have "length a = 32" "length b = 32" using assms by (simp_all add: scalar32_def)
  then have "\<not> bytes_le CURVE_ORDER a" "\<not> bytes_le CURVE_ORDER b" using assms scalar32_iff_bytes by auto
  then show ?thesis
    using multiply_bytes_value [OF scalar32_zeros assms(2), of 0 a]
    by (simp add: scalar_multiply_public_def Let_def)
qed

section \<open>Properties\<close>

text \<open>C31: the byte routines refine arithmetic modulo the curve order: on canonical scalars
  addition, negation and multiplication return the canonical scalar of the sum, the negative and
  the product, multiplication accepts nothing else, and reducing a hash gives its residue.\<close>

theorem scalar_refinement:
  assumes "scalar32 a" "scalar32 b" "length h = 32" "length x = 32" "length y = 32"
  shows "scalar32 (scalar_add_mod a b) \<and> be_nat (scalar_add_mod a b) = (be_nat a + be_nat b) mod curve_n
    \<and> scalar32 (scalar_negate_mod a) \<and> (be_nat a + be_nat (scalar_negate_mod a)) mod curve_n = 0
    \<and> scalar32 (scalar_bytes_from_hash h) \<and> be_nat (scalar_bytes_from_hash h) = be_nat h mod curve_n
    \<and> (scalar_multiply_public x y = Inr z \<longleftrightarrow>
         scalar32 x \<and> scalar32 y \<and> scalar32 z \<and> be_nat z = be_nat x * be_nat y mod curve_n)"
proof -
  have "be_nat a + (curve_n - be_nat a) = curve_n" using assms(1) by (simp add: scalar32_def)
  then have "(be_nat a + be_nat (scalar_negate_mod a)) mod curve_n = 0"
    by (simp add: scalar_negate_mod_value [OF assms(1)] mod_add_right_eq)
  moreover have "scalar_multiply_public x y = Inr z \<longleftrightarrow>
      scalar32 x \<and> scalar32 y \<and> scalar32 z \<and> be_nat z = be_nat x * be_nat y mod curve_n"
  proof (cases "scalar32 x \<and> scalar32 y")
    case True
    then show ?thesis using scalar_multiply_public_value [of x y] scalar32_inj by force
  next
    case False
    then show ?thesis using assms(4,5) by (auto simp: scalar_multiply_public_def scalar32_iff_bytes)
  qed
  ultimately show ?thesis
    using scalar_add_mod_value [OF assms(1,2)] scalar_negate_mod_value(1) [OF assms(1)]
      scalar_bytes_from_hash_value [OF assms(3)] by blast
qed

theorem scalar_refinement_witness:
  "be_nat (scalar_add_mod (replicate 31 0 @ [200]) (replicate 31 0 @ [100])) = 300
   \<and> be_nat (scalar_bytes_from_hash (replicate 32 255)) = (256 ^ 32 - 1) mod curve_n"
proof -
  have s: "scalar32 (replicate 31 0 @ [200])" "scalar32 (replicate 31 0 @ [100])"
    "be_nat (replicate 31 0 @ [200]) = 200" "be_nat (replicate 31 0 @ [100]) = 100"
    "be_nat (replicate 32 255) = 256 ^ 32 - 1"
    by (simp_all add: scalar32_def be_nat_snoc curve_n_value be_nat_ones)
  then show ?thesis
    using scalar_refinement [OF s(1,2), of "replicate 32 255" "replicate 32 0" "replicate 32 0"]
    by (simp add: curve_n_value)
qed

end
