(* ===== verification/Musig2.thy ===== *)
theory Musig2
  imports Scalars
begin

text \<open>
  The MuSig2 signer of \<open>immortal-core/src/mkt_swp_verify.rs\<close> (BIP 327): key aggregation with
  tweaks, nonce generation, partial signing with single-use nonces, verification of partial
  signatures and their aggregation. Points, secret-key operations and the final BIP 340 check
  come from the \<open>secp256k1\<close> crate and are fields of \<open>secp\<close>; an x-only key is its 32
  bytes. Overwriting of dead local variables is left out; that of the nonce is kept.
\<close>

section \<open>Points and scalars\<close>

record 'p secp =
  sp_taproot :: taproot_crypto
  sp_secret_ok :: "u8 list \<Rightarrow> bool"
  sp_secret_add :: "u8 list \<Rightarrow> u8 list \<Rightarrow> u8 list option"
  sp_secret_mul :: "u8 list \<Rightarrow> u8 list \<Rightarrow> u8 list option"
  sp_secret_negate :: "u8 list \<Rightarrow> u8 list"
  sp_public :: "u8 list \<Rightarrow> 'p"
  sp_combine :: "'p list \<Rightarrow> 'p option"
  sp_mul :: "'p \<Rightarrow> u8 list \<Rightarrow> 'p option"
  sp_add_exp :: "'p \<Rightarrow> u8 list \<Rightarrow> 'p option"
  sp_negate :: "'p \<Rightarrow> 'p"
  sp_serialize :: "'p \<Rightarrow> u8 list"
  sp_from_slice :: "u8 list \<Rightarrow> 'p option"
  sp_xonly :: "'p \<Rightarrow> u8 list \<times> parity"
  sp_verify :: "u8 list \<Rightarrow> u8 list \<Rightarrow> u8 list \<Rightarrow> bool"

definition MAX_MUSIG_KEYS :: nat where "MAX_MUSIG_KEYS = 64"
definition MAX_MUSIG_MESSAGE_BYTES :: nat where "MAX_MUSIG_MESSAGE_BYTES = 4096"
definition MAX_MUSIG_EXTRA_INPUT_BYTES :: nat where "MAX_MUSIG_EXTRA_INPUT_BYTES = 1024"
definition MAX_MUSIG_TWEAKS :: nat where "MAX_MUSIG_TWEAKS = 8"

abbreviation SCALAR_ZERO :: "u8 list" where "SCALAR_ZERO \<equiv> replicate 32 0"
abbreviation SCALAR_ONE :: "u8 list" where "SCALAR_ONE \<equiv> replicate 31 0 @ [1]"

abbreviation musig_hash :: "'p secp \<Rightarrow> string \<Rightarrow> u8 list \<Rightarrow> u8 list" where
  "musig_hash c \<equiv> tagged_hash (sp_taproot c)"

datatype 'p aggregate_point = Infinity | Point 'p

definition aggregate_add ::
    "'p secp \<Rightarrow> 'p aggregate_point \<Rightarrow> 'p aggregate_point \<Rightarrow> (verification_error, 'p aggregate_point) result" where
  "aggregate_add c a b = (case (a, b) of
     (Infinity, point) \<Rightarrow> Inr point
   | (point, Infinity) \<Rightarrow> Inr point
   | (Point left, Point right) \<Rightarrow>
       (case sp_combine c [left, right] of Some point \<Rightarrow> Inr (Point point) | None \<Rightarrow> Inr Infinity))"

definition aggregate_multiply ::
    "'p secp \<Rightarrow> 'p aggregate_point \<Rightarrow> u8 list \<Rightarrow> (verification_error, 'p aggregate_point) result" where
  "aggregate_multiply c a scalar =
     (if scalar = SCALAR_ZERO then Inr Infinity
      else (case a of
              Infinity \<Rightarrow> Inr Infinity
            | Point point \<Rightarrow>
                try_then (ok_or (sp_mul c point scalar) (Crypto ''MuSig2 point multiplication''))
                  (\<lambda>p. Inr (Point p))))"

fun aggregate_negate :: "'p secp \<Rightarrow> 'p aggregate_point \<Rightarrow> 'p aggregate_point" where
  "aggregate_negate c Infinity = Infinity"
| "aggregate_negate c (Point point) = Point (sp_negate c point)"

fun serialize_extended :: "'p secp \<Rightarrow> 'p aggregate_point \<Rightarrow> u8 list" where
  "serialize_extended c Infinity = replicate 33 0"
| "serialize_extended c (Point point) = sp_serialize c point"

definition aggregate_point_from_extended ::
    "'p secp \<Rightarrow> u8 list \<Rightarrow> (verification_error, 'p aggregate_point) result" where
  "aggregate_point_from_extended c bytes =
     (if bytes = replicate 33 0 then Inr Infinity
      else try_then (ok_or (sp_from_slice c bytes) (Crypto ''MuSig2 aggregate public nonce'')) (\<lambda>p. Inr (Point p)))"

definition generator_point :: "'p secp \<Rightarrow> (verification_error, 'p) result" where
  "generator_point c =
     try_then (ensure (sp_secret_ok c SCALAR_ONE) (Crypto ''generator scalar'')) (\<lambda>_. Inr (sp_public c SCALAR_ONE))"

definition point_from_scalar :: "'p secp \<Rightarrow> u8 list \<Rightarrow> (verification_error, 'p aggregate_point) result" where
  "point_from_scalar c v =
     (if v = SCALAR_ZERO then Inr Infinity
      else try_then (ensure (sp_secret_ok c v) (Crypto ''MuSig2 scalar point'')) (\<lambda>_. Inr (Point (sp_public c v))))"

definition point_multiply :: "'p secp \<Rightarrow> 'p \<Rightarrow> u8 list \<Rightarrow> (verification_error, 'p aggregate_point) result" where
  "point_multiply c point scalar = aggregate_multiply c (Point point) scalar"

definition multiply_secret_term :: "'p secp \<Rightarrow> u8 list \<Rightarrow> u8 list \<Rightarrow> (verification_error, u8 list option) result" where
  "multiply_secret_term c secret scalar =
     (if scalar = SCALAR_ZERO then Inr None
      else try_then (ok_or (sp_secret_mul c secret scalar) (Crypto ''MuSig2 secret scalar multiplication''))
             (\<lambda>s. Inr (Some s)))"

definition add_secret_terms ::
    "'p secp \<Rightarrow> u8 list option \<Rightarrow> u8 list option \<Rightarrow> (verification_error, u8 list option) result" where
  "add_secret_terms c left right = (case (left, right) of
     (None, right) \<Rightarrow> Inr right
   | (left, None) \<Rightarrow> Inr left
   | (Some l, Some r) \<Rightarrow> (case sp_secret_add c l r of Some s \<Rightarrow> Inr (Some s) | None \<Rightarrow> Inr None))"

definition scalar_from_hash :: "'p secp \<Rightarrow> u8 list \<Rightarrow> (verification_error, u8 list) result" where
  "scalar_from_hash c hash =
     try_then (ensure (tc_scalar_ok (sp_taproot c) (scalar_bytes_from_hash hash)) (Crypto ''scalar exceeds curve order''))
       (\<lambda>_. Inr (scalar_bytes_from_hash hash))"

section \<open>Key aggregation\<close>

definition musig2_key_material :: "'p secp \<Rightarrow> 'p list \<Rightarrow> u8 list list \<times> u8 list \<times> u8 list" where
  "musig2_key_material c keys =
     (let serialized = map (sp_serialize c) keys;
          list_hash = musig_hash c ''KeyAgg list'' (concat serialized);
          second = (case find (\<lambda>key. key \<noteq> serialized ! 0) serialized of
                      None \<Rightarrow> replicate 33 0
                    | Some key \<Rightarrow> key)
      in (serialized, list_hash, second))"

definition musig2_key_coefficient ::
    "'p secp \<Rightarrow> u8 list \<Rightarrow> u8 list \<Rightarrow> u8 list \<Rightarrow> (verification_error, u8 list) result" where
  "musig2_key_coefficient c key list_hash second_key =
     (if key = second_key then Inr SCALAR_ONE
      else scalar_from_hash c (musig_hash c ''KeyAgg coefficient'' (list_hash @ key)))"

definition combine_public_keys :: "'p secp \<Rightarrow> 'p list \<Rightarrow> string \<Rightarrow> (verification_error, 'p) result" where
  "combine_public_keys c keys label = ok_or (sp_combine c keys) (Crypto label)"

definition musig2_aggregate_plain_key :: "'p secp \<Rightarrow> 'p list \<Rightarrow> (verification_error, 'p) result" where
  "musig2_aggregate_plain_key c keys =
     (let (serialized, list_hash, second) = musig2_key_material c keys
      in try_then (try_map (\<lambda>(key, encoded).
             try_then (musig2_key_coefficient c encoded list_hash second) (\<lambda>coefficient.
             ok_or (sp_mul c key coefficient) (Crypto ''MuSig2 key coefficient''))) (zip keys serialized))
           (\<lambda>weighted. combine_public_keys c weighted ''MuSig2 aggregate key''))"

definition musig2_aggregate_key :: "'p secp \<Rightarrow> 'p list \<Rightarrow> (verification_error, u8 list) result" where
  "musig2_aggregate_key c keys =
     (if keys = [] \<or> MAX_MUSIG_KEYS < length keys then Inl (Bounds ''MuSig2 participant count'')
      else try_then (musig2_aggregate_plain_key c keys) (\<lambda>aggregate. Inr (fst (sp_xonly c aggregate))))"

record musig2_tweak =
  mt_value :: "u8 list"
  mt_xonly :: bool

definition musig2_taproot_tweak :: "'p secp \<Rightarrow> 'p list \<Rightarrow> u8 list \<Rightarrow> (verification_error, musig2_tweak) result" where
  "musig2_taproot_tweak c keys merkle_root =
     try_then (musig2_aggregate_key c keys) (\<lambda>internal_key.
     let v = musig_hash c ''TapTweak'' (internal_key @ merkle_root)
     in try_then (ensure (tc_scalar_ok (sp_taproot c) v) (Crypto ''taproot tweak exceeds curve order'')) (\<lambda>_.
        Inr \<lparr>mt_value = v, mt_xonly = True\<rparr>))"

record 'p musig2_key_context_rec =
  kc_key :: 'p
  kc_gacc_negative :: bool
  kc_tacc :: "u8 list"

text \<open>One round of the tweak loop of \<open>musig2_key_context\<close>, then the loop.\<close>

definition apply_tweak ::
    "'p secp \<Rightarrow> musig2_tweak \<Rightarrow> 'p musig2_key_context_rec \<Rightarrow> (verification_error, 'p musig2_key_context_rec) result" where
  "apply_tweak c tweak ctx =
     try_then (ensure (tc_scalar_ok (sp_taproot c) (mt_value tweak)) (Crypto ''MuSig2 tweak exceeds curve order'')) (\<lambda>_.
     let ctx1 = (if mt_xonly tweak \<and> snd (sp_xonly c (kc_key ctx)) = Odd
                 then \<lparr>kc_key = sp_negate c (kc_key ctx), kc_gacc_negative = (\<not> kc_gacc_negative ctx),
                       kc_tacc = scalar_negate_mod (kc_tacc ctx)\<rparr>
                 else ctx)
     in try_then (ok_or (sp_add_exp c (kc_key ctx1) (mt_value tweak)) (Crypto ''MuSig2 aggregate tweak'')) (\<lambda>key.
        Inr (ctx1\<lparr>kc_key := key, kc_tacc := scalar_add_mod (kc_tacc ctx1) (mt_value tweak)\<rparr>)))"

fun apply_tweaks ::
    "'p secp \<Rightarrow> musig2_tweak list \<Rightarrow> 'p musig2_key_context_rec \<Rightarrow> (verification_error, 'p musig2_key_context_rec) result" where
  "apply_tweaks c [] ctx = Inr ctx"
| "apply_tweaks c (tweak # tweaks) ctx = try_then (apply_tweak c tweak ctx) (apply_tweaks c tweaks)"

definition musig2_key_context ::
    "'p secp \<Rightarrow> 'p list \<Rightarrow> musig2_tweak list \<Rightarrow> (verification_error, 'p musig2_key_context_rec) result" where
  "musig2_key_context c keys tweaks =
     (if keys = [] \<or> MAX_MUSIG_KEYS < length keys \<or> MAX_MUSIG_TWEAKS < length tweaks
      then Inl (Bounds ''MuSig2 key context'')
      else try_then (musig2_aggregate_plain_key c keys) (\<lambda>key.
           apply_tweaks c tweaks \<lparr>kc_key = key, kc_gacc_negative = False, kc_tacc = SCALAR_ZERO\<rparr>))"

definition musig2_tweaked_aggregate_key ::
    "'p secp \<Rightarrow> 'p list \<Rightarrow> musig2_tweak list \<Rightarrow> (verification_error, u8 list) result" where
  "musig2_tweaked_aggregate_key c keys tweaks =
     try_then (musig2_key_context c keys tweaks) (\<lambda>ctx. Inr (fst (sp_xonly c (kc_key ctx))))"

section \<open>Nonces\<close>

record musig2_secret_nonce =
  sn_first :: "u8 list"
  sn_second :: "u8 list"
  sn_public_key :: "u8 list"
  sn_public_nonce :: "u8 list"
  sn_consumed :: bool

record consumed_musig2_nonce =
  cn_first :: "u8 list"
  cn_second :: "u8 list"
  cn_public_key :: "u8 list"

definition consume ::
    "musig2_secret_nonce \<Rightarrow> musig2_secret_nonce \<times> (verification_error, consumed_musig2_nonce) result" where
  "consume sn =
     (if sn_consumed sn then (sn, Inl (Invalid ''MuSig2 secret nonce reuse''))
      else (sn\<lparr>sn_consumed := True, sn_first := replicate 32 0, sn_second := replicate 32 0,
               sn_public_key := replicate 33 0\<rparr>,
            Inr \<lparr>cn_first = sn_first sn, cn_second = sn_second sn, cn_public_key = sn_public_key sn\<rparr>))"

definition musig2_nonce_scalar :: "'p secp \<Rightarrow> u8 list \<Rightarrow> u8 \<Rightarrow> (verification_error, u8 list) result" where
  "musig2_nonce_scalar c input index =
     (let v = scalar_bytes_from_hash (musig_hash c ''MuSig/nonce'' (input @ [index]))
      in try_then (ensure (sp_secret_ok c v) (Crypto ''MuSig2 nonce generation produced zero'')) (\<lambda>_. Inr v))"

definition musig2_deterministic_nonce_scalar :: "'p secp \<Rightarrow> u8 list \<Rightarrow> u8 \<Rightarrow> (verification_error, u8 list) result" where
  "musig2_deterministic_nonce_scalar c input index =
     (let v = scalar_bytes_from_hash (musig_hash c ''MuSig/deterministic/nonce'' (input @ [index]))
      in try_then (ensure (sp_secret_ok c v) (Crypto ''MuSig2 deterministic nonce generation produced zero''))
           (\<lambda>_. Inr v))"

definition xor_bytes :: "u8 list \<Rightarrow> u8 list \<Rightarrow> u8 list" where
  "xor_bytes secret mask_bytes = map2 (\<lambda>s m. s XOR m) secret mask_bytes"

definition to_be_bytes :: "nat \<Rightarrow> 'a::len word \<Rightarrow> u8 list" where
  "to_be_bytes n w = rev (to_le_bytes n w)"

text \<open>The hash input of \<open>musig2_nonce_gen_internal\<close>.\<close>

definition nonce_input ::
    "u8 list \<Rightarrow> u8 list \<Rightarrow> u8 list option \<Rightarrow> u8 list option \<Rightarrow> u8 list \<Rightarrow> u8 list" where
  "nonce_input randomized_secret public_key aggregate_key message extra_input =
     randomized_secret @ of_nat (length public_key) # public_key
     @ (case aggregate_key of Some key \<Rightarrow> 32 # key | None \<Rightarrow> [0])
     @ (case message of
          Some m \<Rightarrow> 1 # to_be_bytes 8 (of_nat (length m) :: u64) @ m
        | None \<Rightarrow> [0])
     @ to_be_bytes 4 (of_nat (length extra_input) :: u32) @ extra_input"

definition option_length :: "'a list option \<Rightarrow> nat" where
  "option_length x = (case x of None \<Rightarrow> 0 | Some xs \<Rightarrow> length xs)"

definition musig2_nonce_gen_internal ::
    "'p secp \<Rightarrow> u8 list option \<Rightarrow> 'p \<Rightarrow> u8 list option \<Rightarrow> u8 list option \<Rightarrow> u8 list option \<Rightarrow> u8 list
      \<Rightarrow> (verification_error, musig2_secret_nonce) result" where
  "musig2_nonce_gen_internal c secret_key public_key aggregate_key message extra_input randomness =
     (if MAX_MUSIG_MESSAGE_BYTES < option_length message then Inl (Bounds ''MuSig2 message byte length'')
      else if MAX_MUSIG_EXTRA_INPUT_BYTES < option_length extra_input
      then Inl (Bounds ''MuSig2 extra input byte length'')
      else
        let public_bytes = sp_serialize c public_key;
            randomized_secret = (case secret_key of
               Some secret \<Rightarrow> xor_bytes secret (musig_hash c ''MuSig/aux'' randomness)
             | None \<Rightarrow> randomness);
            input = nonce_input randomized_secret public_bytes aggregate_key message
                      (case extra_input of None \<Rightarrow> [] | Some e \<Rightarrow> e)
        in try_then (musig2_nonce_scalar c input 0) (\<lambda>first.
           try_then (musig2_nonce_scalar c input 1) (\<lambda>second.
           Inr \<lparr>sn_first = first, sn_second = second, sn_public_key = public_bytes,
                sn_public_nonce = sp_serialize c (sp_public c first) @ sp_serialize c (sp_public c second),
                sn_consumed = False\<rparr>)))"

definition musig2_nonce_gen ::
    "'p secp \<Rightarrow> u8 list \<Rightarrow> u8 list \<Rightarrow> u8 list \<Rightarrow> u8 list \<Rightarrow> u8 list \<Rightarrow> (verification_error, musig2_secret_nonce) result" where
  "musig2_nonce_gen c secret_key aggregate_key message extra_input randomness =
     musig2_nonce_gen_internal c (Some secret_key) (sp_public c secret_key) (Some aggregate_key) (Some message)
       (Some extra_input) randomness"

fun aggregate_nonces_from ::
    "'p secp \<Rightarrow> u8 list list \<Rightarrow> 'p aggregate_point \<Rightarrow> 'p aggregate_point
      \<Rightarrow> (verification_error, 'p aggregate_point \<times> 'p aggregate_point) result" where
  "aggregate_nonces_from c [] first second = Inr (first, second)"
| "aggregate_nonces_from c (nonce # nonces) first second =
     try_then (ok_or (sp_from_slice c (take 33 nonce)) (Crypto ''MuSig2 first public nonce'')) (\<lambda>first_point.
     try_then (ok_or (sp_from_slice c (drop 33 nonce)) (Crypto ''MuSig2 second public nonce'')) (\<lambda>second_point.
     try_then (aggregate_add c first (Point first_point)) (\<lambda>first1.
     try_then (aggregate_add c second (Point second_point)) (\<lambda>second1.
     aggregate_nonces_from c nonces first1 second1))))"

definition musig2_aggregate_nonces ::
    "'p secp \<Rightarrow> u8 list list \<Rightarrow> (verification_error, 'p aggregate_point \<times> 'p aggregate_point) result" where
  "musig2_aggregate_nonces c public_nonces = aggregate_nonces_from c public_nonces Infinity Infinity"

definition musig2_aggregate_public_nonces :: "'p secp \<Rightarrow> u8 list list \<Rightarrow> (verification_error, u8 list) result" where
  "musig2_aggregate_public_nonces c public_nonces =
     (if public_nonces = [] \<or> MAX_MUSIG_KEYS < length public_nonces then Inl (Bounds ''MuSig2 public nonce count'')
      else try_then (musig2_aggregate_nonces c public_nonces) (\<lambda>(first, second).
           Inr (serialize_extended c first @ serialize_extended c second)))"

section \<open>Sessions\<close>

record 'p musig2_session_values_rec =
  sv_key_context :: "'p musig2_key_context_rec"
  sv_nonce_coefficient :: "u8 list"
  sv_final_nonce :: 'p
  sv_challenge :: "u8 list"
  sv_nonce_odd :: bool
  sv_key_odd :: bool

definition validate_musig2_session_bounds ::
    "'p list \<Rightarrow> u8 list list \<Rightarrow> musig2_tweak list \<Rightarrow> u8 list \<Rightarrow> (verification_error, unit) result" where
  "validate_musig2_session_bounds keys public_nonces tweaks message =
     (if keys = [] \<or> MAX_MUSIG_KEYS < length keys \<or> length keys \<noteq> length public_nonces
      then Inl (Bounds ''MuSig2 session participants'')
      else if MAX_MUSIG_TWEAKS < length tweaks then Inl (Bounds ''MuSig2 tweak count'')
      else if MAX_MUSIG_MESSAGE_BYTES < length message then Inl (Bounds ''MuSig2 message byte length'')
      else Inr ())"

definition musig2_session_values_from_aggregate_nonce ::
    "'p secp \<Rightarrow> 'p list \<Rightarrow> u8 list \<Rightarrow> musig2_tweak list \<Rightarrow> u8 list
      \<Rightarrow> (verification_error, 'p musig2_session_values_rec) result" where
  "musig2_session_values_from_aggregate_nonce c keys aggregate_nonce tweaks message =
     (if keys = [] \<or> MAX_MUSIG_KEYS < length keys then Inl (Bounds ''MuSig2 participant count'')
      else if MAX_MUSIG_TWEAKS < length tweaks then Inl (Bounds ''MuSig2 tweak count'')
      else if MAX_MUSIG_MESSAGE_BYTES < length message then Inl (Bounds ''MuSig2 message byte length'')
      else
        try_then (musig2_key_context c keys tweaks) (\<lambda>ctx.
        try_then (aggregate_point_from_extended c (take 33 aggregate_nonce)) (\<lambda>aggregate_first.
        try_then (aggregate_point_from_extended c (drop 33 aggregate_nonce)) (\<lambda>aggregate_second.
        let key_bytes = fst (sp_xonly c (kc_key ctx))
        in try_then (scalar_from_hash c (musig_hash c ''MuSig/noncecoef'' (aggregate_nonce @ key_bytes @ message)))
             (\<lambda>nonce_coefficient.
           try_then (aggregate_multiply c aggregate_second nonce_coefficient) (\<lambda>scaled.
           try_then (aggregate_add c aggregate_first scaled) (\<lambda>combined_nonce.
           try_then (case combined_nonce of Infinity \<Rightarrow> generator_point c | Point point \<Rightarrow> Inr point) (\<lambda>final_nonce.
           try_then (scalar_from_hash c (musig_hash c ''BIP0340/challenge''
               (fst (sp_xonly c final_nonce) @ key_bytes @ message))) (\<lambda>challenge.
           Inr \<lparr>sv_key_context = ctx, sv_nonce_coefficient = nonce_coefficient, sv_final_nonce = final_nonce,
                sv_challenge = challenge, sv_nonce_odd = (snd (sp_xonly c final_nonce) = Odd),
                sv_key_odd = (snd (sp_xonly c (kc_key ctx)) = Odd)\<rparr>)))))))))"

definition musig2_session_values ::
    "'p secp \<Rightarrow> 'p list \<Rightarrow> u8 list list \<Rightarrow> musig2_tweak list \<Rightarrow> u8 list
      \<Rightarrow> (verification_error, 'p musig2_session_values_rec) result" where
  "musig2_session_values c keys public_nonces tweaks message =
     try_then (validate_musig2_session_bounds keys public_nonces tweaks message) (\<lambda>_.
     try_then (musig2_aggregate_public_nonces c public_nonces) (\<lambda>aggregate_nonce.
     musig2_session_values_from_aggregate_nonce c keys aggregate_nonce tweaks message))"

section \<open>Verification of partial signatures\<close>

definition musig2_effective_signer_nonce ::
    "'p secp \<Rightarrow> u8 list \<Rightarrow> u8 list \<Rightarrow> bool \<Rightarrow> (verification_error, 'p aggregate_point) result" where
  "musig2_effective_signer_nonce c public_nonce nonce_coefficient aggregate_nonce_odd =
     try_then (ok_or (sp_from_slice c (take 33 public_nonce)) (Crypto ''MuSig2 first public nonce'')) (\<lambda>first.
     try_then (ok_or (sp_from_slice c (drop 33 public_nonce)) (Crypto ''MuSig2 second public nonce'')) (\<lambda>second.
     try_then (aggregate_multiply c (Point second) nonce_coefficient) (\<lambda>scaled.
     try_then (aggregate_add c (Point first) scaled) (\<lambda>nonce.
     Inr (if aggregate_nonce_odd then aggregate_negate c nonce else nonce)))))"

definition verify_musig2_partial_signature_with_aggregate_nonce ::
    "'p secp \<Rightarrow> 'p list \<Rightarrow> u8 list \<Rightarrow> u8 list \<Rightarrow> musig2_tweak list \<Rightarrow> nat \<Rightarrow> u8 list \<Rightarrow> u8 list
      \<Rightarrow> (verification_error, unit) result" where
  "verify_musig2_partial_signature_with_aggregate_nonce c keys signer_public_nonce aggregate_nonce tweaks
      signer_index message partial_signature =
     (if keys = [] \<or> MAX_MUSIG_KEYS < length keys \<or> length keys \<le> signer_index
      then Inl (Bounds ''MuSig2 signer index'')
      else if MAX_MUSIG_TWEAKS < length tweaks \<or> MAX_MUSIG_MESSAGE_BYTES < length message
      then Inl (Bounds ''MuSig2 session context'')
      else if bytes_le CURVE_ORDER partial_signature then Inl (Crypto ''MuSig2 partial signature scalar'')
      else
        try_then (musig2_session_values_from_aggregate_nonce c keys aggregate_nonce tweaks message) (\<lambda>session.
        try_then (musig2_effective_signer_nonce c signer_public_nonce (sv_nonce_coefficient session)
            (sv_nonce_odd session)) (\<lambda>signer_nonce.
        let (serialized, list_hash, second_key) = musig2_key_material c keys
        in try_then (musig2_key_coefficient c (serialized ! signer_index) list_hash second_key) (\<lambda>coefficient.
           try_then (point_multiply c (keys ! signer_index) coefficient) (\<lambda>weighted_key.
           try_then (aggregate_multiply c weighted_key (sv_challenge session)) (\<lambda>challenged.
           let signer_key = (if sv_key_odd session \<noteq> kc_gacc_negative (sv_key_context session)
                             then aggregate_negate c challenged else challenged)
           in try_then (aggregate_add c signer_nonce signer_key) (\<lambda>expected.
              try_then (point_from_scalar c partial_signature) (\<lambda>supplied.
              ensure (supplied = expected) (Crypto ''MuSig2 partial signature verification'')))))))))"

definition verify_musig2_partial_signature_with_tweaks ::
    "'p secp \<Rightarrow> 'p list \<Rightarrow> u8 list list \<Rightarrow> musig2_tweak list \<Rightarrow> nat \<Rightarrow> u8 list \<Rightarrow> u8 list
      \<Rightarrow> (verification_error, unit) result" where
  "verify_musig2_partial_signature_with_tweaks c keys public_nonces tweaks signer_index message partial_signature =
     try_then (validate_musig2_session_bounds keys public_nonces tweaks message) (\<lambda>_.
     if length keys \<le> signer_index then Inl (Bounds ''MuSig2 signer index'')
     else if bytes_le CURVE_ORDER partial_signature then Inl (Crypto ''MuSig2 partial signature scalar'')
     else try_then (musig2_aggregate_public_nonces c public_nonces) (\<lambda>aggregate_nonce.
          verify_musig2_partial_signature_with_aggregate_nonce c keys (public_nonces ! signer_index) aggregate_nonce
            tweaks signer_index message partial_signature))"

definition verify_musig2_partial_signature ::
    "'p secp \<Rightarrow> 'p list \<Rightarrow> u8 list list \<Rightarrow> nat \<Rightarrow> u8 list \<Rightarrow> u8 list \<Rightarrow> (verification_error, unit) result" where
  "verify_musig2_partial_signature c keys public_nonces signer_index message partial_signature =
     verify_musig2_partial_signature_with_tweaks c keys public_nonces [] signer_index message partial_signature"

section \<open>Signing\<close>

text \<open>
  The signing computation after the nonce has been consumed. \<open>first\<close> and \<open>second\<close> are the
  two secret nonces; the partial signature is checked before it is returned.
\<close>

definition partial_signature_value ::
    "'p secp \<Rightarrow> 'p musig2_session_values_rec \<Rightarrow> u8 list \<Rightarrow> u8 list \<Rightarrow> u8 list \<Rightarrow> 'p list \<Rightarrow> nat
      \<Rightarrow> (verification_error, u8 list) result" where
  "partial_signature_value c session first0 second0 secret_key keys signer_index =
     (let first = (if sv_nonce_odd session then sp_secret_negate c first0 else first0);
          second = (if sv_nonce_odd session then sp_secret_negate c second0 else second0)
      in try_then (multiply_secret_term c second (sv_nonce_coefficient session)) (\<lambda>second_term.
         try_then (add_secret_terms c (Some first) second_term) (\<lambda>nonce_term.
         let (serialized, list_hash, second_key) = musig2_key_material c keys
         in try_then (musig2_key_coefficient c (serialized ! signer_index) list_hash second_key) (\<lambda>coefficient.
            let signing_key = (if sv_key_odd session \<noteq> kc_gacc_negative (sv_key_context session)
                               then sp_secret_negate c secret_key else secret_key)
            in try_then (multiply_secret_term c signing_key coefficient) (\<lambda>coefficient_term.
               try_then (case coefficient_term of
                   Some s \<Rightarrow> multiply_secret_term c s (sv_challenge session)
                 | None \<Rightarrow> Inr None) (\<lambda>key_term.
               try_then (add_secret_terms c nonce_term key_term) (\<lambda>partial_term.
               Inr (case partial_term of Some v \<Rightarrow> v | None \<Rightarrow> SCALAR_ZERO))))))))"

definition sign_consumed ::
    "'p secp \<Rightarrow> consumed_musig2_nonce \<Rightarrow> u8 list \<Rightarrow> u8 list \<Rightarrow> 'p list \<Rightarrow> nat \<Rightarrow> u8 list \<Rightarrow> u8 list
      \<Rightarrow> musig2_tweak list \<Rightarrow> u8 list \<Rightarrow> (verification_error, u8 list) result" where
  "sign_consumed c consumed own_public_nonce secret_key keys signer_index signer_public_nonce aggregate_nonce
      tweaks message =
     (let public_key = sp_public c secret_key
      in if sp_serialize c public_key \<noteq> cn_public_key consumed
         then Inl (Invalid ''MuSig2 nonce key changed before signing'')
         else if \<not> (signer_index < length keys \<and> keys ! signer_index = public_key)
         then Inl (Invalid ''MuSig2 signer is not a participant'')
         else if signer_public_nonce \<noteq> own_public_nonce
         then Inl (Invalid ''MuSig2 signer public nonce mismatch'')
         else
           try_then (musig2_session_values_from_aggregate_nonce c keys aggregate_nonce tweaks message) (\<lambda>session.
           try_then (ensure (sp_secret_ok c (cn_first consumed)) (Crypto ''MuSig2 first secret nonce'')) (\<lambda>_.
           try_then (ensure (sp_secret_ok c (cn_second consumed)) (Crypto ''MuSig2 second secret nonce'')) (\<lambda>_.
           try_then (partial_signature_value c session (cn_first consumed) (cn_second consumed) secret_key keys
               signer_index) (\<lambda>partial.
           try_then (verify_musig2_partial_signature_with_aggregate_nonce c keys signer_public_nonce aggregate_nonce
               tweaks signer_index message partial) (\<lambda>_.
           Inr partial))))))"

definition musig2_partial_sign_with_aggregate_nonce ::
    "'p secp \<Rightarrow> musig2_secret_nonce \<Rightarrow> u8 list \<Rightarrow> 'p list \<Rightarrow> nat \<Rightarrow> u8 list \<Rightarrow> u8 list \<Rightarrow> musig2_tweak list \<Rightarrow> u8 list
      \<Rightarrow> musig2_secret_nonce \<times> (verification_error, u8 list) result" where
  "musig2_partial_sign_with_aggregate_nonce c secret_nonce secret_key keys signer_index signer_public_nonce
      aggregate_nonce tweaks message =
     (case consume secret_nonce of
        (sn, Inl e) \<Rightarrow> (sn, Inl e)
      | (sn, Inr consumed) \<Rightarrow>
          (sn, sign_consumed c consumed (sn_public_nonce sn) secret_key keys signer_index signer_public_nonce
                 aggregate_nonce tweaks message))"

definition musig2_partial_sign ::
    "'p secp \<Rightarrow> musig2_secret_nonce \<Rightarrow> u8 list \<Rightarrow> 'p list \<Rightarrow> u8 list list \<Rightarrow> musig2_tweak list \<Rightarrow> u8 list
      \<Rightarrow> musig2_secret_nonce \<times> (verification_error, u8 list) result" where
  "musig2_partial_sign c secret_nonce secret_key keys public_nonces tweaks message =
     (case validate_musig2_session_bounds keys public_nonces tweaks message of
        Inl e \<Rightarrow> (secret_nonce, Inl e)
      | Inr _ \<Rightarrow>
     (case position (\<lambda>key. key = sp_public c secret_key) keys of
        None \<Rightarrow> (secret_nonce, Inl (Invalid ''MuSig2 signer is not a participant''))
      | Some signer_index \<Rightarrow>
          if \<not> (signer_index < length public_nonces \<and> public_nonces ! signer_index = sn_public_nonce secret_nonce)
          then (secret_nonce, Inl (Invalid ''MuSig2 signer public nonce mismatch''))
          else (case musig2_aggregate_public_nonces c public_nonces of
                  Inl e \<Rightarrow> (secret_nonce, Inl e)
                | Inr aggregate_nonce \<Rightarrow>
                    musig2_partial_sign_with_aggregate_nonce c secret_nonce secret_key keys signer_index
                      (public_nonces ! signer_index) aggregate_nonce tweaks message)))"

definition musig2_deterministic_sign ::
    "'p secp \<Rightarrow> u8 list \<Rightarrow> u8 list \<Rightarrow> 'p list \<Rightarrow> musig2_tweak list \<Rightarrow> u8 list \<Rightarrow> u8 list option
      \<Rightarrow> (verification_error, u8 list \<times> u8 list) result" where
  "musig2_deterministic_sign c secret_key aggregate_other_nonce keys tweaks message randomness =
     (if keys = [] \<or> MAX_MUSIG_KEYS < length keys then Inl (Bounds ''MuSig2 participant count'')
      else if MAX_MUSIG_TWEAKS < length tweaks then Inl (Bounds ''MuSig2 tweak count'')
      else if MAX_MUSIG_MESSAGE_BYTES < length message then Inl (Bounds ''MuSig2 message byte length'')
      else
        let public_key = sp_public c secret_key
        in try_then (ok_or (position (\<lambda>key. key = public_key) keys) (Invalid ''MuSig2 signer is not a participant''))
             (\<lambda>signer_index.
           try_then (musig2_tweaked_aggregate_key c keys tweaks) (\<lambda>aggregate_key.
           let randomized_secret = (case randomness of
                 Some r \<Rightarrow> xor_bytes secret_key (musig_hash c ''MuSig/aux'' r)
               | None \<Rightarrow> secret_key);
               input = randomized_secret @ aggregate_other_nonce @ aggregate_key
                 @ to_be_bytes 8 (of_nat (length message) :: u64) @ message
           in try_then (musig2_deterministic_nonce_scalar c input 0) (\<lambda>first.
              try_then (musig2_deterministic_nonce_scalar c input 1) (\<lambda>second.
              let public_nonce = sp_serialize c (sp_public c first) @ sp_serialize c (sp_public c second)
              in try_then (musig2_aggregate_public_nonces c [public_nonce, aggregate_other_nonce]) (\<lambda>aggregate_nonce.
                 let secret_nonce = \<lparr>sn_first = first, sn_second = second, sn_public_key = sp_serialize c public_key,
                       sn_public_nonce = public_nonce, sn_consumed = False\<rparr>
                 in try_then (snd (musig2_partial_sign_with_aggregate_nonce c secret_nonce secret_key keys signer_index
                        public_nonce aggregate_nonce tweaks message)) (\<lambda>partial.
                    Inr (public_nonce, partial))))))))"

section \<open>Aggregation of partial signatures\<close>

definition verify_musig2_signature :: "'p secp \<Rightarrow> u8 list \<Rightarrow> u8 list \<Rightarrow> u8 list \<Rightarrow> (verification_error, unit) result" where
  "verify_musig2_signature c aggregate_key message signature =
     ensure (sp_verify c signature message aggregate_key) (Crypto ''MuSig2 aggregate signature'')"

fun sum_partials :: "u8 list list \<Rightarrow> u8 list \<Rightarrow> (verification_error, u8 list) result" where
  "sum_partials [] scalar = Inr scalar"
| "sum_partials (partial # partials) scalar =
     (if bytes_le CURVE_ORDER partial then Inl (Crypto ''MuSig2 partial signature scalar'')
      else sum_partials partials (scalar_add_mod scalar partial))"

definition musig2_aggregate_partial_signatures ::
    "'p secp \<Rightarrow> 'p list \<Rightarrow> u8 list list \<Rightarrow> musig2_tweak list \<Rightarrow> u8 list \<Rightarrow> u8 list list
      \<Rightarrow> (verification_error, u8 list) result" where
  "musig2_aggregate_partial_signatures c keys public_nonces tweaks message partial_signatures =
     try_then (validate_musig2_session_bounds keys public_nonces tweaks message) (\<lambda>_.
     if length partial_signatures \<noteq> length keys then Inl (Bounds ''MuSig2 partial signature count'')
     else
       try_then (try_all (\<lambda>(index, partial).
           verify_musig2_partial_signature_with_tweaks c keys public_nonces tweaks index message partial)
         (enumerate 0 partial_signatures)) (\<lambda>_.
       try_then (musig2_session_values c keys public_nonces tweaks message) (\<lambda>session.
       try_then (sum_partials partial_signatures SCALAR_ZERO) (\<lambda>scalar.
       try_then (scalar_multiply_public (sv_challenge session) (kc_tacc (sv_key_context session))) (\<lambda>tweak_term0.
       let tweak_term = (if sv_key_odd session then scalar_negate_mod tweak_term0 else tweak_term0);
           signature = fst (sp_xonly c (sv_final_nonce session)) @ scalar_add_mod scalar tweak_term
       in try_then (verify_musig2_signature c (fst (sp_xonly c (kc_key (sv_key_context session)))) message signature)
            (\<lambda>_. Inr signature))))))"

end
