(* ===== verification/Musig2_Group.thy ===== *)
theory Musig2_Group
  imports Musig2
begin

text \<open>
  What the MuSig2 code relies on from secp256k1, and the code read as arithmetic. The curve group
  is cyclic of order \<^const>\<open>curve_n\<close>, so every public key is a multiple of the generator; the
  laws state the documented effect of each operation on these multiples, and the lemmas give the
  effect of each routine of the model.
\<close>

section \<open>The laws of the curve library\<close>

abbreviation N :: int where "N \<equiv> int curve_n"

definition si :: "u8 list \<Rightarrow> int" where "si s = int (be_nat s)"

definition secret32 :: "u8 list \<Rightarrow> bool" where "secret32 s \<longleftrightarrow> scalar32 s \<and> si s \<noteq> 0"

text \<open>Hashes have 32 bytes; scalars are 32 bytes below the order, secret keys also nonzero; the
  secret-key operations are modular and fail when the result is zero.\<close>

definition scalar_laws :: "'p secp \<Rightarrow> bool" where
  "scalar_laws c \<longleftrightarrow>
     (\<forall>m. length (tc_sha256 (sp_taproot c) m) = 32)
     \<and> (\<forall>s. length s = 32 \<longrightarrow> tc_scalar_ok (sp_taproot c) s = scalar32 s)
     \<and> (\<forall>s. length s = 32 \<longrightarrow> sp_secret_ok c s = secret32 s)
     \<and> (\<forall>a b r. secret32 a \<longrightarrow> scalar32 b \<longrightarrow>
          (sp_secret_add c a b = Some r \<longleftrightarrow> secret32 r \<and> si r = (si a + si b) mod N))
     \<and> (\<forall>a b r. secret32 a \<longrightarrow> scalar32 b \<longrightarrow>
          (sp_secret_mul c a b = Some r \<longleftrightarrow> secret32 r \<and> si r = si a * si b mod N))
     \<and> (\<forall>a. secret32 a \<longrightarrow> secret32 (sp_secret_negate c a) \<and> si (sp_secret_negate c a) = N - si a)"

text \<open>Every point is one multiple \<open>dl P\<close> of the generator, between 1 and the order; the point
  operations act on the multiples and fail when the result is the point at infinity.\<close>

definition point_laws :: "'p secp \<Rightarrow> ('p \<Rightarrow> int) \<Rightarrow> bool" where
  "point_laws c dl \<longleftrightarrow>
     inj dl \<and> (\<forall>P. 0 < dl P \<and> dl P < N) \<and> (\<forall>k. 0 < k \<longrightarrow> k < N \<longrightarrow> (\<exists>P. dl P = k))
     \<and> (\<forall>s. secret32 s \<longrightarrow> dl (sp_public c s) = si s)
     \<and> (\<forall>Ps P. sp_combine c Ps = Some P \<longleftrightarrow> dl P = sum_list (map dl Ps) mod N)
     \<and> (\<forall>P t Q. scalar32 t \<longrightarrow> (sp_mul c P t = Some Q \<longleftrightarrow> dl Q = si t * dl P mod N))
     \<and> (\<forall>P t Q. scalar32 t \<longrightarrow> (sp_add_exp c P t = Some Q \<longleftrightarrow> dl Q = (dl P + si t) mod N))
     \<and> (\<forall>P. dl (sp_negate c P) = N - dl P)"

text \<open>Encodings: 33 bytes for a point and never all zero, 32 for an x coordinate; opposite points
  share the x coordinate and differ in parity.\<close>

definition encoding_laws :: "'p secp \<Rightarrow> bool" where
  "encoding_laws c \<longleftrightarrow>
     (\<forall>P. length (sp_serialize c P) = 33 \<and> sp_serialize c P \<noteq> replicate 33 0
        \<and> sp_from_slice c (sp_serialize c P) = Some P)
     \<and> (\<forall>P. length (fst (sp_xonly c P)) = 32)
     \<and> (\<forall>P. fst (sp_xonly c (sp_negate c P)) = fst (sp_xonly c P)
        \<and> snd (sp_xonly c (sp_negate c P)) = (if snd (sp_xonly c P) = Even then Odd else Even))"

text \<open>BIP 340 verification of \<open>(r, s)\<close> for the x-only key \<open>x\<close>: with \<open>P\<close> and \<open>R\<close> the points
  of even parity with x coordinates \<open>x\<close> and \<open>r\<close>, \<open>s \<cdot> G = R + e \<cdot> P\<close>.\<close>

definition schnorr_law :: "'p secp \<Rightarrow> ('p \<Rightarrow> int) \<Rightarrow> bool" where
  "schnorr_law c dl \<longleftrightarrow> (\<forall>r s message x. length r = 32 \<longrightarrow> length s = 32 \<longrightarrow>
     (sp_verify c (r @ s) message x \<longleftrightarrow>
       (\<exists>P R. sp_xonly c P = (x, Even) \<and> sp_xonly c R = (r, Even) \<and> scalar32 s
          \<and> si s = (dl R + si (musig_hash c ''BIP0340/challenge'' (r @ x @ message)) * dl P) mod N)))"

definition secp_laws :: "'p secp \<Rightarrow> ('p \<Rightarrow> int) \<Rightarrow> bool" where
  "secp_laws c dl \<longleftrightarrow> scalar_laws c \<and> point_laws c dl \<and> encoding_laws c \<and> schnorr_law c dl"

lemma secp_lawsD:
  assumes "secp_laws c dl"
  shows "scalar_laws c" "point_laws c dl" "encoding_laws c" "schnorr_law c dl"
  using assms by (simp_all add: secp_laws_def)

lemma N_pos: "1 < N"
  using curve_n_bounds(1) by simp

lemma negative_mod: "\<lbrakk>0 < x; x < N\<rbrakk> \<Longrightarrow> (- x) mod N = N - x"
proof -
  assume x: "0 < x" "x < N"
  have "(- x) mod N = (N + - x) mod N" by (simp only: mod_add_self1)
  moreover have "(N + - x) mod N = N + - x" using x by (intro mod_pos_pos_trivial) simp_all
  ultimately show ?thesis by simp
qed

lemma si_range: "scalar32 s \<Longrightarrow> 0 \<le> si s \<and> si s < N"
  by (simp add: scalar32_def si_def)

lemma si_mod [simp]: "scalar32 s \<Longrightarrow> si s mod N = si s"
  using si_range by simp

lemma si_zero: "scalar32 s \<Longrightarrow> si s = 0 \<longleftrightarrow> s = SCALAR_ZERO"
  using scalar32_inj [of s SCALAR_ZERO] by (auto simp: si_def)

lemma si_zeros [simp]: "si SCALAR_ZERO = 0"
  by (simp add: si_def)

lemma si_one [simp]: "si SCALAR_ONE = 1" "scalar32 SCALAR_ONE"
  using curve_n_bounds(1) by (simp_all add: si_def scalar32_def be_nat_snoc)

lemma secret32_scalar32: "secret32 s \<Longrightarrow> scalar32 s"
  by (simp add: secret32_def)

lemma scalar32_length: "scalar32 s \<Longrightarrow> length s = 32"
  by (simp add: scalar32_def)

lemma si_inj: "\<lbrakk>scalar32 a; scalar32 b; si a = si b\<rbrakk> \<Longrightarrow> a = b"
  by (auto simp: si_def intro: scalar32_inj)

lemma si_add_mod: "\<lbrakk>scalar32 a; scalar32 b\<rbrakk> \<Longrightarrow> si (scalar_add_mod a b) = (si a + si b) mod N"
  by (simp add: si_def scalar_add_mod_value(2) zmod_int)

lemma si_negate_mod:
  assumes "scalar32 a"
  shows "si (scalar_negate_mod a) = (- si a) mod N"
proof -
  have "int (curve_n - be_nat a) = N - si a" using assms by (simp add: si_def scalar32_def of_nat_diff)
  then show ?thesis
    using scalar_negate_mod_value(2) [OF assms] by (simp add: si_def zmod_int minus_mod_self1)
qed

lemma scalar_multiply_si:
  assumes "scalar32 a" "scalar32 b"
  obtains r where "scalar_multiply_public a b = Inr r" "scalar32 r" "si r = si a * si b mod N"
  using scalar_multiply_public_value [OF assms] by (auto simp: si_def zmod_int)

text \<open>Every residue is the value of some scalar.\<close>

fun be_bytes :: "nat \<Rightarrow> nat \<Rightarrow> u8 list" where
  "be_bytes 0 k = []"
| "be_bytes (Suc m) k = be_bytes m (k div 256) @ [of_nat k]"

lemma length_be_bytes [simp]: "length (be_bytes m k) = m"
  by (induction m arbitrary: k) simp_all

lemma be_nat_be_bytes: "k < 256 ^ m \<Longrightarrow> be_nat (be_bytes m k) = k"
proof (induction m arbitrary: k)
  case (Suc m)
  then have "k div 256 < 256 ^ m" by (simp add: less_mult_imp_div_less mult.commute)
  then have "be_nat (be_bytes m (k div 256)) = k div 256" by (rule Suc.IH)
  then show ?case by (simp add: be_nat_snoc unat_of_nat)
qed simp

definition scalar_of :: "int \<Rightarrow> u8 list" where "scalar_of k = be_bytes 32 (nat (k mod N))"

lemma scalar_of: "scalar32 (scalar_of k)" "si (scalar_of k) = k mod N"
proof -
  have r: "0 \<le> k mod N" "k mod N < N" using N_pos by simp_all
  then have "nat (k mod N) < curve_n" by linarith
  then have "be_nat (scalar_of k) = nat (k mod N)" "be_nat (scalar_of k) < curve_n"
    using curve_n_bounds(2) by (simp_all add: scalar_of_def be_nat_be_bytes)
  then show "scalar32 (scalar_of k)" "si (scalar_of k) = k mod N"
    using r by (simp_all add: scalar32_def si_def scalar_of_def)
qed

section \<open>Hashes and scalars\<close>

lemma length_musig_hash: "scalar_laws c \<Longrightarrow> length (musig_hash c tag m) = 32"
  by (simp add: tagged_hash_def scalar_laws_def Let_def)

lemma scalar_from_hash_value:
  assumes "scalar_laws c" "length h = 32"
  shows "scalar_from_hash c h = Inr (scalar_bytes_from_hash h)" "scalar32 (scalar_bytes_from_hash h)"
    "si (scalar_bytes_from_hash h) = si h mod N"
proof -
  note v = scalar_bytes_from_hash_value [OF assms(2)]
  show "scalar32 (scalar_bytes_from_hash h)" "si (scalar_bytes_from_hash h) = si h mod N"
    using v by (simp_all add: si_def zmod_int)
  have "tc_scalar_ok (sp_taproot c) (scalar_bytes_from_hash h)"
    using v(1) assms(1) scalar32_length [OF v(1)] unfolding scalar_laws_def by blast
  then show "scalar_from_hash c h = Inr (scalar_bytes_from_hash h)" by (simp add: scalar_from_hash_def)
qed

lemma key_coefficient_scalar:
  assumes "scalar_laws c" "musig2_key_coefficient c key list_hash second_key = Inr a"
  shows "scalar32 a"
  using assms scalar_from_hash_value [OF assms(1) length_musig_hash [OF assms(1)]]
  by (auto simp: musig2_key_coefficient_def split: if_splits)

section \<open>Aggregate points as multiples of the generator\<close>

fun alog :: "('p \<Rightarrow> int) \<Rightarrow> 'p aggregate_point \<Rightarrow> int" where
  "alog dl Infinity = 0"
| "alog dl (Point P) = dl P"

lemma point_lawsD:
  assumes "point_laws c dl"
  shows "inj dl" "0 < dl P" "dl P < N" "secret32 s \<Longrightarrow> dl (sp_public c s) = si s"
    "sp_combine c Ps = Some Q \<longleftrightarrow> dl Q = sum_list (map dl Ps) mod N"
    "scalar32 t \<Longrightarrow> sp_mul c P t = Some Q \<longleftrightarrow> dl Q = si t * dl P mod N"
    "scalar32 t \<Longrightarrow> sp_add_exp c P t = Some Q \<longleftrightarrow> dl Q = (dl P + si t) mod N"
    "dl (sp_negate c P) = N - dl P"
  using assms unfolding point_laws_def by blast+

lemma point_laws_ex: "\<lbrakk>point_laws c dl; 0 < k; k < N\<rbrakk> \<Longrightarrow> \<exists>P. dl P = k"
  unfolding point_laws_def by blast

lemma alog_range:
  assumes "point_laws c dl"
  shows "0 \<le> alog dl a" "alog dl a < N" "alog dl a mod N = alog dl a"
proof -
  show "0 \<le> alog dl a" "alog dl a < N"
    using point_lawsD(2,3) [OF assms] N_pos by (cases a; auto intro: less_imp_le)+
  then show "alog dl a mod N = alog dl a" by simp
qed

lemma alog_inj: "\<lbrakk>point_laws c dl; alog dl a = alog dl b\<rbrakk> \<Longrightarrow> a = b"
  using point_lawsD(1,2) [of c dl]
  by (cases a; cases b) (auto dest: injD simp: less_le)

lemma combine_None:
  assumes "point_laws c dl"
  shows "sp_combine c Ps = None \<longleftrightarrow> sum_list (map dl Ps) mod N = 0"
proof
  assume none: "sp_combine c Ps = None"
  show "sum_list (map dl Ps) mod N = 0"
  proof (rule ccontr)
    assume "sum_list (map dl Ps) mod N \<noteq> 0"
    moreover have "0 \<le> sum_list (map dl Ps) mod N" "sum_list (map dl Ps) mod N < N" using N_pos by simp_all
    ultimately obtain P where "dl P = sum_list (map dl Ps) mod N"
      using point_laws_ex [OF assms] by (metis less_le)
    then show False using none point_lawsD(5) [OF assms] by (metis option.distinct(1))
  qed
next
  assume "sum_list (map dl Ps) mod N = 0"
  then show "sp_combine c Ps = None"
    using point_lawsD(5) [OF assms] point_lawsD(2) [OF assms] by (metis less_irrefl option.exhaust)
qed

lemma aggregate_add_value:
  assumes "point_laws c dl"
  shows "\<exists>r. aggregate_add c a b = Inr r \<and> alog dl r = (alog dl a + alog dl b) mod N"
proof (cases a)
  case Infinity
  then show ?thesis using alog_range(3) [OF assms] by (simp add: aggregate_add_def)
next
  case (Point P)
  note a = Point
  show ?thesis
  proof (cases b)
    case Infinity
    then show ?thesis using a alog_range(3) [OF assms, of a] by (simp add: aggregate_add_def)
  next
    case (Point Q)
    note b = Point
    show ?thesis
    proof (cases "sp_combine c [P, Q]")
      case None
      then show ?thesis using a b combine_None [OF assms, of "[P, Q]"] by (simp add: aggregate_add_def)
    next
      case (Some R)
      then show ?thesis using a b point_lawsD(5) [OF assms, of "[P, Q]" R] by (simp add: aggregate_add_def)
    qed
  qed
qed

lemma aggregate_add_Inr:
  "\<lbrakk>point_laws c dl; aggregate_add c a b = Inr r\<rbrakk> \<Longrightarrow> alog dl r = (alog dl a + alog dl b) mod N"
  using aggregate_add_value [of c dl a b] by auto

lemma aggregate_multiply_Inr:
  assumes "point_laws c dl" "scalar32 t" "aggregate_multiply c a t = Inr r"
  shows "alog dl r = si t * alog dl a mod N"
  using assms point_lawsD(6) [OF assms(1,2)]
  by (cases a) (auto simp: aggregate_multiply_def try_then_eq_Inr split: if_splits)

lemma aggregate_negate_value:
  assumes "point_laws c dl"
  shows "alog dl (aggregate_negate c a) = (- alog dl a) mod N"
proof (cases a)
  case (Point P)
  then show ?thesis using point_lawsD(8) [OF assms] negative_mod point_lawsD(2,3) [OF assms, of P] by simp
qed simp

lemma point_from_scalar_value:
  assumes "scalar_laws c" "point_laws c dl" "scalar32 v"
  shows "\<exists>r. point_from_scalar c v = Inr r \<and> alog dl r = si v"
proof (cases "v = SCALAR_ZERO")
  case False
  then have s: "secret32 v" using assms(3) si_zero by (simp add: secret32_def)
  then have "sp_secret_ok c v" using assms(1) scalar32_length [OF assms(3)] unfolding scalar_laws_def by blast
  then show ?thesis using False s point_lawsD(4) [OF assms(2)] by (simp add: point_from_scalar_def)
qed (simp add: point_from_scalar_def)

section \<open>Optional secret terms\<close>

text \<open>The secret computations use \<open>None\<close> for zero.\<close>

definition term_ok :: "u8 list option \<Rightarrow> bool" where
  "term_ok t = (case t of None \<Rightarrow> True | Some s \<Rightarrow> secret32 s)"

definition term_value :: "u8 list option \<Rightarrow> int" where
  "term_value t = (case t of None \<Rightarrow> 0 | Some s \<Rightarrow> si s)"

lemma term_simps [simp]: "term_ok None" "term_value None = 0" "term_ok (Some s) = secret32 s" "term_value (Some s) = si s"
  by (simp_all add: term_ok_def term_value_def)

lemma scalar_lawsD:
  assumes "scalar_laws c"
  shows "length s = 32 \<Longrightarrow> sp_secret_ok c s = secret32 s"
    "\<lbrakk>secret32 a; scalar32 b\<rbrakk> \<Longrightarrow> sp_secret_add c a b = Some r \<longleftrightarrow> secret32 r \<and> si r = (si a + si b) mod N"
    "\<lbrakk>secret32 a; scalar32 b\<rbrakk> \<Longrightarrow> sp_secret_mul c a b = Some r \<longleftrightarrow> secret32 r \<and> si r = si a * si b mod N"
    "secret32 a \<Longrightarrow> secret32 (sp_secret_negate c a)" "secret32 a \<Longrightarrow> si (sp_secret_negate c a) = N - si a"
  using assms unfolding scalar_laws_def by blast+

lemma multiply_secret_term_Inr:
  assumes "scalar_laws c" "secret32 a" "scalar32 t" "multiply_secret_term c a t = Inr r"
  shows "term_ok r \<and> term_value r = si a * si t mod N"
  using assms scalar_lawsD(3) [OF assms(1-3)]
  by (auto simp: multiply_secret_term_def try_then_eq_Inr split: if_splits)

lemma secret_add_None:
  assumes "scalar_laws c" "secret32 a" "scalar32 b"
  shows "sp_secret_add c a b = None \<longleftrightarrow> (si a + si b) mod N = 0"
proof
  assume none: "sp_secret_add c a b = None"
  show "(si a + si b) mod N = 0"
  proof (rule ccontr)
    assume "(si a + si b) mod N \<noteq> 0"
    then have "secret32 (scalar_of (si a + si b))" using scalar_of by (simp add: secret32_def)
    then show False using none scalar_lawsD(2) [OF assms, of "scalar_of (si a + si b)"] scalar_of by simp
  qed
next
  assume "(si a + si b) mod N = 0"
  then show "sp_secret_add c a b = None"
    using scalar_lawsD(2) [OF assms] by (cases "sp_secret_add c a b") (auto simp: secret32_def)
qed

lemma add_secret_terms_value:
  assumes "scalar_laws c" "term_ok l" "term_ok r"
  shows "\<exists>t. add_secret_terms c l r = Inr t \<and> term_ok t \<and> term_value t = (term_value l + term_value r) mod N"
proof (cases l)
  case None
  then show ?thesis using assms(3) by (cases r) (simp_all add: add_secret_terms_def secret32_scalar32)
next
  case (Some a)
  note l = Some
  show ?thesis
  proof (cases r)
    case None
    then show ?thesis using l assms(2) by (simp add: add_secret_terms_def secret32_scalar32)
  next
    case (Some b)
    then have ab: "secret32 a" "scalar32 b" using l assms by (simp_all add: secret32_scalar32)
    show ?thesis
    proof (cases "sp_secret_add c a b")
      case None
      then show ?thesis using l Some secret_add_None [OF assms(1) ab] by (simp add: add_secret_terms_def)
    next
      case (Some s)
      then show ?thesis using l \<open>r = Some b\<close> scalar_lawsD(2) [OF assms(1) ab, of s] by (simp add: add_secret_terms_def)
    qed
  qed
qed

section \<open>Keys\<close>

text \<open>The coefficient of the key at an index, and the sum of the weighted keys.\<close>

definition key_coef :: "'p secp \<Rightarrow> 'p list \<Rightarrow> nat \<Rightarrow> (verification_error, u8 list) result" where
  "key_coef c keys i =
     (let (serialized, list_hash, second) = musig2_key_material c keys
      in musig2_key_coefficient c (serialized ! i) list_hash second)"

definition coef :: "'p secp \<Rightarrow> 'p list \<Rightarrow> nat \<Rightarrow> int" where
  "coef c keys i = (case key_coef c keys i of Inr a \<Rightarrow> si a | Inl _ \<Rightarrow> 0)"

definition weighted_sum :: "'p secp \<Rightarrow> ('p \<Rightarrow> int) \<Rightarrow> 'p list \<Rightarrow> int" where
  "weighted_sum c dl keys = (\<Sum>i < length keys. coef c keys i * dl (keys ! i))"

lemma key_coef_Inr:
  assumes "scalar_laws c"
  shows "\<exists>a. key_coef c keys i = Inr a \<and> scalar32 a \<and> coef c keys i = si a"
proof -
  obtain serialized list_hash second where m: "musig2_key_material c keys = (serialized, list_hash, second)"
    by (metis prod_cases3)
  have "\<exists>a. key_coef c keys i = Inr a \<and> scalar32 a"
    using scalar_from_hash_value [OF assms length_musig_hash [OF assms]]
    by (auto simp: key_coef_def m musig2_key_coefficient_def)
  then show ?thesis by (auto simp: coef_def)
qed

lemma sum_list_mod:
  fixes f g :: "'a \<Rightarrow> int"
  assumes "\<And>x. x \<in> set xs \<Longrightarrow> f x mod N = g x mod N"
  shows "sum_list (map f xs) mod N = sum_list (map g xs) mod N"
  using assms
proof (induction xs)
  case (Cons x xs)
  then show ?case by (simp, intro mod_add_cong) simp_all
qed simp

lemma sum_upto_mod:
  fixes f g :: "nat \<Rightarrow> int"
  assumes "\<And>i. i < n \<Longrightarrow> f i mod N = g i mod N"
  shows "(\<Sum>i < n. f i) mod N = (\<Sum>i < n. g i) mod N"
  using sum_list_mod [of "[0..<n]" f g] assms by (simp add: interv_sum_list_conv_sum_set_nat atLeast0LessThan)

lemma sum_list_sum: "sum_list (map f xs) = (\<Sum>i < length xs. f (xs ! i))" for f :: "'a \<Rightarrow> int"
  by (simp add: sum_list_sum_nth atLeast0LessThan)

lemma try_map_nth: "\<lbrakk>try_map f xs = Inr ys; i < length xs\<rbrakk> \<Longrightarrow> f (xs ! i) = Inr (ys ! i)"
proof (induction xs arbitrary: ys i)
  case (Cons x xs)
  then show ?case by (cases i) (auto simp: try_then_eq_Inr)
qed simp

lemma aggregate_plain_key_value:
  assumes "scalar_laws c" "point_laws c dl" "musig2_aggregate_plain_key c keys = Inr K"
  shows "dl K = weighted_sum c dl keys mod N"
proof -
  obtain serialized list_hash second where m: "musig2_key_material c keys = (serialized, list_hash, second)"
    by (metis prod_cases3)
  have len: "length serialized = length keys" using m by (auto simp: musig2_key_material_def Let_def)
  obtain ws where ws: "try_map (\<lambda>(key, encoded). try_then (musig2_key_coefficient c encoded list_hash second)
      (\<lambda>coefficient. ok_or (sp_mul c key coefficient) (Crypto ''MuSig2 key coefficient''))) (zip keys serialized) = Inr ws"
    and K: "sp_combine c ws = Some K"
    using assms(3) by (auto simp: musig2_aggregate_plain_key_def m try_then_eq_Inr combine_public_keys_def)
  have lw: "length ws = length keys" using try_map_length [OF ws] len by simp
  have w: "dl (ws ! i) = coef c keys i * dl (keys ! i) mod N" if i: "i < length keys" for i
  proof -
    obtain a where a: "key_coef c keys i = Inr a" "scalar32 a" "coef c keys i = si a"
      using key_coef_Inr [OF assms(1)] by blast
    then have "musig2_key_coefficient c (serialized ! i) list_hash second = Inr a" by (simp add: key_coef_def m)
    then have "sp_mul c (keys ! i) a = Some (ws ! i)" using try_map_nth [OF ws, of i] i len by simp
    then have "dl (ws ! i) = si a * dl (keys ! i) mod N" by (simp only: point_lawsD(6) [OF assms(2) a(2)])
    then show ?thesis by (simp only: a(3))
  qed
  have "dl K = (\<Sum>i < length keys. dl (ws ! i)) mod N"
    using K point_lawsD(5) [OF assms(2)] by (simp add: sum_list_sum lw)
  also have "\<dots> = (\<Sum>i < length keys. coef c keys i * dl (keys ! i)) mod N"
    by (rule sum_upto_mod) (simp add: w)
  finally show ?thesis by (simp add: weighted_sum_def)
qed

text \<open>The context after any tweaks: the key is the aggregate, possibly negated, plus the
  accumulated tweak times the generator.\<close>

definition gsign :: "bool \<Rightarrow> int" where "gsign b = (if b then - 1 else 1)"

lemma gsign_simps [simp]: "gsign True = - 1" "gsign False = 1" "gsign (\<not> b) = - gsign b"
  "gsign b * gsign b = 1"
  by (simp_all add: gsign_def)

lemma gsign_xor: "gsign (a \<noteq> b) = gsign a * gsign b"
  by (cases a; cases b) simp_all

definition context_ok :: "('p \<Rightarrow> int) \<Rightarrow> int \<Rightarrow> 'p musig2_key_context_rec \<Rightarrow> bool" where
  "context_ok dl K ctx \<longleftrightarrow> scalar32 (kc_tacc ctx)
     \<and> dl (kc_key ctx) = (gsign (kc_gacc_negative ctx) * K + si (kc_tacc ctx)) mod N"

lemma apply_tweak_ok:
  assumes laws: "scalar_laws c" "point_laws c dl" and t: "length (mt_value tweak) = 32"
    and ok: "context_ok dl K ctx" and r: "apply_tweak c tweak ctx = Inr ctx'"
  shows "context_ok dl K ctx'"
proof -
  let ?t = "mt_value tweak"
  define ctx1 where "ctx1 = (if mt_xonly tweak \<and> snd (sp_xonly c (kc_key ctx)) = Odd
       then \<lparr>kc_key = sp_negate c (kc_key ctx), kc_gacc_negative = (\<not> kc_gacc_negative ctx),
             kc_tacc = scalar_negate_mod (kc_tacc ctx)\<rparr> else ctx)"
  have tok: "scalar32 ?t" using r laws(1) t by (auto simp: apply_tweak_def scalar_laws_def try_then_eq_Inr)
  obtain key where key: "sp_add_exp c (kc_key ctx1) ?t = Some key"
    and ctx': "ctx' = ctx1\<lparr>kc_key := key, kc_tacc := scalar_add_mod (kc_tacc ctx1) ?t\<rparr>"
    using r by (auto simp: apply_tweak_def try_then_eq_Inr Let_def simp flip: ctx1_def)
  have tacc: "scalar32 (kc_tacc ctx)" using ok by (simp add: context_ok_def)
  have ok1: "context_ok dl K ctx1"
  proof (cases "mt_xonly tweak \<and> snd (sp_xonly c (kc_key ctx)) = Odd")
    case True
    have "N - dl (kc_key ctx) = (- dl (kc_key ctx)) mod N"
      using negative_mod point_lawsD(2,3) [OF laws(2), of "kc_key ctx"] by simp
    also have "\<dots> = (- (gsign (kc_gacc_negative ctx) * K + si (kc_tacc ctx))) mod N"
      using ok by (simp add: context_ok_def mod_minus_eq)
    also have "\<dots> = (- gsign (kc_gacc_negative ctx) * K + (- si (kc_tacc ctx)) mod N) mod N"
      by (simp only: mod_add_right_eq minus_add_distrib mult_minus_left)
    finally show ?thesis
      using True tacc point_lawsD(8) [OF laws(2)]
      by (simp add: ctx1_def context_ok_def si_negate_mod scalar_negate_mod_value)
  qed (use ok in \<open>auto simp: ctx1_def\<close>)
  have t1: "scalar32 (kc_tacc ctx1)" using ok1 by (simp add: context_ok_def)
  have "dl key = (dl (kc_key ctx1) + si ?t) mod N" using key point_lawsD(7) [OF laws(2) tok] by simp
  also have "\<dots> = (gsign (kc_gacc_negative ctx1) * K + (si (kc_tacc ctx1) + si ?t)) mod N"
    using ok1 by (simp add: context_ok_def mod_add_left_eq add.assoc)
  finally show ?thesis
    using t1 tok by (simp add: ctx' context_ok_def si_add_mod scalar_add_mod_value(1) mod_add_right_eq)
qed

lemma apply_tweaks_ok:
  "\<lbrakk>scalar_laws c; point_laws c dl; \<forall>t \<in> set tweaks. length (mt_value t) = 32; context_ok dl K ctx;
    apply_tweaks c tweaks ctx = Inr ctx'\<rbrakk> \<Longrightarrow> context_ok dl K ctx'"
proof (induction tweaks arbitrary: ctx)
  case (Cons t tweaks)
  then obtain ctx1 where "apply_tweak c t ctx = Inr ctx1" "apply_tweaks c tweaks ctx1 = Inr ctx'"
    by (auto simp: try_then_eq_Inr)
  note ctx1 = this
  have "context_ok dl K ctx1" using apply_tweak_ok [OF Cons.prems(1,2) _ Cons.prems(4) ctx1(1)] Cons.prems(3) by simp
  then show ?case using Cons.IH [OF Cons.prems(1,2) _ _ ctx1(2)] Cons.prems(3) by simp
qed simp

lemma key_context_ok:
  assumes "scalar_laws c" "point_laws c dl" "\<forall>t \<in> set tweaks. length (mt_value t) = 32"
    "musig2_key_context c keys tweaks = Inr ctx"
  shows "context_ok dl (weighted_sum c dl keys) ctx"
proof -
  obtain K where K: "musig2_aggregate_plain_key c keys = Inr K"
    "apply_tweaks c tweaks \<lparr>kc_key = K, kc_gacc_negative = False, kc_tacc = SCALAR_ZERO\<rparr> = Inr ctx"
    using assms(4) by (auto simp: musig2_key_context_def try_then_eq_Inr split: if_splits)
  have "context_ok dl (weighted_sum c dl keys) \<lparr>kc_key = K, kc_gacc_negative = False, kc_tacc = SCALAR_ZERO\<rparr>"
    using aggregate_plain_key_value [OF assms(1,2) K(1)] by (simp add: context_ok_def)
  then show ?thesis using apply_tweaks_ok [OF assms(1-3) _ K(2)] by blast
qed

end
