(* ===== verification/Musig2_Correct.thy ===== *)
theory Musig2_Correct
  imports Musig2_Group
begin

text \<open>
  Correctness of the MuSig2 routines over the laws of the curve library: the equation that an
  accepted partial signature satisfies, that verified partial signatures add up to a signature
  that BIP 340 verification accepts, that a signer's own check never refuses the signature it
  computed, that a nonce signs at most once, and that the tweaked aggregate key is the taproot
  output key.
\<close>

section \<open>Nonces\<close>

definition slice_log :: "'p secp \<Rightarrow> ('p \<Rightarrow> int) \<Rightarrow> u8 list \<Rightarrow> int" where
  "slice_log c dl bytes = (case sp_from_slice c bytes of Some P \<Rightarrow> dl P | None \<Rightarrow> 0)"

lemma add_mod_assoc: "((a + b) mod N + s) mod N = (a + (b + s)) mod N"
  by (simp add: mod_add_left_eq add.assoc)

lemma aggregate_nonces_value:
  assumes "point_laws c dl" "aggregate_nonces_from c nonces f s = Inr (f', s')"
  shows "alog dl f' = (alog dl f + (\<Sum>i < length nonces. slice_log c dl (take 33 (nonces ! i)))) mod N
    \<and> alog dl s' = (alog dl s + (\<Sum>i < length nonces. slice_log c dl (drop 33 (nonces ! i)))) mod N"
  using assms(2)
proof (induction nonces arbitrary: f s)
  case Nil
  then show ?case using alog_range(3) [OF assms(1)] by simp
next
  case (Cons n ns)
  obtain P Q f1 s1 where P: "sp_from_slice c (take 33 n) = Some P" and Q: "sp_from_slice c (drop 33 n) = Some Q"
    and f1: "aggregate_add c f (Point P) = Inr f1" and s1: "aggregate_add c s (Point Q) = Inr s1"
    and rest: "aggregate_nonces_from c ns f1 s1 = Inr (f', s')"
    using Cons.prems by (auto simp: try_then_eq_Inr)
  have "alog dl f1 = (alog dl f + slice_log c dl (take 33 n)) mod N"
    "alog dl s1 = (alog dl s + slice_log c dl (drop 33 n)) mod N"
    using aggregate_add_Inr [OF assms(1) f1] aggregate_add_Inr [OF assms(1) s1] P Q by (simp_all add: slice_log_def)
  then show ?case using Cons.IH [OF rest]
    by (simp add: add_mod_assoc sum.lessThan_Suc_shift del: sum.lessThan_Suc)
qed

definition nonce_log :: "'p secp \<Rightarrow> ('p \<Rightarrow> int) \<Rightarrow> int \<Rightarrow> u8 list \<Rightarrow> int" where
  "nonce_log c dl b nonce = slice_log c dl (take 33 nonce) + b * slice_log c dl (drop 33 nonce)"

lemma extended_roundtrip:
  assumes "encoding_laws c"
  shows "length (serialize_extended c a) = 33" "aggregate_point_from_extended c (serialize_extended c a) = Inr a"
  using assms by (cases a; simp add: encoding_laws_def aggregate_point_from_extended_def)+

section \<open>Sessions\<close>

definition combined_log :: "'p secp \<Rightarrow> ('p \<Rightarrow> int) \<Rightarrow> u8 list list \<Rightarrow> 'p musig2_session_values_rec \<Rightarrow> int" where
  "combined_log c dl nonces session =
     (\<Sum>i < length nonces. nonce_log c dl (si (sv_nonce_coefficient session)) (nonces ! i))"

lemma session_from_aggregateD:
  assumes laws: "scalar_laws c" "point_laws c dl"
    and run: "musig2_session_values_from_aggregate_nonce c keys agg tweaks message = Inr session"
  obtains A B where "aggregate_point_from_extended c (take 33 agg) = Inr A"
    "aggregate_point_from_extended c (drop 33 agg) = Inr B"
    "musig2_key_context c keys tweaks = Inr (sv_key_context session)"
    "scalar32 (sv_nonce_coefficient session)" "scalar32 (sv_challenge session)"
    "si (sv_challenge session) = si (musig_hash c ''BIP0340/challenge''
        (fst (sp_xonly c (sv_final_nonce session)) @ fst (sp_xonly c (kc_key (sv_key_context session))) @ message)) mod N"
    "sv_nonce_odd session \<longleftrightarrow> snd (sp_xonly c (sv_final_nonce session)) = Odd"
    "sv_key_odd session \<longleftrightarrow> snd (sp_xonly c (kc_key (sv_key_context session))) = Odd"
    "(alog dl A + si (sv_nonce_coefficient session) * alog dl B) mod N \<noteq> 0 \<longrightarrow>
       dl (sv_final_nonce session) = (alog dl A + si (sv_nonce_coefficient session) * alog dl B) mod N"
proof -
  note sfh = scalar_from_hash_value [OF laws(1) length_musig_hash [OF laws(1)]]
  obtain ctx A B b S comb R e where
    ctx: "musig2_key_context c keys tweaks = Inr ctx"
    and A: "aggregate_point_from_extended c (take 33 agg) = Inr A"
    and B: "aggregate_point_from_extended c (drop 33 agg) = Inr B"
    and b: "scalar_from_hash c (musig_hash c ''MuSig/noncecoef'' (agg @ fst (sp_xonly c (kc_key ctx)) @ message)) = Inr b"
    and S: "aggregate_multiply c B b = Inr S" and comb: "aggregate_add c A S = Inr comb"
    and R: "(case comb of Infinity \<Rightarrow> generator_point c | Point point \<Rightarrow> Inr point) = Inr R"
    and e: "scalar_from_hash c (musig_hash c ''BIP0340/challenge''
        (fst (sp_xonly c R) @ fst (sp_xonly c (kc_key ctx)) @ message)) = Inr e"
    and session0: "\<lparr>sv_key_context = ctx, sv_nonce_coefficient = b, sv_final_nonce = R, sv_challenge = e,
        sv_nonce_odd = (snd (sp_xonly c R) = Odd), sv_key_odd = (snd (sp_xonly c (kc_key ctx)) = Odd)\<rparr> = session"
    using run unfolding musig2_session_values_from_aggregate_nonce_def Let_def
    by (simp only: try_then_eq_Inr sum.inject sum.distinct simp_thms split: if_split_asm) blast
  note session = session0 [symmetric]
  have scalars: "scalar32 b" "scalar32 e"
    "si e = si (musig_hash c ''BIP0340/challenge'' (fst (sp_xonly c R) @ fst (sp_xonly c (kc_key ctx)) @ message)) mod N"
    using b e sfh by auto
  have "alog dl comb = (alog dl A + si b * alog dl B) mod N"
    using aggregate_add_Inr [OF laws(2) comb] aggregate_multiply_Inr [OF laws(2) scalars(1) S]
    by (simp add: mod_add_right_eq)
  then have "dl R = (alog dl A + si b * alog dl B) mod N" if "(alog dl A + si b * alog dl B) mod N \<noteq> 0"
    using that R by (cases comb) simp_all
  then show thesis
    using that [of A B] A B ctx scalars by (simp add: session)
qed

lemma session_combined:
  assumes laws: "scalar_laws c" "point_laws c dl" "encoding_laws c"
    and agg: "musig2_aggregate_public_nonces c nonces = Inr agg"
    and run: "musig2_session_values_from_aggregate_nonce c keys agg tweaks message = Inr session"
    and nonzero: "combined_log c dl nonces session mod N \<noteq> 0"
  shows "dl (sv_final_nonce session) = combined_log c dl nonces session mod N"
proof -
  obtain F S where fs: "aggregate_nonces_from c nonces Infinity Infinity = Inr (F, S)"
    and agg': "agg = serialize_extended c F @ serialize_extended c S"
    using agg by (auto simp: musig2_aggregate_public_nonces_def musig2_aggregate_nonces_def try_then_eq_Inr split: if_splits)
  obtain A B where AB: "aggregate_point_from_extended c (take 33 agg) = Inr A"
      "aggregate_point_from_extended c (drop 33 agg) = Inr B"
    and R: "(alog dl A + si (sv_nonce_coefficient session) * alog dl B) mod N \<noteq> 0 \<longrightarrow>
       dl (sv_final_nonce session) = (alog dl A + si (sv_nonce_coefficient session) * alog dl B) mod N"
    by (rule session_from_aggregateD [OF laws(1,2) run], rule that, assumption+)
  have eq: "A = F" "B = S" using AB extended_roundtrip [OF laws(3)] by (simp_all add: agg')
  let ?b = "si (sv_nonce_coefficient session)"
  note v = aggregate_nonces_value [OF laws(2) fs, simplified]
  have "(alog dl A + ?b * alog dl B) mod N = combined_log c dl nonces session mod N"
  proof -
    have "(alog dl A + ?b * alog dl B) mod N
        = ((\<Sum>i < length nonces. slice_log c dl (take 33 (nonces ! i)))
           + ?b * (\<Sum>i < length nonces. slice_log c dl (drop 33 (nonces ! i)))) mod N"
      unfolding eq conjunct1 [OF v] conjunct2 [OF v] by (intro mod_add_cong mod_mult_cong) simp_all
    then show ?thesis by (simp add: combined_log_def nonce_log_def sum.distrib sum_distrib_left)
  qed
  then show ?thesis using R nonzero by simp
qed

section \<open>The equation of a partial signature\<close>

definition partial_log ::
    "'p secp \<Rightarrow> ('p \<Rightarrow> int) \<Rightarrow> 'p musig2_session_values_rec \<Rightarrow> 'p list \<Rightarrow> nat \<Rightarrow> u8 list \<Rightarrow> int" where
  "partial_log c dl session keys i nonce =
     gsign (sv_nonce_odd session) * nonce_log c dl (si (sv_nonce_coefficient session)) nonce
     + gsign (sv_key_odd session \<noteq> kc_gacc_negative (sv_key_context session)) * si (sv_challenge session)
       * (coef c keys i * dl (keys ! i))"

lemma signed_alog:
  assumes "point_laws c dl"
  shows "alog dl (if b then aggregate_negate c a else a) mod N = gsign b * alog dl a mod N"
  using aggregate_negate_value [OF assms] by simp

lemma effective_nonce_value:
  assumes laws: "point_laws c dl" and b: "scalar32 b"
    and run: "musig2_effective_signer_nonce c nonce b nonce_odd = Inr r"
  shows "alog dl r mod N = gsign nonce_odd * nonce_log c dl (si b) nonce mod N"
proof -
  obtain P Q S M where P: "sp_from_slice c (take 33 nonce) = Some P" and Q: "sp_from_slice c (drop 33 nonce) = Some Q"
    and S: "aggregate_multiply c (Point Q) b = Inr S" and M: "aggregate_add c (Point P) S = Inr M"
    and r: "r = (if nonce_odd then aggregate_negate c M else M)"
    using run by (auto simp: musig2_effective_signer_nonce_def try_then_eq_Inr)
  have "alog dl M = nonce_log c dl (si b) nonce mod N"
    using aggregate_add_Inr [OF laws M] aggregate_multiply_Inr [OF laws b S] P Q
    by (simp add: nonce_log_def slice_log_def mod_add_right_eq)
  then show ?thesis unfolding r signed_alog [OF laws] by (simp add: mod_mult_right_eq)
qed

lemma expected_point_log:
  assumes laws: "scalar_laws c" "point_laws c dl"
    and sc: "scalar32 (sv_nonce_coefficient session)" "scalar32 (sv_challenge session)"
    and r: "musig2_effective_signer_nonce c nonce (sv_nonce_coefficient session) (sv_nonce_odd session) = Inr r"
    and a: "key_coef c keys i = Inr a"
    and W: "aggregate_multiply c (Point (keys ! i)) a = Inr W"
    and C: "aggregate_multiply c W (sv_challenge session) = Inr C"
    and E: "aggregate_add c r (if sv_key_odd session \<noteq> kc_gacc_negative (sv_key_context session)
        then aggregate_negate c C else C) = Inr E"
  shows "alog dl E = partial_log c dl session keys i nonce mod N"
proof -
  have ka: "scalar32 a" "coef c keys i = si a" using key_coef_Inr [OF laws(1), of keys i] a by auto
  have "alog dl C = si (sv_challenge session) * (si a * dl (keys ! i)) mod N"
    using aggregate_multiply_Inr [OF laws(2) sc(2) C] aggregate_multiply_Inr [OF laws(2) ka(1) W]
    by (simp add: mod_mult_right_eq)
  then have C': "alog dl C mod N = si (sv_challenge session) * (coef c keys i * dl (keys ! i)) mod N"
    by (simp add: ka(2))
  show ?thesis
    unfolding aggregate_add_Inr [OF laws(2) E] partial_log_def mult.assoc
    by (intro mod_add_cong effective_nonce_value [OF laws(2) sc(1) r] trans [OF signed_alog [OF laws(2)]]
        mod_mult_cong refl C')
qed

text \<open>What verification computes once its guards hold.\<close>

lemma verify_unfold:
  assumes "i < length keys" "length keys \<le> MAX_MUSIG_KEYS" "length tweaks \<le> MAX_MUSIG_TWEAKS"
    "length message \<le> MAX_MUSIG_MESSAGE_BYTES" "scalar32 partial"
  shows "verify_musig2_partial_signature_with_aggregate_nonce c keys nonce agg tweaks i message partial =
    try_then (musig2_session_values_from_aggregate_nonce c keys agg tweaks message) (\<lambda>session.
    try_then (musig2_effective_signer_nonce c nonce (sv_nonce_coefficient session) (sv_nonce_odd session)) (\<lambda>r.
    try_then (key_coef c keys i) (\<lambda>a.
    try_then (aggregate_multiply c (Point (keys ! i)) a) (\<lambda>W.
    try_then (aggregate_multiply c W (sv_challenge session)) (\<lambda>C.
    try_then (aggregate_add c r (if sv_key_odd session \<noteq> kc_gacc_negative (sv_key_context session)
        then aggregate_negate c C else C)) (\<lambda>E.
    try_then (point_from_scalar c partial) (\<lambda>S.
    ensure (S = E) (Crypto ''MuSig2 partial signature verification''))))))))"
proof -
  obtain serialized list_hash second where m: "musig2_key_material c keys = (serialized, list_hash, second)"
    by (metis prod_cases3)
  have g: "\<not> (keys = [] \<or> MAX_MUSIG_KEYS < length keys \<or> length keys \<le> i)"
    "\<not> (MAX_MUSIG_TWEAKS < length tweaks \<or> MAX_MUSIG_MESSAGE_BYTES < length message)"
    "\<not> bytes_le CURVE_ORDER partial"
    using assms scalar32_iff_bytes [OF scalar32_length [OF assms(5)]] by auto
  show ?thesis
    unfolding verify_musig2_partial_signature_with_aggregate_nonce_def key_coef_def m prod.case Let_def point_multiply_def
      if_not_P [OF g(1)] if_not_P [OF g(2)] if_not_P [OF g(3)] ..
qed

lemma verify_guards:
  assumes "verify_musig2_partial_signature_with_aggregate_nonce c keys nonce agg tweaks i message partial = Inr ()"
    "length partial = 32"
  shows "i < length keys" "length keys \<le> MAX_MUSIG_KEYS" "length tweaks \<le> MAX_MUSIG_TWEAKS"
    "length message \<le> MAX_MUSIG_MESSAGE_BYTES" "scalar32 partial"
  using assms scalar32_iff_bytes [OF assms(2)]
  by (auto simp: verify_musig2_partial_signature_with_aggregate_nonce_def split: if_splits)

lemma partial_verifiedD:
  assumes laws: "scalar_laws c" "point_laws c dl" and len: "length partial = 32"
    and run: "verify_musig2_partial_signature_with_aggregate_nonce c keys nonce agg tweaks i message partial = Inr ()"
  obtains session where "musig2_session_values_from_aggregate_nonce c keys agg tweaks message = Inr session"
    "scalar32 partial" "si partial = partial_log c dl session keys i nonce mod N"
proof -
  note g = verify_guards [OF run len]
  obtain session r a W C E S where
    session: "musig2_session_values_from_aggregate_nonce c keys agg tweaks message = Inr session"
    and r: "musig2_effective_signer_nonce c nonce (sv_nonce_coefficient session) (sv_nonce_odd session) = Inr r"
    and a: "key_coef c keys i = Inr a"
    and W: "aggregate_multiply c (Point (keys ! i)) a = Inr W"
    and C: "aggregate_multiply c W (sv_challenge session) = Inr C"
    and E: "aggregate_add c r (if sv_key_odd session \<noteq> kc_gacc_negative (sv_key_context session)
        then aggregate_negate c C else C) = Inr E"
    and S: "point_from_scalar c partial = Inr S" and SE: "S = E"
    using run unfolding verify_unfold [OF g] by (simp only: try_then_eq_Inr ensure_eq_Inr) blast
  obtain sc: "scalar32 (sv_nonce_coefficient session)" "scalar32 (sv_challenge session)"
    by (rule session_from_aggregateD [OF laws session], rule that, assumption+)
  have "si partial = partial_log c dl session keys i nonce mod N"
    using expected_point_log [OF laws sc r a W C E] point_from_scalar_value [OF laws g(5)] S SE by auto
  with session g(5) show thesis using that by blast
qed

section \<open>Aggregation\<close>

lemma sum_partials_value:
  assumes "\<forall>p \<in> set ps. scalar32 p" "scalar32 s"
  shows "\<exists>r. sum_partials ps s = Inr r \<and> scalar32 r \<and> si r = (si s + sum_list (map si ps)) mod N"
  using assms
proof (induction ps arbitrary: s)
  case (Cons p ps)
  have p: "scalar32 p" "\<not> bytes_le CURVE_ORDER p"
    using Cons.prems(1) scalar32_iff_bytes [OF scalar32_length, of p] by simp_all
  have "scalar32 (scalar_add_mod s p)" "si (scalar_add_mod s p) = (si s + si p) mod N"
    using Cons.prems(2) p(1) by (simp_all add: scalar_add_mod_value(1) si_add_mod)
  then show ?case using Cons.IH [of "scalar_add_mod s p"] Cons.prems(1) p(2) by (simp add: add_mod_assoc)
qed simp

lemma even_lift:
  assumes "point_laws c dl" "encoding_laws c"
  obtains Q where "sp_xonly c Q = (fst (sp_xonly c P), Even)"
    "dl Q mod N = gsign (snd (sp_xonly c P) = Odd) * dl P mod N"
proof (cases "snd (sp_xonly c P)")
  case Even
  then show thesis using that [of P] by (simp add: prod_eq_iff)
next
  case Odd
  have "sp_xonly c (sp_negate c P) = (fst (sp_xonly c P), Even)"
    using Odd assms(2) by (simp add: encoding_laws_def prod_eq_iff)
  moreover have "dl (sp_negate c P) = (- dl P) mod N"
    using point_lawsD(2,3,8) [OF assms(1), of P] negative_mod by simp
  ultimately show thesis using that [of "sp_negate c P"] Odd by simp
qed

lemma partials_sum:
  assumes "length partials = length keys" "length nonces = length keys"
    and "\<And>i. i < length keys \<Longrightarrow> si (partials ! i) = partial_log c dl session keys i (nonces ! i) mod N"
  shows "sum_list (map si partials) mod N
    = (gsign (sv_nonce_odd session) * combined_log c dl nonces session
       + gsign (sv_key_odd session \<noteq> kc_gacc_negative (sv_key_context session)) * si (sv_challenge session)
         * weighted_sum c dl keys) mod N"
proof -
  have "sum_list (map si partials) mod N = (\<Sum>i < length keys. partial_log c dl session keys i (nonces ! i)) mod N"
    unfolding sum_list_sum assms(1) by (rule sum_upto_mod) (simp add: assms(3))
  then show ?thesis
    by (simp only: partial_log_def sum.distrib combined_log_def weighted_sum_def assms(2) sum_distrib_left)
qed

text \<open>The scalar of the aggregate signature, and the BIP 340 equation for it.\<close>

lemma aggregate_equation:
  assumes laws: "scalar_laws c" "point_laws c dl" and R: "dl R = comb mod N"
    and ctx: "context_ok dl W ctx" and e: "e mod N = si chal" and chal: "scalar32 chal"
    and subtotal: "scalar32 subtotal" "si subtotal = (gsign r_odd * comb
        + gsign (key_odd \<noteq> kc_gacc_negative ctx) * si chal * W) mod N"
    and R': "dl R' mod N = gsign r_odd * dl R mod N" and P': "dl P' mod N = gsign key_odd * dl (kc_key ctx) mod N"
    and t0: "scalar_multiply_public chal (kc_tacc ctx) = Inr t0"
  defines "t \<equiv> (if key_odd then scalar_negate_mod t0 else t0)"
  shows "scalar32 (scalar_add_mod subtotal t)" "si (scalar_add_mod subtotal t) = (dl R' + e * dl P') mod N"
proof -
  have tacc: "scalar32 (kc_tacc ctx)" using ctx by (simp add: context_ok_def)
  obtain r where "scalar_multiply_public chal (kc_tacc ctx) = Inr r" "scalar32 r" "si r = si chal * si (kc_tacc ctx) mod N"
    by (rule scalar_multiply_si [OF chal tacc])
  then have t0': "scalar32 t0" "si t0 = si chal * si (kc_tacc ctx) mod N" using t0 by simp_all
  have t: "scalar32 t" "si t mod N = gsign key_odd * (si chal * si (kc_tacc ctx)) mod N"
    using t0' by (simp_all add: t_def scalar_negate_mod_value si_negate_mod mod_minus_eq)
  have Q: "dl (kc_key ctx) mod N = (gsign (kc_gacc_negative ctx) * W + si (kc_tacc ctx)) mod N"
    using ctx by (simp add: context_ok_def)
  have "(dl R' + e * dl P') mod N = (gsign r_odd * dl R + si chal * (gsign key_odd * dl (kc_key ctx))) mod N"
    using e chal by (intro mod_add_cong mod_mult_cong R' P') simp
  also have "\<dots> = (gsign r_odd * comb
      + si chal * (gsign key_odd * (gsign (kc_gacc_negative ctx) * W + si (kc_tacc ctx)))) mod N"
    by (intro mod_add_cong mod_mult_cong refl Q) (simp add: R)
  also have "\<dots> = (gsign r_odd * comb + gsign (key_odd \<noteq> kc_gacc_negative ctx) * si chal * W
      + gsign key_odd * (si chal * si (kc_tacc ctx))) mod N"
    by (simp only: gsign_xor) (simp add: algebra_simps)
  also have "\<dots> = (si subtotal + si t) mod N"
    by (intro mod_add_cong) (simp_all add: subtotal(2) t(2))
  finally show "si (scalar_add_mod subtotal t) = (dl R' + e * dl P') mod N"
    using subtotal(1) t(1) by (simp add: si_add_mod)
  show "scalar32 (scalar_add_mod subtotal t)" using subtotal(1) t(1) by (rule scalar_add_mod_value(1))
qed

definition all_verified ::
    "'p secp \<Rightarrow> 'p list \<Rightarrow> u8 list list \<Rightarrow> musig2_tweak list \<Rightarrow> u8 list \<Rightarrow> u8 list list \<Rightarrow> bool" where
  "all_verified c keys nonces tweaks message partials \<longleftrightarrow>
     length partials = length keys
     \<and> (\<forall>i < length keys. verify_musig2_partial_signature_with_tweaks c keys nonces tweaks i message (partials ! i) = Inr ())"

lemma verified_tweaksD:
  assumes "verify_musig2_partial_signature_with_tweaks c keys nonces tweaks i message partial = Inr ()"
  obtains agg where "validate_musig2_session_bounds keys nonces tweaks message = Inr ()"
    "musig2_aggregate_public_nonces c nonces = Inr agg"
    "verify_musig2_partial_signature_with_aggregate_nonce c keys (nonces ! i) agg tweaks i message partial = Inr ()"
  using assms
  by (auto simp: verify_musig2_partial_signature_with_tweaks_def try_then_eq_Inr split: if_splits)

lemma bounds_Inr:
  "validate_musig2_session_bounds keys nonces tweaks message = Inr u \<Longrightarrow> keys \<noteq> [] \<and> length nonces = length keys"
  by (auto simp: validate_musig2_session_bounds_def split: if_splits)

lemma session_of_partials:
  assumes laws: "scalar_laws c" "point_laws c dl" and v: "all_verified c keys nonces tweaks message partials"
    and len: "\<forall>p \<in> set partials. length p = 32"
    and session: "musig2_session_values c keys nonces tweaks message = Inr session" and i: "i < length keys"
  shows "scalar32 (partials ! i)" "si (partials ! i) = partial_log c dl session keys i (nonces ! i) mod N"
proof -
  have vi: "verify_musig2_partial_signature_with_tweaks c keys nonces tweaks i message (partials ! i) = Inr ()"
    and li: "length (partials ! i) = 32"
    using v len i by (simp_all add: all_verified_def)
  obtain agg where agg: "musig2_aggregate_public_nonces c nonces = Inr agg"
      "verify_musig2_partial_signature_with_aggregate_nonce c keys (nonces ! i) agg tweaks i message (partials ! i) = Inr ()"
    by (rule verified_tweaksD [OF vi])
  obtain session' where s: "musig2_session_values_from_aggregate_nonce c keys agg tweaks message = Inr session'"
      "scalar32 (partials ! i)" "si (partials ! i) = partial_log c dl session' keys i (nonces ! i) mod N"
    by (rule partial_verifiedD [OF laws li agg(2)])
  have "session' = session" using session s(1) agg(1) by (auto simp: musig2_session_values_def try_then_eq_Inr)
  then show "scalar32 (partials ! i)" "si (partials ! i) = partial_log c dl session keys i (nonces ! i) mod N"
    using s by simp_all
qed

lemma partials_aggregate:
  assumes laws: "secp_laws c dl" and tweaks: "\<forall>t \<in> set tweaks. length (mt_value t) = 32"
    and len: "\<forall>p \<in> set partials. length p = 32" and v: "all_verified c keys nonces tweaks message partials"
    and session: "musig2_session_values c keys nonces tweaks message = Inr session"
    and finite: "combined_log c dl nonces session mod N \<noteq> 0"
  obtains signature where "musig2_aggregate_partial_signatures c keys nonces tweaks message partials = Inr signature"
    "length signature = 64" "sp_verify c signature message (fst (sp_xonly c (kc_key (sv_key_context session))))"
proof -
  note l = secp_lawsD [OF laws]
  note sp = session_of_partials [OF l(1,2) v len session]
  obtain agg where bounds: "validate_musig2_session_bounds keys nonces tweaks message = Inr ()"
    and agg: "musig2_aggregate_public_nonces c nonces = Inr agg"
    and run: "musig2_session_values_from_aggregate_nonce c keys agg tweaks message = Inr session"
    using session by (auto simp: musig2_session_values_def try_then_eq_Inr)
  let ?ctx = "sv_key_context session" and ?chal = "sv_challenge session" and ?R = "sv_final_nonce session"
  let ?x = "fst (sp_xonly c (kc_key ?ctx))" and ?r = "fst (sp_xonly c ?R)"
  obtain A B where ctx: "musig2_key_context c keys tweaks = Inr ?ctx" and chal: "scalar32 ?chal"
    and e: "si ?chal = si (musig_hash c ''BIP0340/challenge'' (?r @ ?x @ message)) mod N"
    and odd: "sv_nonce_odd session \<longleftrightarrow> snd (sp_xonly c ?R) = Odd" "sv_key_odd session \<longleftrightarrow> snd (sp_xonly c (kc_key ?ctx)) = Odd"
    by (rule session_from_aggregateD [OF l(1,2) run]) blast
  note n = bounds_Inr [OF bounds]
  have R: "dl ?R = combined_log c dl nonces session mod N"
    by (rule session_combined [OF l(1,2,3) agg run finite])
  have ok: "context_ok dl (weighted_sum c dl keys) ?ctx" by (rule key_context_ok [OF l(1,2) tweaks ctx])
  then have tacc: "scalar32 (kc_tacc ?ctx)" by (simp add: context_ok_def)
  have np: "length partials = length keys" using v by (simp add: all_verified_def)
  have "\<forall>p \<in> set partials. scalar32 p" using sp(1) np by (auto simp: in_set_conv_nth)
  then obtain subtotal where subtotal: "sum_partials partials SCALAR_ZERO = Inr subtotal" "scalar32 subtotal"
      "si subtotal = sum_list (map si partials) mod N"
    using sum_partials_value [of partials SCALAR_ZERO] by auto
  have total': "si subtotal = (gsign (sv_nonce_odd session) * combined_log c dl nonces session
      + gsign (sv_key_odd session \<noteq> kc_gacc_negative ?ctx) * si ?chal * weighted_sum c dl keys) mod N"
    unfolding subtotal(3) using n np sp(2) by (intro partials_sum) simp_all
  obtain t0 where t0: "scalar_multiply_public ?chal (kc_tacc ?ctx) = Inr t0"
    by (rule scalar_multiply_si [OF chal tacc])
  obtain R' where R': "sp_xonly c R' = (?r, Even)" "dl R' mod N = gsign (sv_nonce_odd session) * dl ?R mod N"
    unfolding odd by (rule even_lift [OF l(2,3)])
  obtain P' where P': "sp_xonly c P' = (?x, Even)" "dl P' mod N = gsign (sv_key_odd session) * dl (kc_key ?ctx) mod N"
    unfolding odd by (rule even_lift [OF l(2,3)])
  define s where "s = scalar_add_mod subtotal (if sv_key_odd session then scalar_negate_mod t0 else t0)"
  note eq = aggregate_equation [OF l(1,2) R ok e [symmetric] chal subtotal(2) total' R'(2) P'(2) t0, folded s_def]
  have len32: "length ?r = 32" "length s = 32"
    using l(3) scalar32_length [OF eq(1)] by (simp_all add: encoding_laws_def)
  have verify: "sp_verify c (?r @ s) message ?x"
    using l(4) len32 R'(1) P'(1) eq unfolding schnorr_law_def by blast
  have each: "try_all (\<lambda>(index, partial).
        verify_musig2_partial_signature_with_tweaks c keys nonces tweaks index message partial)
      (enumerate 0 partials) = Inr ()"
    using v by (auto simp: try_all_eq_Inr is_ok_iff in_set_enumerate_eq all_verified_def)
  have "musig2_aggregate_partial_signatures c keys nonces tweaks message partials = Inr (?r @ s)"
    unfolding musig2_aggregate_partial_signatures_def
    using bounds np each session subtotal(1) t0 verify
    by (simp add: Let_def verify_musig2_signature_def flip: s_def)
  then show thesis using that verify len32 by simp
qed

section \<open>Signing\<close>

text \<open>The partial signature computed from the secrets satisfies the equation that verification
  checks on the public values.\<close>

lemma signed_secret:
  assumes "scalar_laws c" "secret32 a"
  shows "secret32 (if b then sp_secret_negate c a else a)"
    "si (if b then sp_secret_negate c a else a) mod N = gsign b * si a mod N"
proof -
  show "secret32 (if b then sp_secret_negate c a else a)" using scalar_lawsD(4) [OF assms(1)] assms(2) by simp
  have "N - si a = (- si a) mod N"
    using negative_mod [of "si a"] si_range assms(2) by (simp add: secret32_def less_le)
  then show "si (if b then sp_secret_negate c a else a) mod N = gsign b * si a mod N"
    using scalar_lawsD(5) [OF assms] by simp
qed

lemma own_nonce_log:
  assumes "point_laws c dl" "encoding_laws c" "secret32 first" "secret32 second"
  shows "nonce_log c dl b (sp_serialize c (sp_public c first) @ sp_serialize c (sp_public c second))
    = si first + b * si second"
  using assms(2) point_lawsD(4) [OF assms(1)] assms(3,4)
  by (simp add: nonce_log_def slice_log_def encoding_laws_def)

lemma partial_signature_value_log:
  assumes laws: "scalar_laws c" "point_laws c dl" "encoding_laws c"
    and s: "secret32 first0" "secret32 second0" "secret32 sk"
    and session: "scalar32 (sv_nonce_coefficient session)" "scalar32 (sv_challenge session)"
    and key: "keys ! i = sp_public c sk"
    and run: "partial_signature_value c session first0 second0 sk keys i = Inr partial"
  shows "scalar32 partial" "si partial = partial_log c dl session keys i
    (sp_serialize c (sp_public c first0) @ sp_serialize c (sp_public c second0)) mod N"
proof -
  let ?b = "sv_nonce_coefficient session" and ?e = "sv_challenge session"
  define ko where "ko = (sv_key_odd session \<noteq> kc_gacc_negative (sv_key_context session))"
  define first where "first = (if sv_nonce_odd session then sp_secret_negate c first0 else first0)"
  define second where "second = (if sv_nonce_odd session then sp_secret_negate c second0 else second0)"
  define key where "key = (if ko then sp_secret_negate c sk else sk)"
  note f = signed_secret [OF laws(1) s(1), of "sv_nonce_odd session", folded first_def]
    and g = signed_secret [OF laws(1) s(2), of "sv_nonce_odd session", folded second_def]
    and k = signed_secret [OF laws(1) s(3), of ko, folded key_def]
  obtain serialized list_hash second_key where m: "musig2_key_material c keys = (serialized, list_hash, second_key)"
    by (metis prod_cases3)
  obtain st nt a ct kt pt where
    st: "multiply_secret_term c second ?b = Inr st" and nt: "add_secret_terms c (Some first) st = Inr nt"
    and a: "musig2_key_coefficient c (serialized ! i) list_hash second_key = Inr a"
    and ct: "multiply_secret_term c key a = Inr ct"
    and kt: "(case ct of Some s \<Rightarrow> multiply_secret_term c s ?e | None \<Rightarrow> Inr None) = Inr kt"
    and pt: "add_secret_terms c nt kt = Inr pt" and partial: "(case pt of Some v \<Rightarrow> v | None \<Rightarrow> SCALAR_ZERO) = partial"
    using run
    unfolding partial_signature_value_def m prod.case Let_def key_def first_def second_def ko_def
    by (simp only: try_then_eq_Inr sum.inject) blast
  have a': "scalar32 a" "coef c keys i = si a"
    using key_coefficient_scalar [OF laws(1) a] a by (simp_all add: coef_def key_coef_def m)
  note vst = multiply_secret_term_Inr [OF laws(1) g(1) session(1) st]
    and vct = multiply_secret_term_Inr [OF laws(1) k(1) a'(1) ct]
  have vnt: "term_ok nt" "term_value nt = (si first + si second * si ?b) mod N"
    using add_secret_terms_value [OF laws(1), of "Some first" st] f(1) vst nt by (simp_all add: mod_add_right_eq)
  have vkt: "term_ok kt \<and> term_value kt = si key * si a * si ?e mod N"
  proof (cases ct)
    case None
    then have "si key * si a mod N = 0" using vct by simp
    then have "si key * si a * si ?e mod N = 0" by (metis mod_mult_left_eq mult_zero_left mod_0)
    then show ?thesis using None kt by simp
  next
    case (Some x)
    then have "secret32 x" "si x = si key * si a mod N" using vct by simp_all
    then show ?thesis
      using multiply_secret_term_Inr [OF laws(1) _ session(2)] kt Some by (simp add: mod_mult_left_eq)
  qed
  have vpt: "term_ok pt" "term_value pt = (si first + si second * si ?b + si key * si a * si ?e) mod N"
    using add_secret_terms_value [OF laws(1) vnt(1), of kt] vkt vnt(2) pt by (simp_all add: mod_add_eq)
  show "scalar32 partial" using vpt(1) partial by (cases pt) (auto simp: secret32_scalar32)
  have nl: "nonce_log c dl (si ?b) (sp_serialize c (sp_public c first0) @ sp_serialize c (sp_public c second0))
      = si first0 + si ?b * si second0"
    by (rule own_nonce_log [OF laws(2,3) s(1,2)])
  have kd: "dl (keys ! i) = si sk" using point_lawsD(4) [OF laws(2)] s(3) assms(9) by simp
  have "si partial = term_value pt" using partial by (cases pt) auto
  also have "\<dots> = (gsign (sv_nonce_odd session) * si first0 + gsign (sv_nonce_odd session) * si second0 * si ?b
      + gsign ko * si sk * si a * si ?e) mod N"
    unfolding vpt(2) by (intro mod_add_cong mod_mult_cong f(2) g(2) k(2) refl)
  also have "\<dots> = partial_log c dl session keys i
      (sp_serialize c (sp_public c first0) @ sp_serialize c (sp_public c second0)) mod N"
    unfolding partial_log_def nl kd a'(2) ko_def by (simp only: algebra_simps)
  finally show "si partial = partial_log c dl session keys i
      (sp_serialize c (sp_public c first0) @ sp_serialize c (sp_public c second0)) mod N" .
qed

text \<open>Verification refuses a signature that satisfies the equation only when a point
  multiplication fails, which the library reports under its own label.\<close>

lemma aggregate_multiply_Inl: "aggregate_multiply c a t = Inl e \<Longrightarrow> e = Crypto ''MuSig2 point multiplication''"
  by (cases a) (auto simp: aggregate_multiply_def try_then_eq_Inl split: if_splits)

lemma effective_nonce_Inl:
  assumes "point_laws c dl" "sp_from_slice c (take 33 nonce) \<noteq> None" "sp_from_slice c (drop 33 nonce) \<noteq> None"
    "musig2_effective_signer_nonce c nonce b odd_nonce = Inl e"
  shows "e = Crypto ''MuSig2 point multiplication''"
proof -
  have "aggregate_add c x y \<noteq> Inl d" for x y d using aggregate_add_value [OF assms(1), of x y] by auto
  then show ?thesis
    using assms(2-) by (auto simp: musig2_effective_signer_nonce_def try_then_eq_Inl dest: aggregate_multiply_Inl)
qed

lemma session_guards:
  assumes "musig2_session_values_from_aggregate_nonce c keys agg tweaks message = Inr session"
  shows "length keys \<le> MAX_MUSIG_KEYS" "length tweaks \<le> MAX_MUSIG_TWEAKS" "length message \<le> MAX_MUSIG_MESSAGE_BYTES"
  using assms by (auto simp: musig2_session_values_from_aggregate_nonce_def split: if_splits)

lemma verify_complete:
  assumes laws: "scalar_laws c" "point_laws c dl"
    and session: "musig2_session_values_from_aggregate_nonce c keys agg tweaks message = Inr session"
    and s: "scalar32 partial" "si partial = partial_log c dl session keys i nonce mod N" and i: "i < length keys"
    and slices: "sp_from_slice c (take 33 nonce) \<noteq> None" "sp_from_slice c (drop 33 nonce) \<noteq> None"
    and run: "verify_musig2_partial_signature_with_aggregate_nonce c keys nonce agg tweaks i message partial = Inl e"
  shows "e = Crypto ''MuSig2 point multiplication''"
proof -
  obtain sc: "scalar32 (sv_nonce_coefficient session)" "scalar32 (sv_challenge session)"
    by (rule session_from_aggregateD [OF laws session], rule that, assumption+)
  obtain a where a: "key_coef c keys i = Inr a" using key_coef_Inr [OF laws(1)] by blast
  obtain S where S: "point_from_scalar c partial = Inr S" "alog dl S = si partial"
    using point_from_scalar_value [OF laws s(1)] by blast
  have last: "ensure (S = E) d = Inr ()"
    if "musig2_effective_signer_nonce c nonce (sv_nonce_coefficient session) (sv_nonce_odd session) = Inr r"
      "aggregate_multiply c (Point (keys ! i)) a = Inr W" "aggregate_multiply c W (sv_challenge session) = Inr C"
      "aggregate_add c r (if sv_key_odd session \<noteq> kc_gacc_negative (sv_key_context session)
        then aggregate_negate c C else C) = Inr E" for r W C E d
    using expected_point_log [OF laws sc that(1) a that(2-4)] S(2) s(2) alog_inj [OF laws(2), of S E] by simp
  note u = run [unfolded verify_unfold [OF i session_guards [OF session] s(1)] session a S(1) try_then_simps]
  show ?thesis
  proof (cases "musig2_effective_signer_nonce c nonce (sv_nonce_coefficient session) (sv_nonce_odd session)")
    case (Inl d)
    then show ?thesis using u effective_nonce_Inl [OF laws(2) slices Inl] by simp
  next
    case r: (Inr r)
    show ?thesis
    proof (cases "aggregate_multiply c (Point (keys ! i)) a")
      case (Inl d)
      then show ?thesis using u r aggregate_multiply_Inl [OF Inl] by simp
    next
      case W: (Inr W)
      show ?thesis
      proof (cases "aggregate_multiply c W (sv_challenge session)")
        case (Inl d)
        then show ?thesis using u r W aggregate_multiply_Inl [OF Inl] by simp
      next
        case C: (Inr C)
        obtain E where E: "aggregate_add c r (if sv_key_odd session \<noteq> kc_gacc_negative (sv_key_context session)
            then aggregate_negate c C else C) = Inr E"
          using aggregate_add_value [OF laws(2)] by blast
        show ?thesis using u unfolding r W C E try_then_simps last [OF r W C E] by simp
      qed
    qed
  qed
qed

text \<open>Error labels other than that of the check.\<close>

abbreviation VERIFY_ERROR :: verification_error where
  "VERIFY_ERROR \<equiv> Crypto ''MuSig2 partial signature verification''"

lemma try_map_Inl: "try_map f xs = Inl e \<Longrightarrow> \<exists>x \<in> set xs. f x = Inl e"
  by (induction xs) (auto simp: try_then_eq_Inl)

lemma scalar_from_hash_Inl: "scalar_from_hash c h = Inl e \<Longrightarrow> e = Crypto ''scalar exceeds curve order''"
  by (auto simp: scalar_from_hash_def try_then_eq_Inl)

lemma plain_key_error: "musig2_aggregate_plain_key c keys \<noteq> Inl VERIFY_ERROR"
  by (auto simp: musig2_aggregate_plain_key_def combine_public_keys_def musig2_key_coefficient_def try_then_eq_Inl
      dest!: try_map_Inl scalar_from_hash_Inl split: prod.split_asm if_split_asm)

lemma apply_tweaks_error: "apply_tweaks c tweaks ctx \<noteq> Inl VERIFY_ERROR"
proof (induction tweaks arbitrary: ctx)
  case (Cons t tweaks)
  then show ?case by (auto simp: apply_tweak_def try_then_eq_Inl Let_def)
qed simp

lemma key_context_error: "musig2_key_context c keys tweaks \<noteq> Inl VERIFY_ERROR"
  by (auto simp: musig2_key_context_def try_then_eq_Inl plain_key_error apply_tweaks_error)

lemma aggregate_add_error: "point_laws c dl \<Longrightarrow> aggregate_add c x y \<noteq> Inl e"
  using aggregate_add_value [of c dl x y] by auto

lemma session_error:
  assumes "point_laws c dl"
  shows "musig2_session_values_from_aggregate_nonce c keys agg tweaks message \<noteq> Inl VERIFY_ERROR"
proof -
  have "(case comb of Infinity \<Rightarrow> generator_point c | Point point \<Rightarrow> Inr point) \<noteq> Inl VERIFY_ERROR" for comb
    by (cases comb) (auto simp: generator_point_def try_then_eq_Inl)
  moreover have "aggregate_point_from_extended c b \<noteq> Inl VERIFY_ERROR" for b
    by (auto simp: aggregate_point_from_extended_def try_then_eq_Inl)
  ultimately show ?thesis
    unfolding musig2_session_values_from_aggregate_nonce_def Let_def
    by (auto simp: try_then_eq_Inl key_context_error aggregate_add_error [OF assms]
        dest: scalar_from_hash_Inl aggregate_multiply_Inl split: if_split_asm)
qed

lemma nonces_error:
  assumes "point_laws c dl"
  shows "musig2_aggregate_public_nonces c nonces \<noteq> Inl VERIFY_ERROR"
proof -
  have "aggregate_nonces_from c nonces f s \<noteq> Inl VERIFY_ERROR" for f s
    by (induction nonces arbitrary: f s) (auto simp: try_then_eq_Inl aggregate_add_error [OF assms])
  then show ?thesis
    by (auto simp: musig2_aggregate_public_nonces_def musig2_aggregate_nonces_def try_then_eq_Inl
        split: if_split_asm)
qed

lemma partial_value_error: "partial_signature_value c session f s sk keys i \<noteq> Inl VERIFY_ERROR"
proof -
  obtain serialized list_hash second_key where m: "musig2_key_material c keys = (serialized, list_hash, second_key)"
    by (metis prod_cases3)
  have mult: "multiply_secret_term c a t \<noteq> Inl VERIFY_ERROR" for a t
    by (auto simp: multiply_secret_term_def try_then_eq_Inl)
  have add: "add_secret_terms c a b \<noteq> Inl d" for a b d
    by (auto simp: add_secret_terms_def split: option.splits)
  have key: "musig2_key_coefficient c k h l \<noteq> Inl VERIFY_ERROR" for k h l
    by (auto simp: musig2_key_coefficient_def dest: scalar_from_hash_Inl)
  have case_term: "(case t of Some x \<Rightarrow> multiply_secret_term c x ch | None \<Rightarrow> Inr None) \<noteq> Inl VERIFY_ERROR" for t ch
    by (cases t) (simp_all add: mult)
  show ?thesis
    unfolding partial_signature_value_def Let_def m prod.case
    by (auto simp: try_then_eq_Inl mult add key case_term)
qed

text \<open>A nonce as generated for a secret key and not yet used.\<close>

definition fresh_nonce :: "'p secp \<Rightarrow> u8 list \<Rightarrow> musig2_secret_nonce \<Rightarrow> bool" where
  "fresh_nonce c sk sn \<longleftrightarrow> secret32 (sn_first sn) \<and> secret32 (sn_second sn)
     \<and> sn_public_key sn = sp_serialize c (sp_public c sk) \<and> \<not> sn_consumed sn
     \<and> sn_public_nonce sn = sp_serialize c (sp_public c (sn_first sn)) @ sp_serialize c (sp_public c (sn_second sn))"

lemma nonce_scalar_secret:
  assumes "scalar_laws c" "musig2_nonce_scalar c input index = Inr v"
  shows "secret32 v"
  using assms scalar_lawsD(1) [OF assms(1)]
    scalar_from_hash_value(2) [OF assms(1) length_musig_hash [OF assms(1)], THEN scalar32_length]
  by (auto simp: musig2_nonce_scalar_def try_then_eq_Inr Let_def)

lemma nonce_gen_fresh:
  assumes "scalar_laws c" "musig2_nonce_gen c sk aggregate_key message extra randomness = Inr sn"
  shows "fresh_nonce c sk sn"
proof -
  have "\<exists>input. musig2_nonce_scalar c input 0 = Inr (sn_first sn) \<and> musig2_nonce_scalar c input 1 = Inr (sn_second sn)"
    "sn_public_key sn = sp_serialize c (sp_public c sk)" "\<not> sn_consumed sn"
    "sn_public_nonce sn = sp_serialize c (sp_public c (sn_first sn)) @ sp_serialize c (sp_public c (sn_second sn))"
    using assms(2)
    by (auto simp: musig2_nonce_gen_def musig2_nonce_gen_internal_def try_then_eq_Inr Let_def split: if_split_asm)
  then show ?thesis using nonce_scalar_secret [OF assms(1)] by (auto simp: fresh_nonce_def)
qed

lemma sign_consumed_Inl:
  assumes laws: "scalar_laws c" "point_laws c dl" "encoding_laws c" and sk: "secret32 sk"
    and n: "secret32 (cn_first cn)" "secret32 (cn_second cn)"
      "pn = sp_serialize c (sp_public c (cn_first cn)) @ sp_serialize c (sp_public c (cn_second cn))"
    and run: "sign_consumed c cn pn sk keys i spn agg tweaks message = Inl e"
  shows "e \<noteq> VERIFY_ERROR"
proof
  assume e: "e = VERIFY_ERROR"
  have g: "i < length keys" "keys ! i = sp_public c sk" "spn = pn"
    using run e by (auto simp: sign_consumed_def Let_def split: if_split_asm)
  have slices: "sp_from_slice c (take 33 pn) \<noteq> None" "sp_from_slice c (drop 33 pn) \<noteq> None"
    using laws(3) by (simp_all add: n(3) encoding_laws_def)
  obtain session partial where s: "musig2_session_values_from_aggregate_nonce c keys agg tweaks message = Inr session"
    and v: "partial_signature_value c session (cn_first cn) (cn_second cn) sk keys i = Inr partial"
    and w: "verify_musig2_partial_signature_with_aggregate_nonce c keys pn agg tweaks i message partial = Inl VERIFY_ERROR"
    using run e g
    by (auto simp: sign_consumed_def Let_def try_then_eq_Inl session_error [OF laws(2)] partial_value_error
        split: if_split_asm)
  obtain sc: "scalar32 (sv_nonce_coefficient session)" "scalar32 (sv_challenge session)"
    by (rule session_from_aggregateD [OF laws(1,2) s], rule that, assumption+)
  note p = partial_signature_value_log [OF laws n(1,2) sk sc g(2) v, folded n(3)]
  show False using verify_complete [OF laws(1,2) s p g(1) slices w] by simp
qed

end
