(* ===== verification/Musig2_Props.thy ===== *)
theory Musig2_Props
  imports Musig2_Correct
begin

text \<open>
  The properties of the MuSig2 signer, and a small model of the curve library that satisfies its
  laws: the points are the residues themselves.
\<close>

section \<open>One signature per nonce\<close>

record 'p sign_request =
  sr_secret_key :: "u8 list"
  sr_keys :: "'p list"
  sr_public_nonces :: "u8 list list"
  sr_tweaks :: "musig2_tweak list"
  sr_message :: "u8 list"

text \<open>A sequence of calls of \<open>musig2_partial_sign\<close> on one nonce.\<close>

fun sign_each ::
    "'p secp \<Rightarrow> musig2_secret_nonce \<Rightarrow> 'p sign_request list \<Rightarrow> (verification_error, u8 list) result list" where
  "sign_each c sn [] = []"
| "sign_each c sn (r # rs) =
     (case musig2_partial_sign c sn (sr_secret_key r) (sr_keys r) (sr_public_nonces r) (sr_tweaks r) (sr_message r) of
        (sn', res) \<Rightarrow> res # sign_each c sn' rs)"

lemma partial_sign_cases:
  assumes run: "musig2_partial_sign c sn sk keys nonces tweaks message = (sn', res)"
  obtains (refused) e where "sn' = sn" "res = Inl e"
      "validate_musig2_session_bounds keys nonces tweaks message = Inl e \<or> (\<exists>label. e = Invalid label)
       \<or> musig2_aggregate_public_nonces c nonces = Inl e"
  | (signed) i agg where "validate_musig2_session_bounds keys nonces tweaks message = Inr ()"
      "position (\<lambda>key. key = sp_public c sk) keys = Some i"
      "musig2_aggregate_public_nonces c nonces = Inr agg"
      "musig2_partial_sign_with_aggregate_nonce c sn sk keys i (nonces ! i) agg tweaks message = (sn', res)"
proof (cases "validate_musig2_session_bounds keys nonces tweaks message")
  case (Inl e)
  then show thesis using run refused [of e] by (simp add: musig2_partial_sign_def)
next
  case v: (Inr u)
  show thesis
  proof (cases "position (\<lambda>key. key = sp_public c sk) keys")
    case None
    then show thesis using run v by (intro refused [OF _ _ disjI2 [OF disjI1]]) (auto simp: musig2_partial_sign_def)
  next
    case i: (Some i)
    show thesis
    proof (cases "i < length nonces \<and> nonces ! i = sn_public_nonce sn")
      case False
      then show thesis using run v i
        by (intro refused [OF _ _ disjI2 [OF disjI1]]) (auto simp: musig2_partial_sign_def)
    next
      case True
      show thesis
      proof (cases "musig2_aggregate_public_nonces c nonces")
        case (Inl e)
        then show thesis using run v i True refused [of e] by (auto simp: musig2_partial_sign_def)
      next
        case (Inr agg)
        then show thesis using run v i True signed [OF _ i Inr] by (simp add: musig2_partial_sign_def)
      qed
    qed
  qed
qed

lemma partial_sign_state:
  assumes run: "musig2_partial_sign c sn sk keys nonces tweaks message = (sn', res)"
  shows "sn_consumed sn \<Longrightarrow> sn_consumed sn' \<and> \<not> is_ok res" "is_ok res \<Longrightarrow> sn_consumed sn'"
  using run
  by (cases rule: partial_sign_cases;
      force simp: musig2_partial_sign_with_aggregate_nonce_def consume_def is_ok_iff split: if_split_asm)+

lemma consumed_never_signs: "sn_consumed sn \<Longrightarrow> filter is_ok (sign_each c sn rs) = []"
proof (induction rs arbitrary: sn)
  case (Cons r rs)
  obtain sn' res where run: "musig2_partial_sign c sn (sr_secret_key r) (sr_keys r) (sr_public_nonces r) (sr_tweaks r)
      (sr_message r) = (sn', res)" by fastforce
  then show ?case using partial_sign_state(1) [OF run] Cons by simp
qed simp

lemma signs_once: "length (filter is_ok (sign_each c sn rs)) \<le> 1"
proof (induction rs arbitrary: sn)
  case (Cons r rs)
  obtain sn' res where run: "musig2_partial_sign c sn (sr_secret_key r) (sr_keys r) (sr_public_nonces r) (sr_tweaks r)
      (sr_message r) = (sn', res)" by fastforce
  show ?case
  proof (cases "is_ok res")
    case True
    then have "filter is_ok (sign_each c sn' rs) = []" using partial_sign_state(2) [OF run] consumed_never_signs by blast
    then show ?thesis using run by simp
  next
    case False
    then show ?thesis using run Cons.IH [of sn'] by simp
  qed
qed simp

section \<open>The taproot output key\<close>

text \<open>Adding a tweak to an x-only key is adding it to the point of even parity.\<close>

definition xonly_tweak_law :: "'p secp \<Rightarrow> bool" where
  "xonly_tweak_law c \<longleftrightarrow> (\<forall>P x t. sp_xonly c P = (x, Even) \<longrightarrow>
     tc_add_tweak (sp_taproot c) x t = map_option (sp_xonly c) (sp_add_exp c P t))"

lemma tweaked_key_output:
  assumes enc: "encoding_laws c" and law: "xonly_tweak_law c"
    and internal: "musig2_aggregate_key c keys = Inr internal" and tweak: "musig2_taproot_tweak c keys root = Inr tweak"
  shows "musig2_tweaked_aggregate_key c keys [tweak] = Inr key
    \<longleftrightarrow> (\<exists>p. taproot_output_key (sp_taproot c) internal (Some root) = Inr (key, p))"
proof -
  obtain K where K: "musig2_aggregate_plain_key c keys = Inr K" "internal = fst (sp_xonly c K)"
    and g: "keys \<noteq> []" "\<not> MAX_MUSIG_KEYS < length keys"
    using internal by (auto simp: musig2_aggregate_key_def try_then_eq_Inr split: if_split_asm)
  let ?t = "musig_hash c ''TapTweak'' (internal @ root)"
  have t: "tc_scalar_ok (sp_taproot c) ?t" "tweak = \<lparr>mt_value = ?t, mt_xonly = True\<rparr>"
    using tweak internal by (auto simp: musig2_taproot_tweak_def try_then_eq_Inr Let_def)
  define Q where "Q = (if snd (sp_xonly c K) = Odd then sp_negate c K else K)"
  have Q: "sp_xonly c Q = (internal, Even)"
    using enc K(2) by (cases "snd (sp_xonly c K)") (simp_all add: Q_def encoding_laws_def prod_eq_iff)
  have out: "taproot_output_key (sp_taproot c) internal (Some root) = Inr (key, p)
      \<longleftrightarrow> (\<exists>R. sp_add_exp c Q ?t = Some R \<and> sp_xonly c R = (key, p))" for p
    using t(1) law Q unfolding xonly_tweak_law_def
    by (auto simp: taproot_output_key_def Let_def)
  have "musig2_tweaked_aggregate_key c keys [tweak] = Inr key
      \<longleftrightarrow> (\<exists>R. sp_add_exp c Q ?t = Some R \<and> fst (sp_xonly c R) = key)"
    using t g K(1)
    by (auto simp: musig2_tweaked_aggregate_key_def musig2_key_context_def apply_tweak_def MAX_MUSIG_TWEAKS_def
        try_then_eq_Inr Let_def Q_def)
  moreover have "fst (sp_xonly c R) = key \<longleftrightarrow> (\<exists>p. sp_xonly c R = (key, p))" for R
    by (cases "sp_xonly c R") simp
  ultimately show ?thesis unfolding out by blast
qed

section \<open>Properties\<close>

text \<open>C16: partial signatures that verify one by one add up: if every participant's partial
  signature is accepted and the combined nonce is not the point at infinity, aggregation returns
  a signature, and BIP 340 verification accepts it for the tweaked aggregate key.\<close>

theorem musig2_aggregates:
  assumes "secp_laws c dl" "\<forall>t \<in> set tweaks. length (mt_value t) = 32" "\<forall>p \<in> set partials. length p = 32"
    "all_verified c keys nonces tweaks message partials"
    "musig2_session_values c keys nonces tweaks message = Inr session"
    "combined_log c dl nonces session mod int curve_n \<noteq> 0"
  shows "\<exists>signature key. musig2_aggregate_partial_signatures c keys nonces tweaks message partials = Inr signature
    \<and> length signature = 64 \<and> musig2_tweaked_aggregate_key c keys tweaks = Inr key
    \<and> verify_musig2_signature c key message signature = Inr ()"
proof -
  obtain agg where "musig2_session_values_from_aggregate_nonce c keys agg tweaks message = Inr session"
    using assms(5) by (auto simp: musig2_session_values_def try_then_eq_Inr)
  then obtain "musig2_key_context c keys tweaks = Inr (sv_key_context session)"
    by (rule session_from_aggregateD [OF secp_lawsD(1,2) [OF assms(1)]]) blast
  then have key: "musig2_tweaked_aggregate_key c keys tweaks = Inr (fst (sp_xonly c (kc_key (sv_key_context session))))"
    by (simp add: musig2_tweaked_aggregate_key_def)
  obtain signature where "musig2_aggregate_partial_signatures c keys nonces tweaks message partials = Inr signature"
    "length signature = 64" "sp_verify c signature message (fst (sp_xonly c (kc_key (sv_key_context session))))"
    by (rule partials_aggregate [OF assms])
  then show ?thesis using key by (auto simp: verify_musig2_signature_def)
qed

text \<open>C30: a signer never refuses its own signature: signing with a generated nonce and the
  matching secret key does not fail in the check of the computed partial signature, and a
  partial signature that is returned verifies under the signer's index.\<close>

theorem musig2_signs_verified:
  assumes "secp_laws c dl" "secret32 sk" "musig2_nonce_gen c sk aggregate_key context_message extra randomness = Inr sn"
    "musig2_partial_sign c sn sk keys nonces tweaks message = (sn', res)"
  shows "res \<noteq> Inl (Crypto ''MuSig2 partial signature verification'')
    \<and> (\<forall>partial. res = Inr partial \<longrightarrow> (\<exists>i < length keys. keys ! i = sp_public c sk
         \<and> verify_musig2_partial_signature_with_tweaks c keys nonces tweaks i message partial = Inr ()))"
  using assms(4)
proof (cases rule: partial_sign_cases)
  case (refused e)
  then show ?thesis
    using nonces_error [OF secp_lawsD(2) [OF assms(1)], of nonces]
    by (auto simp: validate_musig2_session_bounds_def split: if_split_asm)
next
  case (signed i agg)
  note l = secp_lawsD [OF assms(1)]
  note fresh = nonce_gen_fresh [OF l(1) assms(3)]
  let ?cn = "\<lparr>cn_first = sn_first sn, cn_second = sn_second sn, cn_public_key = sn_public_key sn\<rparr>"
  have r: "res = sign_consumed c ?cn (sn_public_nonce sn) sk keys i (nonces ! i) agg tweaks message"
    using signed(4) fresh by (simp add: musig2_partial_sign_with_aggregate_nonce_def consume_def fresh_nonce_def)
  have "res \<noteq> Inl (Crypto ''MuSig2 partial signature verification'')"
    using sign_consumed_Inl [OF l(1,2,3) assms(2), of ?cn "sn_public_nonce sn"] fresh
    unfolding r fresh_nonce_def by fastforce
  moreover have "verify_musig2_partial_signature_with_tweaks c keys nonces tweaks i message partial = Inr ()"
    if "res = Inr partial" for partial
  proof -
    have "verify_musig2_partial_signature_with_aggregate_nonce c keys (nonces ! i) agg tweaks i message partial = Inr ()"
      using that unfolding r by (auto simp: sign_consumed_def try_then_eq_Inr Let_def split: if_split_asm)
    then show ?thesis
      using signed(1,3) by (auto simp: verify_musig2_partial_signature_with_tweaks_def
          verify_musig2_partial_signature_with_aggregate_nonce_def split: if_split_asm)
  qed
  moreover have "i < length keys" "keys ! i = sp_public c sk" using position_SomeD [OF signed(2)] by simp_all
  ultimately show ?thesis by auto
qed

text \<open>C29: a secret nonce signs at most once, whatever sequence of signing calls is made on it,
  and none of them returns a signature once it is consumed.\<close>

theorem musig2_nonce_once:
  "length (filter is_ok (sign_each c sn requests)) \<le> 1
   \<and> (sn_consumed sn \<longrightarrow> filter is_ok (sign_each c sn requests) = [])"
  using signs_once consumed_never_signs by blast

section \<open>The residues as a curve library\<close>

text \<open>
  The laws can hold together: the nonzero residues modulo the order, added as numbers, with 1 as
  the generator. The x coordinate of a residue and of its negative is the smaller of the two, and
  the smaller one has even parity.
\<close>

typedef residue = "{k :: int. 0 < k \<and> k < N}"
  using N_pos by (intro exI [of _ 1]) simp

lemma Rep_residue_range: "0 < Rep_residue P" "Rep_residue P < N"
  using Rep_residue [of P] by simp_all

lemma Rep_Abs_residue: "\<lbrakk>0 < k; k < N\<rbrakk> \<Longrightarrow> Rep_residue (Abs_residue k) = k"
  by (simp add: Abs_residue_inverse)

definition res :: "int \<Rightarrow> residue option" where
  "res k = (if k mod N = 0 then None else Some (Abs_residue (k mod N)))"

lemma res_Some: "res k = Some Q \<longleftrightarrow> Rep_residue Q = k mod N"
proof -
  have "0 \<le> k mod N" "k mod N < N" using N_pos by simp_all
  then have "k mod N \<noteq> 0 \<Longrightarrow> Rep_residue (Abs_residue (k mod N)) = k mod N" by (intro Rep_Abs_residue) simp_all
  then show ?thesis using Rep_residue_range [of Q] Rep_residue_inverse [of Q] by (auto simp: res_def)
qed

definition res_x :: "residue \<Rightarrow> u8 list" where
  "res_x P = be_bytes 32 (nat (min (Rep_residue P) (N - Rep_residue P)))"

definition res_parity :: "residue \<Rightarrow> parity" where
  "res_parity P = (if Rep_residue P < N - Rep_residue P then Even else Odd)"

definition res_negate :: "residue \<Rightarrow> residue" where "res_negate P = Abs_residue (N - Rep_residue P)"

definition res_lift :: "u8 list \<Rightarrow> residue option" where
  "res_lift x = (if length x = 32 \<and> 0 < si x \<and> si x < N - si x then Some (Abs_residue (si x)) else None)"

definition res_from_slice :: "u8 list \<Rightarrow> residue option" where
  "res_from_slice b = (case b of
     [] \<Rightarrow> None
   | h # x \<Rightarrow> (case res_lift x of
       None \<Rightarrow> None
     | Some P \<Rightarrow> if h = 2 then Some P else if h = 3 then Some (res_negate P) else None))"

definition secret_of :: "int \<Rightarrow> u8 list option" where
  "secret_of k = (if k mod N = 0 then None else Some (scalar_of k))"

definition residue_taproot :: taproot_crypto where
  "residue_taproot = \<lparr>tc_sha256 = \<lambda>m. SCALAR_ONE, tc_xonly_ok = \<lambda>x. res_lift x \<noteq> None, tc_scalar_ok = scalar32,
     tc_add_tweak = \<lambda>x t. (case res_lift x of
        None \<Rightarrow> None
      | Some P \<Rightarrow> map_option (\<lambda>Q. (res_x Q, res_parity Q)) (res (Rep_residue P + si t)))\<rparr>"

definition residue_secp :: "residue secp" where
  "residue_secp = \<lparr>sp_taproot = residue_taproot, sp_secret_ok = secret32,
     sp_secret_add = \<lambda>a b. secret_of (si a + si b), sp_secret_mul = \<lambda>a b. secret_of (si a * si b),
     sp_secret_negate = \<lambda>a. scalar_of (N - si a), sp_public = \<lambda>s. Abs_residue (si s),
     sp_combine = \<lambda>Ps. res (sum_list (map Rep_residue Ps)), sp_mul = \<lambda>P t. res (si t * Rep_residue P),
     sp_add_exp = \<lambda>P t. res (Rep_residue P + si t), sp_negate = res_negate,
     sp_serialize = \<lambda>P. (if res_parity P = Even then 2 else 3) # res_x P, sp_from_slice = res_from_slice,
     sp_xonly = \<lambda>P. (res_x P, res_parity P),
     sp_verify = \<lambda>signature message x. (case (res_lift x, res_lift (take 32 signature)) of
        (Some P, Some R) \<Rightarrow> scalar32 (drop 32 signature) \<and> si (drop 32 signature)
          = (Rep_residue R + si (tagged_hash residue_taproot ''BIP0340/challenge''
               (take 32 signature @ x @ message)) * Rep_residue P) mod N
      | _ \<Rightarrow> False)\<rparr>"

lemma secret_of_Some: "secret_of k = Some r \<longleftrightarrow> secret32 r \<and> si r = k mod N"
proof
  assume "secret_of k = Some r"
  then show "secret32 r \<and> si r = k mod N" using scalar_of by (auto simp: secret_of_def secret32_def split: if_splits)
next
  assume r: "secret32 r \<and> si r = k mod N"
  then have "scalar_of k = r" using scalar_of by (intro si_inj) (simp_all add: secret32_def)
  then show "secret_of k = Some r" using r by (simp add: secret_of_def secret32_def)
qed

lemma residue_scalar_laws: "scalar_laws residue_secp"
proof -
  have "secret32 (scalar_of (N - si a)) \<and> si (scalar_of (N - si a)) = N - si a" if "secret32 a" for a
  proof -
    have "0 < si a" "si a < N" using that si_range [of a] by (simp_all add: secret32_def less_le)
    then show ?thesis using scalar_of [of "N - si a"] negative_mod [of "si a"] by (simp add: secret32_def)
  qed
  then show ?thesis
    by (simp add: scalar_laws_def residue_secp_def residue_taproot_def secret_of_Some)
qed

lemma Rep_res_negate: "Rep_residue (res_negate P) = N - Rep_residue P"
  unfolding res_negate_def using Rep_residue_range [of P] by (intro Rep_Abs_residue) simp_all

lemma residue_point_laws: "point_laws residue_secp Rep_residue"
  unfolding point_laws_def
proof (intro conjI allI impI)
  show "inj Rep_residue" by (rule injI) (simp add: Rep_residue_inject)
  show "0 < Rep_residue P" "Rep_residue P < N" for P by (rule Rep_residue_range)+
  show "\<exists>P. Rep_residue P = k" if "0 < k" "k < N" for k using Rep_Abs_residue [OF that] by blast
  show "Rep_residue (sp_public residue_secp s) = si s" if "secret32 s" for s
    using that si_range [of s] by (simp add: residue_secp_def secret32_def Rep_Abs_residue)
qed (simp_all add: residue_secp_def res_Some Rep_res_negate)

lemma res_x_value:
  shows "length (res_x P) = 32" "si (res_x P) = min (Rep_residue P) (N - Rep_residue P)"
proof -
  have "nat (min (Rep_residue P) (N - Rep_residue P)) < 256 ^ 32"
    using Rep_residue_range [of P] curve_n_bounds(2) by linarith
  then show "si (res_x P) = min (Rep_residue P) (N - Rep_residue P)"
    using Rep_residue_range [of P] by (simp add: si_def res_x_def be_nat_be_bytes)
qed (simp add: res_x_def)

lemma N_odd: "N \<noteq> 2 * k"
proof -
  have "odd curve_n" by (simp add: curve_n_value)
  then show ?thesis by (metis dvd_triv_left even_of_nat)
qed

lemma res_lift_x: "res_lift (res_x P) = Some (if res_parity P = Even then P else res_negate P)"
proof -
  have ne: "2 * Rep_residue P \<noteq> N" using N_odd [of "Rep_residue P"] by simp
  then have "res_lift (res_x P) = Some (Abs_residue (min (Rep_residue P) (N - Rep_residue P)))"
    using Rep_residue_range [of P] by (simp add: res_lift_def res_x_value min_def)
  moreover have "Abs_residue (min (Rep_residue P) (N - Rep_residue P)) = (if res_parity P = Even then P else res_negate P)"
    using ne by (auto simp: res_parity_def res_negate_def min_def Rep_residue_inverse)
  ultimately show ?thesis by simp
qed

lemma res_negate_negate: "res_negate (res_negate P) = P"
  by (simp add: Rep_res_negate flip: Rep_residue_inject)

lemma res_negate_x:
  "res_x (res_negate P) = res_x P" "res_parity (res_negate P) = (if res_parity P = Even then Odd else Even)"
proof -
  have "Rep_residue P \<noteq> N - Rep_residue P" using N_odd [of "Rep_residue P"] by linarith
  then show "res_x (res_negate P) = res_x P" "res_parity (res_negate P) = (if res_parity P = Even then Odd else Even)"
    by (auto simp: res_x_def res_parity_def Rep_res_negate min.commute)
qed

lemma residue_encoding_laws: "encoding_laws residue_secp"
proof -
  have "replicate 33 (0 :: u8) = 0 # replicate 32 0" using replicate_Suc [of 32 "0 :: u8"] by simp
  then show ?thesis
    by (simp add: encoding_laws_def residue_secp_def res_x_value(1) res_from_slice_def res_lift_x res_negate_x
        res_negate_negate)
qed

lemma res_lift_Some:
  "res_lift x = Some P \<longleftrightarrow> res_x P = x \<and> res_parity P = Even"
proof
  assume lift: "res_lift x = Some P"
  then have x: "length x = 32" "0 < si x" "si x < N - si x" "P = Abs_residue (si x)"
    by (auto simp: res_lift_def split: if_splits)
  then have P: "Rep_residue P = si x" by (simp add: Rep_Abs_residue)
  have "si (res_x P) = si x" using x P by (simp add: res_x_value)
  then have "res_x P = x" using x(1) by (intro be_nat_inj) (simp_all add: res_x_value si_def)
  then show "res_x P = x \<and> res_parity P = Even" using x P by (simp add: res_parity_def)
next
  assume "res_x P = x \<and> res_parity P = Even"
  then show "res_lift x = Some P" using res_lift_x [of P] by simp
qed

lemma residue_xonly: "sp_xonly residue_secp P = (x, Even) \<longleftrightarrow> res_lift x = Some P"
  by (simp add: residue_secp_def res_lift_Some)

lemma residue_schnorr_law: "schnorr_law residue_secp Rep_residue"
  unfolding schnorr_law_def residue_xonly
  by (auto simp: residue_secp_def split: option.splits)

lemma residue_laws: "secp_laws residue_secp Rep_residue"
  by (simp add: secp_laws_def residue_scalar_laws residue_point_laws residue_encoding_laws residue_schnorr_law)

lemma residue_xonly_tweak_law: "xonly_tweak_law residue_secp"
  unfolding xonly_tweak_law_def residue_xonly by (auto simp: residue_secp_def residue_taproot_def)

section \<open>A single-signer session\<close>

definition pt :: "int \<Rightarrow> residue" where "pt k = Abs_residue k"

lemma small_mod [simp]: "1 mod N = 1" "2 mod N = 2" "3 mod N = 3" "2 * 1 < N" "2 * 2 < N" "4 < N" "4 < curve_n" "2 < curve_n"
  by (simp_all add: curve_n_value)

lemma Rep_pt [simp]: "Rep_residue (pt 1) = 1" "Rep_residue (pt 2) = 2" "Rep_residue (pt 3) = 3"
  unfolding pt_def by (rule Rep_Abs_residue; simp add: curve_n_value)+

lemma res_small [simp]: "res 1 = Some (pt 1)" "res 2 = Some (pt 2)" "res 3 = Some (pt 3)"
  by (simp_all add: res_Some)

lemma sample_hash [simp]: "musig_hash residue_secp tag m = SCALAR_ONE"
  by (simp add: tagged_hash_def Let_def residue_secp_def residue_taproot_def)

lemma sample_scalar_from_hash [simp]:
  "scalar_bytes_from_hash SCALAR_ONE = SCALAR_ONE" "scalar_from_hash residue_secp SCALAR_ONE = Inr SCALAR_ONE"
proof -
  have "scalar_bytes_from_hash SCALAR_ONE = SCALAR_ONE"
    using scalar_from_hash_value [OF residue_scalar_laws, of SCALAR_ONE] by (intro si_inj) simp_all
  then show "scalar_bytes_from_hash SCALAR_ONE = SCALAR_ONE" "scalar_from_hash residue_secp SCALAR_ONE = Inr SCALAR_ONE"
    using scalar_from_hash_value(1) [OF residue_scalar_laws, of SCALAR_ONE] by simp_all
qed

lemma residue_sel [simp]:
  "sp_combine residue_secp Ps = res (sum_list (map Rep_residue Ps))"
  "sp_mul residue_secp P t = res (si t * Rep_residue P)"
  "sp_xonly residue_secp P = (res_x P, res_parity P)"
  "sp_secret_ok residue_secp s = secret32 s" "sp_public residue_secp s = pt (si s)"
  by (simp_all add: residue_secp_def pt_def)

lemma residue_slices [simp]:
  "sp_from_slice residue_secp (sp_serialize residue_secp P) = Some P" "length (sp_serialize residue_secp P) = 33"
  "sp_serialize residue_secp P \<noteq> replicate 33 0"
  using residue_encoding_laws by (simp_all add: encoding_laws_def)

lemma SCALAR_ONE_neq: "SCALAR_ONE \<noteq> SCALAR_ZERO" "secret32 SCALAR_ONE"
  using si_one(1) si_zeros by (metis zero_neq_one, simp add: secret32_def)

abbreviation sample_nonce :: "u8 list" where
  "sample_nonce \<equiv> sp_serialize residue_secp (pt 1) @ sp_serialize residue_secp (pt 1)"

definition sample_session :: "residue musig2_session_values_rec" where
  "sample_session = \<lparr>sv_key_context = \<lparr>kc_key = pt 1, kc_gacc_negative = False, kc_tacc = SCALAR_ZERO\<rparr>,
     sv_nonce_coefficient = SCALAR_ONE, sv_final_nonce = pt 2, sv_challenge = SCALAR_ONE, sv_nonce_odd = False,
     sv_key_odd = False\<rparr>"

lemma sample_coefficient: "musig2_key_material residue_secp [pt 1] = ([sp_serialize residue_secp (pt 1)], SCALAR_ONE, replicate 33 0)"
  by (simp add: musig2_key_material_def)

lemma sample_plain_key: "musig2_aggregate_plain_key residue_secp [pt 1] = Inr (pt 1)"
  by (simp add: musig2_aggregate_plain_key_def sample_coefficient musig2_key_coefficient_def combine_public_keys_def)

lemma sample_aggregate_nonce: "musig2_aggregate_public_nonces residue_secp [sample_nonce] = Inr sample_nonce"
  by (simp add: musig2_aggregate_public_nonces_def musig2_aggregate_nonces_def aggregate_add_def MAX_MUSIG_KEYS_def)

lemma sample_session_from:
  "musig2_session_values_from_aggregate_nonce residue_secp [pt 1] sample_nonce [] [] = Inr sample_session"
  by (simp add: musig2_session_values_from_aggregate_nonce_def musig2_key_context_def sample_plain_key
      MAX_MUSIG_KEYS_def aggregate_point_from_extended_def aggregate_multiply_def SCALAR_ONE_neq aggregate_add_def
      sample_session_def res_parity_def)

lemma sample_bounds: "validate_musig2_session_bounds [pt 1] [sample_nonce] [] [] = Inr ()"
  by (simp add: validate_musig2_session_bounds_def MAX_MUSIG_KEYS_def)

lemma sample_session_values: "musig2_session_values residue_secp [pt 1] [sample_nonce] [] [] = Inr sample_session"
  by (simp add: musig2_session_values_def sample_bounds sample_aggregate_nonce sample_session_from)

lemma sample_partial: "scalar32 (scalar_of 3)" "si (scalar_of 3) = 3" "scalar_of 3 \<noteq> SCALAR_ZERO"
  using scalar_of [of 3] si_zero [of "scalar_of 3"] by simp_all

lemma sample_verified: "all_verified residue_secp [pt 1] [sample_nonce] [] [] [scalar_of 3]"
proof -
  have "verify_musig2_partial_signature_with_aggregate_nonce residue_secp [pt 1] sample_nonce sample_nonce [] 0 []
      (scalar_of 3) = Inr ()"
    using sample_partial
    by (subst verify_unfold)
      (simp_all add: MAX_MUSIG_KEYS_def sample_session_from key_coef_def sample_coefficient musig2_key_coefficient_def
        musig2_effective_signer_nonce_def aggregate_multiply_def SCALAR_ONE_neq aggregate_add_def
        sample_session_def point_from_scalar_def secret32_def)
  moreover have "\<not> bytes_le CURVE_ORDER (scalar_of 3)"
    using sample_partial(1) scalar32_iff_bytes [OF scalar32_length [OF sample_partial(1)]] by simp
  ultimately show ?thesis
    by (simp add: all_verified_def verify_musig2_partial_signature_with_tweaks_def sample_bounds sample_aggregate_nonce)
qed

theorem musig2_aggregates_witness:
  "\<exists>signature key. musig2_aggregate_partial_signatures residue_secp [pt 1] [sample_nonce] [] [] [scalar_of 3] = Inr signature
    \<and> length signature = 64 \<and> musig2_tweaked_aggregate_key residue_secp [pt 1] [] = Inr key
    \<and> verify_musig2_signature residue_secp key [] signature = Inr ()"
  by (rule musig2_aggregates [OF residue_laws _ _ sample_verified sample_session_values])
    (simp_all add: scalar32_length [OF sample_partial(1)] combined_log_def nonce_log_def slice_log_def sample_session_def)

definition sample_secret_nonce :: musig2_secret_nonce where
  "sample_secret_nonce = \<lparr>sn_first = SCALAR_ONE, sn_second = SCALAR_ONE,
     sn_public_key = sp_serialize residue_secp (pt 1), sn_public_nonce = sample_nonce, sn_consumed = False\<rparr>"

theorem musig2_signs_verified_witness:
  "snd (musig2_partial_sign residue_secp sample_secret_nonce SCALAR_ONE [pt 1] [sample_nonce] [] [])
     \<noteq> Inl (Crypto ''MuSig2 partial signature verification'')"
proof -
  have "musig2_nonce_gen residue_secp SCALAR_ONE (replicate 32 0) [] [] (replicate 32 0) = Inr sample_secret_nonce"
    by (simp add: musig2_nonce_gen_def musig2_nonce_gen_internal_def option_length_def musig2_nonce_scalar_def Let_def
        SCALAR_ONE_neq sample_secret_nonce_def)
  then show ?thesis
    using musig2_signs_verified [OF residue_laws SCALAR_ONE_neq(2), of "replicate 32 0" "[]" "[]" "replicate 32 0"
        sample_secret_nonce "[pt 1]" "[sample_nonce]" "[]" "[]"]
    by (metis prod.collapse)
qed

theorem musig2_nonce_once_witness:
  "filter is_ok (sign_each residue_secp (fst (consume sample_secret_nonce))
     [\<lparr>sr_secret_key = SCALAR_ONE, sr_keys = [pt 1], sr_public_nonces = [sample_nonce], sr_tweaks = [],
       sr_message = []\<rparr>]) = []"
proof -
  have "sn_consumed (fst (consume sample_secret_nonce))" by (simp add: consume_def sample_secret_nonce_def)
  then show ?thesis using musig2_nonce_once by blast
qed

end
