(* ===== verification/Wallet.thy ===== *)
theory Wallet
  imports Musig2_Props Payment_Codes Hex
begin

text \<open>
  The provider wallet of \<open>immortal-provider/src/wallet.rs\<close>: the checks on the seed file, BIP 32
  derivation along the BIP 86 path, Taproot addresses, and the signing boundary for script-path,
  key-path and cooperative signatures. SHA-512 and BIP 340 signing join the curve operations in
  \<open>wallet_crypto\<close>; what the file system answers to each call of the loader is a \<open>seed_file\<close>.
  Overwriting of dead secrets is left out. The lemmas show which files give a seed, that the
  address text is the BIP 350 text of the output key, and under which keys signatures verify.
\<close>

section \<open>Errors, networks and paths\<close>

datatype wallet_error =
    MissingSeedPath | SeedPathEncoding | SeedMetadata | SeedSymlink | SeedFileType | SeedPermissions
  | SeedRead | SeedEncoding | DerivationIndex | DerivationKey | AddressEncoding | Randomness
  | CooperativeSigning | LiquidSigning

definition SEED_HEX_LENGTH :: nat where "SEED_HEX_LENGTH = 64"
definition HMAC_SHA512_BLOCK_LENGTH :: nat where "HMAC_SHA512_BLOCK_LENGTH = 128"
definition HARDENED_INDEX :: u32 where "HARDENED_INDEX = push_bit 31 1"
definition TAPROOT_PURPOSE :: u32 where "TAPROOT_PURPOSE = 86"
definition MAX_ACCOUNT_INDEX :: u32 where "MAX_ACCOUNT_INDEX = HARDENED_INDEX - 1"
definition MAX_SEED_PATH_BYTES :: nat where "MAX_SEED_PATH_BYTES = 4096"

datatype wallet_network = Mainnet | WalletTestnet | WalletSignet | WalletRegtest

fun coin_type :: "wallet_network \<Rightarrow> u32" where
  "coin_type Mainnet = 0"
| "coin_type _ = 1"

fun human_readable_part :: "wallet_network \<Rightarrow> string" where
  "human_readable_part Mainnet = ''bc''"
| "human_readable_part WalletTestnet = ''tb''"
| "human_readable_part WalletSignet = ''tb''"
| "human_readable_part WalletRegtest = ''bcrt''"

record wallet_path =
  wp_account :: u32
  wp_change :: bool
  wp_address_index :: u32

definition new_wallet_path :: "u32 \<Rightarrow> bool \<Rightarrow> u32 \<Rightarrow> (wallet_error, wallet_path) result" where
  "new_wallet_path account change address_index =
     (if MAX_ACCOUNT_INDEX < account \<or> MAX_ACCOUNT_INDEX < address_index then Inl DerivationIndex
      else Inr \<lparr>wp_account = account, wp_change = change, wp_address_index = address_index\<rparr>)"

record taproot_address =
  ta_path :: wallet_path
  ta_internal_key :: "u8 list"
  ta_output_key :: "u8 list"
  ta_script_pubkey :: "u8 list"
  ta_address :: string

record wallet_signature =
  ws_public_key :: "u8 list"
  ws_signature :: "u8 list"

record provider_wallet =
  pw_seed :: "u8 list"
  pw_network :: wallet_network

record 'p wallet_musig2_nonce =
  wn_path :: wallet_path
  wn_context_digest :: "u8 list"
  wn_keys :: "'p list"
  wn_tweaks :: "musig2_tweak list"
  wn_message :: "u8 list"
  wn_secret_nonce :: musig2_secret_nonce

section \<open>The seed file\<close>

text \<open>Metadata as the loader reads it, and the answers of the file system to its calls: the
  metadata of the path, whether it opens without following a link, the metadata of the opened file
  and the bytes it holds.\<close>

record file_metadata =
  fm_symlink :: bool
  fm_file :: bool
  fm_mode :: u32
  fm_len :: u64
  fm_dev :: u64
  fm_ino :: u64

record seed_file =
  sf_metadata :: "file_metadata option"
  sf_opens :: bool
  sf_opened :: "file_metadata option"
  sf_contents :: "u8 list option"

datatype env_value = Present string | NotPresent | NotUnicode

definition is_ascii_control :: "u8 \<Rightarrow> bool" where
  "is_ascii_control byte \<longleftrightarrow> byte < 32 \<or> byte = 127"

definition validate_seed_path :: "string \<Rightarrow> (wallet_error, unit) result" where
  "validate_seed_path path =
     (if path = [] \<or> MAX_SEED_PATH_BYTES < length path
         \<or> list_ex (\<lambda>byte. byte = 0 \<or> is_ascii_control byte) (as_bytes path)
         \<or> \<not> (path \<noteq> [] \<and> hd path = CHR ''/'')
      then Inl SeedPathEncoding else Inr ())"

definition same_seed_file :: "file_metadata \<Rightarrow> file_metadata \<Rightarrow> bool" where
  "same_seed_file before opened \<longleftrightarrow> fm_dev before = fm_dev opened \<and> fm_ino before = fm_ino opened"

definition validate_seed_permissions :: "file_metadata \<Rightarrow> (wallet_error, unit) result" where
  "validate_seed_permissions metadata = ensure (\<not> fm_mode metadata AND 0x1ff \<noteq> 0x180) SeedPermissions"

definition lower_hex_value :: "u8 \<Rightarrow> u8 option" where
  "lower_hex_value byte =
     (if 48 \<le> byte \<and> byte \<le> 57 then Some (byte - 48)
      else if 97 \<le> byte \<and> byte \<le> 102 then Some (byte - 97 + 10)
      else None)"

fun seed_pairs :: "u8 list list \<Rightarrow> u8 list option" where
  "seed_pairs [] = Some []"
| "seed_pairs (pair # pairs) =
     (case (lower_hex_value (pair ! 0), lower_hex_value (pair ! 1)) of
        (Some high, Some low) \<Rightarrow> map_option ((#) (push_bit 4 high OR low)) (seed_pairs pairs)
      | _ \<Rightarrow> None)"

definition decode_lower_hex_32 :: "u8 list \<Rightarrow> u8 list option" where
  "decode_lower_hex_32 encoded =
     (if length encoded \<noteq> SEED_HEX_LENGTH then None else seed_pairs (chunks_exact 2 encoded))"

definition load_wallet ::
    "(string \<Rightarrow> seed_file) \<Rightarrow> string \<Rightarrow> wallet_network \<Rightarrow> (wallet_error, provider_wallet) result" where
  "load_wallet fs path network =
     try_then (ok_or (sf_metadata (fs path)) SeedMetadata) (\<lambda>metadata.
     try_then (ensure (\<not> fm_symlink metadata) SeedSymlink) (\<lambda>_.
     try_then (ensure (fm_file metadata) SeedFileType) (\<lambda>_.
     try_then (validate_seed_permissions metadata) (\<lambda>_.
     try_then (ensure (\<not> of_nat (SEED_HEX_LENGTH + 1) < fm_len metadata) SeedEncoding) (\<lambda>_.
     try_then (ensure (sf_opens (fs path)) SeedRead) (\<lambda>_.
     try_then (ok_or (sf_opened (fs path)) SeedMetadata) (\<lambda>opened.
     try_then (ensure (\<not> (\<not> fm_file opened \<or> \<not> same_seed_file metadata opened)) SeedFileType) (\<lambda>_.
     try_then (validate_seed_permissions opened) (\<lambda>_.
     try_then (ensure (\<not> of_nat (SEED_HEX_LENGTH + 1) < fm_len opened) SeedEncoding) (\<lambda>_.
     try_then (ok_or (sf_contents (fs path)) SeedRead) (\<lambda>contents.
     let read = take (SEED_HEX_LENGTH + 2) contents;
         encoded = (if read \<noteq> [] \<and> last read = 10 then butlast read else read)
     in try_then (ensure (\<not> length encoded \<noteq> SEED_HEX_LENGTH) SeedEncoding) (\<lambda>_.
        try_then (ok_or (decode_lower_hex_32 encoded) SeedEncoding) (\<lambda>seed.
        Inr \<lparr>pw_seed = seed, pw_network = network\<rparr>)))))))))))))"

definition load_from_environment ::
    "env_value \<Rightarrow> (string \<Rightarrow> seed_file) \<Rightarrow> wallet_network \<Rightarrow> (wallet_error, provider_wallet) result" where
  "load_from_environment env fs network =
     try_then (case env of
         Present path \<Rightarrow> Inr path
       | NotPresent \<Rightarrow> Inl MissingSeedPath
       | NotUnicode \<Rightarrow> Inl SeedPathEncoding) (\<lambda>path.
     try_then (validate_seed_path path) (\<lambda>_.
     load_wallet fs path network))"

section \<open>Key derivation\<close>

record 'p wallet_crypto =
  wc_secp :: "'p secp"
  wc_sha512 :: "u8 list \<Rightarrow> u8 list"
  wc_sign_schnorr :: "u8 list \<Rightarrow> u8 list \<Rightarrow> u8 list"

definition hmac_sha512 :: "'p wallet_crypto \<Rightarrow> u8 list \<Rightarrow> u8 list \<Rightarrow> u8 list" where
  "hmac_sha512 wc key message =
     (let normalized_key =
            (if HMAC_SHA512_BLOCK_LENGTH < length key
             then wc_sha512 wc key @ replicate (HMAC_SHA512_BLOCK_LENGTH - 64) 0
             else key @ replicate (HMAC_SHA512_BLOCK_LENGTH - length key) 0);
          inner_pad = map2 (\<lambda>inner key_byte. inner XOR key_byte)
            (replicate HMAC_SHA512_BLOCK_LENGTH 0x36) normalized_key;
          outer_pad = map2 (\<lambda>outer key_byte. outer XOR key_byte)
            (replicate HMAC_SHA512_BLOCK_LENGTH 0x5c) normalized_key;
          inner_digest = wc_sha512 wc (inner_pad @ message)
      in wc_sha512 wc (outer_pad @ inner_digest))"

definition wallet_tagged_hash :: "'p wallet_crypto \<Rightarrow> string \<Rightarrow> u8 list \<Rightarrow> u8 list" where
  "wallet_tagged_hash wc tag message =
     (let sha256 = tc_sha256 (sp_taproot (wc_secp wc)); tag_hash = sha256 (as_bytes tag)
      in sha256 (tag_hash @ tag_hash @ message))"

record extended_private_key =
  xk_secret_key :: "u8 list"
  xk_chain_code :: "u8 list"

definition master_key :: "'p wallet_crypto \<Rightarrow> u8 list \<Rightarrow> (wallet_error, extended_private_key) result" where
  "master_key wc seed =
     (let digest = hmac_sha512 wc (as_bytes ''Bitcoin seed'') seed
      in try_then (ensure (sp_secret_ok (wc_secp wc) (take 32 digest)) DerivationKey) (\<lambda>_.
         Inr \<lparr>xk_secret_key = take 32 digest, xk_chain_code = drop 32 digest\<rparr>))"

definition derive_child ::
    "'p wallet_crypto \<Rightarrow> extended_private_key \<Rightarrow> u32 \<Rightarrow> (wallet_error, extended_private_key) result" where
  "derive_child wc key index =
     (let c = wc_secp wc;
          data = (if index AND HARDENED_INDEX \<noteq> 0 then 0 # xk_secret_key key
                  else sp_serialize c (sp_public c (xk_secret_key key))) @ to_be_bytes 4 index;
          digest = hmac_sha512 wc (xk_chain_code key) data;
          tweak = take 32 digest
      in try_then (ensure (tc_scalar_ok (sp_taproot c) tweak) DerivationKey) (\<lambda>_.
         try_then (ok_or (sp_secret_add c (xk_secret_key key) tweak) DerivationKey) (\<lambda>secret_key.
         Inr \<lparr>xk_secret_key = secret_key, xk_chain_code = drop 32 digest\<rparr>)))"

fun derive_path ::
    "'p wallet_crypto \<Rightarrow> extended_private_key \<Rightarrow> u32 list \<Rightarrow> (wallet_error, extended_private_key) result" where
  "derive_path wc key [] = Inr key"
| "derive_path wc key (index # indexes) = try_then (derive_child wc key index) (\<lambda>child. derive_path wc child indexes)"

definition derive_bip86_key ::
    "'p wallet_crypto \<Rightarrow> provider_wallet \<Rightarrow> wallet_path \<Rightarrow> (wallet_error, u8 list) result" where
  "derive_bip86_key wc wallet path =
     try_then (master_key wc (pw_seed wallet)) (\<lambda>master.
     try_then (derive_path wc master
       [TAPROOT_PURPOSE OR HARDENED_INDEX, coin_type (pw_network wallet) OR HARDENED_INDEX,
        wp_account path OR HARDENED_INDEX, (if wp_change path then 1 else 0), wp_address_index path]) (\<lambda>key.
     Inr (xk_secret_key key)))"

definition derive_even_key ::
    "'p wallet_crypto \<Rightarrow> provider_wallet \<Rightarrow> wallet_path \<Rightarrow> (wallet_error, u8 list) result" where
  "derive_even_key wc wallet path =
     try_then (derive_bip86_key wc wallet path) (\<lambda>secret_key.
     Inr (if snd (sp_xonly (wc_secp wc) (sp_public (wc_secp wc) secret_key)) = Odd
          then sp_secret_negate (wc_secp wc) secret_key else secret_key))"

section \<open>Address text\<close>

fun wallet_convert_loop ::
    "nat \<Rightarrow> nat \<Rightarrow> u32 \<Rightarrow> u32 \<Rightarrow> u8 list \<Rightarrow> u32 \<Rightarrow> nat \<Rightarrow> (wallet_error, u8 list \<times> u32 \<times> nat) result" where
  "wallet_convert_loop from to maximum_value maximum_accumulator [] acc bits = Inr ([], acc, bits)"
| "wallet_convert_loop from to maximum_value maximum_accumulator (v # vs) acc bits =
     try_then (ensure (drop_bit from (ucast v :: u32) = 0) AddressEncoding) (\<lambda>_.
     let acc1 = (push_bit from acc OR ucast v) AND maximum_accumulator;
         (bits1, out) = drain to maximum_value acc1 (bits + from)
     in try_then (wallet_convert_loop from to maximum_value maximum_accumulator vs acc1 bits1)
          (\<lambda>(rest, acc2, bits2). Inr (out @ rest, acc2, bits2)))"

definition wallet_convert_bits :: "u8 list \<Rightarrow> nat \<Rightarrow> nat \<Rightarrow> bool \<Rightarrow> (wallet_error, u8 list) result" where
  "wallet_convert_bits input from to pad =
     (let maximum_value = push_bit to 1 - 1;
          maximum_accumulator = push_bit (from + to - 1) 1 - 1
      in try_then (wallet_convert_loop from to maximum_value maximum_accumulator input 0 0) (\<lambda>(out, acc, bits).
           if pad \<and> 0 < bits then Inr (out @ [ucast (push_bit (to - bits) acc AND maximum_value)])
           else if from \<le> bits \<or> push_bit (to - bits) acc AND maximum_value \<noteq> 0 then Inl AddressEncoding
           else Inr out))"

definition wallet_bech32_polymod :: "u8 list \<Rightarrow> u32" where
  "wallet_bech32_polymod ws =
     foldl (\<lambda>c v. xor_generators (drop_bit 25 c) 0
                    [0x3b6a57b2, 0x26508e6d, 0x1ea119fa, 0x3d4233dd, 0x2a1462b3]
                    (push_bit 5 (c AND 0x01ffffff) XOR ucast v)) 1 ws"

definition bech32m_checksum :: "string \<Rightarrow> u8 list \<Rightarrow> u8 list" where
  "bech32m_checksum hrp ws =
     (let expanded = map (\<lambda>c. drop_bit 5 (byte_of c)) hrp @ [0] @ map (\<lambda>c. byte_of c AND 31) hrp
            @ ws @ replicate 6 0;
          p = wallet_bech32_polymod expanded XOR 0x2bc830a3
      in map (\<lambda>i. ucast (drop_bit (5 * (5 - i)) p AND 31)) [0..<6])"

definition encode_segwit_v1_address :: "string \<Rightarrow> u8 list \<Rightarrow> (wallet_error, string) result" where
  "encode_segwit_v1_address hrp program =
     try_then (wallet_convert_bits program 8 5 True) (\<lambda>converted.
     let ws = 1 # converted
     in try_then (try_map (\<lambda>v. ok_or (if unat v < length CHARSET then Some (CHARSET ! unat v) else None) AddressEncoding)
           (ws @ bech32m_checksum hrp ws)) (\<lambda>characters.
        Inr (hrp @ ''1'' @ characters)))"

section \<open>Addresses and signatures\<close>

definition taproot_tweak_of :: "'p wallet_crypto \<Rightarrow> u8 list \<Rightarrow> (wallet_error, u8 list) result" where
  "taproot_tweak_of wc internal_key =
     (let tweak = wallet_tagged_hash wc ''TapTweak'' internal_key
      in try_then (ensure (tc_scalar_ok (sp_taproot (wc_secp wc)) tweak) DerivationKey) (\<lambda>_. Inr tweak))"

definition derive_address ::
    "'p wallet_crypto \<Rightarrow> provider_wallet \<Rightarrow> wallet_path \<Rightarrow> (wallet_error, taproot_address) result" where
  "derive_address wc wallet path =
     try_then (derive_bip86_key wc wallet path) (\<lambda>derived_key.
     let c = wc_secp wc; (internal_key, parity) = sp_xonly c (sp_public c derived_key)
     in try_then (taproot_tweak_of wc internal_key) (\<lambda>tweak.
        try_then (ok_or (tc_add_tweak (sp_taproot c) internal_key tweak) DerivationKey) (\<lambda>(output_key, _).
        let script_pubkey = 0x51 # 0x20 # output_key
        in try_then (encode_segwit_v1_address (human_readable_part (pw_network wallet)) output_key) (\<lambda>address.
           let normalized_key = (if parity = Odd then sp_secret_negate c derived_key else derived_key)
           in try_then (ok_or (sp_secret_add c normalized_key tweak) DerivationKey) (\<lambda>tweaked_key.
              try_then (ensure (\<not> fst (sp_xonly c (sp_public c tweaked_key)) \<noteq> output_key) DerivationKey) (\<lambda>_.
              Inr \<lparr>ta_path = path, ta_internal_key = internal_key, ta_output_key = output_key,
                   ta_script_pubkey = script_pubkey, ta_address = address\<rparr>))))))"

definition sign_digest :: "'p wallet_crypto \<Rightarrow> u8 list \<Rightarrow> u8 list \<Rightarrow> (wallet_error, wallet_signature) result" where
  "sign_digest wc secret_key sighash =
     Inr \<lparr>ws_public_key = fst (sp_xonly (wc_secp wc) (sp_public (wc_secp wc) secret_key)),
          ws_signature = wc_sign_schnorr wc sighash secret_key\<rparr>"

definition sign_script_path ::
    "'p wallet_crypto \<Rightarrow> provider_wallet \<Rightarrow> wallet_path \<Rightarrow> u8 list \<Rightarrow> (wallet_error, wallet_signature) result" where
  "sign_script_path wc wallet path sighash =
     try_then (derive_bip86_key wc wallet path) (\<lambda>secret_key. sign_digest wc secret_key sighash)"

definition sign_key_path ::
    "'p wallet_crypto \<Rightarrow> provider_wallet \<Rightarrow> wallet_path \<Rightarrow> u8 list \<Rightarrow> (wallet_error, wallet_signature) result" where
  "sign_key_path wc wallet path sighash =
     try_then (derive_bip86_key wc wallet path) (\<lambda>secret_key.
     let c = wc_secp wc; (internal_key, parity) = sp_xonly c (sp_public c secret_key)
     in try_then (taproot_tweak_of wc internal_key) (\<lambda>tweak.
        let normalized_key = (if parity = Odd then sp_secret_negate c secret_key else secret_key)
        in try_then (ok_or (sp_secret_add c normalized_key tweak) DerivationKey) (\<lambda>tweaked_key.
           sign_digest wc tweaked_key sighash)))"

text \<open>The randomness is what \<open>/dev/urandom\<close> gave, if anything.\<close>

definition begin_cooperative_signing ::
    "'p wallet_crypto \<Rightarrow> provider_wallet \<Rightarrow> u8 list option \<Rightarrow> wallet_path \<Rightarrow> u8 list \<Rightarrow> 'p list \<Rightarrow> musig2_tweak list
      \<Rightarrow> u8 list \<Rightarrow> (wallet_error, 'p wallet_musig2_nonce) result" where
  "begin_cooperative_signing wc wallet urandom path context_digest keys tweaks message =
     try_then (derive_even_key wc wallet path) (\<lambda>secret_key.
     try_then (map_err (\<lambda>_. CooperativeSigning) (musig2_tweaked_aggregate_key (wc_secp wc) keys tweaks)) (\<lambda>aggregate_key.
     try_then (ok_or urandom Randomness) (\<lambda>randomness.
     try_then (map_err (\<lambda>_. CooperativeSigning)
         (musig2_nonce_gen (wc_secp wc) secret_key aggregate_key message context_digest randomness)) (\<lambda>secret_nonce.
     Inr \<lparr>wn_path = path, wn_context_digest = context_digest, wn_keys = keys, wn_tweaks = tweaks,
          wn_message = message, wn_secret_nonce = secret_nonce\<rparr>))))"

definition wallet_sign_cooperative_partial ::
    "'p wallet_crypto \<Rightarrow> provider_wallet \<Rightarrow> 'p wallet_musig2_nonce \<Rightarrow> u8 list \<Rightarrow> u8 list list
      \<Rightarrow> 'p wallet_musig2_nonce \<times> (wallet_error, u8 list) result" where
  "wallet_sign_cooperative_partial wc wallet nonce context_digest public_nonces =
     (if wn_context_digest nonce \<noteq> context_digest then (nonce, Inl CooperativeSigning)
      else (case derive_even_key wc wallet (wn_path nonce) of
              Inl e \<Rightarrow> (nonce, Inl e)
            | Inr secret_key \<Rightarrow>
                (case musig2_partial_sign (wc_secp wc) (wn_secret_nonce nonce) secret_key (wn_keys nonce) public_nonces
                        (wn_tweaks nonce) (wn_message nonce) of
                   (secret_nonce, outcome) \<Rightarrow>
                     (nonce\<lparr>wn_secret_nonce := secret_nonce\<rparr>, map_err (\<lambda>_. CooperativeSigning) outcome))))"

section \<open>Address text is the BIP 350 text\<close>

text \<open>The loop drops bits of the accumulator that have already been written: it agrees with
  \<^const>\<open>regroup\<close>, whose accumulator keeps them.\<close>

lemma bits_of_prefix: "bits_of n a = bits_of n b \<Longrightarrow> m \<le> n \<Longrightarrow> bits_of m a = bits_of m b"
  by (simp add: bits_of_eq_iff)

lemma drain_cong:
  "bits_of bits a = bits_of bits b \<Longrightarrow> low = 2 ^ to - 1 \<Longrightarrow> drain to low a bits = drain to low b bits"
proof (induction to low a bits rule: drain.induct)
  case (1 to low a bits)
  show ?case
  proof (cases "to \<le> bits \<and> 0 < to")
    case True
    have "drop_bit (bits - to) a AND low = drop_bit (bits - to) b AND low"
      using 1(2,3) True
      by (auto intro!: bit_eqI simp: bits_of_eq_iff bit_and_iff bit_drop_bit_eq mask_eq_exp_minus_1 [symmetric] bit_mask_iff)
    moreover have "drain to low a (bits - to) = drain to low b (bits - to)"
      using 1 True bits_of_prefix [of bits a b "bits - to"] by simp
    ultimately show ?thesis using True by (simp add: drain.simps [of to low _ bits])
  qed (auto simp: drain.simps [of to low _ bits])
qed

lemma wallet_convert_loop_regroup:
  assumes "regroup from to low xs b bits = (out, acc', bits')" "low = 2 ^ to - 1"
    "0 < to" "to \<le> 8" "from \<le> 8" "bits < to" "list_all (\<lambda>w. unat w < 2 ^ from) xs"
    "bits_of bits a = bits_of bits b" "top_mask = 2 ^ (from + to - 1) - 1"
  shows "\<exists>acc. wallet_convert_loop from to low top_mask xs a bits = Inr (out, acc, bits')
    \<and> bits_of bits' acc = bits_of bits' acc'"
  using assms
proof (induction "from" to low xs b bits arbitrary: a out acc' bits' rule: regroup.induct)
  case (2 "from" to low x xs b bits)
  define b1 where "b1 = (push_bit from b OR ucast x :: u32)"
  define a1 where "a1 = ((push_bit from a OR ucast x) AND top_mask :: u32)"
  obtain bits1 out1 where d: "drain to low b1 (bits + from) = (bits1, out1)" by fastforce
  obtain rest where r: "regroup from to low xs b1 bits1 = (rest, acc', bits')" "out = out1 @ rest"
    using 2(2) d by (auto simp: b1_def [symmetric] Let_def split: prod.splits)
  have x: "unat x < 2 ^ from" using 2 by simp
  have "bits_of (bits + from) a1 = bits_of (bits + from) (push_bit from a OR ucast x)"
    using bits_of_take_bit [of "bits + from" "from + to - 1" "push_bit from a OR ucast x :: u32"] 2
    by (simp add: a1_def take_bit_eq_mask mask_eq_exp_minus_1)
  also have "\<dots> = bits_of (bits + from) b1"
    unfolding b1_def using 2 x by (simp add: bits_of_shift_in)
  finally have eq: "bits_of (bits + from) a1 = bits_of (bits + from) b1" .
  then have d1: "drain to low a1 (bits + from) = (bits1, out1)" using d drain_cong [OF eq] 2 by simp
  have "bits1 < to" using drain_bits [OF d] 2 by simp
  moreover have "bits1 \<le> bits + from"
  proof -
    have "bits_of (bits + from) b1 = concat (map (bits_of to) out1) @ bits_of bits1 b1" using drain_bits [OF d] 2 by simp
    from arg_cong [OF this, of length] show ?thesis by simp
  qed
  ultimately obtain acc where "wallet_convert_loop from to low top_mask xs a1 bits1 = Inr (rest, acc, bits')"
    "bits_of bits' acc = bits_of bits' acc'"
    using 2(1) [OF b1_def d [symmetric] refl r(1), of a1] bits_of_prefix [OF eq] 2 by auto
  then show ?case using x d1 r by (simp add: high_bits_zero a1_def Let_def)
qed simp

lemma wallet_convert_bits_to_words: "wallet_convert_bits data 8 5 True = Inr (to_words data)"
proof -
  obtain out acc' bits' where r: "regroup 8 5 31 data 0 0 = (out, acc', bits')" by (metis prod_cases3)
  have b: "bits' < 5" using regroup_bits [OF r] u8_list_bound [of data] by simp
  obtain acc where l: "wallet_convert_loop 8 5 31 0xfff data 0 0 = Inr (out, acc, bits')"
    "bits_of bits' acc = bits_of bits' acc'"
    using wallet_convert_loop_regroup [OF r, where a = 0 and top_mask = "0xfff"] u8_list_bound [of data] by auto
  have low: "(31 :: u32) = mask 5" by (simp add: mask_eq_exp_minus_1)
  have "push_bit (5 - bits') acc AND 31 = push_bit (5 - bits') acc' AND 31"
    unfolding low using l(2) b
    by (auto intro!: bit_eqI simp: bits_of_eq_iff bit_and_iff bit_push_bit_iff bit_mask_iff)
  moreover have "push_bit 5 acc AND 31 = 0"
    unfolding low by (auto intro!: bit_eqI simp: bit_and_iff bit_push_bit_iff bit_mask_iff)
  ultimately show ?thesis using l(1) b r
    by (auto simp: wallet_convert_bits_def to_words_def Let_def)
qed

lemma bech32m_checksum_for: "bech32m_checksum hrp ws = checksum_for 0x2bc830a3 hrp ws"
proof -
  have "wallet_bech32_polymod (expand_prefix hrp @ ws @ replicate 6 0) = polymod (expand_prefix hrp) (ws @ replicate 6 0)"
    unfolding bech32_polymod_polymod [symmetric]
    unfolding bech32_polymod_def wallet_bech32_polymod_def expand_prefix_def append_assoc ..
  then show ?thesis unfolding bech32m_checksum_def checksum_for_def expand_prefix_def append_assoc Let_def by (rule arg_cong)
qed

lemma charset_characters:
  "list_all (\<lambda>w. unat w < 32) ws \<Longrightarrow>
     try_map (\<lambda>v. ok_or (if unat v < length CHARSET then Some (CHARSET ! unat v) else None) e) ws
       = Inr (map (\<lambda>v. CHARSET ! unat v) ws)"
  using CHARSET_facts(1) by (induction ws) simp_all

lemma encode_segwit_v1_address_text: "encode_segwit_v1_address hrp program = Inr (segwit_text hrp 1 program)"
proof -
  let ?ws = "1 # to_words program"
  have "list_all (\<lambda>w. unat w < 32) (?ws @ bech32m_checksum hrp ?ws)"
    unfolding bech32m_checksum_for using checksum_for_less by (auto simp: list_all_iff to_words_less)
  note c = charset_characters [OF this]
  show ?thesis
    unfolding encode_segwit_v1_address_def wallet_convert_bits_to_words try_then_simps Let_def c
    by (simp only: segwit_text_def checksum_constant_def bech32m_checksum_for Let_def one_neq_zero if_False)
qed

section \<open>Which files give a seed\<close>

lemma seed_pairs_decode: "even (length bs) \<Longrightarrow> seed_pairs (chunks_exact 2 bs) = decode_pairs bs"
proof (induction bs rule: decode_pairs.induct)
  case (1 a b rest)
  have "lower_hex_value = hex_nibble" by (simp add: fun_eq_iff lower_hex_value_def hex_nibble_def)
  then show ?case using 1 by (simp add: chunks_exact.simps [of 2 "a # b # rest"] split: option.split)
qed (simp_all add: chunks_exact.simps)

lemma decode_lower_hex_32_iff:
  "decode_lower_hex_32 bs = Some seed \<longleftrightarrow> length seed = 32 \<and> bs = as_bytes (encode_lower_hex seed)"
proof
  assume "decode_lower_hex_32 bs = Some seed"
  then have "length bs = 64" "decode_pairs bs = Some seed"
    by (auto simp: decode_lower_hex_32_def SEED_HEX_LENGTH_def seed_pairs_decode split: if_splits)
  then show "length seed = 32 \<and> bs = as_bytes (encode_lower_hex seed)"
    using decode_pairs_SomeD [of bs seed] decode_pairs_length [of bs seed] by simp
next
  assume "length seed = 32 \<and> bs = as_bytes (encode_lower_hex seed)"
  then show "decode_lower_hex_32 bs = Some seed"
    using decode_pairs_encode [of seed]
    by (simp add: decode_lower_hex_32_def SEED_HEX_LENGTH_def seed_pairs_decode encode_lower_hex_length)
qed

text \<open>A regular file that only its owner can read and write, of at most 65 bytes.\<close>

definition private_seed :: "file_metadata \<Rightarrow> bool" where
  "private_seed m \<longleftrightarrow> fm_file m \<and> fm_mode m AND 0x1ff = 0x180 \<and> fm_len m \<le> 65"

text \<open>The contents of a seed file: the seed in lowercase hexadecimal, and perhaps a line feed.\<close>

definition seed_text :: "u8 list \<Rightarrow> u8 list \<Rightarrow> bool" where
  "seed_text contents seed \<longleftrightarrow> length seed = 32
     \<and> (contents = as_bytes (encode_lower_hex seed) \<or> contents = as_bytes (encode_lower_hex seed) @ [10])"

lemma hex_not_newline: "as_bytes (encode_lower_hex seed) = bs @ [b] \<Longrightarrow> b \<noteq> 10"
proof -
  assume a: "as_bytes (encode_lower_hex seed) = bs @ [b]"
  have "list_all (\<lambda>c. c \<noteq> 10) (as_bytes (encode_lower_hex seed))"
  proof (induction seed)
    case (Cons x xs)
    have "list_all (\<lambda>d. byte_of (HEX ! d) \<noteq> 10) [0..<16]" by code_simp
    then have "byte_of (HEX ! d) \<noteq> 10" if "d < 16" for d using that by (simp add: list_all_iff)
    with Cons show ?case by simp
  qed simp
  with a show ?thesis by simp
qed

lemma read_seed_iff:
  "(\<exists>encoded. encoded = (let read = take 66 contents in if read \<noteq> [] \<and> last read = 10 then butlast read else read)
      \<and> length encoded = 64 \<and> decode_lower_hex_32 encoded = Some seed) \<longleftrightarrow> seed_text contents seed"
    (is "?l \<longleftrightarrow> ?r")
proof
  assume ?l
  then obtain encoded where e: "encoded = (if take 66 contents \<noteq> [] \<and> last (take 66 contents) = 10
      then butlast (take 66 contents) else take 66 contents)"
    "length encoded = 64" "length seed = 32" "encoded = as_bytes (encode_lower_hex seed)"
    unfolding Let_def decode_lower_hex_32_iff by blast
  then have "length (take 66 contents) < 66" by (auto split: if_splits)
  then have "take 66 contents = contents" by simp
  with e show ?r unfolding seed_text_def by (metis append_butlast_last_id)
next
  assume r: ?r
  let ?h = "as_bytes (encode_lower_hex seed)"
  have len: "length ?h = 64" using r by (simp add: seed_text_def encode_lower_hex_length)
  then have ne: "?h \<noteq> []" by fastforce
  then have "last ?h \<noteq> 10" using hex_not_newline [of seed "butlast ?h" "last ?h"] by simp
  then show ?l using r len ne unfolding seed_text_def Let_def decode_lower_hex_32_iff by auto
qed

lemma validate_seed_permissions_iff: "validate_seed_permissions m = Inr u \<longleftrightarrow> fm_mode m AND 0x1ff = 0x180"
  by (simp add: validate_seed_permissions_def ensure_eq_Inr)

lemma load_wallet_iff:
  "load_wallet fs path network = Inr w \<longleftrightarrow>
     (\<exists>before opened contents seed. sf_metadata (fs path) = Some before \<and> \<not> fm_symlink before \<and> private_seed before
        \<and> sf_opens (fs path) \<and> sf_opened (fs path) = Some opened \<and> private_seed opened \<and> same_seed_file before opened
        \<and> sf_contents (fs path) = Some contents \<and> seed_text contents seed
        \<and> w = \<lparr>pw_seed = seed, pw_network = network\<rparr>)" (is "?l \<longleftrightarrow> ?r")
proof -
  let ?enc = "\<lambda>contents. let read = take 66 contents in if read \<noteq> [] \<and> last read = 10 then butlast read else read"
  have "?l \<longleftrightarrow> (\<exists>before opened contents seed. sf_metadata (fs path) = Some before \<and> \<not> fm_symlink before
      \<and> private_seed before \<and> sf_opens (fs path) \<and> sf_opened (fs path) = Some opened \<and> private_seed opened
      \<and> same_seed_file before opened \<and> sf_contents (fs path) = Some contents
      \<and> length (?enc contents) = 64 \<and> decode_lower_hex_32 (?enc contents) = Some seed
      \<and> w = \<lparr>pw_seed = seed, pw_network = network\<rparr>)"
    unfolding load_wallet_def SEED_HEX_LENGTH_def Let_def private_seed_def
    by (simp add: try_then_eq_Inr ensure_eq_Inr ok_or_eq_Inr validate_seed_permissions_iff not_less
        eq_commute [of _ w]) blast
  then show ?thesis using read_seed_iff by blast
qed

lemma validate_seed_path_iff:
  "validate_seed_path path = Inr u \<longleftrightarrow> length path \<le> 4096 \<and> (\<exists>rest. path = CHR ''/'' # rest)
     \<and> (\<forall>c \<in> set path. \<not> is_ascii_control (byte_of c))"
proof -
  have "b = 0 \<or> is_ascii_control b \<longleftrightarrow> is_ascii_control b" for b by (auto simp: is_ascii_control_def)
  then show ?thesis
    by (cases path) (auto simp: validate_seed_path_def MAX_SEED_PATH_BYTES_def as_bytes_def list_ex_iff)
qed

section \<open>Derived keys, addresses and signatures\<close>

text \<open>What the wallet relies on besides the curve laws: SHA-512 digests have 64 bytes, and BIP 340
  signing gives 64 bytes that verify under the x-only key of the signing key.\<close>

definition signer_law :: "'p wallet_crypto \<Rightarrow> bool" where
  "signer_law wc \<longleftrightarrow> (\<forall>m. length (wc_sha512 wc m) = 64)
     \<and> (\<forall>s m. secret32 s \<longrightarrow> length (wc_sign_schnorr wc m s) = 64
          \<and> sp_verify (wc_secp wc) (wc_sign_schnorr wc m s) m (fst (sp_xonly (wc_secp wc) (sp_public (wc_secp wc) s))))"

definition wallet_laws :: "'p wallet_crypto \<Rightarrow> ('p \<Rightarrow> int) \<Rightarrow> bool" where
  "wallet_laws wc dl \<longleftrightarrow> secp_laws (wc_secp wc) dl \<and> xonly_tweak_law (wc_secp wc) \<and> signer_law wc"

lemma wallet_lawsD:
  assumes "wallet_laws wc dl"
  shows "scalar_laws (wc_secp wc)" "point_laws (wc_secp wc) dl" "encoding_laws (wc_secp wc)"
    "xonly_tweak_law (wc_secp wc)" "signer_law wc"
  using assms by (simp_all add: wallet_laws_def secp_laws_def)

lemma length_hmac_sha512: "signer_law wc \<Longrightarrow> length (hmac_sha512 wc key message) = 64"
  by (simp add: hmac_sha512_def signer_law_def Let_def)

lemma master_key_secret:
  assumes "wallet_laws wc dl" "master_key wc seed = Inr key"
  shows "secret32 (xk_secret_key key)"
  using assms(2) length_hmac_sha512 [OF wallet_lawsD(5) [OF assms(1)]] wallet_lawsD(1) [OF assms(1)]
  by (auto simp: master_key_def try_then_eq_Inr scalar_laws_def Let_def)

lemma derive_child_secret:
  assumes "wallet_laws wc dl" "derive_child wc key index = Inr child" "secret32 (xk_secret_key key)"
  shows "secret32 (xk_secret_key child)"
proof -
  obtain data where d: "derive_child wc key index = (let tweak = take 32 (hmac_sha512 wc (xk_chain_code key) data)
      in try_then (ensure (tc_scalar_ok (sp_taproot (wc_secp wc)) tweak) DerivationKey) (\<lambda>_.
         try_then (ok_or (sp_secret_add (wc_secp wc) (xk_secret_key key) tweak) DerivationKey) (\<lambda>secret_key.
         Inr \<lparr>xk_secret_key = secret_key, xk_chain_code = drop 32 (hmac_sha512 wc (xk_chain_code key) data)\<rparr>)))"
    unfolding derive_child_def Let_def by blast
  show ?thesis
    using assms(2) [unfolded d] assms(3) length_hmac_sha512 [OF wallet_lawsD(5) [OF assms(1)]] wallet_lawsD(1) [OF assms(1)]
    by (auto simp: try_then_eq_Inr ok_or_eq_Inr scalar_laws_def Let_def)
qed

lemma derive_path_secret:
  "\<lbrakk>wallet_laws wc dl; derive_path wc key indexes = Inr child; secret32 (xk_secret_key key)\<rbrakk>
     \<Longrightarrow> secret32 (xk_secret_key child)"
  by (induction indexes arbitrary: key) (auto simp: try_then_eq_Inr dest: derive_child_secret)

lemma derive_bip86_key_secret:
  assumes "wallet_laws wc dl" "derive_bip86_key wc wallet path = Inr secret"
  shows "secret32 secret"
  using assms(2) master_key_secret [OF assms(1)] derive_path_secret [OF assms(1)]
  unfolding derive_bip86_key_def by (auto simp only: try_then_eq_Inr sum.inject)

lemma public_negate:
  assumes "scalar_laws c" "point_laws c dl" "secret32 k"
  shows "secret32 (sp_secret_negate c k)" "sp_public c (sp_secret_negate c k) = sp_negate c (sp_public c k)"
proof -
  show n: "secret32 (sp_secret_negate c k)" using assms(1,3) by (simp add: scalar_laws_def)
  have "dl (sp_public c (sp_secret_negate c k)) = dl (sp_negate c (sp_public c k))"
    using assms n by (simp add: scalar_laws_def point_laws_def)
  then show "sp_public c (sp_secret_negate c k) = sp_negate c (sp_public c k)"
    using assms(2) unfolding point_laws_def by (meson injD)
qed

lemma derive_even_keyD:
  assumes "wallet_laws wc dl" "derive_even_key wc wallet path = Inr secret"
  obtains k where "derive_bip86_key wc wallet path = Inr k" "secret32 secret"
    "fst (sp_xonly (wc_secp wc) (sp_public (wc_secp wc) secret)) = fst (sp_xonly (wc_secp wc) (sp_public (wc_secp wc) k))"
    "snd (sp_xonly (wc_secp wc) (sp_public (wc_secp wc) secret)) = Even"
proof -
  let ?c = "wc_secp wc"
  obtain k where k: "derive_bip86_key wc wallet path = Inr k"
    "secret = (if snd (sp_xonly ?c (sp_public ?c k)) = Odd then sp_secret_negate ?c k else k)"
    using assms(2) by (auto simp: derive_even_key_def try_then_eq_Inr)
  have s: "secret32 k" by (rule derive_bip86_key_secret [OF assms(1) k(1)])
  have n: "secret32 (sp_secret_negate ?c k)" "sp_public ?c (sp_secret_negate ?c k) = sp_negate ?c (sp_public ?c k)"
    using public_negate [OF wallet_lawsD(1,2) [OF assms(1)] s] by simp_all
  note e = wallet_lawsD(3) [OF assms(1), unfolded encoding_laws_def]
  show thesis
  proof (rule that [OF k(1)])
    show "secret32 secret" using k(2) s n(1) by simp
    show "fst (sp_xonly ?c (sp_public ?c secret)) = fst (sp_xonly ?c (sp_public ?c k))" using k(2) n(2) e by simp
    show "snd (sp_xonly ?c (sp_public ?c secret)) = Even"
      using k(2) n(2) e by (cases "snd (sp_xonly ?c (sp_public ?c k))") simp_all
  qed
qed

text \<open>The output key as the key-path signer computes it: the secret key of even parity plus the tweak.\<close>

lemma tweaked_secret_output:
  assumes laws: "wallet_laws wc dl" and k: "secret32 k" and x: "sp_xonly (wc_secp wc) (sp_public (wc_secp wc) k) = (x, parity)"
    and t: "taproot_tweak_of wc x = Inr tweak"
    and n: "normalized = (if parity = Odd then sp_secret_negate (wc_secp wc) k else k)"
  shows "tc_add_tweak (sp_taproot (wc_secp wc)) x tweak
    = map_option (\<lambda>r. sp_xonly (wc_secp wc) (sp_public (wc_secp wc) r)) (sp_secret_add (wc_secp wc) normalized tweak)"
    and "\<And>r. sp_secret_add (wc_secp wc) normalized tweak = Some r \<Longrightarrow> secret32 r"
proof -
  let ?c = "wc_secp wc"
  note l = wallet_lawsD [OF laws]
  note neg = public_negate [OF l(1,2) k]
  have s: "scalar32 tweak"
    using t l(1) by (auto simp: taproot_tweak_of_def try_then_eq_Inr Let_def scalar_laws_def wallet_tagged_hash_def)
  have norm: "secret32 normalized" using k neg(1) n by simp
  have even: "sp_xonly ?c (sp_public ?c normalized) = (x, Even)"
    using x n neg(2) l(3) by (cases parity) (auto simp: encoding_laws_def intro: prod_eqI)
  have add: "sp_secret_add ?c normalized tweak = Some r \<longleftrightarrow> secret32 r \<and> si r = (si normalized + si tweak) mod N" for r
    using l(1) norm s by (simp add: scalar_laws_def)
  then show "\<And>r. sp_secret_add ?c normalized tweak = Some r \<Longrightarrow> secret32 r" by blast
  have exp: "sp_add_exp ?c (sp_public ?c normalized) tweak = Some Q \<longleftrightarrow> dl Q = (si normalized + si tweak) mod N" for Q
    using l(2) norm s by (simp add: point_laws_def)
  have "sp_add_exp ?c (sp_public ?c normalized) tweak = map_option (sp_public ?c) (sp_secret_add ?c normalized tweak)"
  proof (cases "sp_secret_add ?c normalized tweak")
    case None
    have "\<not> dl Q = (si normalized + si tweak) mod N" for Q
    proof
      assume q: "dl Q = (si normalized + si tweak) mod N"
      have "0 < dl Q" "dl Q < N" using l(2) by (simp_all add: point_laws_def)
      then have "secret32 (scalar_of (dl Q)) \<and> si (scalar_of (dl Q)) = dl Q" using scalar_of [of "dl Q"] by (simp add: secret32_def)
      with q add [of "scalar_of (dl Q)"] None show False by simp
    qed
    then show ?thesis using None exp by (cases "sp_add_exp ?c (sp_public ?c normalized) tweak") auto
  next
    case (Some r)
    then have "dl (sp_public ?c r) = (si normalized + si tweak) mod N" using add l(2) by (simp add: point_laws_def)
    then show ?thesis using Some exp by simp
  qed
  then show "tc_add_tweak (sp_taproot ?c) x tweak
    = map_option (\<lambda>r. sp_xonly ?c (sp_public ?c r)) (sp_secret_add ?c normalized tweak)"
    using l(4) even by (simp add: xonly_tweak_law_def option.map_comp comp_def)
qed

text \<open>Deriving an address and signing on the key path, both in terms of one computation of the
  tweaked secret key.\<close>

definition tweaked_secret :: "'p wallet_crypto \<Rightarrow> provider_wallet \<Rightarrow> wallet_path \<Rightarrow> (wallet_error, u8 list \<times> u8 list \<times> u8 list) result" where
  "tweaked_secret wc wallet path =
     try_then (derive_bip86_key wc wallet path) (\<lambda>k.
     let c = wc_secp wc; (x, parity) = sp_xonly c (sp_public c k)
     in try_then (taproot_tweak_of wc x) (\<lambda>tweak.
        try_then (ok_or (sp_secret_add c (if parity = Odd then sp_secret_negate c k else k) tweak) DerivationKey) (\<lambda>r.
        Inr (k, tweak, r))))"

lemma try_then_assoc: "try_then (try_then m f) g = try_then m (\<lambda>x. try_then (f x) g)"
  by (cases m) simp_all

lemma sign_key_path_tweaked:
  "sign_key_path wc wallet path sighash = try_then (tweaked_secret wc wallet path) (\<lambda>(k, tweak, r). sign_digest wc r sighash)"
  by (simp add: sign_key_path_def tweaked_secret_def Let_def try_then_assoc case_prod_unfold)

definition address_of :: "'p wallet_crypto \<Rightarrow> wallet_network \<Rightarrow> wallet_path \<Rightarrow> u8 list \<Rightarrow> u8 list \<Rightarrow> taproot_address" where
  "address_of wc network path k r =
     (let c = wc_secp wc; output_key = fst (sp_xonly c (sp_public c r))
      in \<lparr>ta_path = path, ta_internal_key = fst (sp_xonly c (sp_public c k)), ta_output_key = output_key,
          ta_script_pubkey = 0x51 # 0x20 # output_key,
          ta_address = segwit_text (human_readable_part network) 1 output_key\<rparr>)"

lemma derive_address_tweaked:
  assumes laws: "wallet_laws wc dl"
  shows "derive_address wc wallet path
    = try_then (tweaked_secret wc wallet path) (\<lambda>(k, tweak, r). Inr (address_of wc (pw_network wallet) path k r))"
proof (cases "derive_bip86_key wc wallet path")
  case (Inr k)
  let ?c = "wc_secp wc"
  note s = derive_bip86_key_secret [OF laws Inr]
  obtain x parity where x: "sp_xonly ?c (sp_public ?c k) = (x, parity)" by fastforce
  show ?thesis
  proof (cases "taproot_tweak_of wc x")
    case (Inr tweak)
    note out = tweaked_secret_output(1) [OF laws s x Inr refl]
    show ?thesis
      using \<open>derive_bip86_key wc wallet path = Inr k\<close> Inr x out
      by (cases "sp_secret_add ?c (if parity = Odd then sp_secret_negate ?c k else k) tweak")
        (simp_all add: derive_address_def tweaked_secret_def address_of_def encode_segwit_v1_address_text Let_def
          case_prod_unfold)
  qed (use Inr x in \<open>simp add: derive_address_def tweaked_secret_def\<close>)
qed (simp add: derive_address_def tweaked_secret_def)

lemma tweaked_secretD:
  assumes laws: "wallet_laws wc dl" and t: "tweaked_secret wc wallet path = Inr (k, tweak, r)"
  shows "derive_bip86_key wc wallet path = Inr k" "secret32 k" "secret32 r"
    "\<exists>p. taproot_output_key (sp_taproot (wc_secp wc)) (fst (sp_xonly (wc_secp wc) (sp_public (wc_secp wc) k))) None
       = Inr (fst (sp_xonly (wc_secp wc) (sp_public (wc_secp wc) r)), p)"
proof -
  let ?c = "wc_secp wc"
  obtain x parity where x: "sp_xonly ?c (sp_public ?c k) = (x, parity)" by fastforce
  from t show k: "derive_bip86_key wc wallet path = Inr k"
    by (auto simp: tweaked_secret_def try_then_eq_Inr Let_def case_prod_unfold)
  then show s: "secret32 k" by (rule derive_bip86_key_secret [OF laws])
  from t k x have tw: "taproot_tweak_of wc x = Inr tweak"
    "sp_secret_add ?c (if parity = Odd then sp_secret_negate ?c k else k) tweak = Some r"
    by (auto simp: tweaked_secret_def try_then_eq_Inr ok_or_eq_Inr Let_def split: prod.splits)
  note out = tweaked_secret_output [OF laws s x tw(1) refl]
  show "secret32 r" using out(2) tw(2) by blast
  have "tweak = tagged_hash (sp_taproot ?c) ''TapTweak'' x" "tc_scalar_ok (sp_taproot ?c) tweak"
    using tw(1) by (auto simp: taproot_tweak_of_def try_then_eq_Inr wallet_tagged_hash_def tagged_hash_def Let_def)
  then show "\<exists>p. taproot_output_key (sp_taproot ?c) (fst (sp_xonly ?c (sp_public ?c k))) None
       = Inr (fst (sp_xonly ?c (sp_public ?c r)), p)"
    using out(1) tw(2) x by (cases "sp_xonly ?c (sp_public ?c r)") (simp add: taproot_output_key_def Let_def)
qed

fun address_network :: "wallet_network \<Rightarrow> bitcoin_network" where
  "address_network Mainnet = Bitcoin"
| "address_network WalletTestnet = Testnet"
| "address_network WalletSignet = Testnet"
| "address_network WalletRegtest = Regtest"

lemma parse_wallet_address:
  assumes "length output_key = 32"
  shows "parse_segwit_address (segwit_text (human_readable_part network) 1 output_key)
    = Inr (segwit_output (address_network network) 1 output_key)"
  by (rule parse_segwit_text) (cases network; simp add: hrp_network_def program_length_ok_def assms)+

lemma derived_address_spendable:
  assumes "wallet_laws wc dl" "derive_address wc wallet path = Inr a"
  shows "parse_segwit_address (ta_address a) = Inr (segwit_output (address_network (pw_network wallet)) 1 (ta_output_key a))
      \<and> ta_script_pubkey a = sa_script_pubkey (segwit_output (address_network (pw_network wallet)) 1 (ta_output_key a))
      \<and> (\<exists>p. taproot_output_key (sp_taproot (wc_secp wc)) (ta_internal_key a) None = Inr (ta_output_key a, p))
      \<and> (\<exists>s. sign_key_path wc wallet path sighash = Inr s \<and> ws_public_key s = ta_output_key a
           \<and> sp_verify (wc_secp wc) (ws_signature s) sighash (ta_output_key a))
      \<and> (\<exists>s. sign_script_path wc wallet path sighash = Inr s \<and> ws_public_key s = ta_internal_key a
           \<and> sp_verify (wc_secp wc) (ws_signature s) sighash (ta_internal_key a))"
proof -
  obtain k tweak r where t: "tweaked_secret wc wallet path = Inr (k, tweak, r)"
    and a: "a = address_of wc (pw_network wallet) path k r"
    using assms(2) unfolding derive_address_tweaked [OF assms(1)] by (auto simp: try_then_eq_Inr)
  note d = tweaked_secretD [OF assms(1) t]
  have len: "length (ta_output_key a) = 32"
    using wallet_lawsD(3) [OF assms(1)] by (simp add: a address_of_def encoding_laws_def Let_def)
  show ?thesis
    using d len parse_wallet_address [OF len] wallet_lawsD(5) [OF assms(1)] t
    by (simp add: a address_of_def sign_key_path_tweaked sign_script_path_def sign_digest_def signer_law_def
        segwit_output_def Let_def)
qed

section \<open>Properties\<close>

text \<open>C35: a seed is loaded exactly from a path that names, before and after it is opened, the same
  regular file, not a symbolic link, with permissions 0600 and at most 65 bytes, whose contents are
  32 bytes in lowercase hexadecimal with at most a line feed after them; the path comes from the
  environment, absolute, without control characters and of at most 4096 bytes.\<close>

theorem seed_load_exact:
  "load_from_environment env fs network = Inr w \<longleftrightarrow>
     (\<exists>path before opened contents seed. env = Present path \<and> validate_seed_path path = Inr ()
        \<and> sf_metadata (fs path) = Some before \<and> \<not> fm_symlink before \<and> private_seed before
        \<and> sf_opens (fs path) \<and> sf_opened (fs path) = Some opened \<and> private_seed opened \<and> same_seed_file before opened
        \<and> sf_contents (fs path) = Some contents \<and> seed_text contents seed
        \<and> w = \<lparr>pw_seed = seed, pw_network = network\<rparr>)"
  by (cases env) (auto simp: load_from_environment_def try_then_eq_Inr load_wallet_iff)

text \<open>C34: an address that the wallet derives can be spent by the wallet, on both paths. Its text
  parses to the version 1 output of the output key on the wallet's network, the output key commits
  to the internal key and to no script, key-path signatures verify under the output key and
  script-path signatures under the internal key. The wallet derives an address exactly when it can
  sign for it.\<close>

theorem wallet_address_spendable:
  assumes "wallet_laws wc dl"
  shows "((\<exists>a. derive_address wc wallet path = Inr a) \<longleftrightarrow> (\<exists>s. sign_key_path wc wallet path sighash = Inr s))
    \<and> (\<forall>a. derive_address wc wallet path = Inr a \<longrightarrow>
      parse_segwit_address (ta_address a) = Inr (segwit_output (address_network (pw_network wallet)) 1 (ta_output_key a))
      \<and> ta_script_pubkey a = sa_script_pubkey (segwit_output (address_network (pw_network wallet)) 1 (ta_output_key a))
      \<and> (\<exists>p. taproot_output_key (sp_taproot (wc_secp wc)) (ta_internal_key a) None = Inr (ta_output_key a, p))
      \<and> (\<exists>s. sign_key_path wc wallet path sighash = Inr s \<and> ws_public_key s = ta_output_key a
           \<and> sp_verify (wc_secp wc) (ws_signature s) sighash (ta_output_key a))
      \<and> (\<exists>s. sign_script_path wc wallet path sighash = Inr s \<and> ws_public_key s = ta_internal_key a
           \<and> sp_verify (wc_secp wc) (ws_signature s) sighash (ta_internal_key a)))"
proof -
  have "(\<exists>a. derive_address wc wallet path = Inr a) \<longleftrightarrow> (\<exists>s. sign_key_path wc wallet path sighash = Inr s)"
    unfolding derive_address_tweaked [OF assms] sign_key_path_tweaked
    by (auto simp: try_then_eq_Inr sign_digest_def)
  then show ?thesis using derived_address_spendable [OF assms] by blast
qed

section \<open>A wallet over the residues\<close>

text \<open>The laws can hold together: signatures over the residues with the nonce 1, and a hash that
  makes every step of the derivation add 1.\<close>

definition residue_wallet :: "residue wallet_crypto" where
  "residue_wallet = \<lparr>wc_secp = residue_secp, wc_sha512 = \<lambda>m. SCALAR_ONE @ SCALAR_ONE,
     wc_sign_schnorr = \<lambda>m s. res_x (pt 1) @ scalar_of (1 + min (si s) (N - si s))\<rparr>"

lemma residue_wallet_sel [simp]:
  "wc_secp residue_wallet = residue_secp" "wc_sha512 residue_wallet m = SCALAR_ONE @ SCALAR_ONE"
  "hmac_sha512 residue_wallet key m = SCALAR_ONE @ SCALAR_ONE"
  by (simp_all add: residue_wallet_def hmac_sha512_def)

lemma residue_wallet_signs:
  assumes "secret32 s"
  shows "sp_verify residue_secp (wc_sign_schnorr residue_wallet m s) m (res_x (pt (si s)))"
proof -
  define P where "P = pt (si s)"
  have s: "0 < si s" "si s < N" using assms si_range [of s] by (simp_all add: secret32_def less_le)
  have rep: "Rep_residue P = si s" using s by (simp add: P_def pt_def Rep_Abs_residue)
  have "Rep_residue (if res_parity P = Even then P else res_negate P) = min (si s) (N - si s)"
    using N_odd [of "si s"] by (auto simp: res_parity_def Rep_res_negate rep)
  moreover have "res_lift (res_x (pt 1)) = Some (pt 1)" using res_lift_x [of "pt 1"] by (simp add: res_parity_def)
  ultimately show ?thesis
    using scalar_of [of "1 + min (si s) (N - si s)"] res_lift_x [of P] sample_hash [of "''BIP0340/challenge''"]
    by (simp add: residue_wallet_def residue_secp_def res_x_value P_def)
qed

lemma residue_wallet_laws: "wallet_laws residue_wallet Rep_residue"
proof -
  have "length (wc_sign_schnorr residue_wallet m s) = 64" for m s
    using scalar_of(1) [of "1 + min (si s) (N - si s)"]
    by (simp add: residue_wallet_def res_x_value scalar32_length)
  then have "signer_law residue_wallet"
    using residue_wallet_signs by (simp add: signer_law_def)
  then show ?thesis by (simp add: wallet_laws_def residue_laws residue_xonly_tweak_law)
qed

lemma tiny_mod: "\<lbrakk>0 \<le> k; k < 1000\<rbrakk> \<Longrightarrow> k mod N = k"
  by (rule mod_pos_pos_trivial) (simp_all add: curve_n_value)

lemma tiny_secret:
  assumes "0 < k" "k < 1000"
  shows "secret_of k = Some (scalar_of k)" "si (scalar_of k) = k" "secret32 (scalar_of k)"
  using assms tiny_mod [of k] scalar_of [of k] by (simp_all add: secret_of_def secret32_def)

definition sample_wallet :: provider_wallet where
  "sample_wallet = \<lparr>pw_seed = replicate 32 0, pw_network = WalletRegtest\<rparr>"

definition sample_path :: wallet_path where
  "sample_path = \<lparr>wp_account = 0, wp_change = False, wp_address_index = 0\<rparr>"

lemma sample_child:
  assumes "0 < k" "k < 999"
  shows "derive_child residue_wallet \<lparr>xk_secret_key = scalar_of k, xk_chain_code = SCALAR_ONE\<rparr> index
    = Inr \<lparr>xk_secret_key = scalar_of (k + 1), xk_chain_code = SCALAR_ONE\<rparr>"
  using assms tiny_secret [of k] tiny_secret [of "k + 1"] residue_scalar_laws
  by (simp add: derive_child_def residue_secp_def residue_taproot_def)

lemma sample_key: "derive_bip86_key residue_wallet sample_wallet sample_path = Inr (scalar_of 6)"
proof -
  have "scalar_of 1 = SCALAR_ONE" by (intro si_inj) (simp_all add: scalar_of tiny_mod)
  then have "master_key residue_wallet (pw_seed sample_wallet) = Inr \<lparr>xk_secret_key = scalar_of 1, xk_chain_code = SCALAR_ONE\<rparr>"
    using SCALAR_ONE_neq by (simp add: master_key_def)
  then show ?thesis by (simp add: derive_bip86_key_def sample_child)
qed

lemma sample_tweaked: "tweaked_secret residue_wallet sample_wallet sample_path = Inr (scalar_of 6, SCALAR_ONE, scalar_of 7)"
proof -
  have "pt 6 = pt (si (scalar_of 6))" using tiny_secret(2) [of 6] by simp
  have "Rep_residue (pt 6) = 6" unfolding pt_def by (rule Rep_Abs_residue) (simp_all add: curve_n_value)
  then have "res_parity (pt 6) = Even" by (simp add: res_parity_def curve_n_value)
  moreover have "wallet_tagged_hash residue_wallet tag m = SCALAR_ONE" for tag m
    by (simp add: wallet_tagged_hash_def residue_secp_def residue_taproot_def)
  moreover have "sp_secret_add residue_secp (scalar_of 6) SCALAR_ONE = Some (scalar_of 7)"
    using tiny_secret [of 6] tiny_secret [of 7] by (simp add: residue_secp_def)
  moreover have "tc_scalar_ok (sp_taproot residue_secp) SCALAR_ONE" by (simp add: residue_secp_def residue_taproot_def)
  ultimately show ?thesis
    using tiny_secret(2) [of 6] by (simp add: tweaked_secret_def sample_key taproot_tweak_of_def)
qed

theorem wallet_address_spendable_witness:
  "\<exists>a s. derive_address residue_wallet sample_wallet sample_path = Inr a
     \<and> parse_segwit_address (ta_address a) = Inr (segwit_output Regtest 1 (ta_output_key a))
     \<and> sign_key_path residue_wallet sample_wallet sample_path SCALAR_ONE = Inr s
     \<and> sp_verify residue_secp (ws_signature s) SCALAR_ONE (ta_output_key a)"
proof -
  obtain a where "derive_address residue_wallet sample_wallet sample_path = Inr a"
    using sample_tweaked derive_address_tweaked [OF residue_wallet_laws] by simp
  then show ?thesis
    using wallet_address_spendable [OF residue_wallet_laws, of sample_wallet sample_path SCALAR_ONE]
    by (auto simp: sample_wallet_def)
qed

end
