(* ===== verification/Tx_Policy.thy ===== *)
theory Tx_Policy
  imports Tx_Codec
begin

text \<open>
  Fees and dust of \<open>immortal-core/src/mkt_swp_verify.rs\<close>: \<open>transaction_cost\<close>,
  \<open>validate_transaction_cost\<close>, \<open>dust_threshold\<close> and \<open>is_dust\<close>, with the 64-bit overflow
  checks of the source, and closed forms over the natural numbers.
\<close>

section \<open>Fees\<close>

record transaction_cost_rec =
  tc_fee_sat :: u64
  tc_weight :: u64
  tc_virtual_size :: u64

text \<open>\<open>try_fold\<close> with \<open>checked_add\<close> over the output values.\<close>

fun sum_values :: "string \<Rightarrow> tx_output list \<Rightarrow> u64 \<Rightarrow> (verification_error, u64) result" where
  "sum_values label [] s = Inr s"
| "sum_values label (p # ps) s =
     try_then (ok_or (checked_add s (to_value_sat p)) (Bounds label)) (sum_values label ps)"

definition transaction_cost :: "transaction \<Rightarrow> tx_output list \<Rightarrow> (verification_error, transaction_cost_rec) result" where
  "transaction_cost tx prevouts =
     try_then (ensure (length (t_inputs tx) = length prevouts) (Invalid ''transaction prevout count'')) (\<lambda>_.
     try_then (sum_values ''transaction input value'' prevouts 0) (\<lambda>input_value.
     try_then (sum_values ''transaction output value'' (t_outputs tx) 0) (\<lambda>output_value.
     try_then (ok_or (checked_sub input_value output_value) (Invalid ''transaction spends more than its prevouts''))
       (\<lambda>fee_sat.
     try_then (weight tx) (\<lambda>w.
     try_then (virtual_size tx) (\<lambda>v.
     Inr \<lparr>tc_fee_sat = fee_sat, tc_weight = w, tc_virtual_size = v\<rparr>))))))"

definition validate_transaction_cost ::
    "transaction \<Rightarrow> tx_output list \<Rightarrow> u64 \<Rightarrow> u64 \<Rightarrow> (verification_error, transaction_cost_rec) result" where
  "validate_transaction_cost tx prevouts maximum_fee_sat maximum_fee_rate_sat_per_vbyte =
     try_then (transaction_cost tx prevouts) (\<lambda>cost.
     try_then (ok_or (checked_mul maximum_fee_rate_sat_per_vbyte (tc_virtual_size cost))
       (Bounds ''maximum transaction fee rate'')) (\<lambda>maximum_rate_fee.
     if maximum_fee_sat < tc_fee_sat cost \<or> maximum_rate_fee < tc_fee_sat cost
     then Inl (Invalid ''transaction fee exceeds policy'')
     else Inr cost))"

section \<open>Dust\<close>

definition is_witness_program :: "u8 list \<Rightarrow> bool" where
  "is_witness_program script_pubkey = (case script_pubkey of
     version # program_length # program \<Rightarrow>
       (version = 0 \<or> 0x51 \<le> version \<and> version \<le> 0x60)
       \<and> 2 \<le> program_length \<and> program_length \<le> 40
       \<and> length program = unat program_length
   | _ \<Rightarrow> False)"

definition fee_for_size :: "u64 \<Rightarrow> u64 \<Rightarrow> (verification_error, u64) result" where
  "fee_for_size rate width =
     try_then (ok_or (checked_mul rate width) (Bounds ''fee calculation'')) (\<lambda>product.
     let fee = product div 1000 in Inr (if fee = 0 \<and> 0 < rate then 1 else fee))"

definition dust_threshold :: "u8 list \<Rightarrow> u64 \<Rightarrow> (verification_error, u64) result" where
  "dust_threshold script_pubkey rate =
     (if MAX_SCRIPT_BYTES < length script_pubkey then Inl (Bounds ''dust scriptPubKey byte length'')
      else if script_pubkey \<noteq> [] \<and> hd script_pubkey = 0x6a then Inr 0
      else try_then (ok_or (case checked_add 8 (of_nat (compact_size_length (length script_pubkey))) of
              None \<Rightarrow> None
            | Some n \<Rightarrow> checked_add n (of_nat (length script_pubkey))) (Bounds ''dust output size''))
        (\<lambda>output_size.
        try_then (ok_or (checked_add output_size (if is_witness_program script_pubkey then 67 else 148))
            (Bounds ''dust spend size''))
          (fee_for_size rate)))"

definition is_dust :: "tx_output \<Rightarrow> u64 \<Rightarrow> (verification_error, bool) result" where
  "is_dust output rate =
     try_then (dust_threshold (to_script_pubkey output) rate) (\<lambda>threshold. Inr (to_value_sat output < threshold))"

section \<open>Values\<close>

definition values_sum :: "tx_output list \<Rightarrow> nat" where
  "values_sum ps = sum_list (map (\<lambda>p. unat (to_value_sat p)) ps)"

lemma values_sum_simps [simp]: "values_sum [] = 0" "values_sum (p # ps) = unat (to_value_sat p) + values_sum ps"
  by (simp_all add: values_sum_def)

lemma sum_values_iff: "sum_values label ps s = Inr r \<longleftrightarrow> unat r = unat s + values_sum ps"
proof (induction ps arbitrary: s)
  case Nil
  then show ?case by (auto simp: word_unat_eq_iff)
next
  case (Cons p ps)
  have "(\<exists>m. unat (m :: u64) = unat s + unat (to_value_sat p) \<and> unat r = unat m + values_sum ps)
      \<longleftrightarrow> unat r = unat s + unat (to_value_sat p) + values_sum ps" (is "?l \<longleftrightarrow> ?r")
  proof
    assume r: ?r
    then have "unat s + unat (to_value_sat p) < 2 ^ 64" using unat_bound [of r] by simp
    then have "unat (of_nat (unat s + unat (to_value_sat p)) :: u64) = unat s + unat (to_value_sat p)"
      by (intro unat_of_nat_small) simp
    with r show ?l by metis
  qed auto
  then show ?case by (simp add: try_then_eq_Inr checked_add_Some_iff Cons.IH add.assoc)
qed

lemma sum_values_error:
  "sum_values label ps s = Inl e \<Longrightarrow> e = Bounds label"
  by (induction ps arbitrary: s) (auto simp: try_then_eq_Inl)

lemma sum_values_overflow:
  "sum_values label ps 0 = Inl (Bounds label) \<longleftrightarrow> 2 ^ 64 \<le> values_sum ps"
proof (cases "sum_values label ps 0")
  case (Inl e)
  have "\<nexists>r. unat (r :: u64) = values_sum ps" using Inl sum_values_iff [of label ps 0] by auto
  then have "\<not> values_sum ps < 2 ^ 64" using unat_of_nat_small [of "values_sum ps", where 'a = 64] by auto
  then show ?thesis using Inl sum_values_error by force
next
  case (Inr r)
  then show ?thesis using sum_values_iff [of label ps 0 r] unat_bound [of r] by simp
qed

section \<open>Fees and dust in closed form\<close>

lemma transaction_cost_iff:
  "transaction_cost tx ps = Inr cost \<longleftrightarrow>
     length (t_inputs tx) = length ps \<and> values_sum ps < 2 ^ 64
     \<and> values_sum ps = values_sum (t_outputs tx) + unat (tc_fee_sat cost)
     \<and> weight tx = Inr (tc_weight cost) \<and> virtual_size tx = Inr (tc_virtual_size cost)"
proof -
  have len64: "LENGTH(64) = 64" by simp
  have small: "n < 2 ^ 64 \<Longrightarrow> \<exists>r. unat (r :: u64) = n" for n
    using unat_of_nat_small [of n, where 'a = 64] by auto
  have sums: "(\<exists>i. unat (i :: u64) = values_sum ps \<and> (\<exists>out. unat (out :: u64) = values_sum (t_outputs tx) \<and> unat i = unat out + f))
      \<longleftrightarrow> values_sum ps < 2 ^ 64 \<and> values_sum ps = values_sum (t_outputs tx) + f"
    (is "?l \<longleftrightarrow> ?r") for f
  proof
    assume ?l
    then show ?r using unat_bound [where 'w = 64] by (metis len64)
  next
    assume r: ?r
    then have "values_sum (t_outputs tx) < 2 ^ 64" by simp
    with r show ?l using small by metis
  qed
  have "transaction_cost tx ps = Inr cost \<longleftrightarrow>
     length (t_inputs tx) = length ps
     \<and> (\<exists>i. unat (i :: u64) = values_sum ps \<and> (\<exists>out. unat (out :: u64) = values_sum (t_outputs tx)
        \<and> unat i = unat out + unat (tc_fee_sat cost)))
     \<and> weight tx = Inr (tc_weight cost) \<and> virtual_size tx = Inr (tc_virtual_size cost)"
    by (cases cost) (simp add: transaction_cost_def try_then_eq_Inr sum_values_iff checked_sub_Some_iff, blast)
  then show ?thesis by (simp only: sums) blast
qed

lemma fee_for_size_iff:
  "fee_for_size rate width = Inr fee \<longleftrightarrow>
     unat rate * unat width < 2 ^ 64
     \<and> unat fee = (if rate = 0 then 0 else max 1 (unat rate * unat width div 1000))"
proof (cases "unat rate * unat width < 2 ^ 64")
  case True
  define p where "p = rate * width"
  have p: "checked_mul rate width = Some p" "unat p = unat rate * unat width"
    using True by (simp_all add: p_def checked_mul_def unat_word_ariths)
  have d: "unat (p div 1000) = unat p div 1000" by (simp add: unat_div)
  have z: "p div 1000 = 0 \<longleftrightarrow> unat p div 1000 = 0" by (simp add: word_unat_eq_iff d)
  show ?thesis
  proof (cases "rate = 0")
    case True
    then show ?thesis using p d by (simp add: fee_for_size_def Let_def) (auto simp: word_unat_eq_iff)
  next
    case False
    then have "0 < rate" by (simp add: word_gt_0)
    with False show ?thesis
      using p d z \<open>unat rate * unat width < 2 ^ 64\<close>
      by (auto simp: fee_for_size_def Let_def word_unat_eq_iff max_def)
  qed
qed (simp add: fee_for_size_def checked_mul_def)

lemma fee_for_size_Inl:
  "fee_for_size rate width = Inl e \<longleftrightarrow> 2 ^ 64 \<le> unat rate * unat width \<and> e = Bounds ''fee calculation''"
  by (auto simp: fee_for_size_def Let_def try_then_eq_Inl checked_mul_def)

text \<open>The size charged for an output and the input that spends it.\<close>

definition dust_bytes :: "u8 list \<Rightarrow> nat" where
  "dust_bytes script = 8 + compact_size_length (length script) + length script
     + (if is_witness_program script then 67 else 148)"

definition unspendable :: "u8 list \<Rightarrow> bool" where
  "unspendable script \<longleftrightarrow> (\<exists>rest. script = 0x6a # rest)"

lemma unspendable_hd: "unspendable script \<longleftrightarrow> script \<noteq> [] \<and> hd script = 0x6a"
  by (cases script) (auto simp: unspendable_def)

lemma compact_size_length_le: "compact_size_length n \<le> 9"
  by (simp add: compact_size_length_def)

lemma dust_threshold_fee:
  assumes "length script \<le> MAX_SCRIPT_BYTES" "\<not> unspendable script"
  shows "dust_threshold script rate = fee_for_size rate (of_nat (dust_bytes script))"
    "unat (of_nat (dust_bytes script) :: u64) = dust_bytes script"
proof -
  let ?c = "compact_size_length (length script)"
  let ?s = "if is_witness_program script then 67 else 148 :: nat"
  have len: "length script \<le> 10000" "?c \<le> 9" "?s \<le> 148"
    using assms(1) compact_size_length_le by (simp_all add: tx_limits)
  have a: "checked_add (of_nat m) (of_nat n) = Some (of_nat (m + n) :: u64)" if "m + n < 2 ^ 64" for m n
    using that unat_of_nat_small [of "m + n", where 'a = 64] unat_of_nat_small [of m, where 'a = 64]
      unat_of_nat_small [of n, where 'a = 64] by (simp add: checked_add_Some_iff)
  have eight: "(8 :: u64) = of_nat 8" and sp: "(if is_witness_program script then 67 else 148 :: u64) = of_nat ?s"
    by simp_all
  have lt: "8 + ?c < 2 ^ 64" "8 + ?c + length script < 2 ^ 64" "8 + ?c + length script + ?s < 2 ^ 64"
    using len by simp_all
  note a [OF lt(1)] a [OF lt(2)] a [OF lt(3)]
  then show "dust_threshold script rate = fee_for_size rate (of_nat (dust_bytes script))"
    using leD [OF assms(1)] assms(2)
    by (simp only: dust_threshold_def unspendable_hd if_False if_True eight sp option.case ok_or_simps
        try_then_simps dust_bytes_def simp_thms)
  show "unat (of_nat (dust_bytes script) :: u64) = dust_bytes script"
    by (rule unat_of_nat_small) (use len in \<open>simp add: dust_bytes_def\<close>)
qed

lemma validate_transaction_cost_iff:
  "validate_transaction_cost tx ps max_fee max_rate = Inr cost \<longleftrightarrow>
     length (t_inputs tx) = length ps \<and> values_sum ps < 2 ^ 64
     \<and> values_sum ps = values_sum (t_outputs tx) + unat (tc_fee_sat cost)
     \<and> weight tx = Inr (tc_weight cost) \<and> virtual_size tx = Inr (tc_virtual_size cost)
     \<and> unat max_rate * unat (tc_virtual_size cost) < 2 ^ 64
     \<and> unat (tc_fee_sat cost) \<le> min (unat max_fee) (unat max_rate * unat (tc_virtual_size cost))"
proof -
  have limit: "validate_transaction_cost tx ps max_fee max_rate = Inr cost \<longleftrightarrow>
      transaction_cost tx ps = Inr cost
      \<and> (\<exists>limit. checked_mul max_rate (tc_virtual_size cost) = Some limit \<and> tc_fee_sat cost \<le> max_fee
          \<and> tc_fee_sat cost \<le> limit)"
    by (auto simp: validate_transaction_cost_def try_then_eq_Inr not_less split: if_splits)
  have "(\<exists>limit. checked_mul max_rate (tc_virtual_size cost) = Some limit \<and> tc_fee_sat cost \<le> max_fee
          \<and> tc_fee_sat cost \<le> limit) \<longleftrightarrow>
      unat max_rate * unat (tc_virtual_size cost) < 2 ^ 64
      \<and> unat (tc_fee_sat cost) \<le> min (unat max_fee) (unat max_rate * unat (tc_virtual_size cost))"
    by (auto simp: checked_mul_def word_le_nat_alt unat_word_ariths)
  then show ?thesis unfolding limit transaction_cost_iff by blast
qed

text \<open>The dust threshold has every outcome named: an oversized script and a rate whose
  product with the size charged overflows are errors, an unspendable output is never dust, and
  otherwise the threshold is the rate times the size of the output and of the input spending it,
  per thousand bytes rounded down, but at least one satoshi for a positive rate.\<close>

lemma dust_outcomes:
  "dust_threshold script rate =
     (if MAX_SCRIPT_BYTES < length script then Inl (Bounds ''dust scriptPubKey byte length'')
      else if unspendable script then Inr 0
      else if 2 ^ 64 \<le> unat rate * dust_bytes script then Inl (Bounds ''fee calculation'')
      else Inr (of_nat (if rate = 0 then 0 else max 1 (unat rate * dust_bytes script div 1000))))"
proof (cases "length script \<le> MAX_SCRIPT_BYTES \<and> \<not> unspendable script")
  case True
  note t = dust_threshold_fee [OF conjunct1 [OF True] conjunct2 [OF True]]
  show ?thesis
  proof (cases "2 ^ 64 \<le> unat rate * dust_bytes script")
    case over: True
    then have "fee_for_size rate (of_nat (dust_bytes script)) = Inl (Bounds ''fee calculation'')"
      by (simp add: fee_for_size_Inl t(2))
    with over True show ?thesis by (simp add: t(1) not_less)
  next
    case fits: False
    let ?fee = "if rate = 0 then 0 else max 1 (unat rate * dust_bytes script div 1000)"
    have "?fee < 2 ^ 64" using fits by (simp add: max_def) linarith
    then have "unat (of_nat ?fee :: u64) = ?fee" by (intro unat_of_nat_small) simp
    then have "fee_for_size rate (of_nat (dust_bytes script)) = Inr (of_nat ?fee)"
      using fits by (simp only: fee_for_size_iff t(2) not_le simp_thms)
    moreover have "\<not> MAX_SCRIPT_BYTES < length script" "\<not> unspendable script" using True by simp_all
    ultimately show ?thesis using fits by (simp only: t(1) if_False)
  qed
next
  case False
  then show ?thesis by (auto simp: dust_threshold_def unspendable_hd not_less)
qed

end
