(* ===== verification/Settlement.thy ===== *)
theory Settlement
  imports Wallet Tx_Policy
begin

text \<open>
  The settlement bridge of \<open>immortal-provider/src/settlement.rs\<close>: claim and refund transactions that
  the provider signs on the script path, and the cooperative MuSig2 round on the key path, a state
  machine with commitments to nonces, a safe height and a single partial signature. The wallet and
  its curve library are arguments of every operation. The lemmas show that a returned transaction
  is valid and within policy, and what a round can release in any sequence of calls.
\<close>

section \<open>Errors and templates\<close>

datatype settlement_error =
    WalletFailed wallet_error
  | Core verification_error
  | WrongPath
  | PreimageMismatch
  | SigningKeyMismatch
  | SignatureInvalid
  | DustOutput
  | WeightLimit
  | CooperativeKeyMismatch
  | NonceCommitmentMismatch
  | CooperativeState
  | CooperativeExpired

text \<open>The conversions that the operator \<open>?\<close> applies.\<close>

abbreviation from_core :: "(verification_error, 'a) result \<Rightarrow> (settlement_error, 'a) result" where
  "from_core \<equiv> map_err Core"

abbreviation from_wallet :: "(wallet_error, 'a) result \<Rightarrow> (settlement_error, 'a) result" where
  "from_wallet \<equiv> map_err WalletFailed"

record settlement_template =
  st_wallet_path :: wallet_path
  st_previous_txid_wire :: "u8 list"
  st_previous_output :: u32
  st_prevout_value_sat :: u64
  st_prevout_script_pubkey :: "u8 list"
  st_destination_value_sat :: u64
  st_destination_script_pubkey :: "u8 list"
  st_transaction_version :: i32
  st_input_sequence :: u32
  st_lock_time :: u32
  st_taproot_script :: "u8 list"
  st_taproot_control_block :: "u8 list"
  st_maximum_fee_sat :: u64
  st_maximum_fee_rate_sat_per_vbyte :: u64
  st_maximum_weight :: u64
  st_dust_relay_fee_sat_per_kilobyte :: u64

record cooperative_settlement_template =
  ct_settlement :: settlement_template
  ct_cooperative_wallet_path :: wallet_path
  ct_participant_keys :: "u8 list list"
  ct_provider_index :: u8
  ct_taproot_merkle_root :: "u8 list"
  ct_transcript_digest :: "u8 list"
  ct_latest_safe_height :: u32

record signed_settlement_transaction =
  ss_raw_transaction :: "u8 list"
  ss_transaction_id :: "u8 list"
  ss_witness_transaction_id :: "u8 list"
  ss_cost :: transaction_cost_rec

section \<open>Transactions of a template\<close>

definition unsigned_transaction :: "settlement_template \<Rightarrow> transaction" where
  "unsigned_transaction template =
     new_transaction (st_transaction_version template)
       [\<lparr>ti_previous_txid = st_previous_txid_wire template, ti_previous_output = st_previous_output template,
         ti_script_sig = [], ti_sequence = st_input_sequence template, ti_witness = []\<rparr>]
       [\<lparr>to_value_sat = st_destination_value_sat template,
         to_script_pubkey = st_destination_script_pubkey template\<rparr>]
       (st_lock_time template)"

definition settlement_prevouts :: "settlement_template \<Rightarrow> tx_output list" where
  "settlement_prevouts template =
     [\<lparr>to_value_sat = st_prevout_value_sat template, to_script_pubkey = st_prevout_script_pubkey template\<rparr>]"

definition ensure_destination_policy :: "settlement_template \<Rightarrow> tx_output \<Rightarrow> (settlement_error, unit) result" where
  "ensure_destination_policy template destination =
     try_then (from_core (is_dust destination (st_dust_relay_fee_sat_per_kilobyte template))) (\<lambda>dust.
     ensure (\<not> dust) DustOutput)"

text \<open>The guard that \<open>claim\<close>, \<open>refund\<close> and \<open>begin_cooperative\<close> share: the first output, if any,
  is the destination.\<close>

definition ensure_first_destination :: "settlement_template \<Rightarrow> transaction \<Rightarrow> (settlement_error, unit) result" where
  "ensure_first_destination template tx = (case t_outputs tx of
     [] \<Rightarrow> Inl (Core (Invalid ''settlement transaction has no destination''))
   | destination # _ \<Rightarrow> ensure_destination_policy template destination)"

definition ensure_signature_key :: "parsed_swap_leaf \<Rightarrow> u8 list \<Rightarrow> (settlement_error, unit) result" where
  "ensure_signature_key leaf signature_public_key =
     ensure (\<not> pl_signing_key leaf \<noteq> signature_public_key) SigningKeyMismatch"

definition verify_validated_signature ::
    "'p secp \<Rightarrow> validated_taproot_witness \<Rightarrow> u8 list \<Rightarrow> (settlement_error, unit) result" where
  "verify_validated_signature c validated expected_sighash =
     try_then (ensure (\<not> vw_sighash validated \<noteq> expected_sighash) SignatureInvalid) (\<lambda>_.
     try_then (ensure (tc_xonly_ok (sp_taproot c) (vw_signing_key validated)) SignatureInvalid) (\<lambda>_.
     ensure (sp_verify c (vw_signature validated) (vw_sighash validated) (vw_signing_key validated)) SignatureInvalid))"

definition finalize_transaction ::
    "'p secp \<Rightarrow> settlement_template \<Rightarrow> transaction \<Rightarrow> tx_output list
      \<Rightarrow> (settlement_error, signed_settlement_transaction) result" where
  "finalize_transaction c template tx prevouts =
     try_then (from_core (validate_transaction_cost tx prevouts (st_maximum_fee_sat template)
         (st_maximum_fee_rate_sat_per_vbyte template))) (\<lambda>cost.
     try_then (ensure (\<not> st_maximum_weight template < tc_weight cost) WeightLimit) (\<lambda>_.
     try_then (from_core (serialize tx True)) (\<lambda>raw.
     try_then (from_core (txid (tc_sha256 (sp_taproot c)) tx)) (\<lambda>transaction_id.
     try_then (from_core (wtxid (tc_sha256 (sp_taproot c)) tx)) (\<lambda>witness_transaction_id.
     Inr \<lparr>ss_raw_transaction = raw, ss_transaction_id = transaction_id,
          ss_witness_transaction_id = witness_transaction_id, ss_cost = cost\<rparr>)))))"

definition ensure_wallet_key ::
    "'p wallet_crypto \<Rightarrow> provider_wallet \<Rightarrow> settlement_template \<Rightarrow> parsed_swap_leaf \<Rightarrow> (settlement_error, unit) result" where
  "ensure_wallet_key wc wallet template leaf =
     try_then (from_wallet (derive_address wc wallet (st_wallet_path template))) (\<lambda>address.
     ensure (\<not> pl_signing_key leaf \<noteq> ta_internal_key address) SigningKeyMismatch)"

section \<open>Claim and refund\<close>

abbreviation wallet_taproot :: "'p wallet_crypto \<Rightarrow> taproot_crypto" where
  "wallet_taproot wc \<equiv> sp_taproot (wc_secp wc)"

abbreviation spend_sighash :: "'p wallet_crypto \<Rightarrow> settlement_template \<Rightarrow> transaction \<Rightarrow> (verification_error, u8 list) result" where
  "spend_sighash wc template tx \<equiv>
     taproot_script_spend_sighash (wallet_taproot wc) tx (settlement_prevouts template) 0
       (st_taproot_script template) (st_taproot_control_block template)"

definition claim ::
    "'p wallet_crypto \<Rightarrow> provider_wallet \<Rightarrow> settlement_template \<Rightarrow> u8 list
      \<Rightarrow> (settlement_error, signed_settlement_transaction) result" where
  "claim wc wallet template preimage =
     (let payment_hash = tc_sha256 (wallet_taproot wc) preimage;
          script = st_taproot_script template; control_block = st_taproot_control_block template
      in try_then (from_core (parse_swap_leaf_script (tc_xonly_ok (wallet_taproot wc)) script)) (\<lambda>leaf.
         try_then (case pl_condition leaf of Hashlock expected \<Rightarrow> Inr expected | _ \<Rightarrow> Inl WrongPath) (\<lambda>expected_payment_hash.
         try_then (ensure (\<not> payment_hash \<noteq> expected_payment_hash) PreimageMismatch) (\<lambda>_.
         try_then (ensure_wallet_key wc wallet template leaf) (\<lambda>_.
         let tx = unsigned_transaction template; prevouts = settlement_prevouts template
         in try_then (ensure_first_destination template tx) (\<lambda>_.
            try_then (from_core (spend_sighash wc template tx)) (\<lambda>sighash.
            try_then (from_wallet (sign_script_path wc wallet (st_wallet_path template) sighash)) (\<lambda>wallet_signature.
            try_then (ensure_signature_key leaf (ws_public_key wallet_signature)) (\<lambda>_.
            try_then (from_core (assemble_taproot_claim_witness (wallet_taproot wc) (ws_signature wallet_signature)
                preimage script control_block)) (\<lambda>witness.
            try_then (from_core (set_input_witness 0 witness tx)) (\<lambda>tx.
            try_then (from_core (validate_taproot_claim_witness (wallet_taproot wc) tx prevouts 0 script control_block))
              (\<lambda>validated.
            try_then (verify_validated_signature (wc_secp wc) validated sighash) (\<lambda>_.
            finalize_transaction (wc_secp wc) template tx prevouts)))))))))))))"

definition refund ::
    "'p wallet_crypto \<Rightarrow> provider_wallet \<Rightarrow> settlement_template
      \<Rightarrow> (settlement_error, signed_settlement_transaction) result" where
  "refund wc wallet template =
     (let script = st_taproot_script template; control_block = st_taproot_control_block template
      in try_then (from_core (parse_swap_leaf_script (tc_xonly_ok (wallet_taproot wc)) script)) (\<lambda>leaf.
         try_then (ensure (case pl_condition leaf of Cltv _ \<Rightarrow> True | Csv _ \<Rightarrow> True | Hashlock _ \<Rightarrow> False) WrongPath) (\<lambda>_.
         try_then (ensure_wallet_key wc wallet template leaf) (\<lambda>_.
         let tx = unsigned_transaction template; prevouts = settlement_prevouts template
         in try_then (ensure_first_destination template tx) (\<lambda>_.
            try_then (from_core (spend_sighash wc template tx)) (\<lambda>sighash.
            try_then (from_wallet (sign_script_path wc wallet (st_wallet_path template) sighash)) (\<lambda>wallet_signature.
            try_then (ensure_signature_key leaf (ws_public_key wallet_signature)) (\<lambda>_.
            try_then (from_core (assemble_taproot_refund_witness (wallet_taproot wc) (ws_signature wallet_signature)
                script control_block)) (\<lambda>witness.
            try_then (from_core (set_input_witness 0 witness tx)) (\<lambda>tx.
            try_then (from_core (validate_taproot_refund_witness (wallet_taproot wc) tx prevouts 0 script control_block))
              (\<lambda>validated.
            try_then (verify_validated_signature (wc_secp wc) validated sighash) (\<lambda>_.
            finalize_transaction (wc_secp wc) template tx prevouts))))))))))))"

section \<open>Cooperative rounds\<close>

record 'p cooperative_signing_round =
  cr_template :: cooperative_settlement_template
  cr_transaction :: transaction
  cr_prevouts :: "tx_output list"
  cr_keys :: "'p list"
  cr_tweaks :: "musig2_tweak list"
  cr_aggregate_key :: "u8 list"
  cr_signature_hash :: "u8 list"
  cr_nonce :: "'p wallet_musig2_nonce option"
  cr_nonce_commitment :: "u8 list"
  cr_counterparty_nonce_commitment :: "u8 list option"
  cr_partial_released :: bool
  cr_terminal :: bool

definition public_nonce :: "'p wallet_musig2_nonce \<Rightarrow> u8 list" where
  "public_nonce nonce = sn_public_nonce (wn_secret_nonce nonce)"

definition abort_round :: "'p cooperative_signing_round \<Rightarrow> 'p cooperative_signing_round" where
  "abort_round round = round\<lparr>cr_nonce := None, cr_terminal := True\<rparr>"

definition ensure_active ::
    "'p cooperative_signing_round \<Rightarrow> u32 \<Rightarrow> 'p cooperative_signing_round \<times> (settlement_error, unit) result" where
  "ensure_active round current_height =
     (if cr_terminal round then (round, Inl CooperativeState)
      else if ct_latest_safe_height (cr_template round) < current_height
      then (abort_round round, Inl CooperativeExpired)
      else (round, Inr ()))"

definition register_counterparty_nonce_commitment ::
    "'p cooperative_signing_round \<Rightarrow> u8 list \<Rightarrow> u32
      \<Rightarrow> 'p cooperative_signing_round \<times> (settlement_error, unit) result" where
  "register_counterparty_nonce_commitment round commitment current_height =
     (case ensure_active round current_height of
        (round, Inl e) \<Rightarrow> (round, Inl e)
      | (round, Inr _) \<Rightarrow>
          (case cr_counterparty_nonce_commitment round of
             Some existing \<Rightarrow> (round, if existing = commitment then Inr () else Inl NonceCommitmentMismatch)
           | None \<Rightarrow> (round\<lparr>cr_counterparty_nonce_commitment := Some commitment\<rparr>, Inr ())))"

definition reveal_public_nonce ::
    "'p cooperative_signing_round \<Rightarrow> u32 \<Rightarrow> 'p cooperative_signing_round \<times> (settlement_error, u8 list) result" where
  "reveal_public_nonce round current_height =
     (case ensure_active round current_height of
        (round, Inl e) \<Rightarrow> (round, Inl e)
      | (round, Inr _) \<Rightarrow>
          (round, if cr_counterparty_nonce_commitment round = None then Inl CooperativeState
                  else ok_or (map_option public_nonce (cr_nonce round)) CooperativeState))"

definition begin_cooperative ::
    "'p wallet_crypto \<Rightarrow> provider_wallet \<Rightarrow> u8 list option \<Rightarrow> cooperative_settlement_template \<Rightarrow> u32
      \<Rightarrow> (settlement_error, 'p cooperative_signing_round) result" where
  "begin_cooperative wc wallet urandom template current_height =
     (let c = wc_secp wc; settlement = ct_settlement template; provider_index = unat (ct_provider_index template)
      in try_then (ensure (\<not> (ct_latest_safe_height template = 0 \<or> ct_latest_safe_height template < current_height))
                    CooperativeExpired) (\<lambda>_.
         try_then (ensure (\<not> length (ct_participant_keys template) \<le> provider_index) CooperativeKeyMismatch) (\<lambda>_.
         try_then (try_map (\<lambda>key. ok_or (sp_from_slice c key) CooperativeKeyMismatch) (ct_participant_keys template)) (\<lambda>keys.
         try_then (ensure (\<not> keys ! 0 = keys ! 1) CooperativeKeyMismatch) (\<lambda>_.
         try_then (from_wallet (derive_address wc wallet (ct_cooperative_wallet_path template))) (\<lambda>address.
         try_then (ensure (\<not> (fst (sp_xonly c (keys ! provider_index)) \<noteq> ta_internal_key address
                              \<or> ct_participant_keys template ! provider_index ! 0 \<noteq> 0x02)) CooperativeKeyMismatch) (\<lambda>_.
         try_then (from_core (musig2_taproot_tweak c keys (ct_taproot_merkle_root template))) (\<lambda>tweak.
         let tweaks = [tweak]
         in try_then (from_core (musig2_tweaked_aggregate_key c keys tweaks)) (\<lambda>aggregate_key.
            try_then (ensure (\<not> st_prevout_script_pubkey settlement \<noteq> [0x51, 0x20] @ aggregate_key) CooperativeKeyMismatch) (\<lambda>_.
            try_then (from_core (parse_swap_leaf_script (tc_xonly_ok (sp_taproot c)) (st_taproot_script settlement)))
              (\<lambda>unilateral_leaf.
            try_then (ensure_wallet_key wc wallet settlement unilateral_leaf) (\<lambda>_.
            try_then (from_core (verify_control_block (sp_taproot c) aggregate_key (st_taproot_script settlement)
                (st_taproot_control_block settlement))) (\<lambda>_.
            let tx = unsigned_transaction settlement; prevouts = settlement_prevouts settlement
            in try_then (ensure_first_destination settlement tx) (\<lambda>_.
               try_then (from_core (validate_transaction_cost tx prevouts (st_maximum_fee_sat settlement)
                   (st_maximum_fee_rate_sat_per_vbyte settlement))) (\<lambda>_.
               try_then (from_core (taproot_key_spend_sighash (sp_taproot c) tx prevouts 0)) (\<lambda>signature_hash.
               try_then (from_wallet (begin_cooperative_signing wc wallet urandom (ct_cooperative_wallet_path template)
                   (ct_transcript_digest template) keys tweaks signature_hash)) (\<lambda>nonce.
               Inr \<lparr>cr_template = template, cr_transaction = tx, cr_prevouts = prevouts, cr_keys = keys,
                    cr_tweaks = tweaks, cr_aggregate_key = aggregate_key, cr_signature_hash = signature_hash,
                    cr_nonce = Some nonce, cr_nonce_commitment = tc_sha256 (sp_taproot c) (public_nonce nonce),
                    cr_counterparty_nonce_commitment = None, cr_partial_released = False, cr_terminal = False\<rparr>)))))))))))))))))"

definition sign_cooperative_partial ::
    "'p wallet_crypto \<Rightarrow> provider_wallet \<Rightarrow> 'p cooperative_signing_round \<Rightarrow> u32 \<Rightarrow> u8 list list
      \<Rightarrow> 'p cooperative_signing_round \<times> (settlement_error, u8 list) result" where
  "sign_cooperative_partial wc wallet round current_height public_nonces =
     (case ensure_active round current_height of
        (round, Inl e) \<Rightarrow> (round, Inl e)
      | (round, Inr _) \<Rightarrow>
          if cr_partial_released round then (round, Inl CooperativeState)
          else
            let provider_index = unat (ct_provider_index (cr_template round));
                counterparty_index = 1 - provider_index
            in (case cr_counterparty_nonce_commitment round of
                  None \<Rightarrow> (round, Inl CooperativeState)
                | Some counterparty_commitment \<Rightarrow>
                    (case cr_nonce round of
                       None \<Rightarrow> (round, Inl CooperativeState)
                     | Some nonce \<Rightarrow>
                         if public_nonces ! provider_index \<noteq> public_nonce nonce
                            \<or> tc_sha256 (wallet_taproot wc) (public_nonces ! counterparty_index) \<noteq> counterparty_commitment
                         then (round, Inl NonceCommitmentMismatch)
                         else (case wallet_sign_cooperative_partial wc wallet nonce
                                      (ct_transcript_digest (cr_template round)) public_nonces of
                                 (nonce, Inr partial) \<Rightarrow>
                                   (round\<lparr>cr_nonce := None, cr_partial_released := True\<rparr>, Inr partial)
                               | (nonce, Inl error) \<Rightarrow> (abort_round round, Inl (WalletFailed error))))))"

definition finalize_cooperative ::
    "'p wallet_crypto \<Rightarrow> 'p cooperative_signing_round \<Rightarrow> u32 \<Rightarrow> u8 list list \<Rightarrow> u8 list list
      \<Rightarrow> (settlement_error, signed_settlement_transaction) result" where
  "finalize_cooperative wc round current_height public_nonces partial_signatures =
     try_then (snd (ensure_active round current_height)) (\<lambda>_.
     try_then (ensure (\<not> \<not> cr_partial_released round) CooperativeState) (\<lambda>_.
     try_then (from_core (musig2_aggregate_partial_signatures (wc_secp wc) (cr_keys round) public_nonces (cr_tweaks round)
         (cr_signature_hash round) partial_signatures)) (\<lambda>signature.
     try_then (from_core (verify_musig2_signature (wc_secp wc) (cr_aggregate_key round) (cr_signature_hash round) signature)) (\<lambda>_.
     try_then (from_core (set_input_witness 0 [signature] (cr_transaction round))) (\<lambda>tx.
     finalize_transaction (wc_secp wc) (ct_settlement (cr_template round)) tx (cr_prevouts round))))))"

section \<open>Settled transactions\<close>

text \<open>The transaction of a template with a witness in its only input.\<close>

definition settled_tx :: "settlement_template \<Rightarrow> u8 list list \<Rightarrow> transaction" where
  "settled_tx template witness =
     new_transaction (st_transaction_version template)
       [\<lparr>ti_previous_txid = st_previous_txid_wire template, ti_previous_output = st_previous_output template,
         ti_script_sig = [], ti_sequence = st_input_sequence template, ti_witness = witness\<rparr>]
       [\<lparr>to_value_sat = st_destination_value_sat template,
         to_script_pubkey = st_destination_script_pubkey template\<rparr>]
       (st_lock_time template)"

text \<open>What the provider may broadcast: bytes that parse to the transaction, its identifiers, fee and
  weight within the template's limits, and a destination that is not dust.\<close>

definition within_policy :: "'p secp \<Rightarrow> settlement_template \<Rightarrow> transaction \<Rightarrow> signed_settlement_transaction \<Rightarrow> bool" where
  "within_policy c template tx settled \<longleftrightarrow>
     parse_transaction (ss_raw_transaction settled) = Inr tx
     \<and> txid (tc_sha256 (sp_taproot c)) tx = Inr (ss_transaction_id settled)
     \<and> wtxid (tc_sha256 (sp_taproot c)) tx = Inr (ss_witness_transaction_id settled)
     \<and> unat (st_prevout_value_sat template)
         = unat (st_destination_value_sat template) + unat (tc_fee_sat (ss_cost settled))
     \<and> tc_fee_sat (ss_cost settled) \<le> st_maximum_fee_sat template
     \<and> (\<exists>vsize. virtual_size tx = Inr vsize
          \<and> unat (tc_fee_sat (ss_cost settled)) \<le> unat (st_maximum_fee_rate_sat_per_vbyte template) * unat vsize)
     \<and> (\<exists>w. weight tx = Inr w \<and> w \<le> st_maximum_weight template)
     \<and> (\<exists>threshold. dust_threshold (st_destination_script_pubkey template) (st_dust_relay_fee_sat_per_kilobyte template)
            = Inr threshold \<and> threshold \<le> st_destination_value_sat template)"

lemma settled_tx_unsigned: "unsigned_transaction template = settled_tx template []"
  by (simp add: unsigned_transaction_def settled_tx_def)

lemma set_witness_settled:
  assumes "set_input_witness 0 witness (unsigned_transaction template) = Inr tx"
  shows "tx = settled_tx template witness"
  using assms
  by (auto simp: set_input_witness_def unsigned_transaction_def settled_tx_def new_transaction_def try_then_eq_Inr Let_def)

lemma first_destinationD:
  assumes "ensure_first_destination template (unsigned_transaction template) = Inr ()"
  shows "\<exists>threshold. dust_threshold (st_destination_script_pubkey template) (st_dust_relay_fee_sat_per_kilobyte template)
    = Inr threshold \<and> threshold \<le> st_destination_value_sat template"
  using assms
  by (auto simp: ensure_first_destination_def unsigned_transaction_def new_transaction_def ensure_destination_policy_def
      is_dust_def try_then_eq_Inr map_err_eq_Inr not_less)

lemma finalize_within_policy:
  assumes f: "finalize_transaction c template (settled_tx template witness) (settlement_prevouts template) = Inr settled"
    and w: "witness \<noteq> []" "length (st_previous_txid_wire template) = 32"
    and d: "ensure_first_destination template (unsigned_transaction template) = Inr ()"
  shows "within_policy c template (settled_tx template witness) settled"
proof -
  let ?tx = "settled_tx template witness"
  obtain cost raw txid' wtxid' where r: "validate_transaction_cost ?tx (settlement_prevouts template)
      (st_maximum_fee_sat template) (st_maximum_fee_rate_sat_per_vbyte template) = Inr cost"
    "tc_weight cost \<le> st_maximum_weight template" "serialize ?tx True = Inr raw"
    "txid (tc_sha256 (sp_taproot c)) ?tx = Inr txid'" "wtxid (tc_sha256 (sp_taproot c)) ?tx = Inr wtxid'"
    "settled = \<lparr>ss_raw_transaction = raw, ss_transaction_id = txid', ss_witness_transaction_id = wtxid', ss_cost = cost\<rparr>"
    using f by (auto simp: finalize_transaction_def try_then_eq_Inr map_err_eq_Inr not_less)
  have flag: "t_has_witness ?tx" "any_witness (t_inputs ?tx)" "txids_ok ?tx"
    using w by (simp_all add: settled_tx_def new_transaction_def any_witness_def txids_ok_def)
  then have "parse_transaction raw = Inr ?tx"
    using r(3) by (auto simp: parse_transaction_iff tx_ok_def serialize_iff Let_def)
  moreover have "values_sum (settlement_prevouts template) = unat (st_prevout_value_sat template)"
    "values_sum (t_outputs ?tx) = unat (st_destination_value_sat template)"
    by (simp_all add: settlement_prevouts_def settled_tx_def new_transaction_def)
  ultimately show ?thesis
    unfolding within_policy_def
    using r first_destinationD [OF d] by (auto simp: validate_transaction_cost_iff word_le_nat_alt)
qed

section \<open>Claims and refunds are valid\<close>

lemma verified_signatureD:
  assumes "verify_validated_signature c validated sighash = Inr ()"
  shows "vw_sighash validated = sighash" "sp_verify c (vw_signature validated) sighash (vw_signing_key validated)"
  using assms by (auto simp: verify_validated_signature_def try_then_eq_Inr)

lemma wallet_keyD:
  assumes "ensure_wallet_key wc wallet template leaf = Inr ()"
  obtains a where "derive_address wc wallet (st_wallet_path template) = Inr a" "pl_signing_key leaf = ta_internal_key a"
  using assms by (auto simp: ensure_wallet_key_def try_then_eq_Inr map_err_eq_Inr)

lemma claimD:
  assumes "claim wc wallet template preimage = Inr settled"
  obtains leaf sighash signature witness tx validated where
    "parse_swap_leaf_script (tc_xonly_ok (wallet_taproot wc)) (st_taproot_script template) = Inr leaf"
    "pl_condition leaf = Hashlock (tc_sha256 (wallet_taproot wc) preimage)"
    "ensure_wallet_key wc wallet template leaf = Inr ()"
    "ensure_first_destination template (unsigned_transaction template) = Inr ()"
    "spend_sighash wc template (unsigned_transaction template) = Inr sighash"
    "sign_script_path wc wallet (st_wallet_path template) sighash = Inr signature"
    "assemble_taproot_claim_witness (wallet_taproot wc) (ws_signature signature) preimage
       (st_taproot_script template) (st_taproot_control_block template) = Inr witness"
    "set_input_witness 0 witness (unsigned_transaction template) = Inr tx"
    "validate_taproot_claim_witness (wallet_taproot wc) tx (settlement_prevouts template) 0
       (st_taproot_script template) (st_taproot_control_block template) = Inr validated"
    "verify_validated_signature (wc_secp wc) validated sighash = Inr ()"
    "finalize_transaction (wc_secp wc) template tx (settlement_prevouts template) = Inr settled"
proof -
  from assms obtain leaf expected where l:
    "parse_swap_leaf_script (tc_xonly_ok (wallet_taproot wc)) (st_taproot_script template) = Inr leaf"
    "pl_condition leaf = Hashlock expected"
    by (cases "parse_swap_leaf_script (tc_xonly_ok (wallet_taproot wc)) (st_taproot_script template)"; simp add: claim_def)
      (metis (no_types, lifting) sum.distinct(1) swap_leaf_condition.exhaust swap_leaf_condition.simps(11,12) try_then_simps(1))
  show thesis
    using assms unfolding claim_def Let_def l map_err_simps try_then_simps swap_leaf_condition.case
    by (simp only: try_then_eq_Inr map_err_eq_Inr ensure_eq_Inr ex_unit simp_thms) (elim exE conjE, rule that [OF l(1)]; simp add: l(2))
qed

lemma refundD:
  assumes "refund wc wallet template = Inr settled"
  obtains leaf sighash signature witness tx validated where
    "parse_swap_leaf_script (tc_xonly_ok (wallet_taproot wc)) (st_taproot_script template) = Inr leaf"
    "ensure_wallet_key wc wallet template leaf = Inr ()"
    "ensure_first_destination template (unsigned_transaction template) = Inr ()"
    "spend_sighash wc template (unsigned_transaction template) = Inr sighash"
    "sign_script_path wc wallet (st_wallet_path template) sighash = Inr signature"
    "assemble_taproot_refund_witness (wallet_taproot wc) (ws_signature signature)
       (st_taproot_script template) (st_taproot_control_block template) = Inr witness"
    "set_input_witness 0 witness (unsigned_transaction template) = Inr tx"
    "validate_taproot_refund_witness (wallet_taproot wc) tx (settlement_prevouts template) 0
       (st_taproot_script template) (st_taproot_control_block template) = Inr validated"
    "verify_validated_signature (wc_secp wc) validated sighash = Inr ()"
    "finalize_transaction (wc_secp wc) template tx (settlement_prevouts template) = Inr settled"
  using assms unfolding refund_def Let_def
  by (simp only: try_then_eq_Inr map_err_eq_Inr ensure_eq_Inr ex_unit simp_thms) (elim exE conjE, rule that; assumption)

text \<open>A script-path spend that the chain accepts: the spent output commits to the script, and the
  signature is one of the BIP 341 message of the transaction under the key of the leaf.\<close>

definition script_spend_valid ::
    "'p secp \<Rightarrow> settlement_template \<Rightarrow> u8 list \<Rightarrow> u8 list \<Rightarrow> transaction \<Rightarrow> bool" where
  "script_spend_valid c template key signature tx \<longleftrightarrow>
     (\<exists>output_key sighash. st_prevout_script_pubkey template = 0x51 # 0x20 # output_key
        \<and> verify_control_block (sp_taproot c) output_key (st_taproot_script template) (st_taproot_control_block template) = Inr ()
        \<and> taproot_script_spend_sighash (sp_taproot c) tx (settlement_prevouts template) 0 (st_taproot_script template)
            (st_taproot_control_block template) = Inr sighash
        \<and> sp_verify c signature sighash key)"

lemma sighash_output:
  assumes "taproot_script_spend_sighash crypto tx prevouts i script cb = Inr h"
  obtains output_key where "to_script_pubkey (prevouts ! i) = 0x51 # 0x20 # output_key"
    "verify_control_block crypto output_key script cb = Inr ()"
  using assms by (auto simp: taproot_script_spend_sighash_def try_then_eq_Inr elim!: script_messageD spend_inputsD)

lemma script_spend_validI:
  assumes "taproot_script_spend_sighash (sp_taproot c) tx (settlement_prevouts template) 0 (st_taproot_script template)
      (st_taproot_control_block template) = Inr sighash"
    "sp_verify c signature sighash key"
  shows "script_spend_valid c template key signature tx"
  using sighash_output [OF assms(1)] assms unfolding script_spend_valid_def settlement_prevouts_def
  by (metis nth_Cons_0 tx_output.select_convs(2))

lemma settled_tx_witness: "ti_witness (t_inputs (settled_tx template witness) ! 0) = witness"
  by (simp add: settled_tx_def new_transaction_def)

lemma claim_valid:
  assumes c: "claim wc wallet template preimage = Inr settled" and len: "length (st_previous_txid_wire template) = 32"
  obtains signature a where "derive_address wc wallet (st_wallet_path template) = Inr a"
    "parse_swap_leaf_script (tc_xonly_ok (wallet_taproot wc)) (st_taproot_script template)
       = Inr \<lparr>pl_signing_key = ta_internal_key a, pl_condition = Hashlock (tc_sha256 (wallet_taproot wc) preimage)\<rparr>"
    "script_spend_valid (wc_secp wc) template (ta_internal_key a) signature
       (settled_tx template [signature, preimage, st_taproot_script template, st_taproot_control_block template])"
    "within_policy (wc_secp wc) template
       (settled_tx template [signature, preimage, st_taproot_script template, st_taproot_control_block template]) settled"
  using c
proof (rule claimD)
  fix leaf sighash signature witness tx validated
  assume l: "parse_swap_leaf_script (tc_xonly_ok (wallet_taproot wc)) (st_taproot_script template) = Inr leaf"
    "pl_condition leaf = Hashlock (tc_sha256 (wallet_taproot wc) preimage)"
    and k: "ensure_wallet_key wc wallet template leaf = Inr ()"
    and d: "ensure_first_destination template (unsigned_transaction template) = Inr ()"
    and w: "assemble_taproot_claim_witness (wallet_taproot wc) (ws_signature signature) preimage
       (st_taproot_script template) (st_taproot_control_block template) = Inr witness"
    and tx: "set_input_witness 0 witness (unsigned_transaction template) = Inr tx"
    and v: "validate_taproot_claim_witness (wallet_taproot wc) tx (settlement_prevouts template) 0
       (st_taproot_script template) (st_taproot_control_block template) = Inr validated"
    and s: "verify_validated_signature (wc_secp wc) validated sighash = Inr ()"
    and f: "finalize_transaction (wc_secp wc) template tx (settlement_prevouts template) = Inr settled"
  note tx' = set_witness_settled [OF tx]
  have witness: "witness = [ws_signature signature, preimage, st_taproot_script template, st_taproot_control_block template]"
    using w l by (auto simp: assemble_taproot_claim_witness_def try_then_eq_Inr)
  obtain a where a: "derive_address wc wallet (st_wallet_path template) = Inr a" "pl_signing_key leaf = ta_internal_key a"
    using k by (rule wallet_keyD)
  from v obtain vs: "vw_signature validated = ws_signature signature" "vw_signing_key validated = pl_signing_key leaf"
    "taproot_script_spend_sighash (wallet_taproot wc) tx (settlement_prevouts template) 0 (st_taproot_script template)
       (st_taproot_control_block template) = Inr (vw_sighash validated)"
    by (rule claim_witnessD) (use l in \<open>simp add: tx' settled_tx_witness witness\<close>)
  have "script_spend_valid (wc_secp wc) template (ta_internal_key a) (ws_signature signature) tx"
    using script_spend_validI [OF vs(3)] verified_signatureD [OF s] vs(1,2) a(2) by simp
  moreover have "leaf = \<lparr>pl_signing_key = ta_internal_key a, pl_condition = Hashlock (tc_sha256 (wallet_taproot wc) preimage)\<rparr>"
    using a(2) l(2) by simp
  moreover have "within_policy (wc_secp wc) template tx settled"
    using finalize_within_policy [OF f [unfolded tx'] _ len d] by (simp add: tx' witness)
  ultimately show thesis using that [OF a(1)] l(1) tx' witness by simp
qed

text \<open>The lock of a refund leaf is satisfied by the lock time or the sequence of the template.\<close>

definition lock_satisfied :: "settlement_template \<Rightarrow> swap_leaf_condition \<Rightarrow> bool" where
  "lock_satisfied template condition = (case condition of
     Hashlock h \<Rightarrow> False
   | Cltv n \<Rightarrow> n < 500000000 \<and> bip65_satisfied n (st_lock_time template) (st_input_sequence template)
   | Csv n \<Rightarrow> \<not> bit n 31 \<and> bip112_satisfied n (st_transaction_version template) (st_input_sequence template))"

lemma refund_valid:
  assumes c: "refund wc wallet template = Inr settled" and len: "length (st_previous_txid_wire template) = 32"
  obtains signature a condition where "derive_address wc wallet (st_wallet_path template) = Inr a"
    "parse_swap_leaf_script (tc_xonly_ok (wallet_taproot wc)) (st_taproot_script template)
       = Inr \<lparr>pl_signing_key = ta_internal_key a, pl_condition = condition\<rparr>" "lock_satisfied template condition"
    "script_spend_valid (wc_secp wc) template (ta_internal_key a) signature
       (settled_tx template [signature, st_taproot_script template, st_taproot_control_block template])"
    "within_policy (wc_secp wc) template
       (settled_tx template [signature, st_taproot_script template, st_taproot_control_block template]) settled"
  using c
proof (rule refundD)
  fix leaf sighash signature witness tx validated
  assume l: "parse_swap_leaf_script (tc_xonly_ok (wallet_taproot wc)) (st_taproot_script template) = Inr leaf"
    and k: "ensure_wallet_key wc wallet template leaf = Inr ()"
    and d: "ensure_first_destination template (unsigned_transaction template) = Inr ()"
    and w: "assemble_taproot_refund_witness (wallet_taproot wc) (ws_signature signature)
       (st_taproot_script template) (st_taproot_control_block template) = Inr witness"
    and tx: "set_input_witness 0 witness (unsigned_transaction template) = Inr tx"
    and v: "validate_taproot_refund_witness (wallet_taproot wc) tx (settlement_prevouts template) 0
       (st_taproot_script template) (st_taproot_control_block template) = Inr validated"
    and s: "verify_validated_signature (wc_secp wc) validated sighash = Inr ()"
    and f: "finalize_transaction (wc_secp wc) template tx (settlement_prevouts template) = Inr settled"
  note tx' = set_witness_settled [OF tx]
  have witness: "witness = [ws_signature signature, st_taproot_script template, st_taproot_control_block template]"
    using w l by (auto simp: assemble_taproot_refund_witness_def try_then_eq_Inr)
  obtain a where a: "derive_address wc wallet (st_wallet_path template) = Inr a" "pl_signing_key leaf = ta_internal_key a"
    using k by (rule wallet_keyD)
  from v obtain vs: "vw_signature validated = ws_signature signature" "vw_signing_key validated = pl_signing_key leaf"
    "taproot_script_spend_sighash (wallet_taproot wc) tx (settlement_prevouts template) 0 (st_taproot_script template)
       (st_taproot_control_block template) = Inr (vw_sighash validated)"
    by (rule refund_witnessD) (use l in \<open>simp add: tx' settled_tx_witness witness\<close>)
  have "script_spend_valid (wc_secp wc) template (ta_internal_key a) (ws_signature signature) tx"
    using script_spend_validI [OF vs(3)] verified_signatureD [OF s] vs(1,2) a(2) by simp
  moreover have "lock_satisfied template (pl_condition leaf)"
    using valid_refund_witness [OF v] l
    by (auto simp: lock_satisfied_def tx' settled_tx_def new_transaction_def split: swap_leaf_condition.splits)
  moreover have "leaf = \<lparr>pl_signing_key = ta_internal_key a, pl_condition = pl_condition leaf\<rparr>" using a(2) by (cases leaf) simp
  moreover have "within_policy (wc_secp wc) template tx settled"
    using finalize_within_policy [OF f [unfolded tx'] _ len d] by (simp add: tx' witness)
  ultimately show thesis using that [OF a(1), of "pl_condition leaf"] l(1) tx' witness by simp
qed

section \<open>Settlements succeed\<close>

lemma sighash_shape:
  assumes "taproot_script_spend_sighash crypto tx prevouts i script cb = Inr h"
  shows "validate_control_block_shape cb = Inr ()"
proof -
  obtain key where d: "cb \<noteq> [] \<and> hd cb AND 0xfe = TAPROOT_LEAF_VERSION" "verify_control_block crypto key script cb = Inr ()"
    using assms unfolding taproot_script_spend_sighash_def taproot_script_spend_signature_message_def
      validate_taproot_spend_inputs_def
    by (auto simp only: try_then_eq_Inr ensure_eq_Inr ex_unit sum.inject)
  have "\<not> (length cb < 33 \<or> 33 + 32 * 128 < length cb \<or> (length cb - 33) mod 32 \<noteq> 0)"
    using d(2) by (auto simp: verify_control_block_def split: if_split_asm)
  with d(1) show ?thesis unfolding validate_control_block_shape_def ensure_eq_Inr by simp
qed

text \<open>Limits that the transaction obeys with any signature in its witness, and what the last steps
  then return.\<close>

definition obeys_limits :: "settlement_template \<Rightarrow> (u8 list \<Rightarrow> u8 list list) \<Rightarrow> bool" where
  "obeys_limits template witness \<longleftrightarrow> (\<forall>signature. length signature = 64 \<longrightarrow>
     (\<exists>cost. validate_transaction_cost (settled_tx template (witness signature)) (settlement_prevouts template)
         (st_maximum_fee_sat template) (st_maximum_fee_rate_sat_per_vbyte template) = Inr cost
        \<and> tc_weight cost \<le> st_maximum_weight template))"

lemma weight_serializes:
  assumes "weight tx = Inr w"
  obtains stripped full where "serialize tx False = Inr stripped" "serialize tx True = Inr full"
  using assms by (auto simp: weight_def try_then_eq_Inr)

lemma finalize_succeeds:
  assumes "obeys_limits template witness" "length signature = 64" "witness signature \<noteq> []"
  obtains settled where "set_input_witness 0 (witness signature) (unsigned_transaction template)
      = Inr (settled_tx template (witness signature))"
    "finalize_transaction c template (settled_tx template (witness signature)) (settlement_prevouts template) = Inr settled"
proof -
  let ?tx = "settled_tx template (witness signature)"
  obtain cost where cost: "validate_transaction_cost ?tx (settlement_prevouts template) (st_maximum_fee_sat template)
      (st_maximum_fee_rate_sat_per_vbyte template) = Inr cost" "tc_weight cost \<le> st_maximum_weight template"
    using assms(1,2) unfolding obeys_limits_def by blast
  then have "weight ?tx = Inr (tc_weight cost)" by (simp add: validate_transaction_cost_iff)
  then obtain stripped full where s: "serialize ?tx False = Inr stripped" "serialize ?tx True = Inr full"
    by (rule weight_serializes)
  have "t_has_witness ?tx \<and> any_witness (t_inputs ?tx)"
    using assms(3) by (simp add: settled_tx_def new_transaction_def any_witness_def)
  then have "witness_ok (witness signature)"
    using s(2) by (auto simp: serialize_iff within_limits_def settled_tx_def new_transaction_def Let_def)
  then have "set_input_witness 0 (witness signature) (unsigned_transaction template) = Inr ?tx"
    by (simp add: set_input_witness_def validate_witness_items_def witness_ok_def unsigned_transaction_def settled_tx_def
        new_transaction_def list_all_iff list_ex_iff not_less Let_def)
  moreover have "\<exists>settled. finalize_transaction c template ?tx (settlement_prevouts template) = Inr settled"
    using cost s by (simp add: finalize_transaction_def txid_def wtxid_def not_less)
  ultimately show thesis using that by blast
qed

lemma wallet_signature_ready:
  assumes laws: "wallet_laws wc dl" and a: "derive_address wc wallet path = Inr a"
  obtains s where "sign_script_path wc wallet path sighash = Inr s" "ws_public_key s = ta_internal_key a"
    "length (ws_signature s) = 64" "sp_verify (wc_secp wc) (ws_signature s) sighash (ta_internal_key a)"
proof -
  obtain s where s: "sign_script_path wc wallet path sighash = Inr s" "ws_public_key s = ta_internal_key a"
    "sp_verify (wc_secp wc) (ws_signature s) sighash (ta_internal_key a)"
    using derived_address_spendable [OF laws a] by blast
  obtain k where "derive_bip86_key wc wallet path = Inr k" "ws_signature s = wc_sign_schnorr wc sighash k"
    using s(1) by (auto simp: sign_script_path_def sign_digest_def try_then_eq_Inr)
  then have "length (ws_signature s) = 64"
    using derive_bip86_key_secret [OF laws] wallet_lawsD(5) [OF laws] by (simp add: signer_law_def)
  with s that show thesis by blast
qed

lemma verify_validated_ok:
  assumes "sp_verify c signature sighash key" "tc_xonly_ok (sp_taproot c) key"
  shows "verify_validated_signature c \<lparr>vw_signature = signature, vw_signing_key = key, vw_sighash = sighash\<rparr> sighash = Inr ()"
  using assms by (simp add: verify_validated_signature_def)

lemma claim_succeeds:
  assumes laws: "wallet_laws wc dl" and a: "derive_address wc wallet (st_wallet_path template) = Inr a"
    and leaf: "parse_swap_leaf_script (tc_xonly_ok (wallet_taproot wc)) (st_taproot_script template)
       = Inr \<lparr>pl_signing_key = ta_internal_key a, pl_condition = Hashlock (tc_sha256 (wallet_taproot wc) preimage)\<rparr>"
    and spend: "spend_sighash wc template (unsigned_transaction template) = Inr sighash"
    and d: "ensure_first_destination template (unsigned_transaction template) = Inr ()" and len: "length preimage = 32"
    and limits: "obeys_limits template (\<lambda>signature. [signature, preimage, st_taproot_script template, st_taproot_control_block template])"
  shows "\<exists>settled. claim wc wallet template preimage = Inr settled"
proof -
  let ?w = "\<lambda>signature. [signature, preimage, st_taproot_script template, st_taproot_control_block template]"
  obtain s where s: "sign_script_path wc wallet (st_wallet_path template) sighash = Inr s" "ws_public_key s = ta_internal_key a"
    "length (ws_signature s) = 64" "sp_verify (wc_secp wc) (ws_signature s) sighash (ta_internal_key a)"
    using laws a by (rule wallet_signature_ready)
  obtain settled where f: "set_input_witness 0 (?w (ws_signature s)) (unsigned_transaction template)
      = Inr (settled_tx template (?w (ws_signature s)))"
    "finalize_transaction (wc_secp wc) template (settled_tx template (?w (ws_signature s))) (settlement_prevouts template)
      = Inr settled"
    using limits s(3) by (rule finalize_succeeds) simp
  have w: "assemble_taproot_claim_witness (wallet_taproot wc) (ws_signature s) preimage (st_taproot_script template)
      (st_taproot_control_block template) = Inr (?w (ws_signature s))"
    using leaf sighash_shape [OF spend]
    by (simp add: assemble_taproot_claim_witness_def verify_preimage_def constant_time_equal_iff)
  have v: "validate_taproot_claim_witness (wallet_taproot wc) (settled_tx template (?w (ws_signature s)))
      (settlement_prevouts template) 0 (st_taproot_script template) (st_taproot_control_block template)
      = Inr \<lparr>vw_signature = ws_signature s, vw_signing_key = ta_internal_key a, vw_sighash = sighash\<rparr>"
    by (rule assembled_claim [OF w s(3) len f(1), where prevouts = "settlement_prevouts template"]) (use leaf spend in simp)
  have "tc_xonly_ok (wallet_taproot wc) (ta_internal_key a)"
    using parse_swap_leaf_scriptD [OF leaf] by (simp add: leaf_ok_def)
  then show ?thesis
    using a leaf d spend s(1,2) w f v verify_validated_ok [OF s(4)]
    by (simp add: claim_def ensure_wallet_key_def ensure_signature_key_def)
qed

lemma refund_succeeds:
  assumes laws: "wallet_laws wc dl" and a: "derive_address wc wallet (st_wallet_path template) = Inr a"
    and leaf: "parse_swap_leaf_script (tc_xonly_ok (wallet_taproot wc)) (st_taproot_script template)
       = Inr \<lparr>pl_signing_key = ta_internal_key a, pl_condition = condition\<rparr>"
    and lock: "check_refund_lock (unsigned_transaction template) (t_inputs (unsigned_transaction template) ! 0) condition = Inr ()"
    and spend: "spend_sighash wc template (unsigned_transaction template) = Inr sighash"
    and d: "ensure_first_destination template (unsigned_transaction template) = Inr ()"
    and limits: "obeys_limits template (\<lambda>signature. [signature, st_taproot_script template, st_taproot_control_block template])"
  shows "\<exists>settled. refund wc wallet template = Inr settled"
proof -
  let ?w = "\<lambda>signature. [signature, st_taproot_script template, st_taproot_control_block template]"
  obtain s where s: "sign_script_path wc wallet (st_wallet_path template) sighash = Inr s" "ws_public_key s = ta_internal_key a"
    "length (ws_signature s) = 64" "sp_verify (wc_secp wc) (ws_signature s) sighash (ta_internal_key a)"
    using laws a by (rule wallet_signature_ready)
  obtain settled where f: "set_input_witness 0 (?w (ws_signature s)) (unsigned_transaction template)
      = Inr (settled_tx template (?w (ws_signature s)))"
    "finalize_transaction (wc_secp wc) template (settled_tx template (?w (ws_signature s))) (settlement_prevouts template)
      = Inr settled"
    using limits s(3) by (rule finalize_succeeds) simp
  have c: "case condition of Hashlock _ \<Rightarrow> False | _ \<Rightarrow> True"
    using lock by (cases condition) (simp_all add: check_refund_lock_def)
  have w: "assemble_taproot_refund_witness (wallet_taproot wc) (ws_signature s) (st_taproot_script template)
      (st_taproot_control_block template) = Inr (?w (ws_signature s))"
    using leaf sighash_shape [OF spend] c
    by (cases condition) (simp_all add: assemble_taproot_refund_witness_def)
  have v: "validate_taproot_refund_witness (wallet_taproot wc) (settled_tx template (?w (ws_signature s)))
      (settlement_prevouts template) 0 (st_taproot_script template) (st_taproot_control_block template)
      = Inr \<lparr>vw_signature = ws_signature s, vw_signing_key = ta_internal_key a, vw_sighash = sighash\<rparr>"
    by (rule assembled_refund [OF w s(3) f(1), where prevouts = "settlement_prevouts template"]) (use leaf spend lock in simp)
  have "tc_xonly_ok (wallet_taproot wc) (ta_internal_key a)"
    using parse_swap_leaf_scriptD [OF leaf] by (simp add: leaf_ok_def)
  then show ?thesis
    using a leaf d spend s(1,2) w f v c verify_validated_ok [OF s(4)]
    by (cases condition) (simp_all add: refund_def ensure_wallet_key_def ensure_signature_key_def)
qed

section \<open>Properties\<close>

text \<open>C15: a settlement that the provider returns is valid. Its bytes parse to the template's
  transaction with the assembled witness, the spent output commits to the script, the leaf names
  the wallet's own key and the signature verifies under it; a claim reveals the preimage of the
  hash lock, a refund satisfies the time lock; fee, fee rate, weight and dust obey the template.\<close>

theorem settlement_valid:
  assumes "length (st_previous_txid_wire template) = 32"
  shows "(claim wc wallet template preimage = Inr settled \<longrightarrow>
      (\<exists>signature a tx. derive_address wc wallet (st_wallet_path template) = Inr a
        \<and> tx = settled_tx template [signature, preimage, st_taproot_script template, st_taproot_control_block template]
        \<and> parse_swap_leaf_script (tc_xonly_ok (wallet_taproot wc)) (st_taproot_script template)
          = Inr \<lparr>pl_signing_key = ta_internal_key a, pl_condition = Hashlock (tc_sha256 (wallet_taproot wc) preimage)\<rparr>
        \<and> script_spend_valid (wc_secp wc) template (ta_internal_key a) signature tx
        \<and> within_policy (wc_secp wc) template tx settled))
    \<and> (refund wc wallet template = Inr settled \<longrightarrow>
      (\<exists>signature a condition tx. derive_address wc wallet (st_wallet_path template) = Inr a
        \<and> tx = settled_tx template [signature, st_taproot_script template, st_taproot_control_block template]
        \<and> parse_swap_leaf_script (tc_xonly_ok (wallet_taproot wc)) (st_taproot_script template)
          = Inr \<lparr>pl_signing_key = ta_internal_key a, pl_condition = condition\<rparr>
        \<and> lock_satisfied template condition
        \<and> script_spend_valid (wc_secp wc) template (ta_internal_key a) signature tx
        \<and> within_policy (wc_secp wc) template tx settled))"
  using assms by (intro conjI impI) (elim claim_valid refund_valid, blast+)+

text \<open>C32: a settlement that can be made is made. When the spent output commits to a leaf of the
  wallet's key, the destination is not dust and the limits leave room for the transaction, the
  claim with the right preimage and the refund with a satisfied lock return a transaction; the
  independent checks before the end never refuse it.\<close>

theorem settlement_succeeds:
  assumes "wallet_laws wc dl" "derive_address wc wallet (st_wallet_path template) = Inr a"
    "spend_sighash wc template (unsigned_transaction template) = Inr sighash"
    "ensure_first_destination template (unsigned_transaction template) = Inr ()"
    "parse_swap_leaf_script (tc_xonly_ok (wallet_taproot wc)) (st_taproot_script template)
       = Inr \<lparr>pl_signing_key = ta_internal_key a, pl_condition = condition\<rparr>"
  shows "(condition = Hashlock (tc_sha256 (wallet_taproot wc) preimage) \<and> length preimage = 32
      \<and> obeys_limits template (\<lambda>s. [s, preimage, st_taproot_script template, st_taproot_control_block template])
      \<longrightarrow> (\<exists>settled. claim wc wallet template preimage = Inr settled))
    \<and> (check_refund_lock (unsigned_transaction template) (t_inputs (unsigned_transaction template) ! 0) condition = Inr ()
      \<and> obeys_limits template (\<lambda>s. [s, st_taproot_script template, st_taproot_control_block template])
      \<longrightarrow> (\<exists>settled. refund wc wallet template = Inr settled))"
  using assms claim_succeeds [OF assms(1,2) _ assms(3,4)] refund_succeeds [OF assms(1,2,5) _ assms(3,4)] by blast

end
