(* ===== verification/Cooperative.thy ===== *)
theory Cooperative
  imports Settlement
begin

text \<open>
  The cooperative signing round of \<open>immortal-provider/src/settlement.rs\<close> under every sequence of
  calls. A run starts from the round that \<open>begin_cooperative\<close> returns and makes the calls of
  its public interface in any order, with any arguments and heights; the log keeps every call with
  its reply. An invariant ties the state of the round to the log.
\<close>

section \<open>Runs\<close>

datatype round_call =
    Register "u8 list" u32
  | Reveal u32
  | SignPartial u32 "u8 list list"
  | Abort

datatype round_reply =
    Registered
  | Nonce "u8 list"
  | Partial "u8 list"
  | Aborted
  | Refused settlement_error

definition reply_of :: "('a \<Rightarrow> round_reply) \<Rightarrow> (settlement_error, 'a) result \<Rightarrow> round_reply" where
  "reply_of f outcome = (case outcome of Inl e \<Rightarrow> Refused e | Inr v \<Rightarrow> f v)"

fun make_call ::
    "'p wallet_crypto \<Rightarrow> provider_wallet \<Rightarrow> 'p cooperative_signing_round \<Rightarrow> round_call
      \<Rightarrow> 'p cooperative_signing_round \<times> round_reply" where
  "make_call wc wallet round (Register commitment height) =
     apsnd (reply_of (\<lambda>_. Registered)) (register_counterparty_nonce_commitment round commitment height)"
| "make_call wc wallet round (Reveal height) = apsnd (reply_of Nonce) (reveal_public_nonce round height)"
| "make_call wc wallet round (SignPartial height nonces) =
     apsnd (reply_of Partial) (sign_cooperative_partial wc wallet round height nonces)"
| "make_call wc wallet round Abort = (abort_round round, Aborted)"

type_synonym round_log = "(round_call \<times> round_reply) list"

inductive round_run ::
    "'p wallet_crypto \<Rightarrow> provider_wallet \<Rightarrow> 'p cooperative_signing_round \<Rightarrow> round_log
      \<Rightarrow> 'p cooperative_signing_round \<Rightarrow> bool"
  for wc wallet start where
  run_start: "round_run wc wallet start [] start"
| run_call: "\<lbrakk>round_run wc wallet start log round; make_call wc wallet round call = (round', reply)\<rbrakk>
    \<Longrightarrow> round_run wc wallet start (log @ [(call, reply)]) round'"

inductive_cases round_run_snocE: "round_run wc wallet start (log @ [e]) round"

section \<open>Single calls\<close>

text \<open>The fields that no call changes.\<close>

definition same_terms :: "'p cooperative_signing_round \<Rightarrow> 'p cooperative_signing_round \<Rightarrow> bool" where
  "same_terms a b \<longleftrightarrow> cr_template a = cr_template b \<and> cr_transaction a = cr_transaction b \<and> cr_prevouts a = cr_prevouts b
     \<and> cr_keys a = cr_keys b \<and> cr_tweaks a = cr_tweaks b \<and> cr_aggregate_key a = cr_aggregate_key b
     \<and> cr_signature_hash a = cr_signature_hash b \<and> cr_nonce_commitment a = cr_nonce_commitment b"

lemma same_terms_refl [simp]: "same_terms a a"
  by (simp add: same_terms_def)

lemma same_terms_trans: "same_terms a b \<Longrightarrow> same_terms b c \<Longrightarrow> same_terms a c"
  by (simp add: same_terms_def)

lemma same_terms_abort [simp]: "same_terms (abort_round r) r" "same_terms r (abort_round r)"
  by (simp_all add: same_terms_def abort_round_def)

lemma abort_round_sel [simp]:
  "cr_nonce (abort_round r) = None" "cr_terminal (abort_round r)" "cr_partial_released (abort_round r) = cr_partial_released r"
  "cr_counterparty_nonce_commitment (abort_round r) = cr_counterparty_nonce_commitment r"
  by (simp_all add: abort_round_def)

text \<open>Every call is refused and leaves the round, or refused and aborts it, or does its work.\<close>

lemma ensure_active_cases:
  fixes r :: "'p cooperative_signing_round"
  obtains (closed) "cr_terminal r" "ensure_active r h = (r, Inl CooperativeState)"
  | (expired) "\<not> cr_terminal r" "ct_latest_safe_height (cr_template r) < h"
      "ensure_active r h = (abort_round r, Inl CooperativeExpired)"
  | (active) "\<not> cr_terminal r" "h \<le> ct_latest_safe_height (cr_template r)" "ensure_active r h = (r, Inr ())"
  by (cases "cr_terminal r"; cases "ct_latest_safe_height (cr_template r) < h") (auto simp: ensure_active_def)

definition own_index :: "'p cooperative_signing_round \<Rightarrow> nat" where
  "own_index r = unat (ct_provider_index (cr_template r))"

inductive round_effect ::
    "'p wallet_crypto \<Rightarrow> provider_wallet \<Rightarrow> 'p cooperative_signing_round \<Rightarrow> round_call
      \<Rightarrow> 'p cooperative_signing_round \<Rightarrow> round_reply \<Rightarrow> bool"
  for wc wallet r where
  refused: "e \<noteq> CooperativeExpired \<Longrightarrow> round_effect wc wallet r call r (Refused e)"
| aborted: "\<not> cr_terminal r \<Longrightarrow> round_effect wc wallet r call (abort_round r) (Refused e)"
| abort: "round_effect wc wallet r Abort (abort_round r) Aborted"
| repeated: "\<lbrakk>\<not> cr_terminal r; h \<le> ct_latest_safe_height (cr_template r); cr_counterparty_nonce_commitment r = Some commitment\<rbrakk>
    \<Longrightarrow> round_effect wc wallet r (Register commitment h) r Registered"
| registered: "\<lbrakk>\<not> cr_terminal r; h \<le> ct_latest_safe_height (cr_template r); cr_counterparty_nonce_commitment r = None\<rbrakk>
    \<Longrightarrow> round_effect wc wallet r (Register commitment h) (r\<lparr>cr_counterparty_nonce_commitment := Some commitment\<rparr>) Registered"
| revealed: "\<lbrakk>\<not> cr_terminal r; h \<le> ct_latest_safe_height (cr_template r); cr_counterparty_nonce_commitment r = Some commitment;
      cr_nonce r = Some nonce\<rbrakk> \<Longrightarrow> round_effect wc wallet r (Reveal h) r (Nonce (public_nonce nonce))"
| released: "\<lbrakk>\<not> cr_terminal r; h \<le> ct_latest_safe_height (cr_template r); \<not> cr_partial_released r; cr_nonce r = Some nonce;
      nonces ! own_index r = public_nonce nonce;
      cr_counterparty_nonce_commitment r = Some (tc_sha256 (wallet_taproot wc) (nonces ! (1 - own_index r)));
      wallet_sign_cooperative_partial wc wallet nonce (ct_transcript_digest (cr_template r)) nonces = (nonce', Inr partial)\<rbrakk>
    \<Longrightarrow> round_effect wc wallet r (SignPartial h nonces) (r\<lparr>cr_nonce := None, cr_partial_released := True\<rparr>) (Partial partial)"

lemma reply_of_simps [simp]: "reply_of f (Inl e) = Refused e" "reply_of f (Inr v) = f v"
  by (simp_all add: reply_of_def)

lemma sign_partial_call_effect:
  assumes "sign_cooperative_partial wc wallet r h nonces = (r', outcome)"
  shows "round_effect wc wallet r (SignPartial h nonces) r' (reply_of Partial outcome)"
proof (cases rule: ensure_active_cases [of r h])
  case active
  show ?thesis
  proof (cases "cr_partial_released r \<or> cr_counterparty_nonce_commitment r = None \<or> cr_nonce r = None")
    case True
    then show ?thesis using assms active
      by (auto simp: sign_cooperative_partial_def Let_def split: option.split_asm if_split_asm intro: round_effect.refused)
  next
    case False
    then obtain nonce commitment where n: "\<not> cr_partial_released r" "cr_nonce r = Some nonce"
      "cr_counterparty_nonce_commitment r = Some commitment" by auto
    obtain nonce' res where w: "wallet_sign_cooperative_partial wc wallet nonce
        (ct_transcript_digest (cr_template r)) nonces = (nonce', res)" by fastforce
    show ?thesis
      using assms active n w
      by (cases res; auto simp: sign_cooperative_partial_def Let_def own_index_def split: if_split_asm
          intro: round_effect.refused round_effect.aborted round_effect.released [unfolded own_index_def One_nat_def])
  qed
qed (use assms in \<open>auto simp: sign_cooperative_partial_def intro: round_effect.refused round_effect.aborted\<close>)

lemma register_call_effect:
  assumes "register_counterparty_nonce_commitment r commitment h = (r', outcome)"
  shows "round_effect wc wallet r (Register commitment h) r' (reply_of (\<lambda>_. Registered) outcome)"
  using assms
  by (cases rule: ensure_active_cases [of r h])
    (auto simp: register_counterparty_nonce_commitment_def split: option.split_asm if_split_asm
      intro: round_effect.refused round_effect.aborted round_effect.repeated round_effect.registered)

lemma reveal_call_effect:
  assumes "reveal_public_nonce r h = (r', outcome)"
  shows "round_effect wc wallet r (Reveal h) r' (reply_of Nonce outcome)"
  using assms
  by (cases "cr_nonce r"; cases rule: ensure_active_cases [of r h])
    (auto simp: reveal_public_nonce_def split: if_split_asm
      intro: round_effect.refused round_effect.aborted round_effect.revealed)

lemma make_call_effect:
  assumes "make_call wc wallet r call = (r', reply)"
  shows "round_effect wc wallet r call r' reply"
  using assms
  by (cases call) (auto simp: apsnd_def map_prod_def split: prod.split_asm
      intro: register_call_effect reveal_call_effect sign_partial_call_effect round_effect.abort)

section \<open>The invariant\<close>

text \<open>What the log says: commitments accepted so far, and partial signatures given out.\<close>

definition commitments :: "round_log \<Rightarrow> u8 list set" where
  "commitments log = {commitment. \<exists>h. (Register commitment h, Registered) \<in> set log}"

definition partials :: "round_log \<Rightarrow> u8 list list" where
  "partials log = concat (map (\<lambda>(call, reply). case reply of Partial p \<Rightarrow> [p] | _ \<Rightarrow> []) log)"

definition over :: "round_log \<Rightarrow> bool" where
  "over log \<longleftrightarrow> (\<exists>(call, reply) \<in> set log. reply = Aborted \<or> reply = Refused CooperativeExpired)"

lemma log_simps [simp]:
  "commitments [] = {}" "partials [] = []" "\<not> over []"
  "commitments (log @ [(call, reply)]) =
     (if reply = Registered then (case call of Register c h \<Rightarrow> insert c (commitments log) | _ \<Rightarrow> commitments log) else commitments log)"
  "partials (log @ [(call, reply)]) = partials log @ (case reply of Partial p \<Rightarrow> [p] | _ \<Rightarrow> [])"
  "over (log @ [(call, reply)]) \<longleftrightarrow> over log \<or> reply = Aborted \<or> reply = Refused CooperativeExpired"
  by (auto simp: commitments_def partials_def over_def split: round_call.split)

definition round_inv :: "'p cooperative_signing_round \<Rightarrow> round_log \<Rightarrow> 'p cooperative_signing_round \<Rightarrow> bool" where
  "round_inv start log r \<longleftrightarrow> same_terms r start
     \<and> cr_nonce r \<in> {None, cr_nonce start}
     \<and> (cr_terminal r \<longrightarrow> cr_nonce r = None)
     \<and> (over log \<longrightarrow> cr_terminal r)
     \<and> (cr_partial_released r \<longrightarrow> cr_nonce r = None)
     \<and> length (partials log) = (if cr_partial_released r then 1 else 0)
     \<and> commitments log = set_option (cr_counterparty_nonce_commitment r)"

lemma round_inv_start:
  assumes "\<not> cr_terminal start" "\<not> cr_partial_released start" "cr_counterparty_nonce_commitment start = None"
  shows "round_inv start [] start"
  using assms by (simp add: round_inv_def)

lemma round_inv_step:
  assumes "round_inv start log r" "round_effect wc wallet r call r' reply"
  shows "round_inv start (log @ [(call, reply)]) r'"
  using assms(2,1)
  by (cases rule: round_effect.cases) (auto simp: round_inv_def same_terms_def abort_round_def)

lemma round_inv_run:
  assumes "round_inv start [] start" "round_run wc wallet start log r"
  shows "round_inv start log r"
  using assms(2,1) by induction (auto intro: round_inv_step make_call_effect)

text \<open>A run passes through every prefix of its log.\<close>

lemma round_run_prefix:
  assumes "round_run wc wallet start (pre @ post) r"
  shows "\<exists>mid. round_run wc wallet start pre mid"
  using assms
proof (induction post arbitrary: r rule: rev_induct)
  case (snoc e post)
  from snoc.prems have "round_run wc wallet start ((pre @ post) @ [e]) r" by simp
  then show ?case by (rule round_run_snocE) (rule snoc.IH)
qed auto

lemma round_run_split:
  assumes "round_run wc wallet start (pre @ (call, reply) # post) r" "round_inv start [] start"
  obtains mid r' where "round_inv start pre mid" "round_effect wc wallet mid call r' reply"
    "round_inv start (pre @ [(call, reply)]) r'"
proof -
  obtain r' where run: "round_run wc wallet start (pre @ [(call, reply)]) r'"
    using round_run_prefix [of wc wallet start "pre @ [(call, reply)]" post r] assms(1) by auto
  then obtain mid where m: "round_run wc wallet start pre mid" "make_call wc wallet mid call = (r', reply)"
    by (auto elim: round_run_snocE)
  show thesis
    using that round_inv_run [OF assms(2) m(1)] make_call_effect [OF m(2)] round_inv_run [OF assms(2) run] by blast
qed

section \<open>Rounds that begin\<close>

definition round_begun ::
    "'p wallet_crypto \<Rightarrow> cooperative_settlement_template \<Rightarrow> 'p cooperative_signing_round \<Rightarrow> 'p wallet_musig2_nonce \<Rightarrow> bool" where
  "round_begun wc template start nonce \<longleftrightarrow>
     cr_template start = template \<and> cr_nonce start = Some nonce
     \<and> cr_nonce_commitment start = tc_sha256 (wallet_taproot wc) (public_nonce nonce)
     \<and> \<not> cr_terminal start \<and> \<not> cr_partial_released start \<and> cr_counterparty_nonce_commitment start = None
     \<and> wn_keys nonce = cr_keys start \<and> wn_tweaks nonce = cr_tweaks start \<and> wn_message nonce = cr_signature_hash start
     \<and> wn_path nonce = ct_cooperative_wallet_path template
     \<and> cr_transaction start = unsigned_transaction (ct_settlement template)
     \<and> cr_prevouts start = settlement_prevouts (ct_settlement template)
     \<and> st_prevout_script_pubkey (ct_settlement template) = 0x51 # 0x20 # cr_aggregate_key start
     \<and> taproot_key_spend_sighash (wallet_taproot wc) (unsigned_transaction (ct_settlement template))
         (settlement_prevouts (ct_settlement template)) 0 = Inr (cr_signature_hash start)
     \<and> ensure_first_destination (ct_settlement template) (unsigned_transaction (ct_settlement template)) = Inr ()"

lemma begin_cooperativeD:
  assumes "begin_cooperative wc wallet urandom template height = Inr start"
  obtains nonce where "round_begun wc template start nonce"
proof -
  obtain keys aggregate_key tweak h nonce where d:
    "st_prevout_script_pubkey (ct_settlement template) = [0x51, 0x20] @ aggregate_key"
    "ensure_first_destination (ct_settlement template) (unsigned_transaction (ct_settlement template)) = Inr ()"
    "taproot_key_spend_sighash (wallet_taproot wc) (unsigned_transaction (ct_settlement template))
       (settlement_prevouts (ct_settlement template)) 0 = Inr h"
    "begin_cooperative_signing wc wallet urandom (ct_cooperative_wallet_path template) (ct_transcript_digest template)
       keys [tweak] h = Inr nonce"
    "\<lparr>cr_template = template, cr_transaction = unsigned_transaction (ct_settlement template),
       cr_prevouts = settlement_prevouts (ct_settlement template), cr_keys = keys,
       cr_tweaks = [tweak], cr_aggregate_key = aggregate_key, cr_signature_hash = h, cr_nonce = Some nonce,
       cr_nonce_commitment = tc_sha256 (wallet_taproot wc) (public_nonce nonce),
       cr_counterparty_nonce_commitment = None, cr_partial_released = False, cr_terminal = False\<rparr> = start"
    using assms unfolding begin_cooperative_def Let_def
    by (simp only: try_then_eq_Inr map_err_eq_Inr ensure_eq_Inr ex_unit simp_thms sum.inject) (elim exE conjE, rule that; assumption)
  have "wn_keys nonce = keys \<and> wn_tweaks nonce = [tweak] \<and> wn_message nonce = h
      \<and> wn_path nonce = ct_cooperative_wallet_path template"
    using d(4) by (auto simp: begin_cooperative_signing_def try_then_eq_Inr)
  then have "round_begun wc template start nonce"
    using d(1-3) unfolding d(5) [symmetric] round_begun_def by simp
  then show thesis by (rule that)
qed

lemma round_begun_inv: "round_begun wc template start nonce \<Longrightarrow> round_inv start [] start"
  by (simp add: round_begun_def round_inv_start)

section \<open>Released signatures\<close>

lemma partial_sign_verified:
  assumes "musig2_partial_sign c sn sk keys nonces tweaks message = (sn', Inr partial)"
  obtains i where "i < length keys" "keys ! i = sp_public c sk"
    "verify_musig2_partial_signature_with_tweaks c keys nonces tweaks i message partial = Inr ()"
  using assms
proof (cases rule: partial_sign_cases)
  case (signed i agg)
  have "verify_musig2_partial_signature_with_aggregate_nonce c keys (nonces ! i) agg tweaks i message partial = Inr ()"
    using signed(4)
    by (auto simp: musig2_partial_sign_with_aggregate_nonce_def consume_def sign_consumed_def try_then_eq_Inr Let_def
        split: if_split_asm)
  then have "verify_musig2_partial_signature_with_tweaks c keys nonces tweaks i message partial = Inr ()"
    using signed(1,3) by (auto simp: verify_musig2_partial_signature_with_tweaks_def
        verify_musig2_partial_signature_with_aggregate_nonce_def split: if_split_asm)
  with position_SomeD [OF signed(2)] that show thesis by blast
qed simp

text \<open>A partial signature of the wallet: verified, for the wallet's own even key at some index.\<close>

definition wallet_partial ::
    "'p wallet_crypto \<Rightarrow> provider_wallet \<Rightarrow> 'p cooperative_signing_round \<Rightarrow> u8 list list \<Rightarrow> u8 list \<Rightarrow> bool" where
  "wallet_partial wc wallet r nonces partial \<longleftrightarrow>
     (\<exists>secret i. derive_even_key wc wallet (ct_cooperative_wallet_path (cr_template r)) = Inr secret
        \<and> i < length (cr_keys r) \<and> cr_keys r ! i = sp_public (wc_secp wc) secret
        \<and> verify_musig2_partial_signature_with_tweaks (wc_secp wc) (cr_keys r) nonces (cr_tweaks r) i (cr_signature_hash r)
            partial = Inr ())"

lemma released_partial:
  assumes b: "round_begun wc template start nonce"
    and w: "wallet_sign_cooperative_partial wc wallet nonce digest nonces = (nonce', Inr partial)"
  shows "wallet_partial wc wallet start nonces partial"
proof -
  obtain secret sn where s: "derive_even_key wc wallet (wn_path nonce) = Inr secret"
    "musig2_partial_sign (wc_secp wc) (wn_secret_nonce nonce) secret (wn_keys nonce) nonces (wn_tweaks nonce)
       (wn_message nonce) = (sn, Inr partial)"
    using w by (auto simp: wallet_sign_cooperative_partial_def map_err_eq_Inr split: if_split_asm sum.split_asm prod.split_asm)
  from s(2) obtain i where "i < length (wn_keys nonce)" "wn_keys nonce ! i = sp_public (wc_secp wc) secret"
    "verify_musig2_partial_signature_with_tweaks (wc_secp wc) (wn_keys nonce) nonces (wn_tweaks nonce) i (wn_message nonce)
       partial = Inr ()"
    by (rule partial_sign_verified)
  then show ?thesis using b s(1) unfolding wallet_partial_def round_begun_def by auto
qed

lemma partial_reply:
  assumes b: "round_begun wc template start nonce" and run: "round_run wc wallet start (pre @ (call, Partial p) # post) r"
  shows "\<exists>h nonces. call = SignPartial h nonces \<and> h \<le> ct_latest_safe_height template
    \<and> tc_sha256 (wallet_taproot wc) (nonces ! own_index start) = cr_nonce_commitment start
    \<and> tc_sha256 (wallet_taproot wc) (nonces ! (1 - own_index start)) \<in> commitments pre
    \<and> wallet_partial wc wallet start nonces p"
proof -
  from run round_begun_inv [OF b] obtain mid r' where m: "round_inv start pre mid"
    "round_effect wc wallet mid call r' (Partial p)" by (rule round_run_split)
  from m(2) show ?thesis
  proof cases
    case (released h nonce1 nonces nonce')
    have "nonce1 = nonce" "own_index mid = own_index start" "cr_template mid = template"
      using m(1) b released by (auto simp: round_inv_def round_begun_def same_terms_def own_index_def)
    with released m(1) b show ?thesis
      using released_partial [OF b, of wallet "ct_transcript_digest template" nonces nonce' p]
      by (auto simp: round_inv_def round_begun_def)
  qed
qed

lemma nonce_reply:
  assumes b: "round_begun wc template start nonce" and run: "round_run wc wallet start (pre @ (call, Nonce n) # post) r"
  shows "tc_sha256 (wallet_taproot wc) n = cr_nonce_commitment start \<and> commitments pre \<noteq> {} \<and> partials pre = []"
proof -
  from run round_begun_inv [OF b] obtain mid r' where m: "round_inv start pre mid"
    "round_effect wc wallet mid call r' (Nonce n)" by (rule round_run_split)
  from m(2) m(1) b show ?thesis
    by cases (auto simp: round_inv_def round_begun_def split: if_split_asm)
qed

lemma closed_reply:
  assumes b: "round_begun wc template start nonce" and run: "round_run wc wallet start (pre @ (call, reply) # post) r"
    and o: "over pre"
  shows "reply = Aborted \<or> (\<exists>e. reply = Refused e)"
proof -
  from run round_begun_inv [OF b] obtain mid r' where m: "round_inv start pre mid"
    "round_effect wc wallet mid call r' reply" by (rule round_run_split)
  from m(2) m(1) o show ?thesis by cases (auto simp: round_inv_def)
qed

text \<open>The signature message of a key-path spend does not depend on the witness.\<close>

lemma key_sighash_settled:
  "taproot_key_spend_sighash crypto (settled_tx template witness) prevouts i
     = taproot_key_spend_sighash crypto (unsigned_transaction template) prevouts i"
proof -
  have parts: "t_outputs (settled_tx template witness) = t_outputs (unsigned_transaction template)"
    "t_version (settled_tx template witness) = t_version (unsigned_transaction template)"
    "t_lock_time (settled_tx template witness) = t_lock_time (unsigned_transaction template)"
    by (simp_all add: settled_tx_def unsigned_transaction_def new_transaction_def)
  have ins: "prevouts_bytes (settled_tx template witness) prevouts = prevouts_bytes (unsigned_transaction template) prevouts"
    "amounts_bytes (settled_tx template witness) prevouts = amounts_bytes (unsigned_transaction template) prevouts"
    "script_pubkeys_bytes (settled_tx template witness) prevouts = script_pubkeys_bytes (unsigned_transaction template) prevouts"
    "sequences_bytes (settled_tx template witness) prevouts = sequences_bytes (unsigned_transaction template) prevouts"
    by (cases prevouts; simp add: settled_tx_def unsigned_transaction_def new_transaction_def prevouts_bytes_def
        amounts_bytes_def script_pubkeys_bytes_def sequences_bytes_def)+
  have "validate_taproot_key_spend_inputs crypto (settled_tx template witness) prevouts i
      = validate_taproot_key_spend_inputs crypto (unsigned_transaction template) prevouts i"
    by (cases i) (simp_all add: validate_taproot_key_spend_inputs_def settled_tx_def unsigned_transaction_def
        new_transaction_def result_simps)
  then show ?thesis
    by (simp add: taproot_key_spend_sighash_def taproot_key_spend_signature_message_def common_message_def parts ins)
qed

lemma finalize_cooperativeD:
  assumes "finalize_cooperative wc r height nonces partial_signatures = Inr settled"
  obtains signature tx where "\<not> cr_terminal r" "height \<le> ct_latest_safe_height (cr_template r)" "cr_partial_released r"
    "sp_verify (wc_secp wc) signature (cr_signature_hash r) (cr_aggregate_key r)"
    "set_input_witness 0 [signature] (cr_transaction r) = Inr tx"
    "finalize_transaction (wc_secp wc) (ct_settlement (cr_template r)) tx (cr_prevouts r) = Inr settled"
  using assms
  by (cases rule: ensure_active_cases [of r height])
    (auto simp: finalize_cooperative_def try_then_eq_Inr map_err_eq_Inr verify_musig2_signature_def)

section \<open>Properties\<close>

text \<open>C14: a cooperative round gives out at most one partial signature, whatever calls are made on
  it. It does so only up to the safe height, for the nonce it committed to and a counterparty nonce
  that opens the one commitment registered before, and the signature verifies. Its own nonce is
  revealed only after that commitment and never after signing. Once the round is aborted or has
  expired every call is refused.\<close>

theorem cooperative_round_safe:
  assumes "begin_cooperative wc wallet urandom template height = Inr start" "round_run wc wallet start log r"
  shows "length (partials log) \<le> 1 \<and> (\<exists>commitment. commitments log \<subseteq> {commitment})
    \<and> (\<forall>pre call p post. log = pre @ (call, Partial p) # post \<longrightarrow>
        (\<exists>h nonces. call = SignPartial h nonces \<and> h \<le> ct_latest_safe_height template
           \<and> tc_sha256 (wallet_taproot wc) (nonces ! own_index start) = cr_nonce_commitment start
           \<and> tc_sha256 (wallet_taproot wc) (nonces ! (1 - own_index start)) \<in> commitments pre
           \<and> wallet_partial wc wallet start nonces p))
    \<and> (\<forall>pre call n post. log = pre @ (call, Nonce n) # post \<longrightarrow>
        tc_sha256 (wallet_taproot wc) n = cr_nonce_commitment start \<and> commitments pre \<noteq> {} \<and> partials pre = [])
    \<and> (\<forall>pre call reply post. log = pre @ (call, reply) # post \<and> over pre \<longrightarrow>
        reply = Aborted \<or> (\<exists>e. reply = Refused e))"
proof -
  obtain nonce where b: "round_begun wc template start nonce" using assms(1) by (rule begin_cooperativeD)
  note inv = round_inv_run [OF round_begun_inv [OF b] assms(2)]
  have "length (partials log) \<le> 1" "\<exists>commitment. commitments log \<subseteq> {commitment}"
    using inv by (auto simp: round_inv_def split: if_split_asm; cases "cr_counterparty_nonce_commitment r"; auto)+
  then show ?thesis
    using partial_reply [OF b] nonce_reply [OF b] closed_reply [OF b] assms(2) by (intro conjI allI impI) blast+
qed

text \<open>C33: a cooperative settlement is valid and within policy. The round has released its partial
  signature, the height is safe, the transaction spends the aggregate key on the key path with a
  signature of its BIP 341 message, and the bytes, fee, weight and destination obey the template.\<close>

theorem cooperative_settles:
  assumes "begin_cooperative wc wallet urandom template height = Inr start" "round_run wc wallet start log r"
    "finalize_cooperative wc r h nonces partial_signatures = Inr settled"
    "length (st_previous_txid_wire (ct_settlement template)) = 32"
  shows "length (partials log) = 1 \<and> h \<le> ct_latest_safe_height template \<and> \<not> over log
    \<and> (\<exists>signature sighash output_key. st_prevout_script_pubkey (ct_settlement template) = 0x51 # 0x20 # output_key
        \<and> taproot_key_spend_sighash (wallet_taproot wc) (settled_tx (ct_settlement template) [signature])
            (settlement_prevouts (ct_settlement template)) 0 = Inr sighash
        \<and> sp_verify (wc_secp wc) signature sighash output_key
        \<and> within_policy (wc_secp wc) (ct_settlement template) (settled_tx (ct_settlement template) [signature]) settled)"
proof -
  obtain nonce where b: "round_begun wc template start nonce" using assms(1) by (rule begin_cooperativeD)
  note inv = round_inv_run [OF round_begun_inv [OF b] assms(2)]
  obtain signature tx where f: "\<not> cr_terminal r" "h \<le> ct_latest_safe_height (cr_template r)" "cr_partial_released r"
    "sp_verify (wc_secp wc) signature (cr_signature_hash r) (cr_aggregate_key r)"
    "set_input_witness 0 [signature] (cr_transaction r) = Inr tx"
    "finalize_transaction (wc_secp wc) (ct_settlement (cr_template r)) tx (cr_prevouts r) = Inr settled"
    using assms(3) by (rule finalize_cooperativeD)
  have terms: "cr_template r = template" "cr_transaction r = unsigned_transaction (ct_settlement template)"
    "cr_prevouts r = settlement_prevouts (ct_settlement template)" "cr_aggregate_key r = cr_aggregate_key start"
    "cr_signature_hash r = cr_signature_hash start"
    using inv b by (auto simp: round_inv_def same_terms_def round_begun_def)
  have tx: "tx = settled_tx (ct_settlement template) [signature]"
    using set_witness_settled f(5) unfolding terms by blast
  have "within_policy (wc_secp wc) (ct_settlement template) tx settled"
    using finalize_within_policy [OF f(6) [unfolded terms tx] _ assms(4)] b by (simp add: tx round_begun_def)
  moreover have "length (partials log) = 1 \<and> \<not> over log" using inv f(1,3) by (auto simp: round_inv_def)
  ultimately show ?thesis
    using f(2,4) b unfolding tx terms by (auto simp: round_begun_def key_sighash_settled)
qed

end
