(* ===== verification/Settlement_Samples.thy ===== *)
theory Settlement_Samples
  imports Cooperative
begin

text \<open>
  Settlements that run to the end: a claim, a refund and a cooperative round of the wallet over the
  residues. They show that the hypotheses of the settlement properties can hold together.
\<close>

section \<open>Small points\<close>

lemma tiny_pt:
  assumes "0 < k" "k < 400"
  shows "Rep_residue (pt k) = k" "res_parity (pt k) = Even" "res k = Some (pt k)"
    "res_lift (res_x (pt k)) = Some (pt k)" "length (res_x (pt k)) = 32"
proof -
  show r: "Rep_residue (pt k) = k" unfolding pt_def using assms by (intro Rep_Abs_residue) (simp_all add: curve_n_value)
  then show p: "res_parity (pt k) = Even" using assms by (simp add: res_parity_def curve_n_value)
  show "res k = Some (pt k)" using r tiny_mod [of k] assms by (simp add: res_Some)
  show "res_lift (res_x (pt k)) = Some (pt k)" using res_lift_x [of "pt k"] p by simp
  show "length (res_x (pt k)) = 32" by (simp add: res_x_value)
qed

lemma residue_taproot_sel [simp]:
  "sp_taproot residue_secp = residue_taproot" "tc_sha256 residue_taproot m = SCALAR_ONE"
  "tc_xonly_ok residue_taproot x \<longleftrightarrow> res_lift x \<noteq> None" "tc_scalar_ok residue_taproot = scalar32"
  "tagged_hash residue_taproot tag m = SCALAR_ONE"
  by (simp_all add: residue_secp_def residue_taproot_def tagged_hash_def)

lemma tiny_output_key:
  assumes "0 < k" "k < 399"
  shows "taproot_output_key residue_taproot (res_x (pt k)) root = Inr (res_x (pt (k + 1)), Even)"
proof -
  have "tc_add_tweak residue_taproot (res_x (pt k)) SCALAR_ONE = Some (res_x (pt (k + 1)), Even)"
    using assms tiny_pt [of k] tiny_pt [of "k + 1"] by (simp add: residue_taproot_def)
  then show ?thesis by (simp add: taproot_output_key_def)
qed

section \<open>A claim and a refund\<close>

text \<open>The wallet's key is 6; the output key is 8, made from the internal key 7.\<close>

definition sample_leaf :: "swap_leaf_condition \<Rightarrow> parsed_swap_leaf" where
  "sample_leaf condition = \<lparr>pl_signing_key = res_x (pt 6), pl_condition = condition\<rparr>"

definition sample_template :: "swap_leaf_condition \<Rightarrow> settlement_template" where
  "sample_template condition =
     \<lparr>st_wallet_path = sample_path, st_previous_txid_wire = replicate 32 9, st_previous_output = 1,
      st_prevout_value_sat = 100000, st_prevout_script_pubkey = 0x51 # 0x20 # res_x (pt 8),
      st_destination_value_sat = 100000, st_destination_script_pubkey = [0x51], st_transaction_version = 2,
      st_input_sequence = 0xfffffffe, st_lock_time = 800000, st_taproot_script = leaf_script (sample_leaf condition),
      st_taproot_control_block = path_control_block Even (res_x (pt 7)) [], st_maximum_fee_sat = 0,
      st_maximum_fee_rate_sat_per_vbyte = 0, st_maximum_weight = - 1, st_dust_relay_fee_sat_per_kilobyte = 0\<rparr>"

definition sample_condition :: "swap_leaf_condition \<Rightarrow> bool" where
  "sample_condition condition \<longleftrightarrow> condition \<in> {Hashlock SCALAR_ONE, Cltv 800000}"

lemma sample_template_leaf:
  assumes "sample_condition condition"
  shows "parse_swap_leaf_script (tc_xonly_ok residue_taproot) (leaf_script (sample_leaf condition)) = Inr (sample_leaf condition)"
    "length (leaf_script (sample_leaf condition)) \<le> MAX_SCRIPT_BYTES"
proof -
  have ok: "leaf_ok (tc_xonly_ok residue_taproot) (sample_leaf condition)"
    using assms tiny_pt [of 6] by (auto simp: leaf_ok_def sample_leaf_def sample_condition_def)
  show "parse_swap_leaf_script (tc_xonly_ok residue_taproot) (leaf_script (sample_leaf condition)) = Inr (sample_leaf condition)"
    unfolding leaf_script_def by (rule parse_leaf_instructions [OF leaf_bytes [OF ok] ok])
  show "length (leaf_script (sample_leaf condition)) \<le> MAX_SCRIPT_BYTES"
    using leaf_bytes [OF ok] by (auto simp: leaf_script_def parse_swap_script_def split: if_splits)
qed

lemma sample_template_block:
  assumes "sample_condition condition"
  shows "verify_control_block residue_taproot (res_x (pt 8)) (leaf_script (sample_leaf condition))
    (path_control_block Even (res_x (pt 7)) []) = Inr ()"
  using sample_template_leaf(2) [OF assms] tiny_output_key [of 7] tiny_pt [of 7]
  by (intro path_control_block_verifies [where tree = "TapLeaf (leaf_script (sample_leaf condition))"])
    (simp_all del: replicate.simps)

lemma sample_template_sighash:
  assumes "sample_condition condition"
  shows "spend_sighash residue_wallet (sample_template condition) (unsigned_transaction (sample_template condition)) = Inr SCALAR_ONE"
proof -
  let ?t = "sample_template condition"
  have "hd (st_taproot_control_block ?t) AND 0xfe = TAPROOT_LEAF_VERSION" "st_taproot_control_block ?t \<noteq> []"
    by (simp_all add: sample_template_def path_control_block_def leaf_version_bits)
  then have "validate_taproot_spend_inputs residue_taproot (unsigned_transaction ?t) (settlement_prevouts ?t) 0
      (st_taproot_script ?t) (st_taproot_control_block ?t) = Inr ()"
    using sample_template_leaf [OF assms] sample_template_block [OF assms] tiny_pt [of 8]
    by (simp add: validate_taproot_spend_inputs_def unsigned_transaction_def settlement_prevouts_def sample_template_def
        new_transaction_def taproot_output_key_from_script_pubkey_def Let_def tx_limits)
  moreover note sample_template_leaf(2) [OF assms]
  ultimately show ?thesis
    by (simp add: taproot_script_spend_sighash_def taproot_script_spend_signature_message_def common_message_def
        tapleaf_hash_def leaf_version_bits unsigned_transaction_def new_transaction_def write_output_def tx_limits
        sample_template_def)
qed

lemma sample_template_destination:
  "ensure_first_destination (sample_template condition) (unsigned_transaction (sample_template condition)) = Inr ()"
  by (simp add: ensure_first_destination_def unsigned_transaction_def new_transaction_def sample_template_def
      ensure_destination_policy_def is_dust_def dust_outcomes unspendable_def tx_limits)

text \<open>Short witnesses fit: the fee is zero and the weight is not limited.\<close>

lemma sample_template_cost:
  assumes "list_all (\<lambda>item. length item \<le> 100) witness" "length witness \<le> 4"
  shows "\<exists>cost. validate_transaction_cost (settled_tx (sample_template condition) witness)
    (settlement_prevouts (sample_template condition)) 0 0 = Inr cost"
proof -
  let ?tx = "settled_tx (sample_template condition) witness"
  have "length (concat (map write_var_bytes witness)) \<le> 109 * length witness"
    using assms(1) by (induction witness) (auto simp: length_write_var_bytes compact_size_length_def)
  then have "length (witness_bytes witness) \<le> 445"
    using assms(2) by (simp add: witness_bytes_def write_compact_size_def)
  then have lim: "within_limits ?tx w" for w
    using assms
    by (auto simp: within_limits_def settled_tx_def new_transaction_def sample_template_def tx_limits layout_def
        input_bytes_def output_bytes_def write_var_bytes_def write_compact_size_def witness_ok_def list_all_iff)
  then obtain stripped full where "serialize ?tx False = Inr stripped" "serialize ?tx True = Inr full"
    by (auto simp: serialize_iff Let_def)
  then obtain w v where "weight ?tx = Inr w" "virtual_size ?tx = Inr v" using tx_weight by blast
  then have "validate_transaction_cost ?tx (settlement_prevouts (sample_template condition)) 0 0
      = Inr \<lparr>tc_fee_sat = 0, tc_weight = w, tc_virtual_size = v\<rparr>"
    by (simp add: validate_transaction_cost_iff settled_tx_def settlement_prevouts_def new_transaction_def sample_template_def)
  then show ?thesis by blast
qed

lemma sample_script_length:
  assumes "sample_condition condition"
  shows "length (leaf_script (sample_leaf condition)) \<le> 100"
proof -
  have "length (script_number 800000) \<le> 5" by (simp add: script_number_facts number_bytes_le)
  then show ?thesis
    using assms tiny_pt(5) [of 6]
    by (auto simp: sample_condition_def leaf_script_def script_bytes_def leaf_instructions_def sample_leaf_def push_bytes_def)
qed

lemma sample_limits:
  assumes "sample_condition condition" "\<And>s. length s = 64 \<Longrightarrow> list_all (\<lambda>i. length i \<le> 100) (witness s)" "\<And>s. length (witness s) \<le> 4"
  shows "obeys_limits (sample_template condition) witness"
proof -
  have "st_maximum_fee_sat (sample_template condition) = 0"
    "st_maximum_fee_rate_sat_per_vbyte (sample_template condition) = 0" "st_maximum_weight (sample_template condition) = - 1"
    by (simp_all add: sample_template_def)
  then show ?thesis using sample_template_cost [of "witness s" for s] assms(2,3) by (simp add: obeys_limits_def)
qed

lemma sample_address:
  obtains a where "derive_address residue_wallet sample_wallet sample_path = Inr a" "ta_internal_key a = res_x (pt 6)"
  using derive_address_tweaked [OF residue_wallet_laws, of sample_wallet sample_path] tiny_secret(2) [of 6]
  by (simp add: sample_tweaked address_of_def Let_def)

lemma sample_template_parts:
  "st_wallet_path (sample_template condition) = sample_path"
  "st_taproot_script (sample_template condition) = leaf_script (sample_leaf condition)"
  "length (st_taproot_control_block (sample_template condition)) = 33"
  "length (st_previous_txid_wire (sample_template condition)) = 32"
  using tiny_pt(5) [of 7] by (simp_all add: sample_template_def path_control_block_def)

abbreviation claim_template :: settlement_template where "claim_template \<equiv> sample_template (Hashlock SCALAR_ONE)"
abbreviation refund_template :: settlement_template where "refund_template \<equiv> sample_template (Cltv 800000)"

lemma sample_settles:
  "\<exists>settled. claim residue_wallet sample_wallet claim_template (replicate 32 1) = Inr settled"
  "\<exists>settled. refund residue_wallet sample_wallet refund_template = Inr settled"
proof -
  have c: "sample_condition (Hashlock SCALAR_ONE)" "sample_condition (Cltv 800000)" by (simp_all add: sample_condition_def)
  obtain a where a: "derive_address residue_wallet sample_wallet sample_path = Inr a" "ta_internal_key a = res_x (pt 6)"
    by (rule sample_address)
  have leaf: "parse_swap_leaf_script (tc_xonly_ok (wallet_taproot residue_wallet)) (st_taproot_script (sample_template condition))
      = Inr \<lparr>pl_signing_key = ta_internal_key a, pl_condition = condition\<rparr>" if "sample_condition condition" for condition
    using sample_template_leaf(1) [OF that] a(2) by (simp add: sample_template_parts sample_leaf_def)
  note parts = sample_template_parts sample_script_length
  show "\<exists>settled. claim residue_wallet sample_wallet claim_template (replicate 32 1) = Inr settled"
    using a(1) leaf [OF c(1)]
    by (intro claim_succeeds [OF residue_wallet_laws _ _ sample_template_sighash [OF c(1)] sample_template_destination])
      (simp_all add: parts c sample_limits)
  have "check_refund_lock (unsigned_transaction refund_template) (t_inputs (unsigned_transaction refund_template) ! 0)
      (Cltv 800000) = Inr ()"
    by (simp add: check_refund_lock_def check_cltv_def unsigned_transaction_def new_transaction_def sample_template_def)
  then show "\<exists>settled. refund residue_wallet sample_wallet refund_template = Inr settled"
    using a(1) leaf [OF c(2)]
    by (intro refund_succeeds [OF residue_wallet_laws _ _ _ sample_template_sighash [OF c(2)] sample_template_destination])
      (simp_all add: parts c sample_limits)
qed

theorem settlement_valid_witness:
  "\<exists>settled tx. claim residue_wallet sample_wallet claim_template (replicate 32 1) = Inr settled
     \<and> within_policy residue_secp claim_template tx settled"
proof -
  obtain settled where "claim residue_wallet sample_wallet claim_template (replicate 32 1) = Inr settled"
    using sample_settles(1) by blast
  then show ?thesis
    using settlement_valid [OF sample_template_parts(4), of residue_wallet sample_wallet "Hashlock SCALAR_ONE" "replicate 32 1" settled]
    by auto
qed

theorem settlement_succeeds_witness:
  "\<exists>settled. refund residue_wallet sample_wallet refund_template = Inr settled"
proof -
  have c: "sample_condition (Cltv 800000)" by (simp add: sample_condition_def)
  obtain a where a: "derive_address residue_wallet sample_wallet sample_path = Inr a" "ta_internal_key a = res_x (pt 6)"
    by (rule sample_address)
  have leaf: "parse_swap_leaf_script (tc_xonly_ok (wallet_taproot residue_wallet)) (st_taproot_script refund_template)
      = Inr \<lparr>pl_signing_key = ta_internal_key a, pl_condition = Cltv 800000\<rparr>"
    using sample_template_leaf(1) [OF c] a(2) by (simp add: sample_template_parts sample_leaf_def)
  have lock: "check_refund_lock (unsigned_transaction refund_template) (t_inputs (unsigned_transaction refund_template) ! 0)
      (Cltv 800000) = Inr ()"
    by (simp add: check_refund_lock_def check_cltv_def unsigned_transaction_def new_transaction_def sample_template_def)
  show ?thesis
    using settlement_succeeds [OF residue_wallet_laws a(1) [folded sample_template_parts(1) [of "Cltv 800000"]]
        sample_template_sighash [OF c] sample_template_destination leaf] lock
    by (auto simp: sample_template_parts sample_script_length c sample_limits)
qed

section \<open>A cooperative round\<close>

text \<open>The provider's key is 6 and the counterparty's 1; both use the secret nonce 1 twice. The tweaked
  aggregate key is 8, the final nonce 4 and the challenge 1.\<close>

abbreviation coop_keys :: "residue list" where "coop_keys \<equiv> [pt 6, pt 1]"
abbreviation coop_tweak :: musig2_tweak where "coop_tweak \<equiv> \<lparr>mt_value = SCALAR_ONE, mt_xonly = True\<rparr>"
abbreviation coop_nonces :: "u8 list list" where "coop_nonces \<equiv> [sample_nonce, sample_nonce]"

definition coop_template :: cooperative_settlement_template where
  "coop_template = \<lparr>ct_settlement = claim_template, ct_cooperative_wallet_path = sample_path,
     ct_participant_keys = map (sp_serialize residue_secp) coop_keys, ct_provider_index = 0,
     ct_taproot_merkle_root = replicate 32 0, ct_transcript_digest = [], ct_latest_safe_height = 100\<rparr>"

lemma pt_values [simp]:
  "Rep_residue (pt 4) = 4" "Rep_residue (pt 6) = 6" "Rep_residue (pt 7) = 7" "Rep_residue (pt 8) = 8"
  "res 4 = Some (pt 4)" "res 6 = Some (pt 6)" "res 7 = Some (pt 7)" "res 8 = Some (pt 8)"
  "res_parity (pt 1) = Even" "res_parity (pt 2) = Even" "res_parity (pt 4) = Even" "res_parity (pt 6) = Even"
  "res_parity (pt 7) = Even" "res_parity (pt 8) = Even"
  by (simp_all add: tiny_pt)

lemma coop_key_neq: "pt 6 \<noteq> pt 1" "sp_serialize residue_secp (pt 6) \<noteq> sp_serialize residue_secp (pt 1)"
proof -
  have "Rep_residue (pt 6) \<noteq> Rep_residue (pt 1)" by simp
  then show "pt 6 \<noteq> pt 1" by metis
  then show "sp_serialize residue_secp (pt 6) \<noteq> sp_serialize residue_secp (pt 1)"
    by (metis option.inject residue_slices(1))
qed

lemma coop_key_material:
  "musig2_key_material residue_secp coop_keys
     = (map (sp_serialize residue_secp) coop_keys, SCALAR_ONE, sp_serialize residue_secp (pt 1))"
  using coop_key_neq(2) [symmetric] by (simp add: musig2_key_material_def)

lemma coop_plain_key: "musig2_aggregate_plain_key residue_secp coop_keys = Inr (pt 7)"
  using coop_key_neq(2)
  by (simp add: musig2_aggregate_plain_key_def coop_key_material musig2_key_coefficient_def combine_public_keys_def)

lemma scalar_one_sum: "scalar_add_mod SCALAR_ZERO SCALAR_ONE = SCALAR_ONE"
proof -
  have z: "scalar32 SCALAR_ZERO" by (rule scalar32_zeros)
  have "scalar32 (scalar_add_mod SCALAR_ZERO SCALAR_ONE)" using scalar_add_mod_value [OF z si_one(2)] by blast
  then show ?thesis using si_add_mod [OF z si_one(2)] by (intro si_inj) simp_all
qed

lemma coop_key_context:
  "musig2_key_context residue_secp coop_keys [coop_tweak] = Inr \<lparr>kc_key = pt 8, kc_gacc_negative = False, kc_tacc = SCALAR_ONE\<rparr>"
  by (simp add: musig2_key_context_def coop_plain_key apply_tweak_def MAX_MUSIG_KEYS_def MAX_MUSIG_TWEAKS_def
      scalar_one_sum residue_secp_def [THEN arg_cong, of sp_add_exp])

lemma coop_taproot_tweak:
  "musig2_taproot_tweak residue_secp coop_keys root = Inr coop_tweak"
  "musig2_tweaked_aggregate_key residue_secp coop_keys [coop_tweak] = Inr (res_x (pt 8))"
  by (simp_all add: musig2_taproot_tweak_def musig2_aggregate_key_def coop_plain_key MAX_MUSIG_KEYS_def
      musig2_tweaked_aggregate_key_def coop_key_context)

lemma coop_key_sighash:
  "taproot_key_spend_sighash residue_taproot (unsigned_transaction claim_template) (settlement_prevouts claim_template) 0
     = Inr SCALAR_ONE"
  using tiny_pt [of 8]
  by (simp add: taproot_key_spend_sighash_def taproot_key_spend_signature_message_def common_message_def
      validate_taproot_key_spend_inputs_def taproot_output_key_from_script_pubkey_def unsigned_transaction_def
      settlement_prevouts_def new_transaction_def sample_template_def write_output_def tx_limits Let_def)

definition coop_nonce :: "residue wallet_musig2_nonce" where
  "coop_nonce = \<lparr>wn_path = sample_path, wn_context_digest = [], wn_keys = coop_keys, wn_tweaks = [coop_tweak],
     wn_message = SCALAR_ONE,
     wn_secret_nonce = \<lparr>sn_first = SCALAR_ONE, sn_second = SCALAR_ONE, sn_public_key = sp_serialize residue_secp (pt 6),
       sn_public_nonce = sample_nonce, sn_consumed = False\<rparr>\<rparr>"

lemma coop_even_key: "derive_even_key residue_wallet sample_wallet sample_path = Inr (scalar_of 6)"
  using tiny_secret(2) [of 6] by (simp add: derive_even_key_def sample_key)

lemma coop_begin_signing:
  "begin_cooperative_signing residue_wallet sample_wallet (Some r) sample_path [] coop_keys [coop_tweak] SCALAR_ONE = Inr coop_nonce"
  using tiny_secret(2) [of 6] SCALAR_ONE_neq
  by (simp add: begin_cooperative_signing_def coop_even_key coop_taproot_tweak musig2_nonce_gen_def musig2_nonce_gen_internal_def
      option_length_def MAX_MUSIG_MESSAGE_BYTES_def MAX_MUSIG_EXTRA_INPUT_BYTES_def musig2_nonce_scalar_def coop_nonce_def Let_def)

definition coop_start :: "residue cooperative_signing_round" where
  "coop_start = \<lparr>cr_template = coop_template, cr_transaction = unsigned_transaction claim_template,
     cr_prevouts = settlement_prevouts claim_template, cr_keys = coop_keys, cr_tweaks = [coop_tweak],
     cr_aggregate_key = res_x (pt 8), cr_signature_hash = SCALAR_ONE, cr_nonce = Some coop_nonce,
     cr_nonce_commitment = SCALAR_ONE, cr_counterparty_nonce_commitment = None, cr_partial_released = False,
     cr_terminal = False\<rparr>"

lemma coop_begin: "begin_cooperative residue_wallet sample_wallet (Some r) coop_template 50 = Inr coop_start"
proof -
  have c: "sample_condition (Hashlock SCALAR_ONE)" by (simp add: sample_condition_def)
  obtain a where a: "derive_address residue_wallet sample_wallet sample_path = Inr a" "ta_internal_key a = res_x (pt 6)"
    by (rule sample_address)
  obtain cost where cost: "validate_transaction_cost (unsigned_transaction claim_template) (settlement_prevouts claim_template) 0 0
      = Inr cost"
    using sample_template_cost [of "[]" "Hashlock SCALAR_ONE"] by (auto simp: settled_tx_unsigned)
  have st: "st_prevout_script_pubkey claim_template = [0x51, 0x20] @ res_x (pt 8)" "st_maximum_fee_sat claim_template = 0"
    "st_maximum_fee_rate_sat_per_vbyte claim_template = 0"
    "st_taproot_control_block claim_template = path_control_block Even (res_x (pt 7)) []"
    by (simp_all add: sample_template_def)
  have head: "sp_serialize residue_secp (pt 6) ! 0 = 2" by (simp add: residue_secp_def)
  have key: "ensure_wallet_key residue_wallet sample_wallet claim_template (sample_leaf (Hashlock SCALAR_ONE)) = Inr ()"
    using a by (simp add: ensure_wallet_key_def sample_template_parts sample_leaf_def)
  show ?thesis
    unfolding begin_cooperative_def Let_def
    using a cost head key sample_template_leaf(1) [OF c] sample_template_block [OF c] coop_key_neq(1)
    by (simp add: coop_template_def coop_start_def coop_taproot_tweak st sample_template_parts(2) sample_template_destination
        coop_key_sighash coop_begin_signing coop_nonce_def public_nonce_def)
qed

text \<open>The session, and the partial signatures 8 of the provider and 3 of the counterparty.\<close>

abbreviation coop_aggregate :: "u8 list" where
  "coop_aggregate \<equiv> sp_serialize residue_secp (pt 2) @ sp_serialize residue_secp (pt 2)"

definition coop_session :: "residue musig2_session_values_rec" where
  "coop_session = \<lparr>sv_key_context = \<lparr>kc_key = pt 8, kc_gacc_negative = False, kc_tacc = SCALAR_ONE\<rparr>,
     sv_nonce_coefficient = SCALAR_ONE, sv_final_nonce = pt 4, sv_challenge = SCALAR_ONE, sv_nonce_odd = False,
     sv_key_odd = False\<rparr>"

lemma coop_aggregate_nonce: "musig2_aggregate_public_nonces residue_secp coop_nonces = Inr coop_aggregate"
  by (simp add: musig2_aggregate_public_nonces_def musig2_aggregate_nonces_def aggregate_add_def MAX_MUSIG_KEYS_def)

lemma coop_session_from:
  "musig2_session_values_from_aggregate_nonce residue_secp coop_keys coop_aggregate [coop_tweak] SCALAR_ONE = Inr coop_session"
  by (simp add: musig2_session_values_from_aggregate_nonce_def coop_key_context MAX_MUSIG_KEYS_def MAX_MUSIG_TWEAKS_def
      MAX_MUSIG_MESSAGE_BYTES_def aggregate_point_from_extended_def aggregate_multiply_def SCALAR_ONE_neq aggregate_add_def
      coop_session_def)

lemma coop_bounds: "validate_musig2_session_bounds coop_keys coop_nonces [coop_tweak] SCALAR_ONE = Inr ()"
  by (simp add: validate_musig2_session_bounds_def MAX_MUSIG_KEYS_def MAX_MUSIG_TWEAKS_def MAX_MUSIG_MESSAGE_BYTES_def)

lemma tiny_scalar:
  assumes "0 < k" "k < 1000"
  shows "scalar_of k \<noteq> SCALAR_ZERO" "scalar32 (scalar_of k)" "\<not> bytes_le CURVE_ORDER (scalar_of k)"
proof -
  show s: "scalar32 (scalar_of k)" by (rule scalar_of)
  show "scalar_of k \<noteq> SCALAR_ZERO" using si_zero [OF s] tiny_secret(2) [OF assms] assms by auto
  show "\<not> bytes_le CURVE_ORDER (scalar_of k)" using s scalar32_iff_bytes [OF scalar32_length [OF s]] by simp
qed

lemma coop_verified:
  assumes "(i, p) \<in> {(0, 8), (1, 3)}"
  shows "verify_musig2_partial_signature_with_aggregate_nonce residue_secp coop_keys sample_nonce coop_aggregate [coop_tweak] i
    SCALAR_ONE (scalar_of p) = Inr ()"
  using assms tiny_scalar [of p] tiny_secret [of p] coop_key_neq(2)
  by (auto simp: verify_musig2_partial_signature_with_aggregate_nonce_def MAX_MUSIG_KEYS_def MAX_MUSIG_TWEAKS_def
      MAX_MUSIG_MESSAGE_BYTES_def coop_session_from coop_key_material musig2_key_coefficient_def
      musig2_effective_signer_nonce_def aggregate_multiply_def point_multiply_def SCALAR_ONE_neq aggregate_add_def
      coop_session_def point_from_scalar_def)

lemma coop_partial_value:
  "partial_signature_value residue_secp coop_session SCALAR_ONE SCALAR_ONE (scalar_of 6) coop_keys 0 = Inr (scalar_of 8)"
  using tiny_secret [of 1] tiny_secret [of 2] tiny_secret [of 6] tiny_secret [of 8] coop_key_neq(2)
  by (simp add: partial_signature_value_def coop_session_def multiply_secret_term_def SCALAR_ONE_neq add_secret_terms_def
      coop_key_material musig2_key_coefficient_def residue_secp_def [THEN arg_cong, of sp_secret_mul]
      residue_secp_def [THEN arg_cong, of sp_secret_add])

lemma coop_wallet_partial:
  "\<exists>nonce. wallet_sign_cooperative_partial residue_wallet sample_wallet coop_nonce [] coop_nonces = (nonce, Inr (scalar_of 8))"
proof -
  have "position (\<lambda>key. key = pt 6) coop_keys = Some 0" by simp
  then show ?thesis
    using tiny_secret(2) [of 6] coop_verified [of 0 8] SCALAR_ONE_neq
    by (simp add: wallet_sign_cooperative_partial_def coop_nonce_def coop_even_key musig2_partial_sign_def coop_bounds
        coop_aggregate_nonce musig2_partial_sign_with_aggregate_nonce_def consume_def sign_consumed_def coop_session_from
        coop_partial_value)
qed

definition coop_log :: round_log where
  "coop_log = [(Register SCALAR_ONE 60, Registered), (Reveal 60, Nonce sample_nonce),
     (SignPartial 70 coop_nonces, Partial (scalar_of 8))]"

definition coop_end :: "residue cooperative_signing_round" where
  "coop_end = coop_start\<lparr>cr_counterparty_nonce_commitment := Some SCALAR_ONE, cr_nonce := None, cr_partial_released := True\<rparr>"

lemma coop_run: "round_run residue_wallet sample_wallet coop_start coop_log coop_end"
proof -
  let ?r = "coop_start\<lparr>cr_counterparty_nonce_commitment := Some SCALAR_ONE\<rparr>"
  have t: "ct_latest_safe_height (cr_template coop_start) = 100" "ct_provider_index (cr_template coop_start) = 0"
    "ct_transcript_digest (cr_template coop_start) = []" "\<not> cr_terminal coop_start" "\<not> cr_partial_released coop_start"
    "cr_nonce coop_start = Some coop_nonce" "cr_counterparty_nonce_commitment coop_start = None"
    "public_nonce coop_nonce = sample_nonce"
    by (simp_all add: coop_start_def coop_template_def coop_nonce_def public_nonce_def)
  have "make_call residue_wallet sample_wallet coop_start (Register SCALAR_ONE 60) = (?r, Registered)"
    "make_call residue_wallet sample_wallet ?r (Reveal 60) = (?r, Nonce sample_nonce)"
    using t by (simp_all add: register_counterparty_nonce_commitment_def reveal_public_nonce_def ensure_active_def)
  moreover have "make_call residue_wallet sample_wallet ?r (SignPartial 70 coop_nonces) = (coop_end, Partial (scalar_of 8))"
    using t coop_wallet_partial
    by (auto simp: sign_cooperative_partial_def ensure_active_def coop_end_def)
  ultimately have "round_run residue_wallet sample_wallet coop_start
      ((([] @ [(Register SCALAR_ONE 60, Registered)]) @ [(Reveal 60, Nonce sample_nonce)])
        @ [(SignPartial 70 coop_nonces, Partial (scalar_of 8))]) coop_end"
    by (intro run_call) (rule run_start)
  then show ?thesis by (simp add: coop_log_def)
qed

theorem cooperative_round_safe_witness:
  "round_run residue_wallet sample_wallet coop_start coop_log coop_end
   \<and> wallet_partial residue_wallet sample_wallet coop_start coop_nonces (scalar_of 8)"
proof -
  have "coop_log = [(Register SCALAR_ONE 60, Registered), (Reveal 60, Nonce sample_nonce)]
      @ (SignPartial 70 coop_nonces, Partial (scalar_of 8)) # []"
    by (simp add: coop_log_def)
  then show ?thesis
    using cooperative_round_safe [OF coop_begin coop_run] coop_run by blast
qed

lemma coop_finalizes:
  "\<exists>settled. finalize_cooperative residue_wallet coop_end 80 coop_nonces [scalar_of 8, scalar_of 3] = Inr settled"
proof -
  have len: "length (scalar_of k) = 32" for k by (rule scalar32_length [OF scalar_of(1)])
  have v: "all_verified residue_secp coop_keys coop_nonces [coop_tweak] SCALAR_ONE [scalar_of 8, scalar_of 3]"
    using coop_verified [of 0 8] coop_verified [of 1 3] tiny_scalar [of 8] tiny_scalar [of 3]
    by (simp add: all_verified_def verify_musig2_partial_signature_with_tweaks_def coop_bounds coop_aggregate_nonce
        less_Suc_eq)
  have session: "musig2_session_values residue_secp coop_keys coop_nonces [coop_tweak] SCALAR_ONE = Inr coop_session"
    by (simp add: musig2_session_values_def coop_bounds coop_aggregate_nonce coop_session_from)
  have finite: "combined_log residue_secp Rep_residue coop_nonces coop_session mod N \<noteq> 0"
    using tiny_mod [of 4]
    by (simp add: combined_log_def nonce_log_def slice_log_def coop_session_def lessThan_Suc)
  obtain signature where s: "musig2_aggregate_partial_signatures residue_secp coop_keys coop_nonces [coop_tweak] SCALAR_ONE
      [scalar_of 8, scalar_of 3] = Inr signature" "length signature = 64"
    "sp_verify residue_secp signature SCALAR_ONE (fst (sp_xonly residue_secp (kc_key (sv_key_context coop_session))))"
    by (rule partials_aggregate [OF residue_laws _ _ v session finite]) (use len in auto)
  have "sample_condition (Hashlock SCALAR_ONE)" by (simp add: sample_condition_def)
  then have "obeys_limits claim_template (\<lambda>s. [s])" by (rule sample_limits) simp_all
  then obtain settled where "set_input_witness 0 [signature] (unsigned_transaction claim_template)
      = Inr (settled_tx claim_template [signature])"
    "finalize_transaction residue_secp claim_template (settled_tx claim_template [signature])
      (settlement_prevouts claim_template) = Inr settled"
    using s(2) by (rule finalize_succeeds) simp
  then show ?thesis
    using s by (simp add: finalize_cooperative_def ensure_active_def coop_end_def coop_start_def coop_template_def
        verify_musig2_signature_def coop_session_def)
qed

theorem cooperative_settles_witness:
  "\<exists>settled signature. finalize_cooperative residue_wallet coop_end 80 coop_nonces [scalar_of 8, scalar_of 3] = Inr settled
     \<and> within_policy residue_secp claim_template (settled_tx claim_template [signature]) settled"
proof -
  obtain settled where "finalize_cooperative residue_wallet coop_end 80 coop_nonces [scalar_of 8, scalar_of 3] = Inr settled"
    using coop_finalizes by blast
  moreover have "ct_settlement coop_template = claim_template" by (simp add: coop_template_def)
  ultimately show ?thesis
    using cooperative_settles [OF coop_begin coop_run, of 80 coop_nonces "[scalar_of 8, scalar_of 3]" settled]
    by (auto simp: sample_template_parts)
qed

end
