(* ===== verification/Nip44.thy ===== *)
theory Nip44
  imports Musig2_Props
begin

text \<open>
  The NIP-44 version 2 encryption of \<open>immortal-core/src/nip44.rs\<close>: conversation keys, HKDF and HMAC
  over SHA-256, ChaCha20, length-hiding padding and canonical base64. SHA-256 is an argument; the
  ECDH and key-lifting operations of the curve library are fields of \<open>nip44_crypto\<close>. A
  text is its UTF-8 bytes. The lemmas show that decryption inverts encryption and accepts
  nothing else, and that both parties compute the same conversation key.
\<close>

section \<open>Message authentication and key expansion\<close>

definition VERSION :: u8 where "VERSION = 2"
definition MIN_PAYLOAD_CHARS :: nat where "MIN_PAYLOAD_CHARS = 132"
definition MAX_CLIENT_PLAINTEXT_BYTES :: nat where "MAX_CLIENT_PLAINTEXT_BYTES = 256 * 1024"
definition BASE64 :: string where
  "BASE64 = ''ABCDEFGHIJKLMNOPQRSTUVWXYZabcdefghijklmnopqrstuvwxyz0123456789+/''"

type_synonym sha256 = "u8 list \<Rightarrow> u8 list"

definition hmac_sha256 :: "sha256 \<Rightarrow> u8 list \<Rightarrow> u8 list \<Rightarrow> u8 list" where
  "hmac_sha256 sha key message =
     (let normalized = (if 64 < length key then sha key @ replicate 32 0 else key @ replicate (64 - length key) 0);
          inner_pad = map2 (\<lambda>pad byte. pad XOR byte) (replicate 64 0x36) normalized;
          outer_pad = map2 (\<lambda>pad byte. pad XOR byte) (replicate 64 0x5c) normalized;
          inner_digest = sha (inner_pad @ message)
      in sha (outer_pad @ inner_digest))"

text \<open>The loop of \<open>hkdf_expand\<close> over the counters 1 to 3; the output has 76 bytes.\<close>

fun hkdf_rounds :: "sha256 \<Rightarrow> u8 list \<Rightarrow> u8 list \<Rightarrow> u8 list \<Rightarrow> u8 list \<Rightarrow> u8 list \<Rightarrow> u8 list" where
  "hkdf_rounds sha key info [] previous output = output"
| "hkdf_rounds sha key info (counter # counters) previous output =
     (let previous' = hmac_sha256 sha key (previous @ info @ [counter]);
          n = min (76 - length output) (length previous')
      in hkdf_rounds sha key info counters previous' (output @ take n previous'))"

definition hkdf_expand :: "sha256 \<Rightarrow> u8 list \<Rightarrow> u8 list \<Rightarrow> u8 list" where
  "hkdf_expand sha key info = hkdf_rounds sha key info [1, 2, 3] [] []"

definition message_keys :: "sha256 \<Rightarrow> u8 list \<Rightarrow> u8 list \<Rightarrow> u8 list" where
  "message_keys sha conversation_key nonce = hkdf_expand sha conversation_key nonce"

section \<open>ChaCha20\<close>

definition quarter_round :: "u32 list \<Rightarrow> nat \<Rightarrow> nat \<Rightarrow> nat \<Rightarrow> nat \<Rightarrow> u32 list" where
  "quarter_round state a b c d =
     (let state = state[a := state ! a + state ! b];
          state = state[d := state ! d XOR state ! a];
          state = state[d := word_rotl 16 (state ! d)];
          state = state[c := state ! c + state ! d];
          state = state[b := state ! b XOR state ! c];
          state = state[b := word_rotl 12 (state ! b)];
          state = state[a := state ! a + state ! b];
          state = state[d := state ! d XOR state ! a];
          state = state[d := word_rotl 8 (state ! d)];
          state = state[c := state ! c + state ! d];
          state = state[b := state ! b XOR state ! c];
          state = state[b := word_rotl 7 (state ! b)]
      in state)"

definition double_round :: "u32 list \<Rightarrow> u32 list" where
  "double_round state =
     (let state = quarter_round state 0 4 8 12;
          state = quarter_round state 1 5 9 13;
          state = quarter_round state 2 6 10 14;
          state = quarter_round state 3 7 11 15;
          state = quarter_round state 0 5 10 15;
          state = quarter_round state 1 6 11 12;
          state = quarter_round state 2 7 8 13
      in quarter_round state 3 4 9 14)"

definition chacha20_block :: "u8 list \<Rightarrow> u8 list \<Rightarrow> u32 \<Rightarrow> u8 list" where
  "chacha20_block key nonce counter =
     (let initial = [0x61707865, 0x3320646e, 0x79622d32, 0x6b206574] @ map from_le_bytes (chunks_exact 4 key)
            @ [counter] @ map from_le_bytes (chunks_exact 4 nonce);
          state = (double_round ^^ 10) initial
      in concat (map2 (\<lambda>s i. to_le_bytes 4 (s + i)) state initial))"

function chacha20_from :: "u8 list \<Rightarrow> u8 list \<Rightarrow> u32 \<Rightarrow> u8 list \<Rightarrow> u8 list" where
  "chacha20_from key nonce counter data =
     (if data = [] then []
      else map2 (\<lambda>byte mask_byte. byte XOR mask_byte) (take 64 data) (chacha20_block key nonce counter)
             @ chacha20_from key nonce (counter + 1) (drop 64 data))"
  by pat_completeness auto
termination by (relation "measure (\<lambda>(key, nonce, counter, data). length data)") auto

declare chacha20_from.simps [simp del]

definition chacha20_xor :: "u8 list \<Rightarrow> u8 list \<Rightarrow> u8 list \<Rightarrow> u8 list" where
  "chacha20_xor key nonce data = chacha20_from key nonce 0 data"

section \<open>Padding\<close>

function power_from :: "nat \<Rightarrow> nat \<Rightarrow> nat" where
  "power_from p n = (if p = 0 \<or> n \<le> p then p else power_from (2 * p) n)"
  by pat_completeness auto
termination by (relation "measure (\<lambda>(p, n). n - p)") auto

declare power_from.simps [simp del]

definition next_power_of_two :: "nat \<Rightarrow> nat" where
  "next_power_of_two n = power_from 1 n"

definition checked_next_power_of_two :: "nat \<Rightarrow> nat option" where
  "checked_next_power_of_two n = (if next_power_of_two n < 2 ^ 64 then Some (next_power_of_two n) else None)"

definition padded_length :: "nat \<Rightarrow> (string, nat) result" where
  "padded_length n =
     (if n = 0 \<or> MAX_CLIENT_PLAINTEXT_BYTES < n then Inl ''NIP-44 plaintext length is outside the client bound''
      else if n \<le> 32 then Inr 32
      else try_then (ok_or (checked_next_power_of_two n) ''NIP-44 padded length overflow'') (\<lambda>next_power.
           let chunk = (if next_power \<le> 256 then 32 else next_power div 8)
           in Inr (chunk * ((n - 1) div chunk + 1))))"

definition pad :: "u8 list \<Rightarrow> (string, u8 list) result" where
  "pad plaintext =
     try_then (padded_length (length plaintext)) (\<lambda>padded.
     let extended = 65536 \<le> length plaintext
     in try_then (if extended
          then try_then (ensure (length plaintext < 2 ^ 32) ''NIP-44 plaintext exceeds the protocol length'') (\<lambda>_.
               Inr ([0, 0] @ to_be_bytes 4 (of_nat (length plaintext) :: u32)))
          else try_then (ensure (length plaintext < 2 ^ 16) ''NIP-44 short plaintext length is invalid'') (\<lambda>_.
               Inr (to_be_bytes 2 (of_nat (length plaintext) :: u16)))) (\<lambda>prefix.
        Inr (prefix @ plaintext @ replicate (padded - length plaintext) 0)))"

definition be_word :: "u8 list \<Rightarrow> 'a::len word" where
  "be_word bytes = from_le_bytes (rev bytes)"

definition unpad :: "u8 list \<Rightarrow> (string, u8 list) result" where
  "unpad padded =
     (if length padded < 2 then Inl ''NIP-44 padding is truncated''
      else
        let short = be_word (take 2 padded) :: u16
        in try_then (if short = 0
             then if length padded < 6 then Inl ''NIP-44 extended padding is truncated''
                  else let n = unat (be_word (take 4 (drop 2 padded)) :: u32)
                       in if n < 65536 then Inl ''NIP-44 extended padding length is noncanonical''
                          else Inr (n, 6)
             else Inr (unat short, 2)) (\<lambda>(n, prefix_length).
           if n = 0 \<or> MAX_CLIENT_PLAINTEXT_BYTES < n then Inl ''NIP-44 plaintext length is outside the client bound''
           else try_then (padded_length n) (\<lambda>padded_n.
             if \<not> prefix_length + padded_n < 2 ^ 64 then Inl ''NIP-44 padded length overflow''
             else if length padded \<noteq> prefix_length + padded_n \<or> length padded < prefix_length + n
             then Inl ''NIP-44 padding length is invalid''
             else if list_ex (\<lambda>byte. byte \<noteq> 0) (drop (prefix_length + n) padded)
             then Inl ''NIP-44 padding is not zero-filled''
             else Inr (take n (drop prefix_length padded)))))"

section \<open>Base64\<close>

definition base64_char :: "u8 \<Rightarrow> char" where
  "base64_char v = BASE64 ! unat v"

fun base64_encode :: "u8 list \<Rightarrow> string" where
  "base64_encode [] = []"
| "base64_encode [first] =
     [base64_char (drop_bit 2 first), base64_char (push_bit 4 (first AND 0x03)), CHR ''='', CHR ''='']"
| "base64_encode [first, second] =
     [base64_char (drop_bit 2 first), base64_char (push_bit 4 (first AND 0x03) OR drop_bit 4 second),
      base64_char (push_bit 2 (second AND 0x0f)), CHR ''='']"
| "base64_encode (first # second # third # rest) =
     [base64_char (drop_bit 2 first), base64_char (push_bit 4 (first AND 0x03) OR drop_bit 4 second),
      base64_char (push_bit 2 (second AND 0x0f) OR drop_bit 6 third), base64_char (third AND 0x3f)] @ base64_encode rest"

definition base64_value :: "u8 \<Rightarrow> (string, u8) result" where
  "base64_value byte =
     (if 65 \<le> byte \<and> byte \<le> 90 then Inr (byte - 65)
      else if 97 \<le> byte \<and> byte \<le> 122 then Inr (byte - 97 + 26)
      else if 48 \<le> byte \<and> byte \<le> 57 then Inr (byte - 48 + 52)
      else if byte = 43 then Inr 62
      else if byte = 47 then Inr 63
      else Inl ''NIP-44 payload is not canonical base64'')"

text \<open>The loop over groups of four characters; the last group may end in padding.\<close>

fun base64_groups :: "u8 list \<Rightarrow> (string, u8 list) result" where
  "base64_groups (w # x # y # z # rest) =
     (let at_end = (rest = [])
      in try_then (base64_value w) (\<lambda>a.
         try_then (base64_value x) (\<lambda>b.
         try_then (if y = 61
                   then if \<not> at_end \<or> z \<noteq> 61 \<or> b AND 0x0f \<noteq> 0 then Inl ''NIP-44 payload base64 padding is invalid''
                        else Inr 0
                   else base64_value y) (\<lambda>c.
         try_then (if z = 61
                   then if \<not> at_end \<or> c AND 0x03 \<noteq> 0 then Inl ''NIP-44 payload base64 padding is invalid'' else Inr 0
                   else if y = 61 then Inl ''NIP-44 payload base64 padding is invalid''
                        else base64_value z) (\<lambda>d.
         try_then (base64_groups rest) (\<lambda>decoded.
         Inr ([push_bit 2 a OR drop_bit 4 b] @ (if y \<noteq> 61 then [push_bit 4 b OR drop_bit 2 c] else [])
              @ (if z \<noteq> 61 then [push_bit 6 c OR d] else []) @ decoded)))))))"
| "base64_groups _ = Inr []"

definition base64_decode :: "string \<Rightarrow> (string, u8 list) result" where
  "base64_decode v =
     (if length v mod 4 \<noteq> 0 then Inl ''NIP-44 payload base64 length is invalid''
      else try_then (base64_groups (as_bytes v)) (\<lambda>decoded.
           if base64_encode decoded \<noteq> v then Inl ''NIP-44 payload base64 is noncanonical'' else Inr decoded))"

section \<open>Encryption\<close>

text \<open>\<open>String::from_utf8\<close>.\<close>

definition from_utf8 :: "u8 list \<Rightarrow> string option" where
  "from_utf8 bytes = (if utf8_valid bytes then Some (from_bytes bytes) else None)"

definition encoded_maximum :: "nat \<Rightarrow> nat" where
  "encoded_maximum maximum_plaintext =
     (let raw = 65 + 6 + next_power_of_two maximum_plaintext in (raw + 2) div 3 * 4)"

definition mac_equal :: "u8 list \<Rightarrow> u8 list \<Rightarrow> bool" where
  "mac_equal left right =
     (if length left \<noteq> length right then False
      else foldl (\<lambda>difference (l, r). difference OR (l XOR r)) 0 (zip left right) = 0)"

definition encrypt :: "sha256 \<Rightarrow> string \<Rightarrow> u8 list \<Rightarrow> u8 list \<Rightarrow> (string, string) result" where
  "encrypt sha plaintext conversation_key nonce =
     (let plaintext = as_bytes plaintext
      in if plaintext = [] \<or> MAX_CLIENT_PLAINTEXT_BYTES < length plaintext
         then Inl ''NIP-44 plaintext must contain 1 to 262144 bytes''
         else
           let keys = message_keys sha conversation_key nonce
           in try_then (pad plaintext) (\<lambda>padded.
              let padded = chacha20_xor (take 32 keys) (take 12 (drop 32 keys)) padded;
                  authenticated = nonce @ padded;
                  mac = hmac_sha256 sha (drop 44 keys) authenticated;
                  payload = [VERSION] @ nonce @ padded @ mac
              in Inr (base64_encode payload)))"

definition decrypt :: "sha256 \<Rightarrow> string \<Rightarrow> u8 list \<Rightarrow> (string, string) result" where
  "decrypt sha payload conversation_key =
     (if payload \<noteq> [] \<and> hd payload = CHR ''#'' then Inl ''NIP-44 payload encoding is unsupported''
      else if length payload < MIN_PAYLOAD_CHARS \<or> encoded_maximum MAX_CLIENT_PLAINTEXT_BYTES < length payload
      then Inl ''NIP-44 payload size is outside the client bound''
      else
        try_then (base64_decode payload) (\<lambda>decoded.
        if length decoded < 99 then Inl ''NIP-44 decoded payload is too short''
        else if decoded ! 0 \<noteq> VERSION
        then Inl (''NIP-44 version '' @ show_nat (unat (decoded ! 0)) @ '' is unsupported'')
        else
          let nonce = take 32 (drop 1 decoded);
              ciphertext_end = length decoded - 32;
              ciphertext = drop 33 (take ciphertext_end decoded);
              supplied_mac = drop ciphertext_end decoded;
              keys = message_keys sha conversation_key nonce;
              expected_mac = hmac_sha256 sha (drop 44 keys) (drop 1 (take ciphertext_end decoded))
          in if \<not> mac_equal supplied_mac expected_mac then Inl ''NIP-44 payload MAC is invalid''
             else
               let plain = chacha20_xor (take 32 keys) (take 12 (drop 32 keys)) ciphertext
               in try_then (unpad plain) (\<lambda>plaintext.
                  ok_or (from_utf8 plaintext) ''NIP-44 plaintext is not valid UTF-8'')))"

text \<open>The curve operations of \<open>conversation_key\<close>: the point of even parity with a given x
  coordinate, and the ECDH point, 32 bytes of x and 32 of y.\<close>

record 'p nip44_crypto =
  nc_secp :: "'p secp"
  nc_from_x_only_even :: "u8 list \<Rightarrow> 'p"
  nc_shared_secret_point :: "'p \<Rightarrow> u8 list \<Rightarrow> u8 list"

definition conversation_key :: "'p nip44_crypto \<Rightarrow> u8 list \<Rightarrow> u8 list \<Rightarrow> u8 list" where
  "conversation_key nc secret peer =
     (let normalized = nc_from_x_only_even nc peer;
          point = nc_shared_secret_point nc normalized secret
      in hmac_sha256 (tc_sha256 (sp_taproot (nc_secp nc))) (as_bytes ''nip44-v2'') (take 32 point))"

section \<open>The cipher is its own inverse\<close>

lemma length_quarter_round [simp]: "length (quarter_round state a b c d) = length state"
  by (simp add: quarter_round_def Let_def)

lemma length_double_rounds: "length ((double_round ^^ n) state) = length state"
  by (induction n) (simp_all add: double_round_def)

lemma length_chunks_exact: "0 < n \<Longrightarrow> length (chunks_exact n xs) = length xs div n"
proof (induction n xs rule: chunks_exact.induct)
  case (1 n xs)
  then show ?case
    by (cases "length xs < n") (simp_all add: chunks_exact.simps [of n xs] le_div_geq)
qed

lemma length_chacha20_block:
  assumes "length key = 32" "length nonce = 12"
  shows "length (chacha20_block key nonce counter) = 64"
proof -
  have "length (concat (map (\<lambda>(s, i). to_le_bytes 4 (s + i)) xs)) = 4 * length xs" for xs :: "(u32 \<times> u32) list"
    by (induction xs) auto
  then show ?thesis
    using assms by (simp add: chacha20_block_def Let_def length_double_rounds length_chunks_exact)
qed

lemma xor_twice:
  "length xs \<le> length ks \<Longrightarrow> map2 (\<lambda>x k. x XOR k) (map2 (\<lambda>x k. x XOR k) xs ks) ks = (xs :: u8 list)"
  by (induction xs ks rule: list_induct2') (simp_all add: xor.assoc)

lemma chacha20_from_twice:
  assumes "\<And>c. length (chacha20_block key nonce c) = 64"
  shows "chacha20_from key nonce counter (chacha20_from key nonce counter data) = data
    \<and> length (chacha20_from key nonce counter data) = length data"
  using assms
proof (induction key nonce counter data rule: chacha20_from.induct)
  case (1 key nonce counter data)
  show ?case
  proof (cases "data = []")
    case False
    let ?b = "chacha20_block key nonce counter" and ?rest = "chacha20_from key nonce (counter + 1) (drop 64 data)"
    let ?x = "map2 (\<lambda>x k. x XOR k) (take 64 data) ?b"
    have ih: "chacha20_from key nonce (counter + 1) ?rest = drop 64 data" "length ?rest = length data - 64"
      using 1 False by simp_all
    have out: "chacha20_from key nonce counter data = ?x @ ?rest"
      using False by (simp add: chacha20_from.simps [of key nonce counter data])
    have len: "length ?x = min 64 (length data)" using 1(2) by (simp add: min.commute)
    then have cut: "take 64 (?x @ ?rest) = ?x" "drop 64 (?x @ ?rest) = ?rest" "?x @ ?rest \<noteq> []"
      using ih(2) False by (auto simp: min_def split: if_splits)
    have m: "map2 (\<lambda>x k. x XOR k) ?x ?b = take 64 data" using 1(2) by (intro xor_twice) simp
    have "chacha20_from key nonce counter (?x @ ?rest)
        = map2 (\<lambda>x k. x XOR k) (take 64 (?x @ ?rest)) ?b @ chacha20_from key nonce (counter + 1) (drop 64 (?x @ ?rest))"
      using cut(3) by (subst chacha20_from.simps) (simp only: if_False)
    also have "\<dots> = data" unfolding cut(1,2) m ih(1) by (rule append_take_drop_id)
    finally show ?thesis unfolding out using len ih(2) by simp
  qed (simp add: chacha20_from.simps)
qed

lemma chacha20_xor_twice:
  assumes "length key = 32" "length nonce = 12"
  shows "chacha20_xor key nonce (chacha20_xor key nonce data) = data" "length (chacha20_xor key nonce data) = length data"
  using chacha20_from_twice [OF length_chacha20_block [OF assms], of 0 data] by (simp_all add: chacha20_xor_def)

lemma length_hmac_sha256: "(\<And>m. length (sha m) = 32) \<Longrightarrow> length (hmac_sha256 sha key message) = 32"
  by (simp add: hmac_sha256_def Let_def)

lemma length_message_keys: "(\<And>m. length (sha m) = 32) \<Longrightarrow> length (message_keys sha key nonce) = 76"
  by (simp add: message_keys_def hkdf_expand_def length_hmac_sha256 Let_def)

section \<open>Padding\<close>

lemma power_from_bounds:
  "p = 2 ^ j \<Longrightarrow> (\<exists>k \<ge> j. power_from p n = 2 ^ k) \<and> n \<le> power_from p n \<and> (\<forall>m. n \<le> 2 ^ m \<and> j \<le> m \<longrightarrow> power_from p n \<le> 2 ^ m)"
proof (induction p n arbitrary: j rule: power_from.induct)
  case (1 p n)
  show ?case
  proof (cases "n \<le> p")
    case True
    then have "power_from p n = p" by (subst power_from.simps) simp
    then show ?thesis using True 1(2) by auto
  next
    case False
    have p: "\<not> (p = 0 \<or> n \<le> p)" "2 * p = 2 ^ Suc j" using False 1(2) by simp_all
    have step: "power_from p n = power_from (2 * p) n" using p(1) by (subst power_from.simps) simp
    have "Suc j \<le> m" if "n \<le> 2 ^ m" "j \<le> m" for m
      using that False 1(2) by (cases "m = j") simp_all
    with 1(1) [OF p] show ?thesis unfolding step by (auto dest: Suc_leD)
  qed
qed

lemma next_power_facts:
  obtains k where "next_power_of_two n = 2 ^ k" "n \<le> 2 ^ k" "\<And>m. n \<le> 2 ^ m \<Longrightarrow> k \<le> m"
  using power_from_bounds [of 1 0 n] that by (auto simp: next_power_of_two_def)

lemma round_up_bounds:
  fixes n chunk :: nat
  assumes "0 < n" "0 < chunk" "n \<le> m" "chunk dvd m"
  shows "n \<le> chunk * ((n - 1) div chunk + 1)" "chunk * ((n - 1) div chunk + 1) \<le> m"
proof -
  have "n - 1 < chunk * ((n - 1) div chunk) + chunk" using dividend_less_times_div [OF assms(2), of "n - 1"] by simp
  then show "n \<le> chunk * ((n - 1) div chunk + 1)" by (simp add: algebra_simps)
  obtain q where q: "m = chunk * q" using assms(4) by (rule dvdE)
  have "(n - 1) div chunk < q" using assms q by (simp add: less_mult_imp_div_less mult.commute)
  then show "chunk * ((n - 1) div chunk + 1) \<le> m" unfolding q by (intro mult_le_mono2) simp
qed

lemma padded_length_bounds:
  assumes "padded_length n = Inr p"
  shows "0 < n" "n \<le> p" "p \<le> 262144" "32 \<le> p"
proof -
  show n: "0 < n" using assms by (auto simp: padded_length_def split: if_splits)
  have max: "n \<le> 2 ^ 18" using assms by (auto simp: padded_length_def MAX_CLIENT_PLAINTEXT_BYTES_def split: if_splits)
  obtain k where k: "next_power_of_two n = 2 ^ k" "n \<le> 2 ^ k" "\<And>m. n \<le> 2 ^ m \<Longrightarrow> k \<le> m"
    by (rule next_power_facts [of n]) blast
  have "n \<le> p \<and> p \<le> 262144 \<and> 32 \<le> p"
  proof (cases "n \<le> 32")
    case True
    then show ?thesis using assms n max by (auto simp: padded_length_def MAX_CLIENT_PLAINTEXT_BYTES_def)
  next
    case False
    define chunk :: nat where "chunk = (if (2 :: nat) ^ k \<le> 256 then 32 else 2 ^ k div 8)"
    have "6 \<le> k"
    proof (rule ccontr)
      assume "\<not> 6 \<le> k"
      then have "(2 :: nat) ^ k \<le> 2 ^ 5" by (intro power_increasing) simp_all
      with False k(2) show False by simp
    qed
    then obtain j where j: "k = 6 + j" by (rule le_Suc_ex [THEN exE])
    have c: "0 < chunk" "chunk dvd 2 ^ k" by (auto simp: chunk_def j power_add)
    have "p = chunk * ((n - 1) div chunk + 1)"
      using assms n False max k(1) by (auto simp: padded_length_def chunk_def checked_next_power_of_two_def try_then_eq_Inr Let_def split: if_splits)
    moreover have "(2 :: nat) ^ k \<le> 2 ^ 18" using k(3) [OF max] by (intro power_increasing) simp_all
    ultimately show ?thesis
      using round_up_bounds [OF n c(1) k(2) c(2)] False by auto
  qed
  then show "n \<le> p" "p \<le> 262144" "32 \<le> p" by simp_all
qed

lemma padded_length_total:
  assumes "0 < n" "n \<le> 262144"
  obtains p where "padded_length n = Inr p"
proof -
  obtain k where k: "next_power_of_two n = 2 ^ k" "\<And>m. n \<le> 2 ^ m \<Longrightarrow> k \<le> m"
    by (rule next_power_facts [of n]) blast
  have "k \<le> 18" using assms(2) by (intro k(2)) simp
  then have "(2 :: nat) ^ k < 2 ^ 64" by (intro power_strict_increasing) simp_all
  then have "checked_next_power_of_two n = Some (2 ^ k)" by (simp add: checked_next_power_of_two_def k(1))
  then have "\<exists>p. padded_length n = Inr p" using assms by (simp add: padded_length_def MAX_CLIENT_PLAINTEXT_BYTES_def Let_def)
  then show thesis using that by blast
qed

lemma be_word_to_be_bytes:
  fixes w :: "'a::len word"
  assumes "LENGTH('a) = 8 * n"
  shows "be_word (to_be_bytes n w) = w"
  using from_to_le_bytes [OF assms] by (simp add: be_word_def to_be_bytes_def)

lemma to_be_bytes_be_word:
  assumes "LENGTH('a) = 8 * length bs"
  shows "to_be_bytes (length bs) (be_word bs :: 'a::len word) = bs"
  using to_from_le_bytes [of "rev bs", where 'a = 'a] assms by (simp add: be_word_def to_be_bytes_def)

lemma length_to_be_bytes [simp]: "length (to_be_bytes n w) = n"
  by (simp add: to_be_bytes_def)

text \<open>The prefix of a length, and the padded form of a text.\<close>

definition length_prefix :: "nat \<Rightarrow> u8 list" where
  "length_prefix n = (if 65536 \<le> n then [0, 0] @ to_be_bytes 4 (of_nat n :: u32) else to_be_bytes 2 (of_nat n :: u16))"

lemma pad_iff:
  "pad x = Inr out \<longleftrightarrow> (\<exists>p. padded_length (length x) = Inr p \<and> out = length_prefix (length x) @ x @ replicate (p - length x) 0)"
proof -
  have "length x \<le> 262144" if "padded_length (length x) = Inr p" for p
    using padded_length_bounds [OF that] by simp
  then show ?thesis by (auto simp: pad_def length_prefix_def try_then_eq_Inr Let_def)
qed

lemma length_prefix_read:
  assumes "0 < n" "n \<le> 262144"
  shows "n < 65536 \<Longrightarrow> (be_word (take 2 (length_prefix n @ rest)) :: u16) \<noteq> 0 \<and> unat (be_word (take 2 (length_prefix n @ rest)) :: u16) = n"
    "65536 \<le> n \<Longrightarrow> (be_word (take 2 (length_prefix n @ rest)) :: u16) = 0
       \<and> unat (be_word (take 4 (drop 2 (length_prefix n @ rest))) :: u32) = n"
    "length (length_prefix n) = (if 65536 \<le> n then 6 else 2)"
proof -
  show "length (length_prefix n) = (if 65536 \<le> n then 6 else 2)" by (simp add: length_prefix_def)
  show "(be_word (take 2 (length_prefix n @ rest)) :: u16) \<noteq> 0 \<and> unat (be_word (take 2 (length_prefix n @ rest)) :: u16) = n"
    if "n < 65536"
  proof -
    have "(be_word (take 2 (length_prefix n @ rest)) :: u16) = of_nat n"
      using that be_word_to_be_bytes [of 2 "of_nat n :: u16"] by (simp add: length_prefix_def)
    moreover have "unat (of_nat n :: u16) = n" using that by (intro unat_of_nat_small) simp
    ultimately show ?thesis using assms(1) by (metis less_irrefl unsigned_0)
  qed
  show "(be_word (take 2 (length_prefix n @ rest)) :: u16) = 0
       \<and> unat (be_word (take 4 (drop 2 (length_prefix n @ rest))) :: u32) = n" if "65536 \<le> n"
  proof -
    have "(be_word [0, 0] :: u16) = 0" unfolding be_word_def by code_simp
    moreover have "(be_word (take 4 (drop 2 (length_prefix n @ rest))) :: u32) = of_nat n"
      using that be_word_to_be_bytes [of 4 "of_nat n :: u32"] by (simp add: length_prefix_def)
    moreover have "unat (of_nat n :: u32) = n" using assms(2) by (intro unat_of_nat_small) simp
    ultimately show ?thesis using that by (simp add: length_prefix_def)
  qed
qed

lemma unpad_pad:
  assumes "pad x = Inr out"
  shows "unpad out = Inr x"
proof -
  obtain p where p: "padded_length (length x) = Inr p" "out = length_prefix (length x) @ x @ replicate (p - length x) 0"
    using assms by (auto simp: pad_iff)
  note b = padded_length_bounds [OF p(1)]
  have n: "0 < length x" "length x \<le> 262144" using b by simp_all
  note r = length_prefix_read(1,2) [OF n, of "x @ replicate (p - length x) 0", folded p(2)]
  let ?k = "length (length_prefix (length x))"
  have k: "?k = (if 65536 \<le> length x then 6 else 2)" by (rule length_prefix_read(3) [OF n])
  have len: "length out = ?k + p" using p(2) b by simp
  have parts: "drop (?k + length x) out = replicate (p - length x) 0" "take (length x) (drop ?k out) = x"
    using p(2) by simp_all
  have z: "\<not> list_ex (\<lambda>byte. byte \<noteq> 0) (drop (?k + length x) out)" unfolding parts by (simp add: list_ex_iff)
  have "\<not> length out < 2" "65536 \<le> length x \<Longrightarrow> \<not> length out < 6" using len k b by simp_all
  then show ?thesis
    using r k p(1) b len parts(2) z n
    by (cases "65536 \<le> length x") (simp_all add: unpad_def Let_def MAX_CLIENT_PLAINTEXT_BYTES_def)
qed

lemma prefix_of_word:
  shows "short \<noteq> 0 \<Longrightarrow> length bs = 2 \<Longrightarrow> short = (be_word bs :: u16) \<Longrightarrow> bs = length_prefix (unat short)"
    "length bs = 4 \<Longrightarrow> 65536 \<le> unat (be_word bs :: u32) \<Longrightarrow> [0, 0] @ bs = length_prefix (unat (be_word bs :: u32))"
proof -
  show "bs = length_prefix (unat short)" if s: "short \<noteq> 0" "length bs = 2" "short = (be_word bs :: u16)"
  proof -
    have "\<not> 65536 \<le> unat short" using unat_bound [of short] by simp
    then show ?thesis using to_be_bytes_be_word [of bs, where 'a = 16] s by (simp add: length_prefix_def)
  qed
  show "[0, 0] @ bs = length_prefix (unat (be_word bs :: u32))" if "length bs = 4" "65536 \<le> unat (be_word bs :: u32)"
    using to_be_bytes_be_word [of bs, where 'a = 32] that by (simp add: length_prefix_def)
qed

lemma unpad_layout:
  assumes "unpad padded = Inr x"
  obtains n k p where "padded_length n = Inr p" "length padded = k + p" "k + n \<le> length padded"
    "\<forall>byte \<in> set (drop (k + n) padded). byte = 0" "x = take n (drop k padded)" "take k padded = length_prefix n"
proof -
  let ?short = "be_word (take 2 padded) :: u16" and ?long = "unat (be_word (take 4 (drop 2 padded)) :: u32)"
  have two: "\<not> length padded < 2" using assms by (auto simp: unpad_def)
  obtain n k where nk: "(if ?short = 0 then \<not> length padded < 6 \<and> 65536 \<le> ?long \<and> n = ?long \<and> k = 6 else n = unat ?short \<and> k = 2)"
    and rest: "try_then (padded_length n) (\<lambda>padded_n.
             if \<not> k + padded_n < 2 ^ 64 then Inl ''NIP-44 padded length overflow''
             else if length padded \<noteq> k + padded_n \<or> length padded < k + n
             then Inl ''NIP-44 padding length is invalid''
             else if list_ex (\<lambda>byte. byte \<noteq> 0) (drop (k + n) padded)
             then Inl ''NIP-44 padding is not zero-filled''
             else Inr (take n (drop k padded))) = Inr x"
    using assms two
    by (cases "?short = 0") (auto simp: unpad_def Let_def try_then_eq_Inr not_less split: if_split_asm)
  have "take k padded = length_prefix n"
  proof (cases "?short = 0")
    case True
    have "take 2 padded = to_be_bytes 2 ?short"
      using to_be_bytes_be_word [of "take 2 padded", where 'a = 16] two by simp
    also have "\<dots> = [0, 0]" unfolding True by code_simp
    finally have "take 6 padded = [0, 0] @ take 4 (drop 2 padded)"
      using take_add [of 2 4 padded] by simp
    moreover have "\<not> length padded < 6" "65536 \<le> ?long" "n = ?long" "k = 6" using nk True by simp_all
    moreover from this(1) have "length (take 4 (drop 2 padded)) = 4" by simp
    ultimately show ?thesis using prefix_of_word(2) [of "take 4 (drop 2 padded)"] by simp
  next
    case False
    then show ?thesis using nk two prefix_of_word(1) [of ?short "take 2 padded"] by simp
  qed
  then show thesis
    using rest that [of n _ k] by (auto simp: try_then_eq_Inr list_ex_iff not_less split: if_split_asm)
qed

lemma unpad_iff: "unpad padded = Inr x \<longleftrightarrow> pad x = Inr padded"
proof
  assume "unpad padded = Inr x"
  then obtain n k p where l: "padded_length n = Inr p" "length padded = k + p" "k + n \<le> length padded"
    "\<forall>byte \<in> set (drop (k + n) padded). byte = 0" "x = take n (drop k padded)" "take k padded = length_prefix n"
    by (rule unpad_layout)
  have "drop (k + n) padded = replicate (p - n) 0"
    using l(2,4) by (intro replicate_eqI) simp_all
  then have "drop k padded = x @ replicate (p - n) 0"
    using l(5) append_take_drop_id [of n "drop k padded"] by (simp add: add.commute)
  then have "padded = length_prefix n @ x @ replicate (p - n) 0"
    using l(6) append_take_drop_id [of k padded] by simp
  moreover have "length x = n" using l(2,3,5) by simp
  ultimately show "pad x = Inr padded" using l(1) by (simp add: pad_iff)
qed (rule unpad_pad)

section \<open>Base64\<close>

lemma base64_table:
  "map (\<lambda>c. base64_value (byte_of c)) BASE64 = map (\<lambda>i. Inr (of_nat i)) [0..<64]"
  "list_all (\<lambda>c. byte_of c \<noteq> 61 \<and> c \<noteq> CHR ''#'') BASE64" "length BASE64 = 64"
  unfolding BASE64_def by code_simp+

lemma base64_char_facts:
  assumes "unat v < 64"
  shows "base64_value (byte_of (base64_char v)) = Inr v" "byte_of (base64_char v) \<noteq> 61" "base64_char v \<noteq> CHR ''#''"
proof -
  have "map (\<lambda>c. base64_value (byte_of c)) BASE64 ! unat v = Inr v"
    unfolding base64_table(1) using assms by simp
  then show "base64_value (byte_of (base64_char v)) = Inr v" using assms by (simp add: base64_char_def base64_table(3))
  show "byte_of (base64_char v) \<noteq> 61" "base64_char v \<noteq> CHR ''#''"
    using base64_table(2) assms by (simp_all add: base64_char_def base64_table(3) list_all_length)
qed

lemma mask_take_bits: "w AND 3 = take_bit 2 w" "w AND 0x0f = take_bit 4 w" "w AND 0x3f = take_bit 6 w" for w :: u8
  by (simp_all add: take_bit_eq_mask mask_eq_exp_minus_1)

lemma sextet_less: "(\<And>k. 6 \<le> k \<Longrightarrow> \<not> bit w k) \<Longrightarrow> unat (w :: u8) < 64"
  using not_bit_imp_less [of 6 w] by simp

lemma sextets_less:
  fixes a b c :: u8
  shows "unat (drop_bit 2 a) < 64" "unat (push_bit 4 (a AND 3) OR drop_bit 4 b) < 64"
    "unat (push_bit 2 (b AND 0x0f) OR drop_bit 6 c) < 64" "unat (c AND 0x3f) < 64"
    "unat (push_bit 4 (a AND 3)) < 64" "unat (push_bit 2 (b AND 0x0f)) < 64"
  by (rule sextet_less; auto simp: mask_take_bits bit_simps dest: bit_imp_le_length)+

lemma sextets_join:
  fixes a b c :: u8
  shows "push_bit 2 (drop_bit 2 a) OR drop_bit 4 (push_bit 4 (a AND 3) OR drop_bit 4 b) = a"
    "push_bit 4 (push_bit 4 (a AND 3) OR drop_bit 4 b) OR drop_bit 2 (push_bit 2 (b AND 0x0f) OR drop_bit 6 c) = b"
    "push_bit 6 (push_bit 2 (b AND 0x0f) OR drop_bit 6 c) OR (c AND 0x3f) = c"
proof -
  have s: "Suc (Suc (n - 2)) = (if 2 \<le> n then n else 2)" "4 + (n - 4) = (if 4 \<le> n then n else 4)"
    "6 + (n - 6) = (if 6 \<le> n then n else 6)" for n :: nat by arith+
  show "push_bit 2 (drop_bit 2 a) OR drop_bit 4 (push_bit 4 (a AND 3) OR drop_bit 4 b) = a"
    "push_bit 4 (push_bit 4 (a AND 3) OR drop_bit 4 b) OR drop_bit 2 (push_bit 2 (b AND 0x0f) OR drop_bit 6 c) = b"
    "push_bit 6 (push_bit 2 (b AND 0x0f) OR drop_bit 6 c) OR (c AND 0x3f) = c"
    by (rule bit_eqI; auto simp: mask_take_bits bit_simps s dest: bit_imp_le_length split: if_splits)+
qed

lemma sextets_tail:
  fixes a b :: u8
  shows "push_bit 2 (drop_bit 2 a) OR drop_bit 4 (push_bit 4 (a AND 3)) = a" "push_bit 4 (a AND 3) AND 0x0f = 0"
    "push_bit 4 (push_bit 4 (a AND 3) OR drop_bit 4 b) OR drop_bit 2 (push_bit 2 (b AND 0x0f)) = b"
    "push_bit 2 (b AND 0x0f) AND 0x03 = 0"
  using sextets_join(1) [of a 0] sextets_join(2) [of a b 0]
  by (simp_all, auto intro!: bit_eqI simp: mask_take_bits bit_simps)

lemma base64_groups_encode: "base64_groups (as_bytes (base64_encode d)) = Inr d"
proof (induction d rule: base64_encode.induct)
  case (2 a)
  have "byte_of CHR ''='' = 61" by code_simp
  then show ?case by (simp add: base64_char_facts sextets_less sextets_tail as_bytes_def del: push_bit_and)
next
  case (3 a b)
  have "byte_of CHR ''='' = 61" by code_simp
  then show ?case using sextets_tail(3) [of a b]
    by (simp add: base64_char_facts sextets_less sextets_tail sextets_join(1) as_bytes_def del: push_bit_and)
next
  case (4 a b c rest)
  then show ?case using sextets_join(2) [of a b c] sextets_join(3) [of b c]
    by (simp add: base64_char_facts sextets_less sextets_join sextets_tail as_bytes_def del: push_bit_and)
qed (simp add: as_bytes_def)

lemma length_base64_encode: "length (base64_encode d) = 4 * ((length d + 2) div 3)"
proof (induction d rule: base64_encode.induct)
  case (4 a b c rest)
  have "(5 + n) div 3 = Suc ((n + 2) div 3)" for n :: nat by arith
  with 4 show ?case by simp
qed simp_all

lemma base64_decode_iff: "base64_decode v = Inr d \<longleftrightarrow> v = base64_encode d"
  by (auto simp: base64_decode_def base64_groups_encode length_base64_encode try_then_eq_Inr split: if_splits)

lemma base64_encode_hd: "d \<noteq> [] \<Longrightarrow> base64_encode d \<noteq> [] \<and> hd (base64_encode d) \<noteq> CHR ''#''"
  by (cases d rule: base64_encode.cases) (simp_all add: base64_char_facts sextets_less)

lemma mac_equal_iff: "mac_equal left right \<longleftrightarrow> left = right"
  using constant_time_equal_iff [of left right]
  by (auto simp: mac_equal_def constant_time_equal_def)

section \<open>Encryption and decryption\<close>

text \<open>The bytes a payload encodes, and the key stream a nonce selects.\<close>

definition nip44_frame :: "sha256 \<Rightarrow> u8 list \<Rightarrow> u8 list \<Rightarrow> u8 list \<Rightarrow> u8 list" where
  "nip44_frame sha key nonce c =
     [VERSION] @ nonce @ c @ hmac_sha256 sha (drop 44 (message_keys sha key nonce)) (nonce @ c)"

definition nip44_stream :: "sha256 \<Rightarrow> u8 list \<Rightarrow> u8 list \<Rightarrow> u8 list \<Rightarrow> u8 list" where
  "nip44_stream sha key nonce =
     chacha20_xor (take 32 (message_keys sha key nonce)) (take 12 (drop 32 (message_keys sha key nonce)))"

lemma nip44_stream_twice:
  assumes "\<And>m. length (sha m) = 32"
  shows "nip44_stream sha key nonce (nip44_stream sha key nonce d) = d" "length (nip44_stream sha key nonce d) = length d"
  by (simp_all add: nip44_stream_def chacha20_xor_twice length_message_keys assms)

lemma length_nip44_frame:
  assumes "\<And>m. length (sha m) = 32" "length nonce = 32"
  shows "length (nip44_frame sha key nonce c) = 65 + length c"
  using assms by (simp add: nip44_frame_def length_hmac_sha256)

lemma encrypt_layout:
  "encrypt sha text key nonce = Inr payload \<longleftrightarrow>
     (\<exists>padded. pad (as_bytes text) = Inr padded
        \<and> payload = base64_encode (nip44_frame sha key nonce (nip44_stream sha key nonce padded)))"
proof -
  have "text \<noteq> [] \<and> length text \<le> 262144" if "pad (as_bytes text) = Inr padded" for padded
    using that padded_length_bounds [of "length (as_bytes text)"] by (fastforce simp: pad_iff)
  then show ?thesis
    by (cases "pad (as_bytes text)")
      (auto simp: encrypt_def Let_def MAX_CLIENT_PLAINTEXT_BYTES_def nip44_frame_def nip44_stream_def as_bytes_def not_less)
qed

lemma encoded_maximum_value: "encoded_maximum MAX_CLIENT_PLAINTEXT_BYTES = 349620"
proof -
  obtain k where k: "next_power_of_two 262144 = 2 ^ k" "262144 \<le> (2 :: nat) ^ k" "\<And>m. 262144 \<le> (2 :: nat) ^ m \<Longrightarrow> k \<le> m"
    by (rule next_power_facts [of 262144]) blast
  have "k \<le> 18" using k(3) [of 18] by simp
  moreover have "(2 :: nat) ^ 18 \<le> 2 ^ k" using k(2) by simp
  then have "18 \<le> k" by (subst (asm) power_increasing_iff) simp_all
  ultimately have "k = 18" by simp
  then show ?thesis using k(1) by (simp add: encoded_maximum_def MAX_CLIENT_PLAINTEXT_BYTES_def)
qed

lemma frame_of_payload:
  assumes "99 \<le> length d" "d ! 0 = VERSION" "nonce = take 32 (drop 1 d)" "c = drop 33 (take (length d - 32) d)"
    "drop (length d - 32) d = hmac_sha256 sha (drop 44 (message_keys sha key nonce)) (drop 1 (take (length d - 32) d))"
  shows "d = nip44_frame sha key nonce c" "length nonce = 32"
proof -
  let ?e = "length d - 32"
  have "drop 1 (take ?e d) = take 32 (drop 1 (take ?e d)) @ drop 32 (drop 1 (take ?e d))"
    by (rule append_take_drop_id [symmetric])
  then have body: "drop 1 (take ?e d) = nonce @ c" using assms(1,3,4) by (simp add: drop_take)
  have "take ?e d = take 1 (take ?e d) @ drop 1 (take ?e d)" by (rule append_take_drop_id [symmetric])
  moreover have "take 1 (take ?e d) = [VERSION]" using assms(1,2) by (cases d) auto
  ultimately have "take ?e d = [VERSION] @ nonce @ c" using body by simp
  then show "d = nip44_frame sha key nonce c"
    using append_take_drop_id [of ?e d] assms(5) body by (simp add: nip44_frame_def)
  show "length nonce = 32" using assms(1,3) by simp
qed

lemma payload_of_frame:
  fixes key c
  assumes "\<And>m. length (sha m) = 32" "length nonce = 32"
  defines "d \<equiv> nip44_frame sha key nonce c"
  shows "d ! 0 = VERSION" "take 32 (drop 1 d) = nonce" "drop 33 (take (length d - 32) d) = c"
    "drop 1 (take (length d - 32) d) = nonce @ c"
    "drop (length d - 32) d = hmac_sha256 sha (drop 44 (message_keys sha key nonce)) (nonce @ c)"
proof -
  have e: "length d - 32 = 33 + length c"
    using length_nip44_frame [of sha nonce key c, OF assms(1,2)] by (simp add: d_def)
  have t: "take (33 + length c) d = VERSION # nonce @ c"
    using assms(2) by (simp add: d_def nip44_frame_def take_Cons')
  show "d ! 0 = VERSION" "take 32 (drop 1 d) = nonce" using assms(2) by (simp_all add: d_def nip44_frame_def)
  show "drop 33 (take (length d - 32) d) = c" "drop 1 (take (length d - 32) d) = nonce @ c"
    "drop (length d - 32) d = hmac_sha256 sha (drop 44 (message_keys sha key nonce)) (nonce @ c)"
    unfolding e t using assms(2) by (simp_all add: d_def nip44_frame_def drop_Cons')
qed

lemma length_pad: "pad x = Inr out \<Longrightarrow> 34 \<le> length out \<and> length out \<le> 262150"
  using padded_length_bounds [of "length x"] by (fastforce simp: pad_iff length_prefix_def)

lemma decrypt_layout:
  assumes "\<And>m. length (sha m) = 32"
  shows "decrypt sha payload key = Inr text \<longleftrightarrow>
     (\<exists>nonce c. length nonce = 32 \<and> payload = base64_encode (nip44_frame sha key nonce c)
        \<and> unpad (nip44_stream sha key nonce c) = Inr (as_bytes text) \<and> utf8_valid (as_bytes text))"
proof
  assume "decrypt sha payload key = Inr text"
  then obtain d where d: "payload = base64_encode d" "99 \<le> length d" "d ! 0 = VERSION"
    and mac: "drop (length d - 32) d
      = hmac_sha256 sha (drop 44 (message_keys sha key (take 32 (drop 1 d)))) (drop 1 (take (length d - 32) d))"
    and plain: "try_then (unpad (nip44_stream sha key (take 32 (drop 1 d)) (drop 33 (take (length d - 32) d))))
      (\<lambda>plaintext. ok_or (from_utf8 plaintext) ''NIP-44 plaintext is not valid UTF-8'') = Inr text"
    by (auto simp: decrypt_def Let_def try_then_eq_Inr base64_decode_iff mac_equal_iff nip44_stream_def not_less
        split: if_split_asm)
  note f = frame_of_payload [OF d(2,3) refl refl mac]
  have "unpad (nip44_stream sha key (take 32 (drop 1 d)) (drop 33 (take (length d - 32) d))) = Inr (as_bytes text)"
    "utf8_valid (as_bytes text)"
    using plain by (auto simp: try_then_eq_Inr from_utf8_def split: if_split_asm)
  then show "\<exists>nonce c. length nonce = 32 \<and> payload = base64_encode (nip44_frame sha key nonce c)
        \<and> unpad (nip44_stream sha key nonce c) = Inr (as_bytes text) \<and> utf8_valid (as_bytes text)"
    using f d(1) by metis
next
  assume "\<exists>nonce c. length nonce = 32 \<and> payload = base64_encode (nip44_frame sha key nonce c)
        \<and> unpad (nip44_stream sha key nonce c) = Inr (as_bytes text) \<and> utf8_valid (as_bytes text)"
  then obtain nonce c where n: "length nonce = 32" and p: "payload = base64_encode (nip44_frame sha key nonce c)"
    and u: "unpad (nip44_stream sha key nonce c) = Inr (as_bytes text)" "utf8_valid (as_bytes text)" by blast
  have c: "34 \<le> length c" "length c \<le> 262150"
    using u(1) nip44_stream_twice(2) [of sha key nonce c, OF assms]
      length_pad [of "as_bytes text" "nip44_stream sha key nonce c"] by (simp_all add: unpad_iff)
  note l = length_nip44_frame [of sha nonce key c, OF assms n]
  have "132 \<le> length payload" "length payload \<le> 349620"
    using c unfolding p length_base64_encode l by simp_all
  moreover have "hd payload \<noteq> CHR ''#''"
    using base64_encode_hd [of "nip44_frame sha key nonce c"] p by (simp add: nip44_frame_def)
  ultimately show "decrypt sha payload key = Inr text"
    using payload_of_frame [of sha nonce key c, OF assms n] u l c
    by (simp add: decrypt_def encoded_maximum_value MIN_PAYLOAD_CHARS_def p base64_decode_iff [THEN iffD2]
        Let_def mac_equal_iff nip44_stream_def from_utf8_def)
qed

lemma decrypt_iff:
  assumes "\<And>m. length (sha m) = 32"
  shows "decrypt sha payload key = Inr text \<longleftrightarrow>
     (\<exists>nonce. length nonce = 32 \<and> utf8_valid (as_bytes text) \<and> encrypt sha text key nonce = Inr payload)"
proof -
  have s: "nip44_stream sha key nonce c = p \<longleftrightarrow> c = nip44_stream sha key nonce p" for nonce c p
    using nip44_stream_twice(1) [of sha key nonce, OF assms] by metis
  have u: "unpad (nip44_stream sha key nonce c) = Inr x \<longleftrightarrow> (\<exists>p. pad x = Inr p \<and> c = nip44_stream sha key nonce p)" for nonce c x
    unfolding unpad_iff s [symmetric] by blast
  show ?thesis unfolding decrypt_layout [of sha, OF assms] encrypt_layout u by blast
qed

lemma encrypt_total:
  assumes "text \<noteq> []" "length text \<le> 262144"
  shows "\<exists>payload. encrypt sha text key nonce = Inr payload"
proof -
  have "0 < length (as_bytes text)" "length (as_bytes text) \<le> 262144" using assms by (simp_all add: as_bytes_def)
  then obtain p where "padded_length (length (as_bytes text)) = Inr p" by (rule padded_length_total)
  then show ?thesis by (simp add: encrypt_layout pad_iff)
qed

text \<open>C36: NIP-44 decryption is exact. With a hash of 32 bytes, \<open>decrypt\<close> accepts a payload under a key
  and returns a text if and only if the payload is what \<open>encrypt\<close> makes of that text, which is valid
  UTF-8, under that key and some nonce of 32 bytes: every encrypted text is read back, and no other
  payload (another version, length, base64 form, padding or authentication code) is accepted. Every
  text of 1 to 262144 bytes is encrypted.\<close>

theorem nip44_exact:
  assumes "\<forall>m. length (sha m) = 32"
  shows "(decrypt sha payload key = Inr text \<longleftrightarrow>
       (\<exists>nonce. length nonce = 32 \<and> utf8_valid (as_bytes text) \<and> encrypt sha text key nonce = Inr payload))
    \<and> ((\<exists>payload. encrypt sha text key nonce = Inr payload) \<longleftrightarrow> text \<noteq> [] \<and> length text \<le> 262144)"
proof
  show "decrypt sha payload key = Inr text \<longleftrightarrow>
       (\<exists>nonce. length nonce = 32 \<and> utf8_valid (as_bytes text) \<and> encrypt sha text key nonce = Inr payload)"
    using assms by (intro decrypt_iff) simp
  have "text \<noteq> [] \<and> length text \<le> 262144" if "encrypt sha text key nonce = Inr p" for p
    using that by (auto simp: encrypt_def Let_def MAX_CLIENT_PLAINTEXT_BYTES_def as_bytes_def split: if_split_asm)
  then show "(\<exists>payload. encrypt sha text key nonce = Inr payload) \<longleftrightarrow> text \<noteq> [] \<and> length text \<le> 262144"
    using encrypt_total by blast
qed

theorem nip44_exact_witness:
  "\<exists>payload. encrypt (\<lambda>_. replicate 32 7) ''hello'' (replicate 32 1) (replicate 32 9) = Inr payload
     \<and> decrypt (\<lambda>_. replicate 32 7) payload (replicate 32 1) = Inr ''hello''"
proof -
  have u: "utf8_valid (as_bytes ''hello'')" by code_simp
  have h: "\<forall>m. length ((\<lambda>_ :: u8 list. replicate 32 7) m) = 32" by simp
  note x = nip44_exact [OF h, of _ "replicate 32 1" "''hello''" "replicate 32 9"]
  obtain payload where p: "encrypt (\<lambda>_. replicate 32 7) ''hello'' (replicate 32 1) (replicate 32 9) = Inr payload"
    using x [THEN conjunct2] by auto
  then have "decrypt (\<lambda>_. replicate 32 7) payload (replicate 32 1) = Inr ''hello''"
    using x [THEN conjunct1, THEN iffD2] u by (metis length_replicate)
  with p show ?thesis by blast
qed

section \<open>The shared conversation key\<close>

text \<open>The library's contract for the two operations: an x coordinate is lifted to its point of even
  parity, and the shared point starts with the x coordinate of the product.\<close>

definition ecdh_law :: "'p nip44_crypto \<Rightarrow> bool" where
  "ecdh_law nc \<longleftrightarrow>
     (\<forall>P x. sp_xonly (nc_secp nc) P = (x, Even) \<longrightarrow> nc_from_x_only_even nc x = P)
     \<and> (\<forall>P s Q. secret32 s \<longrightarrow> sp_mul (nc_secp nc) P s = Some Q \<longrightarrow>
          take 32 (nc_shared_secret_point nc P s) = fst (sp_xonly (nc_secp nc) Q))"

lemma ecdh_x:
  fixes nc :: "'p nip44_crypto"
  assumes laws: "point_laws (nc_secp nc) dl" "encoding_laws (nc_secp nc)" "ecdh_law nc"
    and ab: "secret32 a" "secret32 b" and Q: "dl Q = si a * si b mod N"
  defines "c \<equiv> nc_secp nc"
  shows "take 32 (nc_shared_secret_point nc (nc_from_x_only_even nc (fst (sp_xonly c (sp_public c b)))) a)
    = fst (sp_xonly c Q)"
proof -
  let ?B = "sp_public c b" and ?x = "fst (sp_xonly c (sp_public c b))"
  have B: "dl ?B = si b" using laws(1) ab(2) by (simp add: point_laws_def c_def)
  have neg: "dl (sp_negate c P) = N - dl P" "fst (sp_xonly c (sp_negate c P)) = fst (sp_xonly c P)" for P
    using laws(1,2) by (simp_all add: point_laws_def encoding_laws_def c_def)
  have mul: "take 32 (nc_shared_secret_point nc P a) = fst (sp_xonly c R)" if "dl R = si a * dl P mod N" for P R
    using laws(1,3) ab(1) that secret32_scalar32 [OF ab(1)] unfolding point_laws_def ecdh_law_def c_def by blast
  have lift: "nc_from_x_only_even nc x = P" if "sp_xonly c P = (x, Even)" for P x
    using laws(3) that by (simp add: ecdh_law_def c_def)
  show ?thesis
  proof (cases "snd (sp_xonly c ?B) = Even")
    case True
    then have "sp_xonly c ?B = (?x, Even)" by (metis prod.collapse)
    then show ?thesis using lift mul [of Q ?B] Q B by simp
  next
    case False
    then have "snd (sp_xonly c (sp_negate c ?B)) = Even"
      using laws(2) by (simp add: encoding_laws_def c_def)
    then have "sp_xonly c (sp_negate c ?B) = (?x, Even)" using neg(2) [of ?B] by (metis prod.collapse)
    moreover have "dl (sp_negate c Q) = si a * dl (sp_negate c ?B) mod N"
    proof -
      have "0 < dl Q" "dl Q < N" using laws(1) by (simp_all add: point_laws_def)
      then have "N - dl Q = (- dl Q) mod N" by (rule negative_mod [symmetric])
      also have "\<dots> = (- (si a * si b) + si a * N) mod N"
        unfolding Q mod_minus_eq by (rule mod_mult_self1 [symmetric])
      also have "- (si a * si b) + si a * N = si a * (N - si b)" by (simp add: right_diff_distrib)
      finally show ?thesis using neg(1) B by simp
    qed
    ultimately show ?thesis using lift mul [of "sp_negate c Q" "sp_negate c ?B"] neg(2) by simp
  qed
qed

lemma conversation_key_agree:
  fixes nc :: "'p nip44_crypto"
  assumes laws: "point_laws (nc_secp nc) dl" "encoding_laws (nc_secp nc)" "ecdh_law nc"
    and ab: "secret32 a" "secret32 b" "si a * si b mod N \<noteq> 0"
  defines "c \<equiv> nc_secp nc"
  shows "conversation_key nc a (fst (sp_xonly c (sp_public c b))) = conversation_key nc b (fst (sp_xonly c (sp_public c a)))"
proof -
  have "0 < si a * si b mod N" "si a * si b mod N < N" 
    using ab(3) N_pos pos_mod_sign [of N "si a * si b"] pos_mod_bound [of N "si a * si b"] by linarith+
  then obtain Q where Q: "dl Q = si a * si b mod N" using laws(1) unfolding point_laws_def by blast
  then have "dl Q = si b * si a mod N" by (simp add: mult.commute)
  with Q show ?thesis using ecdh_x [OF laws ab(1,2)] ecdh_x [OF laws ab(2,1)] by (simp add: conversation_key_def c_def)
qed

text \<open>C37: Two parties that hold each other's x-only public key derive the same conversation key, and
  what one encrypts the other reads. For a curve library that obeys its laws, secrets \<open>a\<close> and \<open>b\<close> whose
  product is not a multiple of the group order, and a text in UTF-8 that \<open>encrypt\<close> accepts under
  \<open>a\<close>'s conversation key with \<open>b\<close>, \<open>b\<close>'s key with \<open>a\<close> is the same key and \<open>decrypt\<close> under it
  returns the text. The parity of neither public key matters.\<close>

theorem nip44_conversation:
  fixes nc :: "'p nip44_crypto"
  assumes "secp_laws (nc_secp nc) dl" "ecdh_law nc" "secret32 a" "secret32 b" "si a * si b mod N \<noteq> 0"
    and "x = fst (sp_xonly (nc_secp nc) (sp_public (nc_secp nc) a))" "y = fst (sp_xonly (nc_secp nc) (sp_public (nc_secp nc) b))"
    and "sha = tc_sha256 (sp_taproot (nc_secp nc))" "length nonce = 32" "utf8_valid (as_bytes text)"
    and "encrypt sha text (conversation_key nc a y) nonce = Inr payload"
  shows "conversation_key nc b x = conversation_key nc a y \<and> decrypt sha payload (conversation_key nc b x) = Inr text"
proof -
  note laws = secp_lawsD [OF assms(1)]
  have key: "conversation_key nc b x = conversation_key nc a y"
    unfolding assms(6,7) by (rule conversation_key_agree [OF laws(2,3) assms(2,3,4,5), symmetric])
  have "\<And>m. length (sha m) = 32" using laws(1) assms(8) by (simp add: scalar_laws_def)
  then have "decrypt sha payload (conversation_key nc a y) = Inr text"
    using decrypt_iff [of sha payload "conversation_key nc a y" "text"] assms(9-11) by blast
  with key show ?thesis by simp
qed

definition residue_nip44 :: "residue nip44_crypto" where
  "residue_nip44 = \<lparr>nc_secp = residue_secp,
     nc_from_x_only_even = \<lambda>x. (case res_lift x of Some P \<Rightarrow> P | None \<Rightarrow> pt 1),
     nc_shared_secret_point = \<lambda>P s. (case res (si s * Rep_residue P) of Some Q \<Rightarrow> res_x Q @ replicate 32 0 | None \<Rightarrow> [])\<rparr>"

lemma residue_ecdh_law: "ecdh_law residue_nip44"
proof -
  have "length (res_x Q) = 32" for Q by (simp add: res_x_def)
  moreover have "sp_mul residue_secp P s = res (si s * Rep_residue P)" "sp_xonly residue_secp P = (res_x P, res_parity P)" for P s
    by (simp_all add: residue_secp_def)
  ultimately show ?thesis
    using residue_xonly by (simp add: ecdh_law_def residue_nip44_def)
qed

theorem nip44_conversation_witness:
  "\<exists>payload. encrypt (\<lambda>_. SCALAR_ONE) ''hello'' (conversation_key residue_nip44 SCALAR_ONE
        (fst (sp_xonly residue_secp (sp_public residue_secp (scalar_of 3))))) (replicate 32 9) = Inr payload
     \<and> decrypt (\<lambda>_. SCALAR_ONE) payload (conversation_key residue_nip44 (scalar_of 3)
        (fst (sp_xonly residue_secp (sp_public residue_secp SCALAR_ONE)))) = Inr ''hello''"
proof -
  have nc: "nc_secp residue_nip44 = residue_secp" by (simp add: residue_nip44_def)
  have sha: "(\<lambda>_. SCALAR_ONE) = tc_sha256 (sp_taproot residue_secp)" by (simp add: residue_secp_def residue_taproot_def)
  have b: "secret32 (scalar_of 3)" using sample_partial by (simp add: secret32_def)
  have u: "utf8_valid (as_bytes ''hello'')" by code_simp
  have hello: "''hello'' \<noteq> []" "length ''hello'' \<le> 262144" by simp_all
  obtain payload where p: "encrypt (\<lambda>_. SCALAR_ONE) ''hello'' (conversation_key residue_nip44 SCALAR_ONE
        (fst (sp_xonly residue_secp (sp_public residue_secp (scalar_of 3))))) (replicate 32 9) = Inr payload"
    using encrypt_total [OF hello] by metis
  have "si SCALAR_ONE * si (scalar_of 3) mod N \<noteq> 0" using sample_partial by simp
  from nip44_conversation [of residue_nip44, unfolded nc, OF residue_laws residue_ecdh_law SCALAR_ONE_neq(2) b this refl refl sha _ u p]
  show ?thesis using p by auto
qed

end
