(* ===== verification/Quote_Weights.thy ===== *)
theory Quote_Weights
  imports Swap_Scripts
begin

text \<open>
  The weights a quote is priced with (\<open>immortal-provider/src/pricing.rs\<close>, first part): the claim
  and refund leaf scripts the provider makes, and the virtual size of the transactions that spend
  them. The scripts are the canonical scripts of their leaves, and the closed formula is the
  virtual size the transaction codec computes, so no claim, refund or lockup transaction is larger
  than what the quote charges for.
\<close>

section \<open>Definitions\<close>

record swap_client_error =
  sce_code :: string
  sce_detail :: string

definition provider_error :: "string \<Rightarrow> string \<Rightarrow> swap_client_error" where
  "provider_error code detail = \<lparr>sce_code = code, sce_detail = detail\<rparr>"

datatype swap_type = Submarine | Reverse | Chain

definition MAX_FEERATE_SAT_PER_VB :: u64 where "MAX_FEERATE_SAT_PER_VB = 2000"
definition LIQUID_SINGLE_INPUT_FUNDING_VBYTES :: u64 where "LIQUID_SINGLE_INPUT_FUNDING_VBYTES = 1700"
definition LIQUID_CLAIM_VBYTES :: u64 where "LIQUID_CLAIM_VBYTES = 300"
definition LIQUID_REFUND_VBYTES :: u64 where "LIQUID_REFUND_VBYTES = 300"
definition SCHNORR_SIG_WORST_CASE_BYTES :: nat where "SCHNORR_SIG_WORST_CASE_BYTES = 65"
definition CONTROL_BLOCK_DEPTH1_BYTES :: nat where "CONTROL_BLOCK_DEPTH1_BYTES = 65"

definition production_claim_leaf_script :: "u8 list \<Rightarrow> u8 list \<Rightarrow> u8 list" where
  "production_claim_leaf_script payment_hash signing_key =
     [0x82, 0x01, 0x20, 0x88, 0xa8, 0x20] @ payment_hash @ [0x88, 0x20] @ signing_key @ [0xac]"

text \<open>The loop that takes the bytes of the number, least significant first.\<close>

function script_number_bytes :: "u32 \<Rightarrow> u8 list" where
  "script_number_bytes remaining =
     (if remaining = 0 then [] else ucast (remaining AND 0xff) # script_number_bytes (drop_bit 8 remaining))"
  by pat_completeness auto
termination
proof (relation "measure unat", goal_cases)
  case (2 remaining)
  then have "0 < unat remaining" by (simp add: unat_gt_0)
  then show ?case using unat_div_distrib [of remaining 256] by (simp add: drop_bit_eq_div)
qed simp

declare script_number_bytes.simps [simp del]

definition encode_script_number :: "u32 \<Rightarrow> u8 list" where
  "encode_script_number value =
     (let encoded = script_number_bytes value
      in if encoded \<noteq> [] \<and> last encoded AND 0x80 \<noteq> 0 then encoded @ [0] else encoded)"

definition refund_leaf_script :: "u32 \<Rightarrow> u8 list \<Rightarrow> u8 list" where
  "refund_leaf_script refund_height signing_key =
     (let lock = encode_script_number refund_height
      in [of_nat (length lock)] @ lock @ [0xb1, 0x75, 0x20] @ signing_key @ [0xac])"

definition production_refund_leaf_script :: "u32 \<Rightarrow> u8 list \<Rightarrow> u8 list option" where
  "production_refund_leaf_script refund_height signing_key =
     (if refund_height = 0 \<or> 500000000 \<le> refund_height then None
      else Some (refund_leaf_script refund_height signing_key))"

definition claim_leaf_script_template :: "u8 list" where
  "claim_leaf_script_template = production_claim_leaf_script (replicate 32 0) (replicate 32 0)"

definition refund_leaf_script_template :: "u8 list" where
  "refund_leaf_script_template = refund_leaf_script 499999999 (replicate 32 0)"

definition spend_vbytes :: "nat list \<Rightarrow> u64 \<Rightarrow> u64" where
  "spend_vbytes witness_item_lens output_count =
     (let base = 4 + 1 + 41 + 1 + output_count * 43 + 4;
          witness = foldl (\<lambda>witness n. witness + (1 + of_nat n)) (2 + 1) witness_item_lens;
          weight = base * 4 + witness
      in (if weight mod 4 = 0 then weight div 4 else weight div 4 + 1))"

definition claim_spend_vbytes :: u64 where
  "claim_spend_vbytes =
     spend_vbytes [SCHNORR_SIG_WORST_CASE_BYTES, 32, length claim_leaf_script_template, CONTROL_BLOCK_DEPTH1_BYTES] 1"

definition refund_spend_vbytes :: u64 where
  "refund_spend_vbytes =
     spend_vbytes [SCHNORR_SIG_WORST_CASE_BYTES, length refund_leaf_script_template, CONTROL_BLOCK_DEPTH1_BYTES] 1"

definition lockup_vbytes :: u64 where
  "lockup_vbytes = spend_vbytes [SCHNORR_SIG_WORST_CASE_BYTES] 2"

fun worst_case_redeem_vbytes :: "swap_type \<Rightarrow> u64" where
  "worst_case_redeem_vbytes Submarine = claim_spend_vbytes"
| "worst_case_redeem_vbytes Reverse = lockup_vbytes + refund_spend_vbytes"
| "worst_case_redeem_vbytes Chain = lockup_vbytes + max claim_spend_vbytes refund_spend_vbytes"

definition liquid_submarine_quote_vbytes :: u64 where
  "liquid_submarine_quote_vbytes = LIQUID_CLAIM_VBYTES"

definition liquid_reverse_quote_vbytes :: u64 where
  "liquid_reverse_quote_vbytes = LIQUID_SINGLE_INPUT_FUNDING_VBYTES + LIQUID_REFUND_VBYTES"

definition bitcoin_to_liquid_chain_quote_vbytes :: u64 where
  "bitcoin_to_liquid_chain_quote_vbytes =
     LIQUID_SINGLE_INPUT_FUNDING_VBYTES + max LIQUID_REFUND_VBYTES claim_spend_vbytes"

definition liquid_to_bitcoin_chain_quote_vbytes :: u64 where
  "liquid_to_bitcoin_chain_quote_vbytes = lockup_vbytes + max LIQUID_CLAIM_VBYTES refund_spend_vbytes"

definition funding_feerate_from_priced_vbytes :: "u64 \<Rightarrow> u64 \<Rightarrow> (swap_client_error, u64) result" where
  "funding_feerate_from_priced_vbytes priced_vbytes miner_fee_budget_sat =
     (if priced_vbytes = 0
      then Inl (provider_error ''swp_invalid_fee'' ''signed miner-fee weight must be positive'')
      else if miner_fee_budget_sat mod priced_vbytes \<noteq> 0
      then Inl (provider_error ''swp_invalid_fee'' ''signed miner-fee budget does not encode an exact feerate'')
      else let sat_per_vb = miner_fee_budget_sat div priced_vbytes
           in if \<not> (1 \<le> sat_per_vb \<and> sat_per_vb \<le> MAX_FEERATE_SAT_PER_VB)
              then Inl (provider_error ''swp_invalid_fee'' ''signed funding feerate is outside the provider bound'')
              else Inr sat_per_vb)"

definition funding_feerate_from_quote_budget :: "swap_type \<Rightarrow> u64 \<Rightarrow> (swap_client_error, u64) result" where
  "funding_feerate_from_quote_budget swap_type miner_fee_budget_sat =
     funding_feerate_from_priced_vbytes (worst_case_redeem_vbytes swap_type) miner_fee_budget_sat"

section \<open>The leaf scripts\<close>

lemma script_number_bytes_step:
  fixes r :: u32
  shows "unat (ucast (r AND 0xff) :: u8) = unat r mod 256" "unat (drop_bit 8 r) = unat r div 256"
proof -
  have "r AND 0xff = take_bit 8 r" by (simp add: take_bit_eq_mask mask_eq_exp_minus_1)
  then have "ucast (r AND 0xff) = (ucast r :: u8)" by (auto intro!: bit_eqI simp: bit_simps)
  then show "unat (ucast (r AND 0xff) :: u8) = unat r mod 256" by (simp add: unsigned_ucast_eq take_bit_eq_mod)
  show "unat (drop_bit 8 r) = unat r div 256" using unat_div_distrib [of r 256] by (simp add: drop_bit_eq_div)
qed

lemma script_number_bytes_facts:
  assumes "v \<noteq> 0"
  shows "le_nat (script_number_bytes v) = unat v" "script_number_bytes v \<noteq> []" "last (script_number_bytes v) \<noteq> 0"
proof -
  have "le_nat (script_number_bytes v) = unat v \<and> (v \<noteq> 0 \<longrightarrow> script_number_bytes v \<noteq> [] \<and> last (script_number_bytes v) \<noteq> 0)"
  proof (induction v rule: script_number_bytes.induct)
    case (1 r)
    show ?case
    proof (cases "r = 0")
      case False
      note step = script_number_bytes_step [of r]
      have s: "script_number_bytes r = ucast (r AND 0xff) # script_number_bytes (drop_bit 8 r)"
        using False by (subst script_number_bytes.simps) simp
      have "ucast (r AND 0xff) \<noteq> (0 :: u8)" if "drop_bit 8 r = 0"
      proof -
        have "unat r div 256 = 0" using that step(2) by simp
        then have "unat r mod 256 = unat r" by simp
        then show ?thesis using False step(1) by (metis unat_eq_0)
      qed
      then show ?thesis using 1 [OF False] step unfolding s
        by (cases "drop_bit 8 r = 0") (auto simp: script_number_bytes.simps [of 0])
    qed (simp add: script_number_bytes.simps [of 0])
  qed
  with assms show "le_nat (script_number_bytes v) = unat v" "script_number_bytes v \<noteq> []" "last (script_number_bytes v) \<noteq> 0"
    by simp_all
qed

lemma le_nat_last: "bs \<noteq> [] \<Longrightarrow> last bs \<noteq> 0 \<Longrightarrow> 256 ^ (length bs - 1) \<le> le_nat bs"
proof -
  assume b: "bs \<noteq> []" "last bs \<noteq> 0"
  have "le_nat bs = le_nat (butlast bs) + 256 ^ (length bs - 1) * unat (last bs)"
    using b(1) le_nat_append [of "butlast bs" "[last bs]"] by simp
  moreover have "1 \<le> unat (last bs)" using b(2) by (simp add: Suc_le_eq unat_gt_0)
  ultimately show ?thesis by (metis le_add2 le_trans mult.right_neutral mult_le_mono2)
qed

lemma encode_script_number_eq:
  assumes "v \<noteq> 0"
  shows "encode_script_number v = script_number v"
proof -
  let ?s = "script_number_bytes v"
  note f = script_number_bytes_facts [OF assms]
  have "256 ^ (length ?s - 1) \<le> unat v" using le_nat_last [OF f(2,3)] f(1) by simp
  also have "\<dots> < 256 ^ 4" using unat_bound [of v] by simp
  finally have "length ?s - 1 < 4" by (rule power_less_imp_less_exp [rotated]) simp
  then have "length ?s \<le> 4" by simp
  then have "parse_script_number (encode_script_number v) = Inr v"
    using f unfolding parse_script_number_value encode_script_number_def Let_def sign_bit
    by (auto simp: le_nat_append nth_append last_conv_nth unat_eq_0)
  then show ?thesis by (simp add: parse_script_number_iff)
qed

lemma encode_script_number_length: "v \<noteq> 0 \<Longrightarrow> v < 500000000 \<Longrightarrow> length (encode_script_number v) \<le> 4"
  by (simp add: encode_script_number_eq script_number_facts number_bytes_unat word_less_nat_alt)

text \<open>The provider's scripts are the canonical scripts of their leaves.\<close>

lemma production_scripts_bytes:
  assumes "length key = 32"
  shows "length h = 32 \<Longrightarrow> production_claim_leaf_script h key
      = script_bytes (leaf_instructions \<lparr>pl_signing_key = key, pl_condition = Hashlock h\<rparr>)"
    "height \<noteq> 0 \<Longrightarrow> refund_leaf_script height key
      = script_bytes (leaf_instructions \<lparr>pl_signing_key = key, pl_condition = Cltv height\<rparr>)"
proof -
  show "production_claim_leaf_script h key
      = script_bytes (leaf_instructions \<lparr>pl_signing_key = key, pl_condition = Hashlock h\<rparr>)" if "length h = 32"
    using that assms by (simp add: production_claim_leaf_script_def leaf_instructions_def script_bytes_def push_bytes_def)
  show "refund_leaf_script height key
      = script_bytes (leaf_instructions \<lparr>pl_signing_key = key, pl_condition = Cltv height\<rparr>)" if "height \<noteq> 0"
    using that assms number_bytes_le [of height]
    by (simp add: refund_leaf_script_def leaf_instructions_def script_bytes_def push_bytes_def encode_script_number_eq
        script_number_facts)
qed

section \<open>The virtual sizes\<close>

definition spend_size :: "nat list \<Rightarrow> nat \<Rightarrow> nat" where
  "spend_size lens outputs = (4 * (51 + 43 * outputs) + 3 + sum_list (map Suc lens) + 3) div 4"

lemma sum_Suc_bound: "list_all (\<lambda>n. n < 253) lens \<Longrightarrow> sum_list (map Suc lens) \<le> 253 * length lens"
  by (induction lens) auto

lemma spend_vbytes_size:
  assumes "length lens \<le> 16" "list_all (\<lambda>n. n < 253) lens" "outputs \<le> 252"
  shows "spend_vbytes lens (of_nat outputs) = of_nat (spend_size lens outputs)" "spend_size lens outputs < 2 ^ 63"
proof -
  let ?n = "sum_list (map Suc lens)"
  have n: "?n \<le> 253 * length lens" using assms(2) by (rule sum_Suc_bound)
  have fold: "foldl (\<lambda>witness n. witness + (1 + of_nat n)) acc xs = acc + of_nat (sum_list (map Suc xs))"
    for acc :: u64 and xs
    by (induction xs arbitrary: acc) (simp_all add: algebra_simps)
  let ?w = "4 * (51 + 43 * outputs) + 3 + ?n"
  have w: "(4 + 1 + 41 + 1 + of_nat outputs * 43 + 4) * 4 + foldl (\<lambda>witness n. witness + (1 + of_nat n)) (2 + 1) lens
      = (of_nat ?w :: u64)"
    unfolding fold by (simp add: algebra_simps)
  have u: "unat (of_nat ?w :: u64) = ?w" using n assms(1,3) by (intro unat_of_nat_small) simp
  have d: "unat (of_nat (?w div 4) :: u64) = ?w div 4" "unat (of_nat (?w mod 4) :: u64) = ?w mod 4"
    using n assms(1,3) by (intro unat_of_nat_small; simp)+
  have c: "of_nat ?w mod (4 :: u64) = of_nat (?w mod 4)" "of_nat ?w div (4 :: u64) = of_nat (?w div 4)"
    using u d by (simp_all add: word_unat_eq_iff unat_mod unat_div del: of_nat_add of_nat_mult)
  have z: "of_nat (?w mod 4) = (0 :: u64) \<longleftrightarrow> ?w mod 4 = 0"
    using d(2) by (metis unat_eq_0)
  have round_up: "(m + 3) div 4 = (if m mod 4 = 0 then m div 4 else m div 4 + 1)" for m :: nat by presburger
  have "spend_size lens outputs = (if ?w mod 4 = 0 then ?w div 4 else ?w div 4 + 1)"
    unfolding spend_size_def by (rule round_up)
  then show "spend_vbytes lens (of_nat outputs) = of_nat (spend_size lens outputs)"
    unfolding spend_vbytes_def Let_def w c z by simp
  show "spend_size lens outputs < 2 ^ 63" using n assms(1,3) by (simp add: spend_size_def)
qed

text \<open>The formula is the virtual size that the transaction codec computes for such a transaction.\<close>

lemma spend_vbytes_virtual_size:
  assumes i: "length (ti_previous_txid i) = 32" "ti_script_sig i = []" "ti_witness i \<noteq> []"
    and w: "length (ti_witness i) \<le> 16" "list_all (\<lambda>item. length item < 253) (ti_witness i)"
    and outs: "outs \<noteq> []" "length outs \<le> 252" "list_all (\<lambda>out. length (to_script_pubkey out) = 34) outs"
  shows "virtual_size (new_transaction version [i] outs lock_time)
    = Inr (spend_vbytes (map length (ti_witness i)) (of_nat (length outs)))"
proof -
  let ?tx = "new_transaction version [i] outs lock_time" and ?n = "sum_list (map Suc (map length (ti_witness i)))"
  have o: "length (concat (map output_bytes outs)) = 43 * length outs"
    using outs(3) by (induction outs) (simp_all add: output_bytes_def length_write_var_bytes compact_size_length_def)
  have "length (concat (map write_var_bytes xs)) = sum_list (map Suc (map length xs))"
    if "list_all (\<lambda>item. length item < 253) xs" for xs
    using that by (induction xs) (simp_all add: length_write_var_bytes compact_size_length_def)
  then have wb: "length (witness_bytes (ti_witness i)) = 1 + ?n"
    using w by (simp add: witness_bytes_def length_write_compact_size compact_size_length_def)
  have ib: "length (input_bytes i) = 41" using i by (simp add: input_bytes_def length_write_var_bytes compact_size_length_def)
  have l: "length (layout ?tx v) = 51 + 43 * length outs + (if v then 3 + ?n else 0)" for v
    using o wb ib outs(2) by (simp add: layout_def new_transaction_def length_write_compact_size compact_size_length_def)
  have n: "?n \<le> 253 * length (ti_witness i)" 
    using w(2) sum_Suc_bound [of "map length (ti_witness i)"] by (simp add: list_all_iff)
  have lim: "within_limits ?tx v" for v
    unfolding within_limits_def l using i outs w n
    by (auto simp: new_transaction_def tx_limits witness_ok_def list_all_iff)
  have any: "any_witness [i]" using i(3) by (simp add: any_witness_def)
  have "serialize ?tx False = Inr (layout ?tx False)" "serialize ?tx True = Inr (layout ?tx True)"
    using lim any by (simp_all add: serialize_iff new_transaction_def)
  then obtain wt v :: u64 where v: "virtual_size ?tx = Inr v" "unat wt = 3 * length (layout ?tx False) + length (layout ?tx True)"
    "unat v = (unat wt + 3) div 4" using tx_weight by blast
  have "unat v = spend_size (map length (ti_witness i)) (length outs)"
    unfolding v(2,3) l spend_size_def by (simp add: algebra_simps)
  moreover have "spend_vbytes (map length (ti_witness i)) (of_nat (length outs))
      = of_nat (spend_size (map length (ti_witness i)) (length outs))" "spend_size (map length (ti_witness i)) (length outs) < 2 ^ 63"
    using w outs(2) by (intro spend_vbytes_size; simp add: list_all_iff)+
  ultimately have "v = spend_vbytes (map length (ti_witness i)) (of_nat (length outs))"
    by (simp add: word_unat_eq_iff unat_of_nat_small)
  with v(1) show ?thesis by simp
qed

lemma spend_size_mono: "list_all2 (\<le>) xs ys \<Longrightarrow> spend_size xs outputs \<le> spend_size ys outputs"
proof -
  assume "list_all2 (\<le>) xs ys"
  then have "sum_list (map Suc xs) \<le> sum_list (map Suc ys)" by (induction rule: list_all2_induct) simp_all
  then show ?thesis unfolding spend_size_def by (intro div_le_mono) simp
qed

lemma template_lengths: "length claim_leaf_script_template = 73" "length refund_leaf_script_template = 41"
proof -
  show "length claim_leaf_script_template = 73"
    by (simp add: claim_leaf_script_template_def production_claim_leaf_script_def)
  have "length (encode_script_number 499999999) = 4"
    by (simp add: encode_script_number_eq script_number_facts number_bytes_def)
  then show "length refund_leaf_script_template = 41"
    by (simp add: refund_leaf_script_template_def refund_leaf_script_def Let_def)
qed

lemma refund_leaf_script_length:
  assumes "production_refund_leaf_script height key = Some script" "length key = 32"
  shows "length script \<le> 41" "height \<noteq> 0" "script = refund_leaf_script height key"
  using assms encode_script_number_length [of height]
  by (auto simp: production_refund_leaf_script_def refund_leaf_script_def Let_def split: if_splits)

lemma spend_within:
  assumes "length (ti_previous_txid i) = 32" "ti_script_sig i = []" "lens \<noteq> []" "length lens \<le> 16"
    "list_all2 (\<lambda>item n. length item \<le> n) (ti_witness i) lens" "list_all (\<lambda>n. n < 253) lens"
    "outs \<noteq> []" "length outs \<le> 252" "list_all (\<lambda>out. length (to_script_pubkey out) = 34) outs"
  obtains v where "virtual_size (new_transaction version [i] outs lock_time) = Inr v"
    "v \<le> spend_vbytes lens (of_nat (length outs))"
proof -
  let ?items = "map length (ti_witness i)"
  have w: "length (ti_witness i) = length lens" "list_all2 (\<le>) ?items lens"
    using assms(5) by (auto simp: list_all2_lengthD list_all2_map1)
  have s: "list_all (\<lambda>item. length item < 253) (ti_witness i)" "list_all (\<lambda>n. n < 253) ?items"
    using assms(5,6) by (induction rule: list_all2_induct) auto
  have "ti_witness i \<noteq> []" using w(1) assms(3) by auto
  then have v: "virtual_size (new_transaction version [i] outs lock_time) = Inr (spend_vbytes ?items (of_nat (length outs)))"
    using assms w(1) s by (intro spend_vbytes_virtual_size) simp_all
  note a = spend_vbytes_size [of ?items "length outs"] and b = spend_vbytes_size [of lens "length outs"]
  have "spend_vbytes ?items (of_nat (length outs)) \<le> spend_vbytes lens (of_nat (length outs))"
    using a b s assms(4,6,8) w(1) spend_size_mono [OF w(2), of "length outs"]
    by (simp add: word_le_nat_alt unat_of_nat_small)
  with v show thesis by (rule that)
qed

lemma priced_sizes: "claim_spend_vbytes = 155" "refund_spend_vbytes = 139" "lockup_vbytes = 155"
  unfolding claim_spend_vbytes_def refund_spend_vbytes_def lockup_vbytes_def template_lengths
    SCHNORR_SIG_WORST_CASE_BYTES_def CONTROL_BLOCK_DEPTH1_BYTES_def
  by (simp_all add: spend_vbytes_def Let_def)

text \<open>A budget that is the priced size times a rate within the bounds gives the rate back.\<close>

lemma funding_feerate_exact:
  assumes "unat budget = unat vbytes * unat rate" "vbytes \<noteq> 0" "1 \<le> rate" "rate \<le> MAX_FEERATE_SAT_PER_VB"
  shows "funding_feerate_from_priced_vbytes vbytes budget = Inr rate"
proof -
  have "0 < unat vbytes" using assms(2) by (simp add: word_neq_0_conv word_less_nat_alt)
  then have "budget mod vbytes = 0" "budget div vbytes = rate"
    using assms(1) by (simp_all add: word_unat_eq_iff unat_mod unat_div)
  then show ?thesis using assms(2-4) by (simp add: funding_feerate_from_priced_vbytes_def Let_def)
qed

section \<open>Properties\<close>

text \<open>C40: a quote charges for the largest transactions it may need. The provider's claim and refund
  scripts are read back as the leaf with the payment hash or the refund height and the signing key;
  and every transaction with one input without script and Taproot outputs that claims through such a
  leaf (signature of at most 65 bytes, preimage, script, control block of one sibling), refunds
  through one, or pays a lockup and change from the wallet has a virtual size of at most
  \<open>claim_spend_vbytes\<close>, \<open>refund_spend_vbytes\<close> and \<open>lockup_vbytes\<close>, which are 155, 139 and 155.\<close>

theorem quote_weights_cover:
  assumes "length (ti_previous_txid i) = 32" "ti_script_sig i = []" "length signature \<le> 65" "length preimage = 32"
    and "length control = 65" "length h = 32" "length key = 32" "xonly_ok key"
    and "production_refund_leaf_script height key = Some refund"
    and "length (to_script_pubkey out) = 34" "length (to_script_pubkey change) = 34"
  defines "claim \<equiv> production_claim_leaf_script h key"
  shows "parse_swap_leaf_script xonly_ok claim = Inr \<lparr>pl_signing_key = key, pl_condition = Hashlock h\<rparr>
    \<and> parse_swap_leaf_script xonly_ok refund = Inr \<lparr>pl_signing_key = key, pl_condition = Cltv height\<rparr>
    \<and> (\<exists>v. virtual_size (new_transaction version [i\<lparr>ti_witness := [signature, preimage, claim, control]\<rparr>] [out] lock_time)
          = Inr v \<and> v \<le> claim_spend_vbytes)
    \<and> (\<exists>v. virtual_size (new_transaction version [i\<lparr>ti_witness := [signature, refund, control]\<rparr>] [out] lock_time)
          = Inr v \<and> v \<le> refund_spend_vbytes)
    \<and> (\<exists>v. virtual_size (new_transaction version [i\<lparr>ti_witness := [signature]\<rparr>] [out, change] lock_time)
          = Inr v \<and> v \<le> lockup_vbytes)
    \<and> claim_spend_vbytes = 155 \<and> refund_spend_vbytes = 139 \<and> lockup_vbytes = 155"
proof (intro conjI)
  note r = refund_leaf_script_length [OF assms(9,7)]
  note lens = template_lengths SCHNORR_SIG_WORST_CASE_BYTES_def CONTROL_BLOCK_DEPTH1_BYTES_def
  have c: "length claim = 73" using assms(6,7) by (simp add: claim_def production_claim_leaf_script_def)
  let ?cl = "\<lparr>pl_signing_key = key, pl_condition = Hashlock h\<rparr>" and ?rl = "\<lparr>pl_signing_key = key, pl_condition = Cltv height\<rparr>"
  have ok: "leaf_ok xonly_ok ?cl" "leaf_ok xonly_ok ?rl" using assms(6,7,8) r(2) by (simp_all add: leaf_ok_def)
  show "parse_swap_leaf_script xonly_ok claim = Inr ?cl"
    unfolding claim_def production_scripts_bytes(1) [OF assms(7,6)]
    by (rule parse_leaf_instructions [OF leaf_bytes [OF ok(1)] ok(1)])
  show "parse_swap_leaf_script xonly_ok refund = Inr ?rl"
    unfolding r(3) production_scripts_bytes(2) [OF assms(7) r(2)]
    by (rule parse_leaf_instructions [OF leaf_bytes [OF ok(2)] ok(2)])
  show "claim_spend_vbytes = 155" "refund_spend_vbytes = 139" "lockup_vbytes = 155" by (rule priced_sizes)+
  show "\<exists>v. virtual_size (new_transaction version [i\<lparr>ti_witness := [signature, preimage, claim, control]\<rparr>] [out] lock_time)
          = Inr v \<and> v \<le> claim_spend_vbytes"
    by (rule spend_within [of "i\<lparr>ti_witness := [signature, preimage, claim, control]\<rparr>" "[65, 32, 73, 65]" "[out]"])
      (use assms c in \<open>auto simp: claim_spend_vbytes_def lens\<close>)
  show "\<exists>v. virtual_size (new_transaction version [i\<lparr>ti_witness := [signature, refund, control]\<rparr>] [out] lock_time)
          = Inr v \<and> v \<le> refund_spend_vbytes"
    by (rule spend_within [of "i\<lparr>ti_witness := [signature, refund, control]\<rparr>" "[65, 41, 65]" "[out]"])
      (use assms r(1) in \<open>auto simp: refund_spend_vbytes_def lens\<close>)
  show "\<exists>v. virtual_size (new_transaction version [i\<lparr>ti_witness := [signature]\<rparr>] [out, change] lock_time)
          = Inr v \<and> v \<le> lockup_vbytes"
    by (rule spend_within [of "i\<lparr>ti_witness := [signature]\<rparr>" "[65]" "[out, change]"])
      (use assms in \<open>auto simp: lockup_vbytes_def lens\<close>)
qed

theorem quote_weights_cover_witness:
  "\<exists>v. virtual_size (new_transaction 2 [\<lparr>ti_previous_txid = replicate 32 1, ti_previous_output = 0, ti_script_sig = [],
        ti_sequence = 0, ti_witness = [replicate 64 1, replicate 32 2, production_claim_leaf_script (replicate 32 3) (replicate 32 4),
        replicate 65 5]\<rparr>] [\<lparr>to_value_sat = 1000, to_script_pubkey = replicate 34 6\<rparr>] 0) = Inr v \<and> v \<le> claim_spend_vbytes
    \<and> claim_spend_vbytes = 155"
proof -
  have "production_refund_leaf_script 800000 (replicate 32 4) = Some (refund_leaf_script 800000 (replicate 32 4))"
    by (simp add: production_refund_leaf_script_def)
  from quote_weights_cover [where i = "\<lparr>ti_previous_txid = replicate 32 1, ti_previous_output = 0, ti_script_sig = [],
        ti_sequence = 0, ti_witness = []\<rparr>" and signature = "replicate 64 1" and preimage = "replicate 32 2"
      and control = "replicate 65 5" and h = "replicate 32 3" and key = "replicate 32 4" and xonly_ok = "\<lambda>_. True"
      and height = 800000 and out = "\<lparr>to_value_sat = 1000, to_script_pubkey = replicate 34 6\<rparr>"
      and change = "\<lparr>to_value_sat = 1000, to_script_pubkey = replicate 34 6\<rparr>" and version = 2 and lock_time = 0, OF _ _ _ _ _ _ _ _ this]
  show ?thesis by simp
qed

end
