(* ===== verification/Pricing.thy ===== *)
theory Pricing
  imports Quote_Weights
begin

text \<open>
  Quote derivation (\<open>immortal-provider/src/pricing.rs\<close>, second part): the pricing configuration
  read from the environment, the fee rate, the price feed, and \<open>derive_quote\<close>, which turns a
  requested amount into the input, output and fee terms of a quote. A \<open>u128\<close> intermediate value is a
  natural number: no product of two 64-bit values, nor the sums taken here, reaches \<open>2\<^sup>1\<^sup>2\<^sup>8\<close>.
  The JSON reader of a price feed packet is an argument.
\<close>

section \<open>Configuration\<close>

definition MAX_AMOUNT_SAT :: u64 where "MAX_AMOUNT_SAT = 2100000000000000"
definition MAX_SPREAD_BPS :: u64 where "MAX_SPREAD_BPS = 1000"
definition MAX_QUOTE_EXPIRY_SECONDS :: u64 where "MAX_QUOTE_EXPIRY_SECONDS = 3600"
definition MAX_LIGHTNING_ROUTING_FEE_PPM :: u64 where "MAX_LIGHTNING_ROUTING_FEE_PPM = 100000"
definition PRICE_FEED_SCHEMA :: string where "PRICE_FEED_SCHEMA = ''openagents.immortal.provider-price-feed.v1''"
definition MAX_PRICE_FEED_BYTES :: nat where "MAX_PRICE_FEED_BYTES = 16384"
definition MAX_PRICE_FEED_AGE_SECONDS :: u64 where "MAX_PRICE_FEED_AGE_SECONDS = 3600"
definition MAX_REALIZED_VOLATILITY_BPS :: u64 where "MAX_REALIZED_VOLATILITY_BPS = 100000"
definition MAX_INDEX_PRICE_USD_CENTS :: u64 where "MAX_INDEX_PRICE_USD_CENTS = 10000000000"
definition REFERENCE_REALIZED_VOLATILITY_BPS :: u64 where "REFERENCE_REALIZED_VOLATILITY_BPS = 5000"
definition SATOSHIS_PER_BITCOIN :: u64 where "SATOSHIS_PER_BITCOIN = 100000000"
definition CHAIN_OUTPUT_DUST_SAT :: u64 where "CHAIN_OUTPUT_DUST_SAT = 330"
definition LIGHTNING_OUTPUT_FLOOR_SAT :: u64 where "LIGHTNING_OUTPUT_FLOOR_SAT = 1"
definition MIN_VIABLE_SEARCH_STEPS :: nat where "MIN_VIABLE_SEARCH_STEPS = 64"

datatype reservation_tier = TierNone | TierSoft | TierHard

fun tier_as_str :: "reservation_tier \<Rightarrow> string" where
  "tier_as_str TierNone = ''none''"
| "tier_as_str TierSoft = ''soft''"
| "tier_as_str TierHard = ''hard''"

record pricing_config =
  pc_spread_bps :: u64
  pc_fallback_feerate_sat_per_vb :: "u64 option"
  pc_min_swap_sat :: u64
  pc_max_swap_sat :: u64
  pc_quote_expiry_seconds :: u64
  pc_reservation_tier :: reservation_tier
  pc_lightning_routing_fee_ppm :: u64

definition validate_pricing :: "pricing_config \<Rightarrow> (string, unit) result" where
  "validate_pricing config =
     (if MAX_SPREAD_BPS < pc_spread_bps config
      then Inl ''IMMORTAL_PROVIDER_SPREAD_BPS must be between 0 and 1000''
      else if (case pc_fallback_feerate_sat_per_vb config of
                 None \<Rightarrow> False
               | Some fallback \<Rightarrow> \<not> (1 \<le> fallback \<and> fallback \<le> MAX_FEERATE_SAT_PER_VB))
      then Inl ''IMMORTAL_PROVIDER_FALLBACK_FEERATE_SAT_PER_VB must be between 1 and 2000''
      else if pc_min_swap_sat config = 0
      then Inl ''IMMORTAL_PROVIDER_QUOTE_MIN_SAT must be positive''
      else if pc_max_swap_sat config < pc_min_swap_sat config
      then Inl ''IMMORTAL_PROVIDER_QUOTE_MAX_SAT must be at least IMMORTAL_PROVIDER_QUOTE_MIN_SAT''
      else if MAX_AMOUNT_SAT < pc_max_swap_sat config
      then Inl ''IMMORTAL_PROVIDER_QUOTE_MAX_SAT must be at most 2100000000000000''
      else if \<not> (1 \<le> pc_quote_expiry_seconds config \<and> pc_quote_expiry_seconds config \<le> MAX_QUOTE_EXPIRY_SECONDS)
      then Inl ''IMMORTAL_PROVIDER_QUOTE_EXPIRY_SECONDS must be between 1 and 3600''
      else if MAX_LIGHTNING_ROUTING_FEE_PPM < pc_lightning_routing_fee_ppm config
      then Inl ''IMMORTAL_PROVIDER_LN_ROUTING_FEE_PPM must be between 0 and 100000''
      else Inr ())"

definition parse_or :: "(string \<Rightarrow> string option) \<Rightarrow> string \<Rightarrow> string \<Rightarrow> (string, u64) result" where
  "parse_or lookup name default_text =
     ok_or (parse_u64 (case lookup name of None \<Rightarrow> default_text | Some v \<Rightarrow> v))
       (name @ '' is not a valid non-negative integer'')"

definition parse_optional :: "(string \<Rightarrow> string option) \<Rightarrow> string \<Rightarrow> (string, u64 option) result" where
  "parse_optional lookup name =
     (case lookup name of
        None \<Rightarrow> Inr None
      | Some v \<Rightarrow> try_then (ok_or (parse_u64 v) (name @ '' is not a valid non-negative integer'')) (\<lambda>n. Inr (Some n)))"

definition pricing_from_lookup :: "(string \<Rightarrow> string option) \<Rightarrow> (string, pricing_config) result" where
  "pricing_from_lookup lookup =
     try_then (parse_or lookup ''IMMORTAL_PROVIDER_SPREAD_BPS'' ''0'') (\<lambda>spread_bps.
     try_then (parse_optional lookup ''IMMORTAL_PROVIDER_FALLBACK_FEERATE_SAT_PER_VB'') (\<lambda>fallback.
     try_then (parse_or lookup ''IMMORTAL_PROVIDER_QUOTE_MIN_SAT'' ''10000'') (\<lambda>min_swap_sat.
     try_then (parse_or lookup ''IMMORTAL_PROVIDER_QUOTE_MAX_SAT'' ''1000000'') (\<lambda>max_swap_sat.
     try_then (parse_or lookup ''IMMORTAL_PROVIDER_QUOTE_EXPIRY_SECONDS'' ''300'') (\<lambda>expiry.
     try_then (let tier = (case lookup ''IMMORTAL_PROVIDER_RESERVATION_TIER'' of None \<Rightarrow> ''hard'' | Some v \<Rightarrow> v)
               in if tier = ''none'' then Inr TierNone
                  else if tier = ''soft'' then Inr TierSoft
                  else if tier = ''hard'' then Inr TierHard
                  else Inl ''IMMORTAL_PROVIDER_RESERVATION_TIER must be one of none, soft, hard'') (\<lambda>tier.
     try_then (parse_or lookup ''IMMORTAL_PROVIDER_LN_ROUTING_FEE_PPM'' ''0'') (\<lambda>ppm.
     let config = \<lparr>pc_spread_bps = spread_bps, pc_fallback_feerate_sat_per_vb = fallback, pc_min_swap_sat = min_swap_sat,
           pc_max_swap_sat = max_swap_sat, pc_quote_expiry_seconds = expiry, pc_reservation_tier = tier,
           pc_lightning_routing_fee_ppm = ppm\<rparr>
     in try_then (validate_pricing config) (\<lambda>_. Inr config))))))))"

section \<open>Fee rate and price feed\<close>

datatype feerate_observation =
    Live u64 string
  | Fallback u64

fun sat_per_vb :: "feerate_observation \<Rightarrow> u64" where
  "sat_per_vb (Live rate source) = rate"
| "sat_per_vb (Fallback rate) = rate"

definition feerate_for_quote ::
    "pricing_config \<Rightarrow> (u64 \<times> string) option \<Rightarrow> (swap_client_error, feerate_observation) result" where
  "feerate_for_quote config live =
     (case live of
        Some (rate, source) \<Rightarrow>
          if \<not> (1 \<le> rate \<and> rate \<le> MAX_FEERATE_SAT_PER_VB)
          then Inl (provider_error ''swp_invalid_fee'' ''live feerate estimate must be between 1 and 2000 sat/vB'')
          else if source = [] \<or> 128 < length source
          then Inl (provider_error ''swp_invalid_fee'' ''live feerate source label must be 1 through 128 bytes'')
          else Inr (Live rate source)
      | None \<Rightarrow>
          (case pc_fallback_feerate_sat_per_vb config of
             Some rate \<Rightarrow> Inr (Fallback rate)
           | None \<Rightarrow> Inl (provider_error ''swp_invalid_fee'' (''no live feerate estimate and ''
               @ ''IMMORTAL_PROVIDER_FALLBACK_FEERATE_SAT_PER_VB is not configured; refusing to quote''))))"

record price_feed_source =
  fs_venue :: string
  fs_environment :: string
  fs_instrument :: string

record price_feed_packet =
  fp_schema :: string
  fp_source :: price_feed_source
  fp_index_price_usd_cents :: string
  fp_realized_volatility_bps :: string
  fp_realized_volatility_window_seconds :: u64
  fp_observed_at :: u64
  fp_max_age_seconds :: u64

record price_feed_application =
  fa_source :: price_feed_source
  fa_index_price_usd_cents :: string
  fa_realized_volatility_bps :: string
  fa_realized_volatility_window_seconds :: u64
  fa_observed_at :: u64
  fa_max_age_seconds :: u64
  fa_static_spread_bps :: string
  fa_effective_spread_bps :: string
  fa_input_value_usd_cents :: string
  fa_output_value_usd_cents :: string

record validated_price_feed =
  vf_packet :: price_feed_packet
  vf_index_price_usd_cents :: u64
  vf_realized_volatility_bps :: u64

definition machine_identifier :: "string \<Rightarrow> bool" where
  "machine_identifier v \<longleftrightarrow>
     v \<noteq> [] \<and> length v \<le> 64
     \<and> list_all (\<lambda>b. is_ascii_lowercase b \<or> is_ascii_digit b \<or> b = 0x2d \<or> b = 0x5f \<or> b = 0x2e) (as_bytes v)"

definition canonical_digits :: "string \<Rightarrow> bool" where
  "canonical_digits v \<longleftrightarrow> v \<noteq> [] \<and> list_all is_ascii_digit (as_bytes v) \<and> \<not> (1 < length v \<and> starts_with v ''0'')"

definition canonical_feed_quantity :: "string \<Rightarrow> string \<Rightarrow> u64 \<Rightarrow> (string, u64) result" where
  "canonical_feed_quantity v label maximum =
     (if \<not> canonical_digits v then Inl (label @ '' is not a canonical decimal string'')
      else try_then (ok_or (parse_u64 v) (label @ '' exceeds u64'')) (\<lambda>parsed.
           if maximum < parsed then Inl (label @ '' exceeds its bound'') else Inr parsed))"

definition price_feed_from_json ::
    "(u8 list \<Rightarrow> price_feed_packet option) \<Rightarrow> u8 list \<Rightarrow> (string, price_feed_packet) result" where
  "price_feed_from_json from_slice bytes =
     (if bytes = [] \<or> MAX_PRICE_FEED_BYTES < length bytes then Inl ''packet size is outside the provider bound''
      else ok_or (from_slice bytes) ''packet is not strict JSON in the v1 shape'')"

definition validate_at :: "price_feed_packet \<Rightarrow> u64 \<Rightarrow> (string, validated_price_feed) result" where
  "validate_at packet observed_at =
     (if fp_schema packet \<noteq> PRICE_FEED_SCHEMA then Inl ''packet schema is unsupported''
      else if \<not> machine_identifier (fs_venue (fp_source packet)) \<or> \<not> machine_identifier (fs_environment (fp_source packet))
              \<or> \<not> machine_identifier (fs_instrument (fp_source packet))
      then Inl ''source identity is invalid''
      else
        try_then (canonical_feed_quantity (fp_index_price_usd_cents packet) ''index price'' MAX_INDEX_PRICE_USD_CENTS) (\<lambda>price.
        if price = 0 then Inl ''index price must be positive''
        else
          try_then (canonical_feed_quantity (fp_realized_volatility_bps packet) ''realized volatility''
            MAX_REALIZED_VOLATILITY_BPS) (\<lambda>volatility.
          if fp_realized_volatility_window_seconds packet = 0 \<or> 604800 < fp_realized_volatility_window_seconds packet
          then Inl ''realized volatility window must be between 1 and 604800 seconds''
          else if fp_observed_at packet = 0 \<or> observed_at < fp_observed_at packet
          then Inl ''observation time is invalid''
          else if \<not> (1 \<le> fp_max_age_seconds packet \<and> fp_max_age_seconds packet \<le> MAX_PRICE_FEED_AGE_SECONDS)
          then Inl ''maximum age must be between 1 and 3600 seconds''
          else
            try_then (ok_or (checked_add (fp_observed_at packet) (fp_max_age_seconds packet))
              ''staleness timestamp overflows'') (\<lambda>expires_at.
            if expires_at < observed_at then Inl ''packet is stale''
            else Inr \<lparr>vf_packet = packet, vf_index_price_usd_cents = price, vf_realized_volatility_bps = volatility\<rparr>))))"

definition effective_spread_bps :: "validated_price_feed \<Rightarrow> u64 \<Rightarrow> u64" where
  "effective_spread_bps feed static_spread_bps =
     (let adjusted = unat static_spread_bps * unat (vf_realized_volatility_bps feed) div unat REFERENCE_REALIZED_VOLATILITY_BPS
      in min (if adjusted < 2 ^ 64 then of_nat adjusted else - 1) MAX_SPREAD_BPS)"

definition usd_value_cents :: "validated_price_feed \<Rightarrow> u64 \<Rightarrow> (swap_client_error, u64) result" where
  "usd_value_cents feed amount_sat =
     (let cents = unat amount_sat * unat (vf_index_price_usd_cents feed) div unat SATOSHIS_PER_BITCOIN
      in if cents < 2 ^ 64 then Inr (of_nat cents)
         else Inl (provider_error ''swp_invalid_amount'' ''USD quote valuation overflows''))"

section \<open>Deriving a quote\<close>

datatype quote_side = Input | Output

record capacity_bounds =
  cb_capacity_bucket_id :: string
  cb_available_capacity :: string

record quote_request =
  qr_swap_type :: swap_type
  qr_side :: quote_side
  qr_amount :: string

record derived_quote =
  dq_swap_type :: swap_type
  dq_side :: quote_side
  dq_input_amount :: string
  dq_output_amount :: string
  dq_fee_bps :: string
  dq_provider_fee :: string
  dq_miner_fee_budget :: string
  dq_lightning_routing_fee_budget :: string
  dq_maximum_total_fee :: string
  dq_min_input :: string
  dq_max_input :: string
  dq_quote_created_at :: u64
  dq_quote_expires_at :: u64
  dq_reservation :: reservation_tier
  dq_capacity_bucket_id :: string
  dq_feerate :: feerate_observation
  dq_worst_case_vbytes :: u64
  dq_amount_equation :: string
  dq_rounding :: string
  dq_price_feed_application :: "price_feed_application option"
  dq_price_feed_fallback :: "string option"

definition amount_terms :: "derived_quote \<Rightarrow> (string \<times> string) list" where
  "amount_terms q =
     [(''input_amount'', dq_input_amount q), (''output_amount'', dq_output_amount q), (''fee_bps'', dq_fee_bps q),
      (''provider_fee'', dq_provider_fee q), (''miner_fee_budget'', dq_miner_fee_budget q),
      (''lightning_routing_fee_budget'', dq_lightning_routing_fee_budget q),
      (''maximum_total_fee'', dq_maximum_total_fee q), (''amount_equation'', dq_amount_equation q),
      (''rounding'', dq_rounding q)]"

definition canonical_sat :: "string \<Rightarrow> string \<Rightarrow> (swap_client_error, u64) result" where
  "canonical_sat v label =
     (if \<not> canonical_digits v
      then Inl (provider_error ''swp_invalid_amount'' (label @ '' is not a canonical satoshi decimal string''))
      else ok_or (parse_u64 v) (provider_error ''swp_invalid_amount'' (label @ '' exceeds u64'')))"

definition floor_scaled :: "u64 \<Rightarrow> u64 \<Rightarrow> u64 \<Rightarrow> (swap_client_error, u64) result" where
  "floor_scaled amount numerator denominator =
     (let scaled = unat amount * unat numerator div unat denominator
      in if scaled < 2 ^ 64 then Inr (of_nat scaled)
         else Inl (provider_error ''swp_invalid_fee'' ''fee component exceeds the v1 amount range''))"

fun output_floor :: "swap_type \<Rightarrow> u64" where
  "output_floor Submarine = LIGHTNING_OUTPUT_FLOOR_SAT"
| "output_floor Reverse = CHAIN_OUTPUT_DUST_SAT"
| "output_floor Chain = CHAIN_OUTPUT_DUST_SAT"

fun routing_ppm :: "pricing_config \<Rightarrow> swap_type \<Rightarrow> u64" where
  "routing_ppm config Submarine = pc_lightning_routing_fee_ppm config"
| "routing_ppm config Reverse = 0"
| "routing_ppm config Chain = 0"

record fee_components_rec =
  fc_provider_fee :: u64
  fc_miner_fee_budget :: u64
  fc_lightning_routing_fee_budget :: u64
  fc_output :: "u64 option"

definition fee_components ::
    "pricing_config \<Rightarrow> swap_type \<Rightarrow> u64 \<Rightarrow> u64 \<Rightarrow> (swap_client_error, fee_components_rec) result" where
  "fee_components config swap_type miner_fee_budget input =
     try_then (floor_scaled input (pc_spread_bps config) 10000) (\<lambda>provider_fee.
     try_then (floor_scaled input (routing_ppm config swap_type) 1000000) (\<lambda>routing.
     Inr \<lparr>fc_provider_fee = provider_fee, fc_miner_fee_budget = miner_fee_budget, fc_lightning_routing_fee_budget = routing,
          fc_output = Option.bind (Option.bind (checked_sub input provider_fee) (\<lambda>v. checked_sub v miner_fee_budget))
            (\<lambda>v. checked_sub v routing)\<rparr>))"

text \<open>The two bounded loops around the closed-form candidate, with the number of steps taken so far.\<close>

function search_up ::
    "(u64 \<Rightarrow> (swap_client_error, bool) result) \<Rightarrow> swap_client_error \<Rightarrow> swap_client_error \<Rightarrow> u64 \<Rightarrow> nat
     \<Rightarrow> (swap_client_error, u64 \<times> nat) result" where
  "search_up covers overflow stuck candidate steps =
     try_then (covers candidate) (\<lambda>found.
     if found then Inr (candidate, steps)
     else try_then (ok_or (checked_add candidate 1) overflow) (\<lambda>candidate.
          if MIN_VIABLE_SEARCH_STEPS < steps + 1 then Inl stuck
          else search_up covers overflow stuck candidate (steps + 1)))"
  by pat_completeness auto
termination
  by (relation "measure (\<lambda>(covers, overflow, stuck, candidate, steps). 65 - steps)")
    (auto simp: MIN_VIABLE_SEARCH_STEPS_def)

function search_down ::
    "(u64 \<Rightarrow> (swap_client_error, bool) result) \<Rightarrow> swap_client_error \<Rightarrow> u64 \<Rightarrow> nat \<Rightarrow> (swap_client_error, u64) result" where
  "search_down covers stuck candidate steps =
     (if 1 < candidate
      then try_then (covers (candidate - 1)) (\<lambda>found.
           if \<not> found then Inr candidate
           else if MIN_VIABLE_SEARCH_STEPS < steps + 1 then Inl stuck
           else search_down covers stuck (candidate - 1) (steps + 1))
      else Inr candidate)"
  by pat_completeness auto
termination
  by (relation "measure (\<lambda>(covers, stuck, candidate, steps). 65 - steps)") (auto simp: MIN_VIABLE_SEARCH_STEPS_def)

declare search_up.simps [simp del] search_down.simps [simp del]

text \<open>Whether the promised output of an input reaches a target.\<close>

definition output_covers ::
    "pricing_config \<Rightarrow> swap_type \<Rightarrow> u64 \<Rightarrow> u64 \<Rightarrow> u64 \<Rightarrow> (swap_client_error, bool) result" where
  "output_covers config swap_type miner_fee_budget target input =
     try_then (fee_components config swap_type miner_fee_budget input) (\<lambda>components.
     Inr (case fc_output components of None \<Rightarrow> False | Some output \<Rightarrow> target \<le> output))"

definition closed_form ::
    "pricing_config \<Rightarrow> swap_type \<Rightarrow> u64 \<Rightarrow> u64 \<Rightarrow> swap_client_error \<Rightarrow> (swap_client_error, u64) result" where
  "closed_form config swap_type miner_fee_budget target overflow =
     (let variable_ppm = pc_spread_bps config * 100 + routing_ppm config swap_type
      in if 1000000 \<le> variable_ppm
         then Inl (provider_error ''swp_invalid_fee'' ''variable fee rate consumes the entire input'')
         else
           let needed = unat miner_fee_budget + unat target;
               divisor = unat (1000000 - variable_ppm);
               candidate = (needed * 1000000 + divisor - 1) div divisor
           in if candidate < 2 ^ 64 then Inr (of_nat candidate) else Inl overflow)"

definition min_viable_input ::
    "pricing_config \<Rightarrow> swap_type \<Rightarrow> u64 \<Rightarrow> (swap_client_error, u64) result" where
  "min_viable_input config swap_type miner_fee_budget =
     (let overflow = provider_error ''swp_invalid_fee'' ''minimum viable amount exceeds the v1 amount range'';
          stuck = provider_error ''swp_invalid_fee'' ''minimum viable amount search did not converge'';
          viable = output_covers config swap_type miner_fee_budget (output_floor swap_type)
      in try_then (closed_form config swap_type miner_fee_budget (output_floor swap_type) overflow) (\<lambda>candidate.
         try_then (search_up viable overflow stuck candidate 0) (\<lambda>(candidate, steps).
         search_down viable stuck candidate steps)))"

definition input_for_output ::
    "pricing_config \<Rightarrow> swap_type \<Rightarrow> u64 \<Rightarrow> u64 \<Rightarrow> (swap_client_error, u64) result" where
  "input_for_output config swap_type miner_fee_budget desired =
     (let overflow = provider_error ''swp_invalid_amount'' ''requested output amount exceeds the v1 amount range'';
          stuck = provider_error ''swp_invalid_amount'' ''input search for the requested output did not converge'';
          covers = output_covers config swap_type miner_fee_budget desired
      in try_then (closed_form config swap_type miner_fee_budget desired overflow) (\<lambda>candidate.
         try_then (search_up covers overflow stuck candidate 0) (\<lambda>(candidate, steps).
         search_down covers stuck candidate steps)))"

definition to_decimal :: "u64 \<Rightarrow> string" where
  "to_decimal n = show_nat (unat n)"

definition derive_quote_with_worst_case_vbytes ::
    "pricing_config \<Rightarrow> feerate_observation \<Rightarrow> capacity_bounds \<Rightarrow> quote_request \<Rightarrow> u64 \<Rightarrow> u64
     \<Rightarrow> (swap_client_error, derived_quote) result" where
  "derive_quote_with_worst_case_vbytes config feerate capacity request created_at worst_case_vbytes =
     try_then (map_err (provider_error ''swp_invalid_fee'') (validate_pricing config)) (\<lambda>_.
     if worst_case_vbytes = 0 \<or> 100000 < worst_case_vbytes
     then Inl (provider_error ''swp_invalid_fee'' ''quote fee weight is outside the provider bound'')
     else if \<not> (1 \<le> sat_per_vb feerate \<and> sat_per_vb feerate \<le> MAX_FEERATE_SAT_PER_VB)
     then Inl (provider_error ''swp_invalid_fee'' ''quote feerate must be between 1 and 2000 sat/vB'')
     else
       try_then (canonical_sat (qr_amount request) ''requested amount'') (\<lambda>amount.
       if amount = 0 \<or> MAX_AMOUNT_SAT < amount
       then Inl (provider_error ''swp_invalid_amount'' ''requested amount must be positive and at most 2100000000000000'')
       else
         try_then (canonical_sat (cb_available_capacity capacity) ''available capacity'') (\<lambda>available.
         try_then (ok_or (checked_mul worst_case_vbytes (sat_per_vb feerate))
           (provider_error ''swp_invalid_fee'' ''miner fee component overflows'')) (\<lambda>miner_fee_budget.
         let max_input = min (pc_max_swap_sat config) available
         in try_then (min_viable_input config (qr_swap_type request) miner_fee_budget) (\<lambda>viable.
            let min_input = max (pc_min_swap_sat config) viable
            in if max_input < min_input
               then Inl (provider_error ''swp_side_disabled'' ''available capacity is below the minimum quotable amount'')
               else
                 try_then (case qr_side request of
                     Input \<Rightarrow> Inr amount
                   | Output \<Rightarrow> input_for_output config (qr_swap_type request) miner_fee_budget amount) (\<lambda>input.
                 if input < min_input \<or> max_input < input
                 then Inl (provider_error ''swp_invalid_amount'' ''requested amount is outside the quotable range'')
                 else
                   try_then (fee_components config (qr_swap_type request) miner_fee_budget input) (\<lambda>components.
                   try_then (ok_or (case fc_output components of
                         None \<Rightarrow> None
                       | Some output \<Rightarrow> if output_floor (qr_swap_type request) \<le> output then Some output else None)
                     (provider_error ''swp_invalid_amount''
                       ''requested amount cannot cover the quoted fees and settlement floor'')) (\<lambda>output.
                   try_then (ok_or (checked_mul worst_case_vbytes (sat_per_vb feerate))
                     (provider_error ''swp_invalid_fee'' ''miner fee component overflows'')) (\<lambda>worst_case_cost.
                   try_then (ok_or (Option.bind (checked_add (fc_provider_fee components) (fc_miner_fee_budget components))
                         (\<lambda>fee. checked_add fee (fc_lightning_routing_fee_budget components)))
                     (provider_error ''swp_invalid_fee'' ''total fee overflows'')) (\<lambda>total_fee.
                   if fc_miner_fee_budget components < worst_case_cost \<or> total_fee < worst_case_cost
                   then Inl (provider_error ''swp_invalid_fee'' ''derived fee is below the worst-case redeemable path cost'')
                   else
                     try_then (ok_or (checked_add created_at (pc_quote_expiry_seconds config))
                       (provider_error ''swp_quote_expired'' ''quote expiry timestamp overflows'')) (\<lambda>quote_expires_at.
                     Inr \<lparr>dq_swap_type = qr_swap_type request, dq_side = qr_side request,
                        dq_input_amount = to_decimal input, dq_output_amount = to_decimal output,
                        dq_fee_bps = to_decimal (pc_spread_bps config),
                        dq_provider_fee = to_decimal (fc_provider_fee components),
                        dq_miner_fee_budget = to_decimal (fc_miner_fee_budget components),
                        dq_lightning_routing_fee_budget = to_decimal (fc_lightning_routing_fee_budget components),
                        dq_maximum_total_fee = to_decimal total_fee,
                        dq_min_input = to_decimal min_input, dq_max_input = to_decimal max_input,
                        dq_quote_created_at = created_at, dq_quote_expires_at = quote_expires_at,
                        dq_reservation = pc_reservation_tier config,
                        dq_capacity_bucket_id = cb_capacity_bucket_id capacity, dq_feerate = feerate,
                        dq_worst_case_vbytes = worst_case_vbytes,
                        dq_amount_equation = ''input_minus_provider_and_quoted_fees'',
                        dq_rounding = ''floor_output_sats'', dq_price_feed_application = None,
                        dq_price_feed_fallback = None\<rparr>)))))))))))"

definition derive_quote ::
    "pricing_config \<Rightarrow> feerate_observation \<Rightarrow> capacity_bounds \<Rightarrow> quote_request \<Rightarrow> u64
     \<Rightarrow> (swap_client_error, derived_quote) result" where
  "derive_quote config feerate capacity request created_at =
     derive_quote_with_worst_case_vbytes config feerate capacity request created_at
       (worst_case_redeem_vbytes (qr_swap_type request))"

definition derive_quote_with_price_feed_and_worst_case_vbytes ::
    "pricing_config \<Rightarrow> feerate_observation \<Rightarrow> capacity_bounds \<Rightarrow> quote_request \<Rightarrow> u64 \<Rightarrow> u64
     \<Rightarrow> price_feed_packet option \<Rightarrow> (swap_client_error, derived_quote) result" where
  "derive_quote_with_price_feed_and_worst_case_vbytes config feerate capacity request created_at worst_case_vbytes price_feed =
     (let (validated_feed, fallback) =
            (case price_feed of
               Some packet \<Rightarrow> (case validate_at packet created_at of
                  Inr feed \<Rightarrow> (Some feed, None)
                | Inl reason \<Rightarrow> (None, Some reason))
             | None \<Rightarrow> (None, None));
          effective_config = (case validated_feed of
               Some feed \<Rightarrow> config\<lparr>pc_spread_bps := effective_spread_bps feed (pc_spread_bps config)\<rparr>
             | None \<Rightarrow> config)
      in try_then (derive_quote_with_worst_case_vbytes effective_config feerate capacity request created_at worst_case_vbytes) (\<lambda>derived.
         try_then (case validated_feed of
             None \<Rightarrow> Inr derived
           | Some feed \<Rightarrow>
               try_then (canonical_sat (dq_input_amount derived) ''derived input amount'') (\<lambda>input_amount.
               try_then (canonical_sat (dq_output_amount derived) ''derived output amount'') (\<lambda>output_amount.
               try_then (usd_value_cents feed input_amount) (\<lambda>input_value.
               try_then (usd_value_cents feed output_amount) (\<lambda>output_value.
               Inr (derived\<lparr>dq_price_feed_application := Some \<lparr>fa_source = fp_source (vf_packet feed),
                      fa_index_price_usd_cents = fp_index_price_usd_cents (vf_packet feed),
                      fa_realized_volatility_bps = fp_realized_volatility_bps (vf_packet feed),
                      fa_realized_volatility_window_seconds = fp_realized_volatility_window_seconds (vf_packet feed),
                      fa_observed_at = fp_observed_at (vf_packet feed), fa_max_age_seconds = fp_max_age_seconds (vf_packet feed),
                      fa_static_spread_bps = to_decimal (pc_spread_bps config),
                      fa_effective_spread_bps = to_decimal (pc_spread_bps effective_config),
                      fa_input_value_usd_cents = to_decimal input_value,
                      fa_output_value_usd_cents = to_decimal output_value\<rparr>\<rparr>)))))) (\<lambda>derived.
         Inr (derived\<lparr>dq_price_feed_fallback := fallback\<rparr>))))"

definition derive_quote_with_price_feed ::
    "pricing_config \<Rightarrow> feerate_observation \<Rightarrow> capacity_bounds \<Rightarrow> quote_request \<Rightarrow> u64
     \<Rightarrow> price_feed_packet option \<Rightarrow> (swap_client_error, derived_quote) result" where
  "derive_quote_with_price_feed config feerate capacity request created_at price_feed =
     derive_quote_with_price_feed_and_worst_case_vbytes config feerate capacity request created_at
       (worst_case_redeem_vbytes (qr_swap_type request)) price_feed"

section \<open>The fee of an input\<close>

definition fee_at :: "nat \<Rightarrow> nat \<Rightarrow> nat \<Rightarrow> nat \<Rightarrow> nat" where
  "fee_at bps ppm miner n = n * bps div 10000 + n * ppm div 1000000 + miner"

definition covered :: "nat \<Rightarrow> nat \<Rightarrow> nat \<Rightarrow> nat \<Rightarrow> nat \<Rightarrow> bool" where
  "covered bps ppm miner target n \<longleftrightarrow> target + fee_at bps ppm miner n \<le> n"

definition closed_input :: "nat \<Rightarrow> nat \<Rightarrow> nat \<Rightarrow> nat" where
  "closed_input bps ppm needed = (let d = 1000000 - (100 * bps + ppm) in (needed * 1000000 + d - 1) div d)"

lemma ceiling_div:
  fixes x d y :: nat
  assumes "0 < d"
  shows "x \<le> (x + d - 1) div d * d" "x \<le> y * d \<Longrightarrow> (x + d - 1) div d \<le> y"
proof -
  have "(x + d - 1) div d * d + (x + d - 1) mod d = x + d - 1" by (rule div_mult_mod_eq)
  moreover have "(x + d - 1) mod d < d" using assms by simp
  ultimately show "x \<le> (x + d - 1) div d * d" by linarith
  assume "x \<le> y * d"
  then have "(x + d - 1) div d \<le> (y * d + (d - 1)) div d" using assms by (intro div_le_mono) simp
  also have "\<dots> = y" using assms by (subst div_mult_self3) simp_all
  finally show "(x + d - 1) div d \<le> y" .
qed

lemma scaled_bounds:
  fixes x m :: nat
  assumes "0 < m"
  shows "x div m * m \<le> x" "x < x div m * m + m"
  using assms div_mult_mod_eq [of x m] mod_less_divisor [OF assms, of x] by linarith+

lemma charge_low:
  fixes x y a b c :: nat
  assumes "(miner + target) * 1000000 + (100 * x + y) \<le> c * 1000000" "a * 10000 \<le> x" "b * 1000000 \<le> y"
  shows "target + (a + b + miner) \<le> c"
  using assms by (simp add: distrib_right)

lemma charge_high:
  fixes x y a b c :: nat
  assumes "target + (a + b + miner) \<le> c" "x < a * 10000 + 10000" "y < b * 1000000 + 1000000"
  shows "(miner + target) * 1000000 + (100 * x + y) \<le> c * 1000000 + 2000000"
  using assms by (simp add: distrib_right)

lemma closed_input_covered:
  assumes "100 * bps + ppm < 1000000"
  shows "covered bps ppm miner target (closed_input bps ppm (miner + target))"
proof -
  let ?v = "100 * bps + ppm" and ?c = "closed_input bps ppm (miner + target)"
  have c: "(miner + target) * 1000000 \<le> ?c * (1000000 - ?v)"
    using ceiling_div(1) [of "1000000 - ?v" "(miner + target) * 1000000"] assms by (simp add: closed_input_def Let_def)
  have "?c * (1000000 - ?v) + ?c * ?v = ?c * 1000000" using assms by (simp flip: distrib_left)
  with c have "(miner + target) * 1000000 + ?c * ?v \<le> ?c * 1000000" by linarith
  moreover have "?c * ?v = 100 * (?c * bps) + ?c * ppm" by (simp add: distrib_left)
  ultimately have "(miner + target) * 1000000 + (100 * (?c * bps) + ?c * ppm) \<le> ?c * 1000000" by simp
  then show ?thesis unfolding covered_def fee_at_def by (rule charge_low) (rule scaled_bounds(1); simp)+
qed

lemma closed_input_near:
  assumes "100 * bps + ppm \<le> 200000" "covered bps ppm miner target n"
  shows "closed_input bps ppm (miner + target) \<le> n + 3"
proof -
  let ?v = "100 * bps + ppm" and ?a = "n * bps div 10000" and ?b = "n * ppm div 1000000"
  have "target + (?a + ?b + miner) \<le> n" using assms(2) by (simp add: covered_def fee_at_def)
  then have "(miner + target) * 1000000 + (100 * (n * bps) + n * ppm) \<le> n * 1000000 + 2000000"
    by (rule charge_high) (rule scaled_bounds(2); simp)+
  moreover have "n * ?v = 100 * (n * bps) + n * ppm" by (simp add: distrib_left)
  ultimately have "(miner + target) * 1000000 + n * ?v \<le> n * 1000000 + 2000000" by simp
  moreover have "n * (1000000 - ?v) + n * ?v = n * 1000000" using assms(1) by (simp flip: distrib_left)
  ultimately have "(miner + target) * 1000000 \<le> n * (1000000 - ?v) + 2000000" by linarith
  also have "\<dots> \<le> n * (1000000 - ?v) + 3 * (1000000 - ?v)" using assms(1) by simp
  also have "\<dots> = (n + 3) * (1000000 - ?v)" by (simp add: distrib_right)
  finally show ?thesis
    using ceiling_div(2) [of "1000000 - ?v" "(miner + target) * 1000000" "n + 3"] assms(1)
    by (simp add: closed_input_def Let_def)
qed

lemma scaled_step:
  fixes n k m :: nat
  assumes "j * k \<le> m" "0 < m"
  shows "(n + j) * k div m \<le> n * k div m + 1"
proof -
  have "(n + j) * k div m \<le> (n * k + m) div m" using assms(1) by (intro div_le_mono) (simp add: distrib_right)
  also have "\<dots> = n * k div m + 1" using assms(2) div_add_self2 [of m "n * k"] by simp
  finally show ?thesis .
qed

text \<open>Both rounded fees can rise by one satoshi at the same input, so the output of the next larger
  input may be smaller; over two inputs it never is, and with one rate it never is.\<close>

lemma covered_step_two:
  assumes "bps \<le> 1000" "ppm \<le> 100000" "covered bps ppm miner target n"
  shows "covered bps ppm miner target (n + 2)"
proof -
  have "(n + 2) * bps div 10000 \<le> n * bps div 10000 + 1" "(n + 2) * ppm div 1000000 \<le> n * ppm div 1000000 + 1"
    using assms(1,2) by (intro scaled_step; simp)+
  with assms(3) show ?thesis unfolding covered_def fee_at_def by linarith
qed

lemma covered_step_one:
  assumes "bps \<le> 1000" "ppm \<le> 100000" "bps = 0 \<or> ppm = 0" "covered bps ppm miner target n" "n \<le> m"
  shows "covered bps ppm miner target m"
  using assms(5,4)
proof (induction m rule: dec_induct)
  case (step m)
  have "(m + 1) * bps div 10000 \<le> m * bps div 10000 + 1" "(m + 1) * ppm div 1000000 \<le> m * ppm div 1000000 + 1"
    using assms(1,2) by (intro scaled_step; simp)+
  with step assms(3) show ?case unfolding covered_def fee_at_def by auto
qed

lemma first_covered:
  assumes rates: "bps \<le> 1000" "ppm \<le> 100000"
    and r: "covered bps ppm miner target r" "\<not> covered bps ppm miner target (r - 1)" "r \<le> n + 3"
    and n: "covered bps ppm miner target n"
  shows "r \<le> n + 2" "bps = 0 \<or> ppm = 0 \<Longrightarrow> r \<le> n"
proof -
  show "r \<le> n + 2"
  proof (rule ccontr)
    assume "\<not> r \<le> n + 2"
    then have "r - 1 = n + 2" using r(3) by simp
    then show False using covered_step_two [OF rates n] r(2) by simp
  qed
  show "r \<le> n" if "bps = 0 \<or> ppm = 0"
  proof (rule ccontr)
    assume "\<not> r \<le> n"
    then have "n \<le> r - 1" by simp
    then show False using covered_step_one [OF rates that n] r(2) by blast
  qed
qed

section \<open>The search\<close>

lemma search_up_found: "covers candidate = Inr True \<Longrightarrow> search_up covers overflow stuck candidate steps = Inr (candidate, steps)"
  by (subst search_up.simps) simp

lemma search_down_stop:
  assumes "covers (c - 1) = Inr False \<or> \<not> 1 < c"
  shows "search_down covers stuck c steps = Inr c"
  using assms by (subst search_down.simps) auto

lemma search_down_found:
  assumes covers: "\<And>x. covers x = Inr (P (unat x))" "\<not> P 0"
  shows "\<lbrakk>P (unat c); \<forall>n. P n \<longrightarrow> unat c \<le> n + k; k + steps \<le> 64\<rbrakk>
    \<Longrightarrow> \<exists>r. search_down covers stuck c steps = Inr r \<and> P (unat r) \<and> \<not> P (unat r - 1) \<and> r \<le> c"
proof (induction k arbitrary: c steps)
  case (0 c steps)
  have "0 < unat c" using 0(1) covers(2) gr_zeroI by metis
  then have np: "\<not> P (unat c - 1)" using 0(2) by force
  have "1 < c \<Longrightarrow> unat (c - 1) = unat c - 1" by (simp add: unat_sub word_le_nat_alt word_less_nat_alt)
  then have "search_down covers stuck c steps = Inr c" using np covers(1) by (intro search_down_stop) auto
  then show ?case using 0(1) np by blast
next
  case (Suc k c steps)
  have pos: "0 < unat c" using Suc.prems(1) covers(2) gr_zeroI by metis
  have one: "\<not> 1 < c \<Longrightarrow> unat c = 1" using pos by (simp add: word_less_nat_alt)
  have u: "1 < c \<Longrightarrow> unat (c - 1) = unat c - 1" by (simp add: unat_sub word_le_nat_alt word_less_nat_alt)
  show ?case
  proof (cases "1 < c \<and> P (unat c - 1)")
    case True
    then have down: "search_down covers stuck c steps = search_down covers stuck (c - 1) (steps + 1)"
      using u covers(1) Suc.prems(3) by (subst search_down.simps) (simp add: MIN_VIABLE_SEARCH_STEPS_def)
    have "\<forall>n. P n \<longrightarrow> unat (c - 1) \<le> n + k" using Suc.prems(2) u True by fastforce
    then obtain r where r: "search_down covers stuck (c - 1) (steps + 1) = Inr r" "P (unat r)" "\<not> P (unat r - 1)" "r \<le> c - 1"
      using Suc.IH [of "c - 1" "steps + 1"] Suc.prems(3) u True by auto
    have "r \<le> c" using r(4) u True by (simp add: word_le_nat_alt)
    with r down show ?thesis by metis
  next
    case False
    then have np: "\<not> P (unat c - 1)" using covers(2) one by auto
    then have "search_down covers stuck c steps = Inr c" using u covers(1) by (intro search_down_stop) auto
    then show ?thesis using Suc.prems(1) np by blast
  qed
qed

section \<open>The code computes these fees\<close>

lemma validate_pricingD:
  assumes "validate_pricing config = Inr u"
  shows "unat (pc_spread_bps config) \<le> 1000" "unat (pc_lightning_routing_fee_ppm config) \<le> 100000"
    "0 < unat (pc_min_swap_sat config)" "pc_min_swap_sat config \<le> pc_max_swap_sat config"
    "unat (pc_max_swap_sat config) \<le> 2100000000000000"
    "1 \<le> unat (pc_quote_expiry_seconds config)" "unat (pc_quote_expiry_seconds config) \<le> 3600"
    "unat (routing_ppm config swap_type) \<le> 100000"
proof -
  show a: "unat (pc_lightning_routing_fee_ppm config) \<le> 100000" "unat (pc_spread_bps config) \<le> 1000"
    "0 < unat (pc_min_swap_sat config)" "pc_min_swap_sat config \<le> pc_max_swap_sat config"
    "unat (pc_max_swap_sat config) \<le> 2100000000000000"
    "1 \<le> unat (pc_quote_expiry_seconds config)" "unat (pc_quote_expiry_seconds config) \<le> 3600"
    using assms
    by (simp_all add: validate_pricing_def MAX_SPREAD_BPS_def MAX_AMOUNT_SAT_def MAX_QUOTE_EXPIRY_SECONDS_def
        MAX_LIGHTNING_ROUTING_FEE_PPM_def word_less_nat_alt word_le_nat_alt unat_gt_0 split: if_split_asm)
  show "unat (routing_ppm config swap_type) \<le> 100000" using a(1) by (cases swap_type) simp_all
qed

lemma floor_scaled_value:
  assumes "unat numerator \<le> unat denominator" "0 < unat denominator"
  shows "floor_scaled amount numerator denominator = Inr (of_nat (unat amount * unat numerator div unat denominator))"
    "unat amount * unat numerator div unat denominator \<le> unat amount"
proof -
  have "unat amount * unat numerator div unat denominator \<le> unat amount * unat denominator div unat denominator"
    using assms(1) by (intro div_le_mono mult_le_mono2)
  also have "\<dots> = unat amount" using assms(2) by simp
  finally show b: "unat amount * unat numerator div unat denominator \<le> unat amount" .
  then show "floor_scaled amount numerator denominator = Inr (of_nat (unat amount * unat numerator div unat denominator))"
    using unat_bound [of amount] by (simp add: floor_scaled_def Let_def)
qed

lemma checked_sub_chain:
  fixes n a b c out :: u64
  shows "Option.bind (Option.bind (checked_sub n a) (\<lambda>v. checked_sub v b)) (\<lambda>v. checked_sub v c) = Some out
    \<longleftrightarrow> unat out + (unat a + unat c + unat b) = unat n" (is "?l \<longleftrightarrow> ?r")
proof
  assume ?r
  then have le: "a \<le> n" "b \<le> n - a" "c \<le> n - a - b"
    by (simp_all add: word_le_nat_alt unat_sub)
  then show ?l using \<open>?r\<close> by (simp add: checked_sub_def word_unat_eq_iff unat_sub)
qed (auto simp: bind_eq_Some_conv checked_sub_Some_iff)

lemma fee_components_value:
  fixes swap_type
  assumes "validate_pricing config = Inr u"
  defines "bps \<equiv> unat (pc_spread_bps config)" and "ppm \<equiv> unat (routing_ppm config swap_type)"
  obtains fc where "fee_components config swap_type miner n = Inr fc"
    "unat (fc_provider_fee fc) = unat n * bps div 10000" "fc_miner_fee_budget fc = miner"
    "unat (fc_lightning_routing_fee_budget fc) = unat n * ppm div 1000000"
    "\<And>out. fc_output fc = Some out \<longleftrightarrow> unat out + fee_at bps ppm (unat miner) (unat n) = unat n"
proof -
  note v = validate_pricingD [OF assms(1)]
  note p = floor_scaled_value [of "pc_spread_bps config" 10000 n] and q = floor_scaled_value [of "routing_ppm config swap_type" 1000000 n]
  let ?p = "of_nat (unat n * bps div 10000) :: u64" and ?q = "of_nat (unat n * ppm div 1000000) :: u64"
  have up: "unat ?p = unat n * bps div 10000" "unat ?q = unat n * ppm div 1000000"
    using p(2) q(2) v(1) v(8) [of swap_type] unat_bound [of n] by (simp_all add: unat_of_nat_small bps_def ppm_def)
  show thesis
  proof (rule that)
    show "fee_components config swap_type miner n = Inr \<lparr>fc_provider_fee = ?p, fc_miner_fee_budget = miner,
        fc_lightning_routing_fee_budget = ?q,
        fc_output = Option.bind (Option.bind (checked_sub n ?p) (\<lambda>v. checked_sub v miner)) (\<lambda>v. checked_sub v ?q)\<rparr>"
      using p(1) q(1) v(1) v(8) [of swap_type] by (simp add: fee_components_def bps_def ppm_def)
    fix out
    show "fc_output \<lparr>fc_provider_fee = ?p, fc_miner_fee_budget = miner, fc_lightning_routing_fee_budget = ?q,
        fc_output = Option.bind (Option.bind (checked_sub n ?p) (\<lambda>v. checked_sub v miner)) (\<lambda>v. checked_sub v ?q)\<rparr> = Some out
      \<longleftrightarrow> unat out + fee_at bps ppm (unat miner) (unat n) = unat n"
      unfolding fee_components_rec.select_convs checked_sub_chain up fee_at_def by (rule refl)
  qed (simp_all add: up)
qed

lemma output_covers_value:
  fixes swap_type
  assumes "validate_pricing config = Inr u"
  shows "output_covers config swap_type miner target n
    = Inr (covered (unat (pc_spread_bps config)) (unat (routing_ppm config swap_type)) (unat miner) (unat target) (unat n))"
proof -
  let ?fee = "fee_at (unat (pc_spread_bps config)) (unat (routing_ppm config swap_type)) (unat miner) (unat n)"
  obtain fc where fc: "fee_components config swap_type miner n = Inr fc"
    "\<And>out. fc_output fc = Some out \<longleftrightarrow> unat out + ?fee = unat n"
    by (rule fee_components_value [OF assms]) blast
  show ?thesis
  proof (cases "fc_output fc")
    case None
    have "unat n < ?fee"
    proof (rule ccontr)
      assume le: "\<not> unat n < ?fee"
      have "unat n - ?fee < 2 ^ LENGTH(64)" using unat_bound [of n] by simp
      then have "unat (of_nat (unat n - ?fee) :: u64) = unat n - ?fee" by (rule unat_of_nat_small)
      with le have "unat (of_nat (unat n - ?fee) :: u64) + ?fee = unat n" by linarith
      then show False using fc(2) None by (metis option.distinct(1))
    qed
    then show ?thesis using fc(1) None by (simp add: output_covers_def covered_def)
  next
    case (Some out)
    then have "unat out + ?fee = unat n" using fc(2) by simp
    then have "unat target \<le> unat out \<longleftrightarrow> unat target + ?fee \<le> unat n" by linarith
    then show ?thesis using fc(1) Some by (simp add: output_covers_def covered_def word_le_nat_alt)
  qed
qed

lemma closed_form_value:
  fixes swap_type miner target
  assumes "validate_pricing config = Inr u"
  defines "c \<equiv> closed_input (unat (pc_spread_bps config)) (unat (routing_ppm config swap_type)) (unat miner + unat target)"
  shows "closed_form config swap_type miner target overflow = (if c < 2 ^ 64 then Inr (of_nat c) else Inl overflow)"
proof -
  let ?v = "pc_spread_bps config * 100 + routing_ppm config swap_type"
  note v = validate_pricingD(1) [OF assms(1)] validate_pricingD(8) [OF assms(1), of swap_type]
  have u: "unat ?v = 100 * unat (pc_spread_bps config) + unat (routing_ppm config swap_type)"
    using v by (simp add: unat_word_ariths)
  have "?v < 1000000" using v by (simp add: word_less_nat_alt u)
  moreover from this have "unat (1000000 - ?v) = 1000000 - (100 * unat (pc_spread_bps config) + unat (routing_ppm config swap_type))"
    by (simp add: unat_sub u)
  ultimately show ?thesis by (simp add: closed_form_def Let_def c_def closed_input_def not_le)
qed

lemma closed_input_small:
  assumes "100 * bps + ppm \<le> 200000" "needed \<le> 10 ^ 18"
  shows "closed_input bps ppm needed < 2 ^ 64"
proof -
  let ?d = "1000000 - (100 * bps + ppm)"
  have "needed * 1000000 \<le> 2 * 10 ^ 18 * ?d" using assms by simp
  then have "closed_input bps ppm needed \<le> 2 * 10 ^ 18"
    using ceiling_div(2) [of ?d "needed * 1000000" "2 * 10 ^ 18"] assms(1) by (simp add: closed_input_def Let_def)
  then show ?thesis by simp
qed

lemma search_value:
  fixes swap_type target miner
  assumes valid: "validate_pricing config = Inr u" and target: "0 < target" "unat miner + unat target \<le> 10 ^ 18"
  defines "P \<equiv> covered (unat (pc_spread_bps config)) (unat (routing_ppm config swap_type)) (unat miner) (unat target)"
    and "covers \<equiv> output_covers config swap_type miner target"
  shows "\<exists>r. try_then (closed_form config swap_type miner target overflow) (\<lambda>candidate.
        try_then (search_up covers overflow stuck candidate 0) (\<lambda>(candidate, steps).
        search_down covers stuck candidate steps)) = Inr r
      \<and> P (unat r) \<and> \<not> P (unat r - 1) \<and> (\<forall>n. P n \<longrightarrow> unat r \<le> n + 3)"
proof -
  let ?bps = "unat (pc_spread_bps config)" and ?ppm = "unat (routing_ppm config swap_type)"
  note v = validate_pricingD(1) [OF valid] validate_pricingD(8) [OF valid, of swap_type]
  have rates: "100 * ?bps + ?ppm \<le> 200000" using v by simp
  let ?n = "closed_input ?bps ?ppm (unat miner + unat target)"
  let ?c = "of_nat ?n :: u64"
  have small: "?n < 2 ^ 64" using rates target(2) by (rule closed_input_small)
  then have u: "unat ?c = ?n" by (simp add: unat_of_nat_small)
  have cov: "covers x = Inr (P (unat x))" for x
    unfolding covers_def P_def by (rule output_covers_value [OF valid])
  have c: "P (unat ?c)" unfolding u P_def using rates by (intro closed_input_covered) simp
  have near: "\<forall>n. P n \<longrightarrow> unat ?c \<le> n + 3" unfolding u P_def using closed_input_near [OF rates] by blast
  have "\<not> P 0" using target(1) by (simp add: P_def covered_def word_less_nat_alt)
  then obtain r where r: "search_down covers stuck ?c 0 = Inr r" "P (unat r)" "\<not> P (unat r - 1)" "r \<le> ?c"
    using search_down_found [of covers P ?c 3 0 stuck, OF cov] c near by auto
  have "search_up covers overflow stuck ?c 0 = Inr (?c, 0)" using cov c by (intro search_up_found) simp
  then have "try_then (closed_form config swap_type miner target overflow) (\<lambda>candidate.
        try_then (search_up covers overflow stuck candidate 0) (\<lambda>(candidate, steps).
        search_down covers stuck candidate steps)) = Inr r"
    using closed_form_value [OF valid] small r(1) by simp
  moreover have "unat r \<le> n + 3" if "P n" for n
    using near that r(4) le_trans by (fastforce simp: word_le_nat_alt)
  ultimately show ?thesis using r by blast
qed

lemma input_for_output_covered:
  fixes swap_type
  assumes "validate_pricing config = Inr u" "0 < desired" "unat miner + unat desired \<le> 10 ^ 18"
    and "input_for_output config swap_type miner desired = Inr r"
  shows "unat desired + fee_at (unat (pc_spread_bps config)) (unat (routing_ppm config swap_type)) (unat miner) (unat r) \<le> unat r"
  using search_value [OF assms(1-3), of swap_type] assms(4)
  unfolding input_for_output_def Let_def covered_def by (metis sum.inject(2))

section \<open>The terms of a quote\<close>

definition quote_terms_ok ::
    "pricing_config \<Rightarrow> u64 \<Rightarrow> feerate_observation \<Rightarrow> capacity_bounds \<Rightarrow> quote_request \<Rightarrow> u64 \<Rightarrow> u64 \<Rightarrow> derived_quote \<Rightarrow> bool" where
  "quote_terms_ok config bps feerate capacity request created_at vbytes q \<longleftrightarrow>
     (\<exists>input output provider miner routing total least most available amount.
        dq_input_amount q = to_decimal input \<and> dq_output_amount q = to_decimal output \<and> dq_fee_bps q = to_decimal bps
        \<and> dq_provider_fee q = to_decimal provider \<and> dq_miner_fee_budget q = to_decimal miner
        \<and> dq_lightning_routing_fee_budget q = to_decimal routing \<and> dq_maximum_total_fee q = to_decimal total
        \<and> dq_min_input q = to_decimal least \<and> dq_max_input q = to_decimal most
        \<and> unat input = unat output + unat total \<and> unat total = unat provider + unat miner + unat routing
        \<and> unat provider = unat input * unat bps div 10000
        \<and> unat routing = unat input * unat (routing_ppm config (qr_swap_type request)) div 1000000
        \<and> unat miner = unat vbytes * unat (sat_per_vb feerate)
        \<and> least \<le> input \<and> input \<le> most \<and> pc_min_swap_sat config \<le> least \<and> most \<le> pc_max_swap_sat config
        \<and> canonical_sat (cb_available_capacity capacity) ''available capacity'' = Inr available \<and> most \<le> available
        \<and> output_floor (qr_swap_type request) \<le> output
        \<and> canonical_sat (qr_amount request) ''requested amount'' = Inr amount
        \<and> (case qr_side request of Input \<Rightarrow> input = amount | Output \<Rightarrow> amount \<le> output)
        \<and> unat (dq_quote_expires_at q) = unat created_at + unat (pc_quote_expiry_seconds config))"

lemma quote_terms_update:
  "quote_terms_ok config bps feerate capacity request created_at vbytes (q\<lparr>dq_price_feed_application := a\<rparr>)
     = quote_terms_ok config bps feerate capacity request created_at vbytes q"
  "quote_terms_ok config bps feerate capacity request created_at vbytes (q\<lparr>dq_price_feed_fallback := b\<rparr>)
     = quote_terms_ok config bps feerate capacity request created_at vbytes q"
  by (simp_all add: quote_terms_ok_def)

lemma derived_terms:
  assumes "derive_quote_with_worst_case_vbytes config feerate capacity request created_at vbytes = Inr q"
  shows "quote_terms_ok config (pc_spread_bps config) feerate capacity request created_at vbytes q" "validate_pricing config = Inr ()"
proof -
  let ?st = "qr_swap_type request"
  obtain amount available miner viable input fc paid total where
    valid: "validate_pricing config = Inr ()" and w: "\<not> (vbytes = 0 \<or> 100000 < vbytes)"
    and rate: "sat_per_vb feerate \<le> MAX_FEERATE_SAT_PER_VB"
    and amount: "canonical_sat (qr_amount request) ''requested amount'' = Inr amount" "\<not> (amount = 0 \<or> MAX_AMOUNT_SAT < amount)"
    and available: "canonical_sat (cb_available_capacity capacity) ''available capacity'' = Inr available"
    and miner: "checked_mul vbytes (sat_per_vb feerate) = Some miner"
    and input: "(case qr_side request of Input \<Rightarrow> Inr amount | Output \<Rightarrow> input_for_output config ?st miner amount) = Inr input"
    and range: "\<not> (input < max (pc_min_swap_sat config) viable \<or> min (pc_max_swap_sat config) available < input)"
    and fc: "fee_components config ?st miner input = Inr fc"
    and paid_eq: "(case fc_output fc of None \<Rightarrow> None | Some paid \<Rightarrow> if output_floor ?st \<le> paid then Some paid else None) = Some paid"
    and fee: "Option.bind (checked_add (fc_provider_fee fc) (fc_miner_fee_budget fc))
        (\<lambda>fee. checked_add fee (fc_lightning_routing_fee_budget fc)) = Some total"
    and q: "dq_input_amount q = to_decimal input" "dq_output_amount q = to_decimal paid" "dq_fee_bps q = to_decimal (pc_spread_bps config)"
      "dq_provider_fee q = to_decimal (fc_provider_fee fc)" "dq_miner_fee_budget q = to_decimal (fc_miner_fee_budget fc)"
      "dq_lightning_routing_fee_budget q = to_decimal (fc_lightning_routing_fee_budget fc)" "dq_maximum_total_fee q = to_decimal total"
      "dq_min_input q = to_decimal (max (pc_min_swap_sat config) viable)" "dq_max_input q = to_decimal (min (pc_max_swap_sat config) available)"
      "checked_add created_at (pc_quote_expiry_seconds config) = Some (dq_quote_expires_at q)"
    using assms unfolding derive_quote_with_worst_case_vbytes_def Let_def
    by (auto simp: try_then_eq_Inr split: if_split_asm)
  show "validate_pricing config = Inr ()" by (rule valid)
  have f: "unat (fc_provider_fee fc) = unat input * unat (pc_spread_bps config) div 10000" "fc_miner_fee_budget fc = miner"
    "unat (fc_lightning_routing_fee_budget fc) = unat input * unat (routing_ppm config ?st) div 1000000"
    "\<And>out. fc_output fc = Some out \<Longrightarrow> unat out + (unat (fc_provider_fee fc) + unat (fc_lightning_routing_fee_budget fc) + unat miner) = unat input"
    using fc fee_components_value [OF valid, of ?st miner input] unfolding fee_at_def by (metis sum.inject(2))+
  have out: "fc_output fc = Some paid" "output_floor ?st \<le> paid" using paid_eq by (auto split: option.splits if_split_asm)
  have m: "unat miner = unat vbytes * unat (sat_per_vb feerate)" using miner by (simp add: checked_mul_Some_iff)
  also have "\<dots> \<le> 100000 * 2000"
    using w rate by (intro mult_le_mono) (simp_all add: MAX_FEERATE_SAT_PER_VB_def word_le_nat_alt word_less_nat_alt)
  finally have "unat miner + unat amount \<le> 10 ^ 18" using amount(2) by (simp add: MAX_AMOUNT_SAT_def word_less_nat_alt)
  then have "amount \<le> paid" if "qr_side request = Output"
    using input_for_output_covered [OF valid, of amount miner ?st input] amount(2) input that f(1,3) f(4) [OF out(1)]
    by (simp add: fee_at_def word_gt_0 word_le_nat_alt)
  then have side: "case qr_side request of Input \<Rightarrow> input = amount | Output \<Rightarrow> amount \<le> paid"
    using input by (cases "qr_side request") auto
  have total: "unat total = unat (fc_provider_fee fc) + unat miner + unat (fc_lightning_routing_fee_budget fc)"
    using fee f(2) by (auto simp: bind_eq_Some_conv checked_add_Some_iff)
  show "quote_terms_ok config (pc_spread_bps config) feerate capacity request created_at vbytes q"
    unfolding quote_terms_ok_def
  proof (rule exI [of _ input], rule exI [of _ paid], rule exI [of _ "fc_provider_fee fc"], rule exI [of _ miner],
      rule exI [of _ "fc_lightning_routing_fee_budget fc"], rule exI [of _ total],
      rule exI [of _ "max (pc_min_swap_sat config) viable"], rule exI [of _ "min (pc_max_swap_sat config) available"],
      rule exI [of _ available], rule exI [of _ amount], intro conjI)
    show "unat input = unat paid + unat total" using total f(4) [OF out(1)] by simp
    show "unat (dq_quote_expires_at q) = unat created_at + unat (pc_quote_expiry_seconds config)"
      using q(10) by (simp add: checked_add_Some_iff)
    show "max (pc_min_swap_sat config) viable \<le> input" "input \<le> min (pc_max_swap_sat config) available"
      using range by (simp_all add: not_less)
    show "dq_miner_fee_budget q = to_decimal miner" using q(5) f(2) by simp
  qed (fact q f(1,3) total m available amount(1) side out(2) max.cobounded1 min.cobounded1 min.cobounded2)+
qed

section \<open>Properties\<close>

text \<open>C38: the bounded search for an input always ends with a result. For a valid configuration and
  amounts up to \<open>10\<^sup>1\<^sup>8\<close> satoshis in total, \<open>input_for_output\<close> and \<open>min_viable_input\<close> return an
  input whose promised output reaches the target; no input smaller by more than two satoshis reaches
  it; and when only one of the two proportional fees applies, no smaller input reaches it at all.\<close>

theorem quote_search:
  assumes "validate_pricing config = Inr ()" "0 < desired" "unat miner + unat desired \<le> 10 ^ 18"
    and "desired = output_floor swap_type \<and> search = min_viable_input config swap_type miner
      \<or> search = input_for_output config swap_type miner desired"
  shows "\<exists>r. search = Inr r \<and> output_covers config swap_type miner desired r = Inr True
    \<and> (\<forall>n. output_covers config swap_type miner desired n = Inr True \<longrightarrow> unat r \<le> unat n + 2)
    \<and> (pc_spread_bps config = 0 \<or> routing_ppm config swap_type = 0 \<longrightarrow>
         (\<forall>n. output_covers config swap_type miner desired n = Inr True \<longrightarrow> r \<le> n))"
proof -
  note v = validate_pricingD(1) [OF assms(1)] validate_pricingD(8) [OF assms(1), of swap_type]
  obtain r where r: "search = Inr r"
    and c: "covered (unat (pc_spread_bps config)) (unat (routing_ppm config swap_type)) (unat miner) (unat desired) (unat r)"
      "\<not> covered (unat (pc_spread_bps config)) (unat (routing_ppm config swap_type)) (unat miner) (unat desired) (unat r - 1)"
    and near: "\<And>n. covered (unat (pc_spread_bps config)) (unat (routing_ppm config swap_type)) (unat miner) (unat desired) n
      \<Longrightarrow> unat r \<le> n + 3"
    using assms(4) search_value [OF assms(1-3), of swap_type]
    unfolding min_viable_input_def input_for_output_def Let_def by metis
  have "unat r \<le> unat n + 2" "pc_spread_bps config = 0 \<or> routing_ppm config swap_type = 0 \<longrightarrow> r \<le> n"
    if "output_covers config swap_type miner desired n = Inr True" for n
  proof -
    have n: "covered (unat (pc_spread_bps config)) (unat (routing_ppm config swap_type)) (unat miner) (unat desired) (unat n)"
      using that by (simp add: output_covers_value [OF assms(1)])
    note f = first_covered [OF v c near [OF n] n]
    show "unat r \<le> unat n + 2" by (rule f(1))
    show "pc_spread_bps config = 0 \<or> routing_ppm config swap_type = 0 \<longrightarrow> r \<le> n"
      using f(2) by (auto simp: word_le_nat_alt)
  qed
  then show ?thesis using r c(1) by (auto simp: output_covers_value [OF assms(1)])
qed

lemma show_nat_hd: "0 < n \<Longrightarrow> hd (show_nat n) \<noteq> CHR ''0''"
proof (induction n rule: show_nat.induct)
  case (1 n)
  show ?case
  proof (cases "n < 10")
    case True
    have "(of_char (char_of (48 + n) :: char) :: nat) \<noteq> of_char CHR ''0''"
      using True "1.prems" by (simp add: digit_char(2))
    then have "char_of (48 + n) \<noteq> CHR ''0''" by metis
    then show ?thesis using True by (subst show_nat.simps) simp
  next
    case False
    then show ?thesis using 1 by (subst show_nat.simps) (simp add: hd_append)
  qed
qed

lemma canonical_sat_to_decimal: "canonical_sat (to_decimal n) label = Inr n"
proof -
  have "show_nat (unat n) \<noteq> [] \<and> \<not> (1 < length (show_nat (unat n)) \<and> starts_with (show_nat (unat n)) ''0'')"
  proof (cases "unat n = 0")
    case True
    then show ?thesis by (subst (1 2) show_nat.simps) (simp add: show_nat.simps [of 0])
  next
    case False
    then show ?thesis using show_nat_hd [of "unat n"] by (cases "show_nat (unat n)") (auto simp: starts_with_def)
  qed
  then have "canonical_digits (to_decimal n)"
    using show_nat_digits [of _ "unat n"] by (auto simp: canonical_digits_def to_decimal_def as_bytes_def list_all_iff)
  moreover have "parse_u64 (to_decimal n) = Some n"
    using parse_unsigned_show_nat [of "unat n" "2 ^ 64"] unat_bound [of n] by (simp add: parse_u64_def to_decimal_def)
  ultimately show ?thesis by (simp add: canonical_sat_def)
qed

text \<open>C13: a derived quote balances. With or without a price feed, the terms of a returned quote are
  the decimal texts of amounts where the input is the output plus the total fee, and the total fee is
  the spread rounded down, the routing budget rounded down, and exactly the worst-case virtual size
  times the fee rate, so the fee is never below the cost of the worst redeemable path. The input lies
  between the stated limits, which lie within the configured range and the available capacity; the
  output is above the settlement floor, and covers the requested amount when that is an output; the
  expiry does not wrap around. The spread is at most ten percent, and it is the configured one when
  there is no valid price feed packet.\<close>

theorem quote_sound:
  assumes "derive_quote_with_price_feed_and_worst_case_vbytes config feerate capacity request created_at vbytes feed = Inr q"
  shows "\<exists>bps. unat bps \<le> 1000 \<and> quote_terms_ok config bps feerate capacity request created_at vbytes q
    \<and> ((\<nexists>packet v. feed = Some packet \<and> validate_at packet created_at = Inr v) \<longrightarrow> bps = pc_spread_bps config)"
proof -
  obtain valid_feed fallback where vf: "(valid_feed, fallback) = (case feed of
        Some packet \<Rightarrow> (case validate_at packet created_at of Inr feed \<Rightarrow> (Some feed, None) | Inl reason \<Rightarrow> (None, Some reason))
      | None \<Rightarrow> (None, None))" by (metis surj_pair)
  define config' where "config' = (case valid_feed of
        Some feed \<Rightarrow> config\<lparr>pc_spread_bps := effective_spread_bps feed (pc_spread_bps config)\<rparr> | None \<Rightarrow> config)"
  obtain d where d: "derive_quote_with_worst_case_vbytes config' feerate capacity request created_at vbytes = Inr d"
    and q: "(\<exists>application. q = d\<lparr>dq_price_feed_application := application, dq_price_feed_fallback := fallback\<rparr>)
      \<or> q = d\<lparr>dq_price_feed_fallback := fallback\<rparr>"
    using assms unfolding derive_quote_with_price_feed_and_worst_case_vbytes_def vf [symmetric] Let_def case_prod_conv config'_def
    by (cases valid_feed) (auto simp: try_then_eq_Inr)
  note t = derived_terms [OF d]
  have same: "routing_ppm config' st = routing_ppm config st" "pc_min_swap_sat config' = pc_min_swap_sat config"
    "pc_max_swap_sat config' = pc_max_swap_sat config" "pc_quote_expiry_seconds config' = pc_quote_expiry_seconds config" for st
    by (cases st; simp add: config'_def split: option.splits)+
  have "quote_terms_ok config (pc_spread_bps config') feerate capacity request created_at vbytes d"
    using t(1) unfolding quote_terms_ok_def same .
  then have "quote_terms_ok config (pc_spread_bps config') feerate capacity request created_at vbytes q"
    using q by (auto simp: quote_terms_update)
  moreover have "pc_spread_bps config' = pc_spread_bps config"
    if "\<nexists>packet v. feed = Some packet \<and> validate_at packet created_at = Inr v"
    using vf that by (auto simp: config'_def split: option.splits sum.splits)
  ultimately show ?thesis using validate_pricingD(1) [OF t(2)] by blast
qed

section \<open>A sample configuration\<close>

text \<open>Spread and routing budget of ten percent each; both fees rise at every multiple of ten.\<close>

definition sample_pricing :: pricing_config where
  "sample_pricing = \<lparr>pc_spread_bps = 1000, pc_fallback_feerate_sat_per_vb = Some 1, pc_min_swap_sat = 1000,
     pc_max_swap_sat = 1000000, pc_quote_expiry_seconds = 300, pc_reservation_tier = TierHard,
     pc_lightning_routing_fee_ppm = 100000\<rparr>"

lemma sample_pricing_valid: "validate_pricing sample_pricing = Inr ()"
  by code_simp

lemma sample_covers:
  "output_covers sample_pricing Submarine miner target n = Inr (covered 1000 100000 (unat miner) (unat target) (unat n))"
  unfolding output_covers_value [OF sample_pricing_valid] by (simp add: sample_pricing_def)

lemma sample_closed_form:
  "closed_form sample_pricing Submarine miner target overflow = (let c = closed_input 1000 100000 (unat miner + unat target)
     in if c < 2 ^ 64 then Inr (of_nat c) else Inl overflow)"
  unfolding closed_form_value [OF sample_pricing_valid] by (simp add: sample_pricing_def)

lemma sample_input_for_output: "input_for_output sample_pricing Submarine 155 7854 = Inr 10011"
  unfolding input_for_output_def Let_def sample_closed_form
  by (simp add: closed_input_def, subst search_up.simps, simp add: sample_covers covered_def fee_at_def,
      (subst search_down.simps, simp add: sample_covers covered_def fee_at_def MIN_VIABLE_SEARCH_STEPS_def)+)

lemma sample_min_viable: "min_viable_input sample_pricing Submarine 155 = Inr 194"
  unfolding min_viable_input_def Let_def sample_closed_form
  by (simp add: closed_input_def LIGHTNING_OUTPUT_FLOOR_SAT_def, subst search_up.simps, simp add: sample_covers covered_def fee_at_def,
      (subst search_down.simps, simp add: sample_covers covered_def fee_at_def MIN_VIABLE_SEARCH_STEPS_def)+)

lemma sample_components:
  "fee_components sample_pricing Submarine 155 10011 = Inr \<lparr>fc_provider_fee = 1001, fc_miner_fee_budget = 155,
     fc_lightning_routing_fee_budget = 1001, fc_output = Some 7854\<rparr>"
  by (simp add: fee_components_def floor_scaled_def Let_def sample_pricing_def checked_sub_def)

definition sample_capacity :: capacity_bounds where
  "sample_capacity = \<lparr>cb_capacity_bucket_id = ''bucket'', cb_available_capacity = to_decimal 500000\<rparr>"

definition sample_request :: quote_request where
  "sample_request = \<lparr>qr_swap_type = Submarine, qr_side = Output, qr_amount = to_decimal 7854\<rparr>"

lemma sample_derived:
  "\<exists>q. derive_quote_with_price_feed_and_worst_case_vbytes sample_pricing (Fallback 1) sample_capacity sample_request 0 155 None = Inr q
     \<and> dq_input_amount q = to_decimal 10011 \<and> dq_maximum_total_fee q = to_decimal 2157"
proof -
  have p: "pc_max_swap_sat sample_pricing = 1000000" "pc_min_swap_sat sample_pricing = 1000" "pc_quote_expiry_seconds sample_pricing = 300"
    by (simp_all add: sample_pricing_def)
  have "checked_mul 155 (1 :: u64) = Some 155" "checked_add 0 (300 :: u64) = Some 300" "checked_add 1001 (155 :: u64) = Some 1156"
    "checked_add 1156 (1001 :: u64) = Some 2157" by (simp_all add: checked_mul_def checked_add_def)
  then show ?thesis
    unfolding derive_quote_with_price_feed_and_worst_case_vbytes_def derive_quote_with_worst_case_vbytes_def
    by (simp add: sample_pricing_valid sample_capacity_def sample_request_def canonical_sat_to_decimal sample_min_viable
        sample_input_for_output sample_components p MAX_FEERATE_SAT_PER_VB_def MAX_AMOUNT_SAT_def LIGHTNING_OUTPUT_FLOOR_SAT_def)
qed

theorem quote_sound_witness:
  "\<exists>q bps. derive_quote_with_price_feed_and_worst_case_vbytes sample_pricing (Fallback 1) sample_capacity sample_request 0 155 None = Inr q
     \<and> quote_terms_ok sample_pricing bps (Fallback 1) sample_capacity sample_request 0 155 q \<and> bps = 1000"
proof -
  obtain q where q: "derive_quote_with_price_feed_and_worst_case_vbytes sample_pricing (Fallback 1) sample_capacity sample_request 0 155 None = Inr q"
    using sample_derived by blast
  from quote_sound [OF q] show ?thesis using q by (auto simp: sample_pricing_def)
qed

theorem quote_search_witness:
  "\<exists>r. input_for_output sample_pricing Submarine 155 7854 = Inr r \<and> output_covers sample_pricing Submarine 155 7854 r = Inr True"
  using quote_search [of sample_pricing 7854 155 Submarine, OF sample_pricing_valid _ _ disjI2 [OF refl]] by auto

text \<open>C39: the input returned for a requested output need not be the smallest that covers it. With a
  spread and a routing budget of ten percent each and a miner fee of 155 satoshis, an output of 7854
  is quoted an input of 10011, although an input of 10009 has that output: at 10010 both rounded
  fees rise, the output falls, and the downward search stops there.\<close>

theorem quote_input_not_least:
  "validate_pricing sample_pricing = Inr () \<and> input_for_output sample_pricing Submarine 155 7854 = Inr 10011
   \<and> output_covers sample_pricing Submarine 155 7854 10009 = Inr True
   \<and> output_covers sample_pricing Submarine 155 7854 10010 = Inr False"
  by (simp add: sample_pricing_valid sample_input_for_output sample_covers covered_def fee_at_def)

end
