(* ===== verification/Funding.thy ===== *)
theory Funding
  imports Wallet Tx_Policy "HOL-Library.Product_Lexorder"
begin

text \<open>
  Funding transactions (\<open>immortal-provider/src/funding.rs\<close>): \<open>build_funding_transaction\<close> spends
  wallet outputs on the key path, pays a destination and returns the change to the wallet. The
  wallet and its curve library are arguments; \<open>encode_hex\<close> is the loop of \<open>encode_lower_hex\<close>. A build
  sorts the inputs, plans the outputs from the size the signed transaction will have, signs every
  input and checks the result; the lemmas follow the same order.
\<close>

section \<open>Definitions\<close>

definition MAX_FUNDING_INPUTS :: nat where "MAX_FUNDING_INPUTS = 64"
definition FUNDING_MAX_SCRIPT_BYTES :: nat where "FUNDING_MAX_SCRIPT_BYTES = 10000"
definition MAX_FEE_RATE_SAT_PER_VBYTE :: u64 where "MAX_FEE_RATE_SAT_PER_VBYTE = 10000"
definition DUST_RELAY_FEE_SAT_PER_KB :: u64 where "DUST_RELAY_FEE_SAT_PER_KB = 3000"
definition NON_RBF_LOCKTIME_SEQUENCE :: u32 where "NON_RBF_LOCKTIME_SEQUENCE = 0xfffffffe"

datatype funding_error =
    FundingInvalid string
  | FundingOverflow string
  | InsufficientFunds
  | FundingWallet
  | FundingVerification

record funding_input =
  fi_txid :: string
  fi_vout :: u32
  fi_value_sat :: u64
  fi_path :: wallet_path

record funding_request =
  fr_destination_script_pubkey :: "u8 list"
  fr_amount_sat :: u64
  fr_fee_rate_sat_per_vbyte :: u64
  fr_change_path :: wallet_path
  fr_lock_time :: u32

record signed_funding_transaction =
  sft_transaction :: transaction
  sft_raw_transaction :: string
  sft_txid :: string
  sft_fee_sat :: u64
  sft_change_sat :: "u64 option"

definition is_lower_hex_32 :: "string \<Rightarrow> bool" where
  "is_lower_hex_32 v \<longleftrightarrow>
     length v = 64 \<and> list_all (\<lambda>b. is_ascii_digit b \<or> (0x61 \<le> b \<and> b \<le> 0x66)) (as_bytes v)"

definition funding_hex_nibble :: "u8 \<Rightarrow> u8 option" where
  "funding_hex_nibble b =
     (if 0x30 \<le> b \<and> b \<le> 0x39 then Some (b - 0x30)
      else if 0x61 \<le> b \<and> b \<le> 0x66 then Some (b - 0x61 + 10)
      else None)"

text \<open>The loop over the pairs of digits, last pair first.\<close>

fun txid_pairs :: "u8 list list \<Rightarrow> (funding_error, u8 list) result" where
  "txid_pairs [] = Inr []"
| "txid_pairs (pair # pairs) =
     try_then (ok_or (funding_hex_nibble (pair ! 0)) (FundingInvalid ''funding transaction ID is invalid'')) (\<lambda>high.
     try_then (ok_or (funding_hex_nibble (pair ! 1)) (FundingInvalid ''funding transaction ID is invalid'')) (\<lambda>low.
     try_then (txid_pairs pairs) (\<lambda>bytes. Inr ((push_bit 4 high OR low) # bytes))))"

definition txid_wire_bytes :: "string \<Rightarrow> (funding_error, u8 list) result" where
  "txid_wire_bytes text_id =
     (if \<not> is_lower_hex_32 text_id then Inl (FundingInvalid ''funding transaction ID is invalid'')
      else txid_pairs (rev (chunks_exact 2 (as_bytes text_id))))"

definition validate_request :: "funding_input list \<Rightarrow> funding_request \<Rightarrow> (funding_error, unit) result" where
  "validate_request inputs request =
     (if inputs = [] \<or> MAX_FUNDING_INPUTS < length inputs
      then Inl (FundingInvalid ''funding input count is outside bounds'')
      else if fr_amount_sat request = 0 \<or> fr_fee_rate_sat_per_vbyte request = 0
              \<or> MAX_FEE_RATE_SAT_PER_VBYTE < fr_fee_rate_sat_per_vbyte request
              \<or> fr_destination_script_pubkey request = []
              \<or> FUNDING_MAX_SCRIPT_BYTES < length (fr_destination_script_pubkey request)
      then Inl (FundingInvalid ''funding amount, fee rate, or destination is outside bounds'')
      else try_all (\<lambda>input. ensure (\<not> (fi_value_sat input = 0 \<or> \<not> is_lower_hex_32 (fi_txid input)))
             (FundingInvalid ''funding input is invalid'')) inputs)"

fun set_dummy_witnesses :: "nat list \<Rightarrow> transaction \<Rightarrow> (funding_error, transaction) result" where
  "set_dummy_witnesses [] tx = Inr tx"
| "set_dummy_witnesses (i # is) tx =
     try_then (map_err (\<lambda>_. FundingVerification) (set_input_witness i [replicate 64 0] tx)) (set_dummy_witnesses is)"

definition estimated_fee :: "transaction \<Rightarrow> u64 \<Rightarrow> (funding_error, u64) result" where
  "estimated_fee tx fee_rate =
     try_then (set_dummy_witnesses [0..<length (t_inputs tx)] tx) (\<lambda>estimated.
     try_then (map_err (\<lambda>_. FundingVerification) (virtual_size estimated)) (\<lambda>size.
     ok_or (checked_mul size fee_rate) (FundingOverflow ''funding fee overflow'')))"

definition plan_transaction ::
    "tx_input list \<Rightarrow> u64 \<Rightarrow> funding_request \<Rightarrow> u8 list \<Rightarrow> (funding_error, transaction \<times> u64 option) result" where
  "plan_transaction inputs input_total request change_script_pubkey =
     (let destination = \<lparr>to_value_sat = fr_amount_sat request, to_script_pubkey = fr_destination_script_pubkey request\<rparr>;
          rate = fr_fee_rate_sat_per_vbyte request
      in try_then (map_err (\<lambda>_. FundingInvalid ''funding destination script is invalid'')
           (is_dust destination DUST_RELAY_FEE_SAT_PER_KB)) (\<lambda>dust.
         if dust then Inl (FundingInvalid ''funding destination is dust'')
         else
           try_then (map_err (\<lambda>_. FundingInvalid ''funding change script is invalid'')
             (dust_threshold change_script_pubkey DUST_RELAY_FEE_SAT_PER_KB)) (\<lambda>change_dust.
           let with_change = new_transaction 2 inputs
                 [destination, \<lparr>to_value_sat = change_dust, to_script_pubkey = change_script_pubkey\<rparr>] (fr_lock_time request)
           in try_then (estimated_fee with_change rate) (\<lambda>with_change_fee.
              try_then (ok_or (case checked_add (fr_amount_sat request) with_change_fee of
                     None \<Rightarrow> None
                   | Some v \<Rightarrow> checked_add v change_dust) (FundingOverflow ''funding output amount overflow'')) (\<lambda>required.
              if required \<le> input_total
              then try_then (ok_or (case checked_sub input_total (fr_amount_sat request) of
                        None \<Rightarrow> None
                      | Some v \<Rightarrow> checked_sub v with_change_fee) InsufficientFunds) (\<lambda>change_sat.
                   Inr (new_transaction 2 inputs
                     [destination, \<lparr>to_value_sat = change_sat, to_script_pubkey = change_script_pubkey\<rparr>]
                     (fr_lock_time request), Some change_sat))
              else
                let without_change = new_transaction 2 inputs [destination] (fr_lock_time request)
                in try_then (estimated_fee without_change rate) (\<lambda>required_fee.
                   try_then (ok_or (checked_add (fr_amount_sat request) required_fee)
                     (FundingOverflow ''funding output amount overflow'')) (\<lambda>required.
                   if input_total < required then Inl InsufficientFunds
                   else Inr (without_change, None))))))))"

definition verify_signature :: "'p secp \<Rightarrow> u8 list \<Rightarrow> u8 list \<Rightarrow> u8 list \<Rightarrow> (funding_error, unit) result" where
  "verify_signature c public_key signature sighash =
     try_then (ensure (tc_xonly_ok (sp_taproot c) public_key) FundingVerification) (\<lambda>_.
     ensure (sp_verify c signature sighash public_key) FundingVerification)"

text \<open>The loop that collects the inputs, the outputs they spend, and their total.\<close>

fun prepare_inputs ::
    "'p wallet_crypto \<Rightarrow> provider_wallet \<Rightarrow> funding_input list \<Rightarrow> u64
      \<Rightarrow> (funding_error, tx_input list \<times> tx_output list \<times> u64) result" where
  "prepare_inputs wc wallet [] input_total = Inr ([], [], input_total)"
| "prepare_inputs wc wallet (input # inputs) input_total =
     try_then (map_err (\<lambda>_. FundingWallet) (derive_address wc wallet (fi_path input))) (\<lambda>address.
     try_then (ok_or (checked_add input_total (fi_value_sat input)) (FundingOverflow ''funding input amount overflow'')) (\<lambda>input_total.
     try_then (txid_wire_bytes (fi_txid input)) (\<lambda>previous_txid.
     try_then (prepare_inputs wc wallet inputs input_total) (\<lambda>(transaction_inputs, prevouts, input_total).
     Inr (\<lparr>ti_previous_txid = previous_txid, ti_previous_output = fi_vout input, ti_script_sig = [],
            ti_sequence = NON_RBF_LOCKTIME_SEQUENCE, ti_witness = []\<rparr> # transaction_inputs,
          \<lparr>to_value_sat = fi_value_sat input, to_script_pubkey = ta_script_pubkey address\<rparr> # prevouts, input_total)))))"

text \<open>The loop that signs the inputs, from the given index on.\<close>

fun sign_inputs ::
    "'p wallet_crypto \<Rightarrow> provider_wallet \<Rightarrow> tx_output list \<Rightarrow> nat \<Rightarrow> funding_input list \<Rightarrow> transaction
      \<Rightarrow> (funding_error, transaction) result" where
  "sign_inputs wc wallet prevouts input_index [] tx = Inr tx"
| "sign_inputs wc wallet prevouts input_index (input # inputs) tx =
     try_then (map_err (\<lambda>_. FundingVerification)
       (taproot_key_spend_sighash (sp_taproot (wc_secp wc)) tx prevouts input_index)) (\<lambda>sighash.
     try_then (map_err (\<lambda>_. FundingWallet) (sign_key_path wc wallet (fi_path input) sighash)) (\<lambda>signature.
     try_then (ok_or (if input_index < length prevouts \<and> 34 \<le> length (to_script_pubkey (prevouts ! input_index))
           then Some (take 32 (drop 2 (to_script_pubkey (prevouts ! input_index)))) else None) FundingVerification) (\<lambda>expected_key.
     if ws_public_key signature \<noteq> expected_key then Inl FundingVerification
     else
       try_then (verify_signature (wc_secp wc) (ws_public_key signature) (ws_signature signature) sighash) (\<lambda>_.
       try_then (map_err (\<lambda>_. FundingVerification) (set_input_witness input_index [ws_signature signature] tx))
         (sign_inputs wc wallet prevouts (input_index + 1) inputs)))))"

fun repeats_outpoint :: "funding_input list \<Rightarrow> bool" where
  "repeats_outpoint (a # b # rest) = (fi_txid a = fi_txid b \<and> fi_vout a = fi_vout b \<or> repeats_outpoint (b # rest))"
| "repeats_outpoint _ = False"

definition build_funding_transaction ::
    "'p wallet_crypto \<Rightarrow> provider_wallet \<Rightarrow> funding_input list \<Rightarrow> funding_request
      \<Rightarrow> (funding_error, signed_funding_transaction) result" where
  "build_funding_transaction wc wallet inputs request =
     try_then (validate_request inputs request) (\<lambda>_.
     let inputs = sort_key (\<lambda>input. (fi_txid input, fi_vout input)) inputs
     in if repeats_outpoint inputs then Inl (FundingInvalid ''funding inputs repeat an outpoint'')
        else
          try_then (prepare_inputs wc wallet inputs 0) (\<lambda>(transaction_inputs, prevouts, input_total).
          try_then (map_err (\<lambda>_. FundingWallet) (derive_address wc wallet (fr_change_path request))) (\<lambda>change.
          try_then (plan_transaction transaction_inputs input_total request (ta_script_pubkey change)) (\<lambda>(tx, change_sat).
          try_then (sign_inputs wc wallet prevouts 0 inputs tx) (\<lambda>tx.
          try_then (map_err (\<lambda>_. FundingVerification) (transaction_cost tx prevouts)) (\<lambda>cost.
          try_then (ok_or (checked_mul (fr_fee_rate_sat_per_vbyte request) (tc_virtual_size cost))
            (FundingOverflow ''funding fee overflow'')) (\<lambda>required_fee.
          if tc_fee_sat cost < required_fee then Inl FundingVerification
          else
            try_then (map_err (\<lambda>_. FundingVerification) (serialize tx True)) (\<lambda>raw.
            try_then (map_err (\<lambda>_. FundingVerification) (txid (tc_sha256 (sp_taproot (wc_secp wc))) tx)) (\<lambda>id.
            Inr \<lparr>sft_transaction = tx, sft_raw_transaction = encode_lower_hex raw, sft_txid = encode_lower_hex id,
                 sft_fee_sat = tc_fee_sat cost, sft_change_sat = change_sat\<rparr>)))))))))"

section \<open>Transaction IDs\<close>

lemma txid_pairs_append:
  "txid_pairs (ps @ qs) = try_then (txid_pairs ps) (\<lambda>a. try_then (txid_pairs qs) (\<lambda>b. Inr (a @ b)))"
proof (induction ps)
  case Nil
  then show ?case by (cases "txid_pairs qs") simp_all
next
  case (Cons p ps)
  then show ?case by (simp add: try_then_assoc)
qed

lemma funding_hex_nibble_eq: "funding_hex_nibble = hex_nibble"
  by (simp add: fun_eq_iff funding_hex_nibble_def hex_nibble_def)

lemma txid_pairs_decode:
  "\<lbrakk>decode_pairs bs = Some out; even (length bs)\<rbrakk> \<Longrightarrow> txid_pairs (rev (chunks_exact 2 bs)) = Inr (rev out)"
proof (induction bs arbitrary: out rule: decode_pairs.induct)
  case (1 a b rest)
  then show ?case
    by (auto simp: chunks_exact.simps [of 2 "a # b # rest"] txid_pairs_append funding_hex_nibble_eq split: option.splits)
qed (simp_all add: chunks_exact.simps)

lemma decode_pairs_total:
  "list_all (\<lambda>b. hex_nibble b \<noteq> None) bs \<Longrightarrow> \<exists>out. decode_pairs bs = Some out"
  by (induction bs rule: decode_pairs.induct) auto

lemma is_lower_hex_32_iff: "is_lower_hex_32 s \<longleftrightarrow> (\<exists>bs. length bs = 32 \<and> s = encode_lower_hex bs)"
proof
  assume s: "is_lower_hex_32 s"
  have "list_all (\<lambda>b. hex_nibble b \<noteq> None) (as_bytes s)"
    using s by (auto simp: is_lower_hex_32_def hex_nibble_def is_ascii_digit_def list_all_iff)
  then obtain bs where d: "decode_pairs (as_bytes s) = Some bs" using decode_pairs_total by blast
  have "length bs = 32" "as_bytes (encode_lower_hex bs) = as_bytes s"
    using decode_pairs_length [OF d] decode_pairs_SomeD [OF d] s by (simp_all add: is_lower_hex_32_def)
  then show "\<exists>bs. length bs = 32 \<and> s = encode_lower_hex bs" by auto
next
  have digit: "is_ascii_digit b \<or> 0x61 \<le> b \<and> b \<le> 0x66" if "hex_nibble b \<noteq> None" for b
    using that by (simp add: hex_nibble_def is_ascii_digit_def split: if_splits)
  have "list_all (\<lambda>b. is_ascii_digit b \<or> 0x61 \<le> b \<and> b \<le> 0x66) (as_bytes (encode_lower_hex bs))" for bs
    by (induction bs) (simp_all add: digit hex_nibble_HEX)
  then show "\<exists>bs. length bs = 32 \<and> s = encode_lower_hex bs \<Longrightarrow> is_lower_hex_32 s"
    by (auto simp: is_lower_hex_32_def)
qed

lemma txid_wire_bytes_encode: "length bs = 32 \<Longrightarrow> txid_wire_bytes (encode_lower_hex bs) = Inr (rev bs)"
  using txid_pairs_decode [OF decode_pairs_encode [of bs]] is_lower_hex_32_iff
  by (auto simp: txid_wire_bytes_def)

lemma txid_wire_bytes_iff: "txid_wire_bytes s = Inr t \<longleftrightarrow> length t = 32 \<and> s = encode_lower_hex (rev t)"
proof
  assume t: "txid_wire_bytes s = Inr t"
  then have "is_lower_hex_32 s" by (auto simp: txid_wire_bytes_def split: if_split_asm)
  then obtain bs where "length bs = 32" "s = encode_lower_hex bs" using is_lower_hex_32_iff by blast
  with t show "length t = 32 \<and> s = encode_lower_hex (rev t)" using txid_wire_bytes_encode [of bs] by auto
next
  assume "length t = 32 \<and> s = encode_lower_hex (rev t)"
  then show "txid_wire_bytes s = Inr t" using txid_wire_bytes_encode [of "rev t"] by simp
qed

section \<open>Inputs\<close>

abbreviation outpoint :: "funding_input \<Rightarrow> string \<times> u32" where
  "outpoint i \<equiv> (fi_txid i, fi_vout i)"

lemma repeats_outpoint_sorted:
  "sorted (map outpoint xs) \<Longrightarrow> repeats_outpoint xs \<longleftrightarrow> \<not> distinct (map outpoint xs)"
proof (induction xs rule: repeats_outpoint.induct)
  case (1 a b rest)
  have "outpoint a \<in> set (map outpoint (b # rest)) \<longleftrightarrow> outpoint a = outpoint b"
  proof
    assume "outpoint a \<in> set (map outpoint (b # rest))"
    moreover have "outpoint a \<le> outpoint b" "\<forall>p \<in> set (map outpoint (b # rest)). outpoint b \<le> p"
      using 1(2) by auto
    ultimately show "outpoint a = outpoint b" by (meson antisym)
  qed simp
  moreover have "distinct (map outpoint (a # b # rest))
      \<longleftrightarrow> outpoint a \<notin> set (map outpoint (b # rest)) \<and> distinct (map outpoint (b # rest))"
    by simp
  moreover have "repeats_outpoint (b # rest) \<longleftrightarrow> \<not> distinct (map outpoint (b # rest))" using 1 by simp
  ultimately show ?case by (simp only: repeats_outpoint.simps prod.inject) blast
qed simp_all

lemma repeats_outpoint_sort: "repeats_outpoint (sort_key outpoint xs) \<longleftrightarrow> \<not> distinct (map outpoint xs)"
proof -
  have "distinct (map outpoint (sort_key outpoint xs)) \<longleftrightarrow> distinct (map outpoint xs)"
    by (simp add: distinct_map)
  then show ?thesis by (simp add: repeats_outpoint_sorted)
qed

text \<open>The input and the output it spends.\<close>

definition spends :: "funding_input \<Rightarrow> tx_input \<Rightarrow> bool" where
  "spends i t \<longleftrightarrow> length (ti_previous_txid t) = 32 \<and> fi_txid i = encode_lower_hex (rev (ti_previous_txid t))
     \<and> ti_previous_output t = fi_vout i \<and> ti_script_sig t = [] \<and> ti_sequence t = NON_RBF_LOCKTIME_SEQUENCE"

definition owned_output :: "'p wallet_crypto \<Rightarrow> provider_wallet \<Rightarrow> funding_input \<Rightarrow> tx_output \<Rightarrow> bool" where
  "owned_output wc wallet i p \<longleftrightarrow> (\<exists>a. derive_address wc wallet (fi_path i) = Inr a
     \<and> p = \<lparr>to_value_sat = fi_value_sat i, to_script_pubkey = ta_script_pubkey a\<rparr>)"

lemma prepare_inputs_iff:
  "prepare_inputs wc wallet is s = Inr (ts, ps, r) \<longleftrightarrow>
     list_all2 (\<lambda>i t. spends i t \<and> ti_witness t = []) is ts \<and> list_all2 (owned_output wc wallet) is ps
     \<and> sum_values [] ps s = Inr r"
proof (induction "is" arbitrary: s ts ps)
  case (Cons i "is")
  show ?case
    by (cases ts; cases ps)
      (auto simp: try_then_eq_Inr ok_or_eq_Inr map_err_eq_Inr Cons.IH owned_output_def txid_wire_bytes_iff spends_def
        intro!: exI [of _ "ti_previous_txid (hd ts)"] tx_input.equality)
qed (auto)

section \<open>Signing\<close>

text \<open>The signature message of a key-path spend does not depend on the witnesses.\<close>

lemma key_sighash_stripped:
  "taproot_key_spend_sighash crypto (strip_tx tx) prevouts i = taproot_key_spend_sighash crypto tx prevouts i"
proof -
  have "common_message crypto (strip_tx tx) prevouts = common_message crypto tx prevouts"
    by (simp add: common_message_def parts_stripped) (simp add: strip_tx_def)
  moreover have "ti_script_sig (map strip_witness (t_inputs tx) ! i) = ti_script_sig (t_inputs tx ! i)"
    if "i < length (t_inputs tx)" using that by simp
  then have "validate_taproot_key_spend_inputs crypto (strip_tx tx) prevouts i
      = validate_taproot_key_spend_inputs crypto tx prevouts i"
    by (simp add: validate_taproot_key_spend_inputs_def strip_tx_def try_all_map result_simps)
  ultimately show ?thesis
    by (simp add: taproot_key_spend_sighash_def taproot_key_spend_signature_message_def)
qed

lemma key_sighash_same:
  "strip_tx tx' = strip_tx tx \<Longrightarrow>
     taproot_key_spend_sighash crypto tx' prevouts i = taproot_key_spend_sighash crypto tx prevouts i"
  by (metis key_sighash_stripped)

lemma set_input_witness_iff:
  "set_input_witness i w tx = Inr tx' \<longleftrightarrow> witness_ok w \<and> i < length (t_inputs tx)
     \<and> tx' = tx\<lparr>t_inputs := (t_inputs tx)[i := (t_inputs tx ! i)\<lparr>ti_witness := w\<rparr>],
         t_has_witness := any_witness ((t_inputs tx)[i := (t_inputs tx ! i)\<lparr>ti_witness := w\<rparr>])\<rparr>"
proof -
  have "validate_witness_items w = Inr () \<longleftrightarrow> witness_ok w"
    by (auto simp: validate_witness_items_def try_then_eq_Inr witness_ok_def list_ex_iff list_all_iff not_less)
  then show ?thesis by (simp add: set_input_witness_def try_then_eq_Inr Let_def) blast
qed

text \<open>What signing leaves at an input.\<close>

definition input_signed ::
    "'p wallet_crypto \<Rightarrow> provider_wallet \<Rightarrow> tx_output list \<Rightarrow> transaction \<Rightarrow> nat \<Rightarrow> funding_input \<Rightarrow> bool" where
  "input_signed wc wallet prevouts tx k i \<longleftrightarrow> (\<exists>sighash s.
     taproot_key_spend_sighash (sp_taproot (wc_secp wc)) tx prevouts k = Inr sighash
     \<and> sign_key_path wc wallet (fi_path i) sighash = Inr s
     \<and> ws_public_key s = take 32 (drop 2 (to_script_pubkey (prevouts ! k)))
     \<and> sp_verify (wc_secp wc) (ws_signature s) sighash (ws_public_key s)
     \<and> ti_witness (t_inputs tx ! k) = [ws_signature s])"

lemma input_signed_same:
  assumes "strip_tx tx' = strip_tx tx" "t_inputs tx' ! k = t_inputs tx ! k"
  shows "input_signed wc wallet prevouts tx' k i \<longleftrightarrow> input_signed wc wallet prevouts tx k i"
  using assms(2) by (simp add: input_signed_def key_sighash_same [OF assms(1)])

lemma sign_inputs_step:
  assumes "sign_inputs wc wallet ps k (i # is) tx = Inr tx'"
  obtains tx1 where "sign_inputs wc wallet ps (k + 1) is tx1 = Inr tx'" "input_signed wc wallet ps tx1 k i"
    "strip_tx tx1 = strip_tx tx" "length (t_inputs tx1) = length (t_inputs tx)"
    "\<forall>j. j \<noteq> k \<longrightarrow> t_inputs tx1 ! j = t_inputs tx ! j" "t_has_witness tx1 = any_witness (t_inputs tx1)"
proof -
  obtain h s tx1 where h: "taproot_key_spend_sighash (sp_taproot (wc_secp wc)) tx ps k = Inr h"
    "sign_key_path wc wallet (fi_path i) h = Inr s"
    "ws_public_key s = take 32 (drop 2 (to_script_pubkey (ps ! k)))"
    "verify_signature (wc_secp wc) (ws_public_key s) (ws_signature s) h = Inr ()"
    and w: "set_input_witness k [ws_signature s] tx = Inr tx1"
    and r: "sign_inputs wc wallet ps (k + 1) is tx1 = Inr tx'"
    using assms by (auto simp: try_then_eq_Inr ok_or_eq_Inr map_err_eq_Inr split: if_split_asm)
  note st = set_input_witness_InrD [OF w]
  have v: "sp_verify (wc_secp wc) (ws_signature s) h (ws_public_key s)"
    using h(4) by (auto simp: verify_signature_def try_then_eq_Inr)
  have "input_signed wc wallet ps tx1 k i"
    using h(1-3) v st(1,4) by (simp add: input_signed_def key_sighash_same [OF st(2)])
  moreover have "\<forall>j. j \<noteq> k \<longrightarrow> t_inputs tx1 ! j = t_inputs tx ! j" "t_has_witness tx1 = any_witness (t_inputs tx1)"
    using w by (simp_all add: set_input_witness_iff)
  ultimately show thesis using that r st(2,3) by blast
qed

lemma sign_inputsD:
  "sign_inputs wc wallet ps k is tx = Inr tx' \<Longrightarrow>
     strip_tx tx' = strip_tx tx \<and> length (t_inputs tx') = length (t_inputs tx)
     \<and> (\<forall>j<k. t_inputs tx' ! j = t_inputs tx ! j) \<and> (\<forall>j<length is. input_signed wc wallet ps tx' (k + j) (is ! j))
     \<and> (t_has_witness tx = any_witness (t_inputs tx) \<longrightarrow> t_has_witness tx' = any_witness (t_inputs tx'))"
proof (induction "is" arbitrary: k tx)
  case (Cons i "is")
  obtain tx1 where s: "sign_inputs wc wallet ps (k + 1) is tx1 = Inr tx'" "input_signed wc wallet ps tx1 k i"
    "strip_tx tx1 = strip_tx tx" "length (t_inputs tx1) = length (t_inputs tx)"
    "\<forall>j. j \<noteq> k \<longrightarrow> t_inputs tx1 ! j = t_inputs tx ! j" "t_has_witness tx1 = any_witness (t_inputs tx1)"
    using sign_inputs_step [OF Cons.prems] by blast
  note ih = Cons.IH [OF s(1)]
  have here: "input_signed wc wallet ps tx' k i"
    by (rule input_signed_same [THEN iffD2, OF _ _ s(2)]) (use ih in simp_all)
  have "input_signed wc wallet ps tx' (k + j) ((i # is) ! j)" if "j < length (i # is)" for j
    using ih here that by (cases j) simp_all
  moreover have "t_inputs tx' ! j = t_inputs tx ! j" if "j < k" for j using ih s(5) that by simp
  ultimately show ?case using ih s(3,4,6) by simp
qed simp

lemma sign_key_path_length:
  assumes "wallet_laws wc dl" "sign_key_path wc wallet path h = Inr s"
  shows "length (ws_signature s) = 64"
proof -
  obtain k t r where "tweaked_secret wc wallet path = Inr (k, t, r)" "s = \<lparr>ws_public_key
      = fst (sp_xonly (wc_secp wc) (sp_public (wc_secp wc) r)), ws_signature = wc_sign_schnorr wc h r\<rparr>"
    using assms(2) unfolding sign_key_path_tweaked by (auto simp: try_then_eq_Inr sign_digest_def)
  then show ?thesis
    using tweaked_secretD(3) [OF assms(1)] wallet_lawsD(5) [OF assms(1)] by (auto simp: signer_law_def)
qed

lemma derived_script:
  assumes "wallet_laws wc dl" "derive_address wc wallet path = Inr a"
  shows "ta_script_pubkey a = 0x51 # 0x20 # ta_output_key a" "length (ta_output_key a) = 32"
    "\<exists>P. ta_output_key a = fst (sp_xonly (wc_secp wc) P)"
proof -
  obtain k r where a: "a = address_of wc (pw_network wallet) path k r"
    using assms(2) [unfolded derive_address_tweaked [OF assms(1)]] by (auto simp: try_then_eq_Inr)
  show "ta_script_pubkey a = 0x51 # 0x20 # ta_output_key a" by (simp add: a address_of_def Let_def)
  show "\<exists>P. ta_output_key a = fst (sp_xonly (wc_secp wc) P)" by (auto simp: a address_of_def Let_def)
  show "length (ta_output_key a) = 32"
    using wallet_lawsD(3) [OF assms(1)] by (simp add: a address_of_def Let_def encoding_laws_def)
qed

text \<open>The library reads every x coordinate back as an x-only key.\<close>

definition xonly_law :: "'p secp \<Rightarrow> bool" where
  "xonly_law c \<longleftrightarrow> (\<forall>P. tc_xonly_ok (sp_taproot c) (fst (sp_xonly c P)))"

lemma owned_outputD:
  assumes "wallet_laws wc dl" "xonly_law (wc_secp wc)" "owned_output wc wallet i p"
  obtains a where "derive_address wc wallet (fi_path i) = Inr a" "to_value_sat p = fi_value_sat i"
    "to_script_pubkey p = 0x51 # 0x20 # ta_output_key a" "length (ta_output_key a) = 32"
    "tc_xonly_ok (sp_taproot (wc_secp wc)) (ta_output_key a)"
proof -
  obtain a where a: "derive_address wc wallet (fi_path i) = Inr a"
    "p = \<lparr>to_value_sat = fi_value_sat i, to_script_pubkey = ta_script_pubkey a\<rparr>"
    using assms(3) unfolding owned_output_def by blast
  note d = derived_script [OF assms(1) a(1)]
  have "tc_xonly_ok (sp_taproot (wc_secp wc)) (ta_output_key a)"
    using d(3) assms(2) unfolding xonly_law_def by metis
  with a d(1,2) show thesis by (intro that) simp_all
qed

lemma sign_inputs_total:
  assumes laws: "wallet_laws wc dl" "xonly_law (wc_secp wc)"
  shows "\<lbrakk>\<forall>j<length is. k + j < length ps \<and> owned_output wc wallet (is ! j) (ps ! (k + j))
        \<and> (\<exists>h. taproot_key_spend_sighash (sp_taproot (wc_secp wc)) tx ps (k + j) = Inr h);
      k + length is \<le> length (t_inputs tx)\<rbrakk>
    \<Longrightarrow> \<exists>tx'. sign_inputs wc wallet ps k is tx = Inr tx'"
proof (induction "is" arbitrary: k tx)
  case (Cons i "is")
  have "0 < length (i # is)" by simp
  note here = Cons.prems(1) [rule_format, OF this]
  from here obtain h where h: "taproot_key_spend_sighash (sp_taproot (wc_secp wc)) tx ps k = Inr h" by auto
  from here have k: "k < length ps" and own: "owned_output wc wallet i (ps ! k)" by simp_all
  obtain a where a: "derive_address wc wallet (fi_path i) = Inr a"
    "to_script_pubkey (ps ! k) = 0x51 # 0x20 # ta_output_key a" "length (ta_output_key a) = 32"
    "tc_xonly_ok (sp_taproot (wc_secp wc)) (ta_output_key a)"
    using owned_outputD [OF laws own] by metis
  obtain s where s: "sign_key_path wc wallet (fi_path i) h = Inr s" "ws_public_key s = ta_output_key a"
    "sp_verify (wc_secp wc) (ws_signature s) h (ta_output_key a)"
    using derived_address_spendable [OF laws(1) a(1)] by blast
  have ok: "witness_ok [ws_signature s]" "k < length (t_inputs tx)"
    using sign_key_path_length [OF laws(1) s(1)] Cons.prems(2) by (simp_all add: witness_ok_def tx_limits)
  then obtain tx1 where w: "set_input_witness k [ws_signature s] tx = Inr tx1" by (simp add: set_input_witness_iff)
  note st = set_input_witness_InrD [OF w]
  have "\<exists>tx'. sign_inputs wc wallet ps (k + 1) is tx1 = Inr tx'"
  proof (rule Cons.IH)
    show "k + 1 + length is \<le> length (t_inputs tx1)" using Cons.prems(2) st(3) by simp
    have "Suc j < length (i # is)" if "j < length is" for j using that by simp
    note next_inputs = Cons.prems(1) [rule_format, OF this]
    show "\<forall>j<length is. k + 1 + j < length ps \<and> owned_output wc wallet (is ! j) (ps ! (k + 1 + j))
        \<and> (\<exists>h. taproot_key_spend_sighash (sp_taproot (wc_secp wc)) tx1 ps (k + 1 + j) = Inr h)"
      using next_inputs by (simp add: key_sighash_same [OF st(2)])
  qed
  then show ?case using h k a(2-4) s w by (simp add: verify_signature_def)
qed simp

lemma key_sighash_total:
  assumes "t_inputs tx \<noteq> []" "length (t_inputs tx) \<le> 64" "length (t_inputs tx) = length ps"
    "t_outputs tx \<noteq> []" "length (t_outputs tx) \<le> 2" "\<forall>out \<in> set (t_outputs tx). length (to_script_pubkey out) \<le> 10000"
    "\<forall>t \<in> set (t_inputs tx). ti_script_sig t = []"
    "\<forall>p \<in> set ps. \<exists>key. to_script_pubkey p = 0x51 # 0x20 # key \<and> length key = 32 \<and> tc_xonly_ok crypto key"
    "k < length ps"
  shows "\<exists>h. taproot_key_spend_sighash crypto tx ps k = Inr h"
proof -
  obtain key where key: "to_script_pubkey (ps ! k) = 0x51 # 0x20 # key" "length key = 32" "tc_xonly_ok crypto key"
    using assms(8,9) nth_mem by blast
  have "\<forall>p \<in> set ps. \<not> 10000 < length (to_script_pubkey p)" using assms(8) by auto
  then have "validate_taproot_key_spend_inputs crypto tx ps k = Inr ()"
    using assms key by (simp add: validate_taproot_key_spend_inputs_def taproot_output_key_from_script_pubkey_def
        try_then_eq_Inr tx_limits Let_def result_simps)
  moreover have "list_all (\<lambda>t. length (to_script_pubkey t) \<le> MAX_SCRIPT_BYTES) (t_outputs tx)"
    using assms(6) by (simp add: list_all_iff tx_limits)
  then have "try_map write_output (t_outputs tx) = Inr (map output_bytes (t_outputs tx))" by (simp add: write_parts)
  then have "\<exists>m. common_message crypto tx ps = Inr m" by (simp add: common_message_def)
  moreover have "k < 2 ^ 32" using assms(2,3,9) by simp
  ultimately show ?thesis
    by (auto simp: taproot_key_spend_sighash_def taproot_key_spend_signature_message_def)
qed

section \<open>Sizes\<close>

definition output_width :: "tx_output \<Rightarrow> nat" where
  "output_width out = 8 + compact_size_length (length (to_script_pubkey out)) + length (to_script_pubkey out)"

text \<open>The virtual size of a transaction with \<open>n\<close> inputs, each with one signature of 64 bytes.\<close>

definition signed_vbytes :: "nat \<Rightarrow> tx_output list \<Rightarrow> nat" where
  "signed_vbytes n outs = (4 * (10 + 41 * n + sum_list (map output_width outs)) + 66 * n + 5) div 4"

definition wallet_input :: "nat \<Rightarrow> tx_input \<Rightarrow> bool" where
  "wallet_input items t \<longleftrightarrow> length (ti_previous_txid t) = 32 \<and> ti_script_sig t = []
     \<and> length (ti_witness t) = items \<and> (\<forall>s \<in> set (ti_witness t). length s = 64)"

definition payment_outputs :: "tx_output list \<Rightarrow> bool" where
  "payment_outputs outs \<longleftrightarrow> outs \<noteq> [] \<and> length outs \<le> 2 \<and> (\<forall>out \<in> set outs. length (to_script_pubkey out) \<le> 10000)"

lemma wallet_input_bytes:
  "wallet_input n t \<Longrightarrow> length (input_bytes t) = 41"
  "wallet_input 1 t \<Longrightarrow> length (witness_bytes (ti_witness t)) = 66"
  by (cases t; auto simp: wallet_input_def input_bytes_def witness_bytes_def length_write_var_bytes
      length_write_compact_size compact_size_length_def length_Suc_conv)+

lemma length_concat_const: "\<forall>x \<in> set xs. length (f x) = n \<Longrightarrow> length (concat (map f xs)) = n * length xs"
  by (induction xs) simp_all

lemma layout_lengths:
  assumes "\<forall>t \<in> set (t_inputs tx). wallet_input 1 t" "length (t_inputs tx) \<le> 64" "length (t_outputs tx) \<le> 2"
  shows "length (layout tx False) = 10 + 41 * length (t_inputs tx) + sum_list (map output_width (t_outputs tx))"
    "length (layout tx True) = length (layout tx False) + 2 + 66 * length (t_inputs tx)"
proof -
  have ins: "length (concat (map input_bytes (t_inputs tx))) = 41 * length (t_inputs tx)"
    "length (concat (map (\<lambda>i. witness_bytes (ti_witness i)) (t_inputs tx))) = 66 * length (t_inputs tx)"
    using assms(1) wallet_input_bytes by (intro length_concat_const; blast)+
  have "length (output_bytes out) = output_width out" for out
    by (simp add: output_bytes_def output_width_def length_write_var_bytes)
  then have outs: "length (concat (map output_bytes (t_outputs tx))) = sum_list (map output_width (t_outputs tx))"
    by (simp add: length_concat o_def)
  show "length (layout tx False) = 10 + 41 * length (t_inputs tx) + sum_list (map output_width (t_outputs tx))"
    using assms(2,3) ins outs by (simp add: layout_def length_write_compact_size compact_size_length_def)
  show "length (layout tx True) = length (layout tx False) + 2 + 66 * length (t_inputs tx)"
    using ins(2) by (simp add: layout_def)
qed

lemma output_widths_le:
  assumes "payment_outputs outs"
  shows "sum_list (map output_width outs) \<le> 20034"
proof -
  have "output_width out \<le> 10017" if "out \<in> set outs" for out
    using assms that compact_size_length_le [of "length (to_script_pubkey out)"]
    by (auto simp: payment_outputs_def output_width_def)
  then have "sum_list (map output_width outs) \<le> 10017 * length outs"
    by (induction outs) (simp_all, fastforce)
  also have "\<dots> \<le> 20034" using assms by (simp add: payment_outputs_def)
  finally show ?thesis .
qed

lemma signed_vbytes_le: "\<lbrakk>payment_outputs outs; n \<le> 64\<rbrakk> \<Longrightarrow> signed_vbytes n outs \<le> 30000"
  using output_widths_le [of outs] by (simp add: signed_vbytes_def)

lemma signed_size:
  assumes "\<forall>t \<in> set (t_inputs tx). wallet_input 1 t" "t_inputs tx \<noteq> []" "length (t_inputs tx) \<le> 64"
    "payment_outputs (t_outputs tx)" "t_has_witness tx"
  shows "serialize tx True = Inr (layout tx True)" "serialize tx False = Inr (layout tx False)" "tx_ok tx"
    "weight tx \<noteq> Inl e" "virtual_size tx = Inr (of_nat (signed_vbytes (length (t_inputs tx)) (t_outputs tx)))"
proof -
  have o2: "length (t_outputs tx) \<le> 2" using assms(4) by (simp add: payment_outputs_def)
  note len = layout_lengths [OF assms(1,3) o2] and widths = output_widths_le [OF assms(4)]
  have wit: "any_witness (t_inputs tx)"
    using assms(1,2) by (cases "t_inputs tx") (auto simp: any_witness_def wallet_input_def)
  have "witness_ok (ti_witness t)" if "t \<in> set (t_inputs tx)" for t
    using assms(1) that by (auto simp: witness_ok_def wallet_input_def list_all_iff tx_limits)
  then have lim: "within_limits tx b" for b
    using assms(1-4) len widths
    by (cases b) (auto simp: within_limits_def wallet_input_def payment_outputs_def list_all_iff tx_limits)
  show ser: "serialize tx True = Inr (layout tx True)" "serialize tx False = Inr (layout tx False)"
    using lim wit assms(5) by (simp_all add: serialize_iff)
  show "tx_ok tx" using lim assms(1,5) by (simp add: tx_ok_def txids_ok_def list_all_iff wallet_input_def)
  obtain w v where "weight tx = Inr w" "virtual_size tx = Inr v"
    "unat w = 3 * length (layout tx False) + length (layout tx True)" "unat v = (unat w + 3) div 4"
    using tx_weight [OF ser(2,1)] by blast
  moreover have n: "unat v = signed_vbytes (length (t_inputs tx)) (t_outputs tx)"
    using calculation(3,4) len by (simp add: signed_vbytes_def algebra_simps)
  have "v = of_nat (signed_vbytes (length (t_inputs tx)) (t_outputs tx))" by (simp flip: n)
  ultimately show "weight tx \<noteq> Inl e" "virtual_size tx = Inr (of_nat (signed_vbytes (length (t_inputs tx)) (t_outputs tx)))"
    by simp_all
qed

section \<open>The fee estimate is the size of the signed transaction\<close>

lemma set_dummy_witnesses_total:
  "\<forall>i \<in> set is. i < length (t_inputs tx) \<Longrightarrow> \<exists>tx'. set_dummy_witnesses is tx = Inr tx'
     \<and> t_outputs tx' = t_outputs tx \<and> length (t_inputs tx') = length (t_inputs tx)
     \<and> (\<forall>j<length (t_inputs tx). t_inputs tx' ! j
          = (if j \<in> set is then (t_inputs tx ! j)\<lparr>ti_witness := [replicate 64 0]\<rparr> else t_inputs tx ! j))
     \<and> (is \<noteq> [] \<longrightarrow> t_has_witness tx' = any_witness (t_inputs tx'))"
proof (induction "is" arbitrary: tx)
  case (Cons i "is")
  let ?ins = "(t_inputs tx)[i := (t_inputs tx ! i)\<lparr>ti_witness := [replicate 64 0]\<rparr>]"
  define tx1 where "tx1 = tx\<lparr>t_inputs := ?ins, t_has_witness := any_witness ?ins\<rparr>"
  have w: "set_input_witness i [replicate 64 0] tx = Inr tx1"
    using Cons.prems by (simp add: set_input_witness_iff tx1_def witness_ok_def tx_limits)
  have sel: "t_inputs tx1 = ?ins" "t_outputs tx1 = t_outputs tx" "t_has_witness tx1 = any_witness ?ins"
    by (simp_all add: tx1_def)
  obtain tx' where r: "set_dummy_witnesses is tx1 = Inr tx'" "t_outputs tx' = t_outputs tx"
    "length (t_inputs tx') = length (t_inputs tx)"
    "\<forall>j<length (t_inputs tx). t_inputs tx' ! j
       = (if j \<in> set is then (?ins ! j)\<lparr>ti_witness := [replicate 64 0]\<rparr> else ?ins ! j)"
    "is \<noteq> [] \<longrightarrow> t_has_witness tx' = any_witness (t_inputs tx')"
    using Cons.IH [of tx1] Cons.prems by (auto simp: sel)
  have "t_has_witness tx' = any_witness (t_inputs tx')"
    using r(1,5) sel(1,3) by (cases "is") auto
  moreover have "?ins ! j = (if i = j then (t_inputs tx ! i)\<lparr>ti_witness := [replicate 64 0]\<rparr> else t_inputs tx ! j)" for j
    using Cons.prems by (simp add: nth_list_update)
  ultimately show ?case using w r(1-4) by auto
qed simp

lemma wallet_input_nth: "(\<forall>t \<in> set ts. wallet_input n t) \<longleftrightarrow> (\<forall>j<length ts. wallet_input n (ts ! j))"
  by (simp add: all_set_conv_all_nth)

lemma estimated_fee_exact:
  assumes ins: "\<forall>t \<in> set (t_inputs tx). wallet_input 0 t" "t_inputs tx \<noteq> []" "length (t_inputs tx) \<le> 64"
    and outs: "payment_outputs (t_outputs tx)" and rate: "unat rate \<le> 10000"
  shows "estimated_fee tx rate = Inr (of_nat (signed_vbytes (length (t_inputs tx)) (t_outputs tx) * unat rate))"
    "signed_vbytes (length (t_inputs tx)) (t_outputs tx) * unat rate \<le> 300000000"
proof -
  let ?v = "signed_vbytes (length (t_inputs tx)) (t_outputs tx)"
  obtain tx' where d: "set_dummy_witnesses [0..<length (t_inputs tx)] tx = Inr tx'" "t_outputs tx' = t_outputs tx"
    "length (t_inputs tx') = length (t_inputs tx)"
    "\<forall>j<length (t_inputs tx). t_inputs tx' ! j = (t_inputs tx ! j)\<lparr>ti_witness := [replicate 64 0]\<rparr>"
    "t_has_witness tx' = any_witness (t_inputs tx')"
    using set_dummy_witnesses_total [of "[0..<length (t_inputs tx)]" tx] ins(2) by auto
  have ins': "\<forall>t \<in> set (t_inputs tx'). wallet_input 1 t" "t_inputs tx' \<noteq> []"
    using ins(1) ins(2) d(3,4) unfolding wallet_input_nth by (simp_all add: wallet_input_def) auto
  then have "t_has_witness tx'"
    unfolding d(5) by (cases "t_inputs tx'") (auto simp: any_witness_def wallet_input_def)
  then have v: "virtual_size tx' = Inr (of_nat ?v)"
    using signed_size(5) [of tx'] ins' ins(3) outs d(2,3) by simp
  have "?v \<le> 30000" by (rule signed_vbytes_le [OF outs ins(3)])
  then have "?v * unat rate \<le> 30000 * 10000" using rate by (rule mult_le_mono)
  then show le: "?v * unat rate \<le> 300000000" by simp
  have "unat (of_nat ?v :: u64) = ?v" "unat (of_nat (?v * unat rate) :: u64) = ?v * unat rate"
    by (rule unat_of_nat_small; use le \<open>?v \<le> 30000\<close> in simp)+
  then have "checked_mul (of_nat ?v) rate = Some (of_nat (?v * unat rate))" by (simp add: checked_mul_Some_iff)
  then show "estimated_fee tx rate = Inr (of_nat (?v * unat rate))" using d(1) v by (simp add: estimated_fee_def)
qed

lemma change_dust:
  assumes "length key = 32"
  shows "dust_threshold (0x51 # 0x20 # key) DUST_RELAY_FEE_SAT_PER_KB = Inr 330"
proof -
  have "is_witness_program (0x51 # 0x20 # key)" using assms by (simp add: is_witness_program_def)
  then show ?thesis
    using assms by (simp add: dust_outcomes unspendable_def dust_bytes_def compact_size_length_def tx_limits
        DUST_RELAY_FEE_SAT_PER_KB_def)
qed

lemma checked_add_of_nat:
  "m + n < 2 ^ 64 \<Longrightarrow> checked_add (of_nat m) (of_nat n) = Some (of_nat (m + n) :: u64)"
  "\<lbrakk>m < 2 ^ 64; n < 2 ^ 64; 2 ^ 64 \<le> m + n\<rbrakk> \<Longrightarrow> checked_add (of_nat m) (of_nat n :: u64) = None"
  using unat_of_nat_small [of m, where 'a = 64] unat_of_nat_small [of n, where 'a = 64]
    unat_of_nat_small [of "m + n", where 'a = 64]
  by (simp_all add: checked_add_Some_iff) (simp add: checked_add_def)

section \<open>Planning\<close>

definition payment :: "funding_request \<Rightarrow> tx_output" where
  "payment request = \<lparr>to_value_sat = fr_amount_sat request, to_script_pubkey = fr_destination_script_pubkey request\<rparr>"

text \<open>The fee of a signed funding transaction with \<open>n\<close> inputs, with or without a change output.\<close>

definition funding_fee :: "funding_request \<Rightarrow> nat \<Rightarrow> bool \<Rightarrow> nat" where
  "funding_fee request n change = unat (fr_fee_rate_sat_per_vbyte request)
     * ((4 * (10 + 41 * n + output_width (payment request) + (if change then 43 else 0)) + 66 * n + 5) div 4)"

definition change_output :: "u64 \<Rightarrow> u8 list \<Rightarrow> tx_output" where
  "change_output v key = \<lparr>to_value_sat = v, to_script_pubkey = 0x51 # 0x20 # key\<rparr>"

lemma change_width: "length key = 32 \<Longrightarrow> output_width (change_output v key) = 43"
  by (simp add: output_width_def change_output_def compact_size_length_def)

lemma funding_fee_vbytes:
  "funding_fee request n False = signed_vbytes n [payment request] * unat (fr_fee_rate_sat_per_vbyte request)"
  "length key = 32 \<Longrightarrow> funding_fee request n True
     = signed_vbytes n [payment request, change_output v key] * unat (fr_fee_rate_sat_per_vbyte request)"
  by (simp_all add: funding_fee_def signed_vbytes_def change_width add.assoc)

lemma funding_fee_mono: "funding_fee request n False \<le> funding_fee request n True"
  unfolding funding_fee_def by (intro mult_le_mono div_le_mono) simp_all

lemma validate_request_iff:
  "validate_request ins request = Inr () \<longleftrightarrow>
     ins \<noteq> [] \<and> length ins \<le> 64 \<and> fr_amount_sat request \<noteq> 0
     \<and> fr_fee_rate_sat_per_vbyte request \<noteq> 0 \<and> unat (fr_fee_rate_sat_per_vbyte request) \<le> 10000
     \<and> fr_destination_script_pubkey request \<noteq> [] \<and> length (fr_destination_script_pubkey request) \<le> 10000
     \<and> (\<forall>i \<in> set ins. fi_value_sat i \<noteq> 0 \<and> (\<exists>bs. length bs = 32 \<and> fi_txid i = encode_lower_hex bs))"
  by (auto simp: validate_request_def result_simps is_lower_hex_32_iff MAX_FUNDING_INPUTS_def
      FUNDING_MAX_SCRIPT_BYTES_def MAX_FEE_RATE_SAT_PER_VBYTE_def word_less_nat_alt)

lemma payment_outputs_ok:
  assumes "length (fr_destination_script_pubkey request) \<le> 10000" "length key = 32"
  shows "payment_outputs [payment request]" "payment_outputs [payment request, change_output v key]"
  using assms by (simp_all add: payment_outputs_def payment_def change_output_def)

lemma plan_transaction_exact:
  fixes request :: funding_request
  defines "amt \<equiv> unat (fr_amount_sat request)"
  assumes ins: "\<forall>t \<in> set ts. wallet_input 0 t" "ts \<noteq> []" "length ts \<le> 64"
    and request: "length (fr_destination_script_pubkey request) \<le> 10000" "unat (fr_fee_rate_sat_per_vbyte request) \<le> 10000"
      "is_dust (payment request) DUST_RELAY_FEE_SAT_PER_KB = Inr False"
    and key: "length key = 32"
  shows "plan_transaction ts funds request (0x51 # 0x20 # key) =
    (let with_fee = funding_fee request (length ts) True; without = funding_fee request (length ts) False
     in if 2 ^ 64 \<le> amt + with_fee + 330 then Inl (FundingOverflow ''funding output amount overflow'')
        else if amt + with_fee + 330 \<le> unat funds
        then Inr (new_transaction 2 ts [payment request, change_output (of_nat (unat funds - amt - with_fee)) key]
                    (fr_lock_time request), Some (of_nat (unat funds - amt - with_fee)))
        else if amt + without \<le> unat funds
        then Inr (new_transaction 2 ts [payment request] (fr_lock_time request), None)
        else Inl InsufficientFunds)"
proof -
  let ?w = "funding_fee request (length ts) True" and ?n = "funding_fee request (length ts) False"
  let ?rate = "fr_fee_rate_sat_per_vbyte request"
  have est: "estimated_fee (new_transaction 2 ts [payment request, change_output v key] (fr_lock_time request)) ?rate = Inr (of_nat ?w)"
      "?w \<le> 300000000" for v
    using estimated_fee_exact [of "new_transaction 2 ts [payment request, change_output v key] (fr_lock_time request)" ?rate]
      ins payment_outputs_ok [OF request(1) key] request(2) funding_fee_vbytes(2) [OF key, of request "length ts" v]
    by (simp_all add: new_transaction_def)
  have est0: "estimated_fee (new_transaction 2 ts [payment request] (fr_lock_time request)) ?rate = Inr (of_nat ?n)"
    using estimated_fee_exact [of "new_transaction 2 ts [payment request] (fr_lock_time request)" ?rate]
      ins payment_outputs_ok [OF request(1) key] request(2) funding_fee_vbytes(1) [of request "length ts"]
    by (simp add: new_transaction_def)
  have amt: "fr_amount_sat request = of_nat amt" "amt < 2 ^ 64" unfolding amt_def using unat_bound [of "fr_amount_sat request"] by simp_all
  have funds: "unat funds < 2 ^ 64" using unat_bound [of funds] by simp
  define required :: "u64 option" where "required = (case checked_add (fr_amount_sat request) (of_nat ?w) of
      None \<Rightarrow> None | Some v \<Rightarrow> checked_add v 330)"
  have req: "required = (if 2 ^ 64 \<le> amt + ?w + 330 then None else Some (of_nat (amt + ?w + 330)))"
    using checked_add_of_nat [of amt ?w] checked_add_of_nat [of "amt + ?w" 330] amt(2) est(2)
    by (cases "amt + ?w < 2 ^ 64") (simp_all add: required_def amt(1))
  have plan: "plan_transaction ts funds request (0x51 # 0x20 # key) =
      try_then (ok_or required (FundingOverflow ''funding output amount overflow'')) (\<lambda>required.
        if required \<le> funds
        then try_then (ok_or (case checked_sub funds (fr_amount_sat request) of
               None \<Rightarrow> None | Some v \<Rightarrow> checked_sub v (of_nat ?w)) InsufficientFunds) (\<lambda>change_sat.
             Inr (new_transaction 2 ts [payment request, change_output change_sat key] (fr_lock_time request), Some change_sat))
        else try_then (ok_or (checked_add (fr_amount_sat request) (of_nat ?n)) (FundingOverflow ''funding output amount overflow'')) (\<lambda>required.
             if funds < required then Inl InsufficientFunds
             else Inr (new_transaction 2 ts [payment request] (fr_lock_time request), None)))"
    using request(3) change_dust [OF key] est est0
    by (simp add: plan_transaction_def required_def Let_def payment_def change_output_def cong: if_cong)
  have small: "unat (of_nat m :: u64) = m" if "m < 2 ^ 64" for m by (rule unat_of_nat_small) (use that in simp)
  show ?thesis
  proof (cases "2 ^ 64 \<le> amt + ?w + 330")
    case True
    then show ?thesis by (simp add: plan req)
  next
    case False
    then have r: "of_nat (amt + ?w + 330) \<le> funds \<longleftrightarrow> amt + ?w + 330 \<le> unat funds"
      using small [of "amt + ?w + 330"] by (simp add: word_le_nat_alt)
    show ?thesis
    proof (cases "amt + ?w + 330 \<le> unat funds")
      case True
      have "checked_sub funds (fr_amount_sat request) = Some (of_nat (unat funds - amt))"
        "checked_sub (of_nat (unat funds - amt)) (of_nat ?w) = Some (of_nat (unat funds - amt - ?w) :: u64)"
        using True funds est(2) small [of "unat funds - amt"] small [of "unat funds - amt - ?w"] small [of ?w]
        by (simp_all add: checked_sub_Some_iff amt_def)
      then show ?thesis using False True r by (simp add: plan req Let_def)
    next
      case short: False
      have "amt + ?n < 2 ^ 64" using False funding_fee_mono [of request "length ts"] by simp
      then have "checked_add (fr_amount_sat request) (of_nat ?n) = Some (of_nat (amt + ?n))"
        "funds < of_nat (amt + ?n) \<longleftrightarrow> unat funds < amt + ?n"
        using checked_add_of_nat(1) [of amt ?n] small [of "amt + ?n"] by (simp_all add: amt(1) word_less_nat_alt)
      then show ?thesis using False short r by (simp add: plan req Let_def not_less)
    qed
  qed
qed

section \<open>The signed transaction\<close>

lemma sum_list_sort_key: "sum_list (map f (sort_key k xs)) = (sum_list (map f xs) :: nat)"
proof (induction xs)
  case (Cons x xs)
  have "sum_list (map f (insort_key k x ys)) = f x + sum_list (map f ys)" for ys by (induction ys) simp_all
  then show ?case using Cons by simp
qed simp

lemma sort_key_empty: "sort_key k xs = [] \<longleftrightarrow> xs = []"
  by (metis length_0_conv length_sort)

lemma list_all2_ex: "\<forall>x \<in> set xs. \<exists>y. P x y \<Longrightarrow> \<exists>ys. list_all2 P xs ys"
  by (induction xs) (auto simp: list_all2_Cons1)

definition funds_of :: "funding_input list \<Rightarrow> nat" where
  "funds_of is = sum_list (map (\<lambda>i. unat (fi_value_sat i)) is)"

lemma owned_values: "list_all2 (owned_output wc wallet) is ps \<Longrightarrow> values_sum ps = funds_of is"
  by (induction rule: list_all2_induct) (auto simp: owned_output_def funds_of_def)

lemma prepare_inputsD:
  assumes "prepare_inputs wc wallet is 0 = Inr (ts, ps, r)"
  shows "\<forall>t \<in> set ts. wallet_input 0 t" "length ts = length is" "length ps = length is"
    "list_all2 (owned_output wc wallet) is ps" "list_all2 spends is ts" "unat r = values_sum ps" "values_sum ps = funds_of is"
proof -
  from assms have p: "list_all2 (\<lambda>i t. spends i t \<and> ti_witness t = []) is ts" "list_all2 (owned_output wc wallet) is ps"
    "unat r = values_sum ps" by (simp_all add: prepare_inputs_iff sum_values_iff)
  then show "list_all2 (owned_output wc wallet) is ps" "unat r = values_sum ps" "values_sum ps = funds_of is"
    "length ts = length is" "length ps = length is"
    using owned_values [OF p(2)] list_all2_lengthD [OF p(1)] list_all2_lengthD [OF p(2)] by simp_all
  show "list_all2 spends is ts" using p(1) by (rule list_all2_mono) simp
  show "\<forall>t \<in> set ts. wallet_input 0 t"
    using p(1) by (auto simp: list_all2_conv_all_nth in_set_conv_nth wallet_input_def spends_def)
qed

lemma prepare_inputs_total:
  assumes "\<forall>i \<in> set is. \<exists>a. derive_address wc wallet (fi_path i) = Inr a"
    "\<forall>i \<in> set is. \<exists>bs. length bs = 32 \<and> fi_txid i = encode_lower_hex bs" "funds_of is < 2 ^ 64"
  shows "\<exists>ts ps r. prepare_inputs wc wallet is 0 = Inr (ts, ps, r)"
proof -
  have "\<forall>i \<in> set is. \<exists>p. owned_output wc wallet i p" using assms(1) by (simp add: owned_output_def)
  then obtain ps where ps: "list_all2 (owned_output wc wallet) is ps"
    using list_all2_ex [of "is" "owned_output wc wallet"] by blast
  have "\<forall>i \<in> set is. \<exists>t. spends i t \<and> ti_witness t = []"
  proof
    fix i
    assume "i \<in> set is"
    then obtain bs where "length bs = 32" "fi_txid i = encode_lower_hex bs" using assms(2) by blast
    then show "\<exists>t. spends i t \<and> ti_witness t = []"
      by (intro exI [of _ "\<lparr>ti_previous_txid = rev bs, ti_previous_output = fi_vout i, ti_script_sig = [],
          ti_sequence = NON_RBF_LOCKTIME_SEQUENCE, ti_witness = []\<rparr>"]) (simp add: spends_def)
  qed
  then obtain ts where "list_all2 (\<lambda>i t. spends i t \<and> ti_witness t = []) is ts"
    using list_all2_ex [of "is" "\<lambda>i t. spends i t \<and> ti_witness t = []"] by blast
  moreover have "unat (of_nat (funds_of is) :: u64) = funds_of is" by (rule unat_of_nat_small) (use assms(3) in simp)
  ultimately have "prepare_inputs wc wallet is 0 = Inr (ts, ps, of_nat (funds_of is))"
    using ps owned_values [OF ps] by (simp add: prepare_inputs_iff sum_values_iff)
  then show ?thesis by blast
qed

lemma same_stripped:
  assumes "strip_tx tx' = strip_tx tx" "j < length (t_inputs tx)"
  shows "ti_previous_txid (t_inputs tx' ! j) = ti_previous_txid (t_inputs tx ! j)"
    "ti_previous_output (t_inputs tx' ! j) = ti_previous_output (t_inputs tx ! j)"
    "ti_script_sig (t_inputs tx' ! j) = ti_script_sig (t_inputs tx ! j)"
    "ti_sequence (t_inputs tx' ! j) = ti_sequence (t_inputs tx ! j)"
proof -
  have m: "map strip_witness (t_inputs tx') = map strip_witness (t_inputs tx)"
    using arg_cong [OF assms(1), of t_inputs] by (simp add: strip_tx_def)
  then have "length (t_inputs tx') = length (t_inputs tx)" by (rule map_eq_imp_length_eq)
  then have "strip_witness (t_inputs tx' ! j) = strip_witness (t_inputs tx ! j)"
    using arg_cong [OF m, of "\<lambda>ts. ts ! j"] assms(2) by simp
  then show "ti_previous_txid (t_inputs tx' ! j) = ti_previous_txid (t_inputs tx ! j)"
    "ti_previous_output (t_inputs tx' ! j) = ti_previous_output (t_inputs tx ! j)"
    "ti_script_sig (t_inputs tx' ! j) = ti_script_sig (t_inputs tx ! j)"
    "ti_sequence (t_inputs tx' ! j) = ti_sequence (t_inputs tx ! j)"
    by (metis strip_witness_sel)+
qed

lemma strip_tx_rest:
  assumes "strip_tx tx' = strip_tx tx"
  shows "t_outputs tx' = t_outputs tx" "t_version tx' = t_version tx" "t_lock_time tx' = t_lock_time tx"
  using arg_cong [OF assms, of t_outputs] arg_cong [OF assms, of t_version] arg_cong [OF assms, of t_lock_time]
  by (simp_all add: strip_tx_def)

lemma signed_facts:
  assumes laws: "wallet_laws wc dl" and prep: "prepare_inputs wc wallet is 0 = Inr (ts, ps, r)" "is \<noteq> []" "length is \<le> 64"
    and outs: "payment_outputs outs" and sign: "sign_inputs wc wallet ps 0 is (new_transaction 2 ts outs lt) = Inr tx"
  shows "t_outputs tx = outs" "t_version tx = 2" "t_lock_time tx = lt" "length (t_inputs tx) = length is"
    "\<forall>t \<in> set (t_inputs tx). wallet_input 1 t" "t_inputs tx \<noteq> []" "t_has_witness tx"
    "\<forall>k<length is. input_signed wc wallet ps tx k (is ! k) \<and> spends (is ! k) (t_inputs tx ! k)"
proof -
  let ?tx = "new_transaction 2 ts outs lt"
  note d = sign_inputsD [OF sign] and p = prepare_inputsD [OF prep(1)]
  have st: "strip_tx tx = strip_tx ?tx" and len: "length (t_inputs tx) = length is"
    and signed: "\<forall>k<length is. input_signed wc wallet ps tx k (is ! k)"
    using d p(2) by (simp_all add: new_transaction_def)
  show "t_outputs tx = outs" "t_version tx = 2" "t_lock_time tx = lt"
    using strip_tx_rest [OF st] by (simp_all add: new_transaction_def)
  show "length (t_inputs tx) = length is" "t_inputs tx \<noteq> []" using len prep(2) by auto
  have same: "ti_previous_txid (t_inputs tx ! j) = ti_previous_txid (ts ! j)" "ti_script_sig (t_inputs tx ! j) = ti_script_sig (ts ! j)"
    "ti_previous_output (t_inputs tx ! j) = ti_previous_output (ts ! j)" "ti_sequence (t_inputs tx ! j) = ti_sequence (ts ! j)"
    if "j < length is" for j
    using same_stripped [OF st, of j] that p(2) by (simp_all add: new_transaction_def)
  have "wallet_input 1 (t_inputs tx ! j)" if j: "j < length is" for j
  proof -
    obtain h s where "sign_key_path wc wallet (fi_path (is ! j)) h = Inr s" "ti_witness (t_inputs tx ! j) = [ws_signature s]"
      using signed j unfolding input_signed_def by blast
    moreover have "wallet_input 0 (ts ! j)" using p(1,2) that by (simp add: wallet_input_nth)
    ultimately show ?thesis
      using same [OF that] sign_key_path_length [OF laws] by (simp add: wallet_input_def)
  qed
  then show ins: "\<forall>t \<in> set (t_inputs tx). wallet_input 1 t" using len by (simp add: wallet_input_nth)
  have "t_has_witness tx = any_witness (t_inputs tx)" using d by (simp add: new_transaction_def)
  then show "t_has_witness tx"
    using ins \<open>t_inputs tx \<noteq> []\<close> by (cases "t_inputs tx") (auto simp: any_witness_def wallet_input_def)
  show "\<forall>k<length is. input_signed wc wallet ps tx k (is ! k) \<and> spends (is ! k) (t_inputs tx ! k)"
    using signed same p(5) by (simp add: spends_def list_all2_conv_all_nth)
qed

section \<open>Building\<close>

lemma prepared_sighash:
  assumes "wallet_laws wc dl" "xonly_law (wc_secp wc)" "prepare_inputs wc wallet is 0 = Inr (ts, ps, r)" "is \<noteq> []" "length is \<le> 64"
    "payment_outputs outs" "k < length is"
  shows "\<exists>h. taproot_key_spend_sighash (sp_taproot (wc_secp wc)) (new_transaction 2 ts outs lt) ps k = Inr h"
proof (rule key_sighash_total)
  note p = prepare_inputsD [OF assms(3)]
  show "\<forall>q \<in> set ps. \<exists>key. to_script_pubkey q = 0x51 # 0x20 # key \<and> length key = 32
      \<and> tc_xonly_ok (sp_taproot (wc_secp wc)) key"
  proof
    fix q
    assume "q \<in> set ps"
    then obtain i where own: "owned_output wc wallet i q" using p(4) by (metis in_set_conv_nth list_all2_nthD2)
    show "\<exists>key. to_script_pubkey q = 0x51 # 0x20 # key \<and> length key = 32
      \<and> tc_xonly_ok (sp_taproot (wc_secp wc)) key"
      by (rule owned_outputD [OF assms(1,2) own]) blast
  qed
  show "\<forall>t \<in> set (t_inputs (new_transaction 2 ts outs lt)). ti_script_sig t = []"
    using p(1) by (simp add: new_transaction_def wallet_input_def)
  show "k < length ps" "length (t_inputs (new_transaction 2 ts outs lt)) = length ps"
    "length (t_inputs (new_transaction 2 ts outs lt)) \<le> 64" "t_inputs (new_transaction 2 ts outs lt) \<noteq> []"
    using p(2,3) assms(4,5,7) by (auto simp: new_transaction_def)
  show "t_outputs (new_transaction 2 ts outs lt) \<noteq> []" "length (t_outputs (new_transaction 2 ts outs lt)) \<le> 2"
    "\<forall>out \<in> set (t_outputs (new_transaction 2 ts outs lt)). length (to_script_pubkey out) \<le> 10000"
    using assms(6) by (simp_all add: new_transaction_def payment_outputs_def)
qed

lemma prepared_signs:
  assumes "wallet_laws wc dl" "xonly_law (wc_secp wc)" "prepare_inputs wc wallet is 0 = Inr (ts, ps, r)" "is \<noteq> []" "length is \<le> 64"
    "payment_outputs outs"
  shows "\<exists>tx. sign_inputs wc wallet ps 0 is (new_transaction 2 ts outs lt) = Inr tx"
proof (rule sign_inputs_total [OF assms(1,2)])
  note p = prepare_inputsD [OF assms(3)]
  show "0 + length is \<le> length (t_inputs (new_transaction 2 ts outs lt))" using p(2) by (simp add: new_transaction_def)
  show "\<forall>j<length is. 0 + j < length ps \<and> owned_output wc wallet (is ! j) (ps ! (0 + j))
      \<and> (\<exists>h. taproot_key_spend_sighash (sp_taproot (wc_secp wc)) (new_transaction 2 ts outs lt) ps (0 + j) = Inr h)"
    using prepared_sighash [OF assms] p(3,4) by (simp add: list_all2_nthD)
qed

lemma signed_cost:
  assumes laws: "wallet_laws wc dl" and prep: "prepare_inputs wc wallet is 0 = Inr (ts, ps, r)" "is \<noteq> []" "length is \<le> 64"
    and outs: "payment_outputs outs" and sign: "sign_inputs wc wallet ps 0 is (new_transaction 2 ts outs lt) = Inr tx"
    and pays: "values_sum outs \<le> funds_of is"
  obtains cost where "transaction_cost tx ps = Inr cost" "unat (tc_fee_sat cost) = funds_of is - values_sum outs"
    "tc_virtual_size cost = of_nat (signed_vbytes (length is) outs)"
    "unat (tc_virtual_size cost) = signed_vbytes (length is) outs"
proof -
  note p = prepare_inputsD [OF prep(1)] and f = signed_facts [OF laws prep outs sign]
  have po: "payment_outputs (t_outputs tx)" and le: "length (t_inputs tx) \<le> 64" using outs prep(3) by (simp_all add: f(1,4))
  note size = signed_size [OF f(5,6) le po f(7)]
  obtain w where w: "weight tx = Inr w" using size(4) by (cases "weight tx") auto
  have lt: "funds_of is < 2 ^ 64" using p(6,7) unat_bound [of r] by simp
  have "unat (of_nat (funds_of is - values_sum outs) :: u64) = funds_of is - values_sum outs"
    by (rule unat_of_nat_small) (use lt in simp)
  moreover have "unat (of_nat (signed_vbytes (length is) outs) :: u64) = signed_vbytes (length is) outs"
    by (rule unat_of_nat_small) (use signed_vbytes_le [OF outs prep(3)] in simp)
  ultimately show thesis
    using that [of "\<lparr>tc_fee_sat = of_nat (funds_of is - values_sum outs), tc_weight = w,
        tc_virtual_size = of_nat (signed_vbytes (length is) outs)\<rparr>"] w size(5) p(3,7) lt pays
    by (simp add: transaction_cost_iff f(1,4))
qed

text \<open>The steps after the plan succeed whenever the plan leaves the fee rate times the size.\<close>

lemma planned_builds:
  fixes ins :: "funding_input list"
  defines "is \<equiv> sort_key outpoint ins"
  assumes laws: "wallet_laws wc dl" "xonly_law (wc_secp wc)"
    and ok: "validate_request ins request = Inr ()" "distinct (map outpoint ins)"
    and prep: "prepare_inputs wc wallet is 0 = Inr (ts, ps, r)"
    and change: "derive_address wc wallet (fr_change_path request) = Inr change"
    and plan: "plan_transaction ts r request (ta_script_pubkey change) = Inr (new_transaction 2 ts outs lt, ch)"
    and outs: "payment_outputs outs"
    and pays: "values_sum outs + signed_vbytes (length is) outs * unat (fr_fee_rate_sat_per_vbyte request) \<le> funds_of is"
  shows "\<exists>s. build_funding_transaction wc wallet ins request = Inr s \<and> sft_change_sat s = ch
    \<and> unat (sft_fee_sat s) = funds_of is - values_sum outs"
proof -
  let ?rate = "fr_fee_rate_sat_per_vbyte request"
  have n: "is \<noteq> []" "length is \<le> 64" "unat ?rate \<le> 10000"
    using ok(1) by (simp_all add: validate_request_iff is_def sort_key_empty)
  obtain tx where sign: "sign_inputs wc wallet ps 0 is (new_transaction 2 ts outs lt) = Inr tx"
    using prepared_signs [OF laws prep n(1,2) outs] by blast
  obtain cost where c: "transaction_cost tx ps = Inr cost" "unat (tc_fee_sat cost) = funds_of is - values_sum outs"
    "tc_virtual_size cost = of_nat (signed_vbytes (length is) outs)" "unat (tc_virtual_size cost) = signed_vbytes (length is) outs"
    by (rule signed_cost [OF laws(1) prep n(1,2) outs sign]) (use pays in simp_all)
  note f = signed_facts [OF laws(1) prep n(1,2) outs sign]
  have po: "payment_outputs (t_outputs tx)" "length (t_inputs tx) \<le> 64" using outs n(2) by (simp_all add: f(1,4))
  note size = signed_size [OF f(5,6) po(2,1) f(7)]
  have "unat ?rate * signed_vbytes (length is) outs \<le> 10000 * 30000"
    using n(3) signed_vbytes_le [OF outs n(2)] by (rule mult_le_mono)
  then have m: "checked_mul ?rate (tc_virtual_size cost) = Some (?rate * tc_virtual_size cost)"
    "unat (?rate * tc_virtual_size cost) = unat ?rate * signed_vbytes (length is) outs"
    by (simp_all add: checked_mul_def c(4) unat_word_ariths)
  have "\<not> tc_fee_sat cost < ?rate * tc_virtual_size cost"
    using pays c(2) m(2) by (simp add: word_less_nat_alt mult.commute)
  then show ?thesis
    using ok repeats_outpoint_sort [of ins] prep change plan sign c(1,2) m(1) size(1,2)
    by (simp add: build_funding_transaction_def Let_def is_def [symmetric] txid_def)
qed

text \<open>What the caller answers for: a request within the bounds with a destination above dust, distinct
  outpoints, and paths that the wallet can derive.\<close>

definition well_formed :: "'p wallet_crypto \<Rightarrow> provider_wallet \<Rightarrow> funding_input list \<Rightarrow> funding_request \<Rightarrow> bool" where
  "well_formed wc wallet ins request \<longleftrightarrow> validate_request ins request = Inr () \<and> distinct (map outpoint ins)
     \<and> list_all (\<lambda>i. is_ok (derive_address wc wallet (fi_path i))) ins
     \<and> is_ok (derive_address wc wallet (fr_change_path request))
     \<and> funds_of ins < 2 ^ 64 \<and> is_dust (payment request) DUST_RELAY_FEE_SAT_PER_KB = Inr False"

lemma well_formed_prepared:
  assumes laws: "wallet_laws wc dl" and ok: "well_formed wc wallet ins request"
  obtains ts ps r change where "prepare_inputs wc wallet (sort_key outpoint ins) 0 = Inr (ts, ps, r)"
    "unat r = funds_of ins" "length ts = length ins" "\<forall>t \<in> set ts. wallet_input 0 t" "ts \<noteq> []" "length ts \<le> 64"
    "derive_address wc wallet (fr_change_path request) = Inr change"
    "ta_script_pubkey change = 0x51 # 0x20 # ta_output_key change" "length (ta_output_key change) = 32"
proof -
  let ?is = "sort_key outpoint ins"
  have v: "ins \<noteq> []" "length ins \<le> 64" "\<forall>i \<in> set ?is. \<exists>bs. length bs = 32 \<and> fi_txid i = encode_lower_hex bs"
    using ok by (auto simp: well_formed_def validate_request_iff)
  have f: "funds_of ?is = funds_of ins" by (simp add: funds_of_def sum_list_sort_key)
  have "\<forall>i \<in> set ?is. \<exists>a. derive_address wc wallet (fi_path i) = Inr a"
    using ok by (simp add: well_formed_def list_all_iff is_ok_iff)
  then obtain ts ps r where p: "prepare_inputs wc wallet ?is 0 = Inr (ts, ps, r)"
    using prepare_inputs_total [of ?is wc wallet] v(3) ok f by (auto simp: well_formed_def)
  obtain change where c: "derive_address wc wallet (fr_change_path request) = Inr change"
    using ok by (auto simp: well_formed_def is_ok_iff)
  note d = prepare_inputsD [OF p] and s = derived_script [OF laws c]
  have l: "length ts = length ins" using d(2) by simp
  then have "ts \<noteq> []" using v(1) by auto
  then show thesis using that [OF p _ l d(1) _ _ c s(1,2)] d(6,7) f l v(2) by simp
qed

lemma build_planned:
  assumes "well_formed wc wallet ins request" "prepare_inputs wc wallet (sort_key outpoint ins) 0 = Inr (ts, ps, r)"
    "derive_address wc wallet (fr_change_path request) = Inr change"
    "plan_transaction ts r request (ta_script_pubkey change) = Inl e"
  shows "build_funding_transaction wc wallet ins request = Inl e"
  using assms repeats_outpoint_sort [of ins] by (simp add: build_funding_transaction_def well_formed_def Let_def)

lemma funding_outcomes:
  fixes request :: funding_request
  defines "amt \<equiv> unat (fr_amount_sat request)"
  assumes laws: "wallet_laws wc dl" "xonly_law (wc_secp wc)" and ok: "well_formed wc wallet ins request"
  shows "let with_change = amt + funding_fee request (length ins) True; without = amt + funding_fee request (length ins) False;
      result = build_funding_transaction wc wallet ins request
    in if 2 ^ 64 \<le> with_change + 330 then result = Inl (FundingOverflow ''funding output amount overflow'')
       else if with_change + 330 \<le> funds_of ins
       then \<exists>s v. result = Inr s \<and> sft_change_sat s = Some v \<and> unat v = funds_of ins - with_change
          \<and> unat (sft_fee_sat s) = funding_fee request (length ins) True
       else if without \<le> funds_of ins
       then \<exists>s. result = Inr s \<and> sft_change_sat s = None \<and> unat (sft_fee_sat s) = funds_of ins - amt
       else result = Inl InsufficientFunds"
proof -
  let ?w = "funding_fee request (length ins) True" and ?n = "funding_fee request (length ins) False"
  obtain ts ps r change where p: "prepare_inputs wc wallet (sort_key outpoint ins) 0 = Inr (ts, ps, r)"
    and r: "unat r = funds_of ins" and l: "length ts = length ins"
    and t: "\<forall>t \<in> set ts. wallet_input 0 t" "ts \<noteq> []" "length ts \<le> 64"
    and c: "derive_address wc wallet (fr_change_path request) = Inr change"
    and script: "ta_script_pubkey change = 0x51 # 0x20 # ta_output_key change" and key: "length (ta_output_key change) = 32"
    by (rule well_formed_prepared [OF laws(1) ok])
  have req: "length (fr_destination_script_pubkey request) \<le> 10000" "unat (fr_fee_rate_sat_per_vbyte request) \<le> 10000"
    "is_dust (payment request) DUST_RELAY_FEE_SAT_PER_KB = Inr False" "validate_request ins request = Inr ()"
    "distinct (map outpoint ins)" "funds_of ins < 2 ^ 64"
    using ok by (simp_all add: well_formed_def validate_request_iff)
  note plan = plan_transaction_exact [OF t req(1-3) key, of r, folded script, folded amt_def]
  have f: "funds_of (sort_key outpoint ins) = funds_of ins" by (simp add: funds_of_def sum_list_sort_key)
  note build = planned_builds [OF laws req(4,5) p c, unfolded f length_sort]
  note outs = payment_outputs_ok [OF req(1) key] and fees = funding_fee_vbytes(1) funding_fee_vbytes(2) [OF key]
  show ?thesis
  proof (cases "amt + ?w + 330 < 2 ^ 64 \<and> amt + ?w + 330 \<le> funds_of ins")
    case True
    define v :: u64 where "v = of_nat (funds_of ins - (amt + ?w))"
    have v: "unat v = funds_of ins - (amt + ?w)" unfolding v_def by (rule unat_of_nat_small) (use req(6) in simp)
    have "plan_transaction ts r request (ta_script_pubkey change)
      = Inr (new_transaction 2 ts [payment request, change_output v (ta_output_key change)] (fr_lock_time request), Some v)"
      using True by (simp add: plan l r v_def Let_def)
    note built = build [OF this outs(2)]
    have "values_sum [payment request, change_output v (ta_output_key change)] = amt + unat v"
      by (simp add: payment_def change_output_def amt_def)
    then show ?thesis using built [folded fees(2)] v True by (auto simp: Let_def)
  next
    case no_change: False
    show ?thesis
    proof (cases "amt + ?w + 330 < 2 ^ 64 \<and> amt + ?n \<le> funds_of ins")
      case True
      then have "plan_transaction ts r request (ta_script_pubkey change)
        = Inr (new_transaction 2 ts [payment request] (fr_lock_time request), None)"
        using no_change by (simp add: plan l r Let_def)
      note built = build [OF this outs(1)]
      have "values_sum [payment request] = amt" by (simp add: payment_def amt_def)
      then show ?thesis using built [folded fees(1)] True no_change by (auto simp: Let_def)
    next
      case False
      then have "plan_transaction ts r request (ta_script_pubkey change)
        = Inl (if 2 ^ 64 \<le> amt + ?w + 330 then FundingOverflow ''funding output amount overflow'' else InsufficientFunds)"
        using no_change by (auto simp: plan l r Let_def)
      from build_planned [OF ok p c this] False no_change show ?thesis by (auto simp: Let_def)
    qed
  qed
qed

text \<open>The steps of a build that succeeds.\<close>

lemma buildD:
  assumes "build_funding_transaction wc wallet ins request = Inr s"
  obtains ts ps r change tx0 cost raw id where "validate_request ins request = Inr ()" "distinct (map outpoint ins)"
    "prepare_inputs wc wallet (sort_key outpoint ins) 0 = Inr (ts, ps, r)"
    "derive_address wc wallet (fr_change_path request) = Inr change"
    "plan_transaction ts r request (ta_script_pubkey change) = Inr (tx0, sft_change_sat s)"
    "sign_inputs wc wallet ps 0 (sort_key outpoint ins) tx0 = Inr (sft_transaction s)"
    "transaction_cost (sft_transaction s) ps = Inr cost" "sft_fee_sat s = tc_fee_sat cost"
    "unat (fr_fee_rate_sat_per_vbyte request) * unat (tc_virtual_size cost) \<le> unat (tc_fee_sat cost)"
    "serialize (sft_transaction s) True = Inr raw" "sft_raw_transaction s = encode_lower_hex raw"
    "txid (tc_sha256 (sp_taproot (wc_secp wc))) (sft_transaction s) = Inr id" "sft_txid s = encode_lower_hex id"
  using assms unfolding build_funding_transaction_def Let_def
  by (auto simp: try_then_eq_Inr ok_or_eq_Inr map_err_eq_Inr repeats_outpoint_sort checked_mul_Some_iff not_less
      word_le_nat_alt split: if_split_asm)

lemma planD:
  assumes t: "\<forall>t \<in> set ts. wallet_input 0 t" "ts \<noteq> []" "length ts \<le> 64" and key: "length key = 32"
    and ok: "validate_request ins request = Inr ()"
    and plan: "plan_transaction ts funds request (0x51 # 0x20 # key) = Inr (tx, ch)"
  shows "\<exists>outs. tx = new_transaction 2 ts outs (fr_lock_time request) \<and> payment_outputs outs
    \<and> (case ch of None \<Rightarrow> outs = [payment request]
       | Some v \<Rightarrow> outs = [payment request, change_output v key] \<and> 330 \<le> unat v)"
proof -
  have req: "length (fr_destination_script_pubkey request) \<le> 10000" "unat (fr_fee_rate_sat_per_vbyte request) \<le> 10000"
    using ok by (simp_all add: validate_request_iff)
  have dust: "is_dust (payment request) DUST_RELAY_FEE_SAT_PER_KB = Inr False"
    using plan by (auto simp: plan_transaction_def payment_def Let_def try_then_eq_Inr map_err_eq_Inr)
  let ?rest = "unat funds - unat (fr_amount_sat request) - funding_fee request (length ts) True"
  define v :: u64 where "v = of_nat ?rest"
  have v: "unat v = ?rest" unfolding v_def by (rule unat_of_nat_small) (use unat_bound [of funds] in simp)
  note outs = payment_outputs_ok [OF req(1) key]
  note exact = plan_transaction_exact [OF t req dust key, of funds, unfolded Let_def, folded v_def]
  show ?thesis using plan outs v unfolding exact by (auto split: if_split_asm)
qed

text \<open>Input \<open>k\<close> spends the output of the wallet that the caller named, with a signature of 64 bytes that
  verifies under the key of that output.\<close>

definition validly_spends ::
    "'p wallet_crypto \<Rightarrow> provider_wallet \<Rightarrow> tx_output list \<Rightarrow> transaction \<Rightarrow> nat \<Rightarrow> funding_input \<Rightarrow> bool" where
  "validly_spends wc wallet prevouts tx k i \<longleftrightarrow> (\<exists>a sighash signature. derive_address wc wallet (fi_path i) = Inr a
     \<and> prevouts ! k = \<lparr>to_value_sat = fi_value_sat i, to_script_pubkey = 0x51 # 0x20 # ta_output_key a\<rparr>
     \<and> spends i (t_inputs tx ! k)
     \<and> taproot_key_spend_sighash (sp_taproot (wc_secp wc)) tx prevouts k = Inr sighash
     \<and> ti_witness (t_inputs tx ! k) = [signature] \<and> length signature = 64
     \<and> sp_verify (wc_secp wc) signature sighash (ta_output_key a))"

lemma input_signed_owned:
  assumes laws: "wallet_laws wc dl" and own: "owned_output wc wallet i (ps ! k)"
    and signed: "input_signed wc wallet ps tx k i \<and> spends i (t_inputs tx ! k)"
  shows "validly_spends wc wallet ps tx k i"
proof -
  obtain a where a: "derive_address wc wallet (fi_path i) = Inr a"
    "ps ! k = \<lparr>to_value_sat = fi_value_sat i, to_script_pubkey = ta_script_pubkey a\<rparr>"
    using own unfolding owned_output_def by blast
  note d = derived_script [OF laws a(1)]
  obtain h s where h: "taproot_key_spend_sighash (sp_taproot (wc_secp wc)) tx ps k = Inr h"
    "sign_key_path wc wallet (fi_path i) h = Inr s" "ws_public_key s = take 32 (drop 2 (to_script_pubkey (ps ! k)))"
    "sp_verify (wc_secp wc) (ws_signature s) h (ws_public_key s)" "ti_witness (t_inputs tx ! k) = [ws_signature s]"
    using signed unfolding input_signed_def by blast
  have "ws_public_key s = ta_output_key a" using h(3) d(1,2) by (simp add: a(2))
  then show ?thesis
    using a d(1) h(1,4,5) signed sign_key_path_length [OF laws h(2)] unfolding validly_spends_def
    by (intro exI [of _ a] exI [of _ h] exI [of _ "ws_signature s"]) simp
qed

section \<open>Properties\<close>

text \<open>C11: a funding transaction that is built is valid and does what was asked. It spends each outpoint
  given once, in the order of the transaction ID and the index; every input carries one signature of
  64 bytes that verifies for the final transaction under the key of the output it spends, which is an
  address of the wallet. It pays the destination and returns the change, if any, to the wallet, never
  below the dust threshold; what it spends is what it pays and the fee, which is at least the rate
  times its virtual size; and the text published is that of bytes that parse to it.\<close>

theorem funding_valid:
  assumes "wallet_laws wc dl" "build_funding_transaction wc wallet ins request = Inr s"
  shows "distinct (map outpoint ins) \<and> length (t_inputs (sft_transaction s)) = length ins
    \<and> (\<exists>prevouts. length prevouts = length ins
      \<and> (\<forall>k<length ins. validly_spends wc wallet prevouts (sft_transaction s) k (sort_key outpoint ins ! k))
      \<and> values_sum prevouts = values_sum (t_outputs (sft_transaction s)) + unat (sft_fee_sat s))
    \<and> (case sft_change_sat s of
         None \<Rightarrow> t_outputs (sft_transaction s) = [payment request]
       | Some v \<Rightarrow> 330 \<le> unat v \<and> (\<exists>a. derive_address wc wallet (fr_change_path request) = Inr a
           \<and> t_outputs (sft_transaction s) = [payment request, change_output v (ta_output_key a)]))
    \<and> (\<exists>v. virtual_size (sft_transaction s) = Inr v
        \<and> unat (fr_fee_rate_sat_per_vbyte request) * unat v \<le> unat (sft_fee_sat s))
    \<and> (\<exists>raw. sft_raw_transaction s = encode_lower_hex raw \<and> parse_transaction raw = Inr (sft_transaction s))"
proof -
  let ?is = "sort_key outpoint ins" and ?tx = "sft_transaction s"
  obtain ts ps r change tx0 cost raw id where b: "validate_request ins request = Inr ()" "distinct (map outpoint ins)"
    "prepare_inputs wc wallet ?is 0 = Inr (ts, ps, r)" "derive_address wc wallet (fr_change_path request) = Inr change"
    and plan: "plan_transaction ts r request (ta_script_pubkey change) = Inr (tx0, sft_change_sat s)"
    and sign: "sign_inputs wc wallet ps 0 ?is tx0 = Inr ?tx"
    and cost: "transaction_cost ?tx ps = Inr cost" "sft_fee_sat s = tc_fee_sat cost"
      "unat (fr_fee_rate_sat_per_vbyte request) * unat (tc_virtual_size cost) \<le> unat (tc_fee_sat cost)"
    and raw: "serialize ?tx True = Inr raw" "sft_raw_transaction s = encode_lower_hex raw"
    by (rule buildD [OF assms(2)])
  note p = prepare_inputsD [OF b(3)] and c = derived_script [OF assms(1) b(4)]
  have n: "?is \<noteq> []" "length ?is \<le> 64" using b(1) by (simp_all add: validate_request_iff sort_key_empty)
  have ts: "ts \<noteq> []" "length ts \<le> 64" using n p(2) by auto
  obtain outs where o: "tx0 = new_transaction 2 ts outs (fr_lock_time request)" "payment_outputs outs"
    "case sft_change_sat s of None \<Rightarrow> outs = [payment request]
     | Some v \<Rightarrow> outs = [payment request, change_output v (ta_output_key change)] \<and> 330 \<le> unat v"
    using planD [OF p(1) ts c(2) b(1) plan [unfolded c(1)]] by blast
  note f = signed_facts [OF assms(1) b(3) n o(2) sign [unfolded o(1)]]
  have po: "length (t_inputs ?tx) \<le> 64" "payment_outputs (t_outputs ?tx)" using n o(2) by (simp_all add: f(1,4))
  note size = signed_size [OF f(5,6) po f(7)]
  have "owned_output wc wallet (?is ! k) (ps ! k)" if "k < length ins" for k
    using p(4) that by (simp add: list_all2_nthD)
  note inputs = input_signed_owned [OF assms(1) this]
  have money: "values_sum ps = values_sum (t_outputs ?tx) + unat (sft_fee_sat s)" "virtual_size ?tx = Inr (tc_virtual_size cost)"
    using cost(1,2) by (simp_all add: transaction_cost_iff)
  have "parse_transaction raw = Inr ?tx"
    using size(1,3) raw(1) f(7) by (simp add: parse_transaction_iff)
  moreover have "\<exists>prevouts. length prevouts = length ins
      \<and> (\<forall>k<length ins. validly_spends wc wallet prevouts ?tx k (?is ! k))
      \<and> values_sum prevouts = values_sum (t_outputs ?tx) + unat (sft_fee_sat s)"
    using p(3) inputs f(8) money(1) by (intro exI [of _ ps]) simp
  moreover have "case sft_change_sat s of None \<Rightarrow> t_outputs ?tx = [payment request]
     | Some v \<Rightarrow> 330 \<le> unat v \<and> (\<exists>a. derive_address wc wallet (fr_change_path request) = Inr a
         \<and> t_outputs ?tx = [payment request, change_output v (ta_output_key a)])"
    using o(3) b(4) unfolding f(1) by (auto split: option.splits)
  moreover have "length (t_inputs ?tx) = length ins" using f(4) by simp
  ultimately show ?thesis using b(2) money(2) cost(2,3) raw(2) by auto
qed

text \<open>C12: which well formed requests are funded, to the satoshi. The fee estimated before signing is the
  fee rate times the exact size of the signed transaction, with 66 bytes of witness for every input,
  so the later check of the fee never rejects: with enough for the amount, that fee and a change output
  of 330 satoshis the build succeeds and charges exactly the fee; with less but enough for the amount
  and the fee of a transaction without change it succeeds and the rest is the fee; with less it reports
  insufficient funds. When the amount, the fee and the change do not fit 64 bits together it reports an
  overflow.\<close>

theorem funding_outcome:
  assumes "wallet_laws wc dl" "xonly_law (wc_secp wc)" "well_formed wc wallet ins request"
  shows "let with_change = unat (fr_amount_sat request) + funding_fee request (length ins) True;
      without = unat (fr_amount_sat request) + funding_fee request (length ins) False;
      result = build_funding_transaction wc wallet ins request
    in if 2 ^ 64 \<le> with_change + 330 then result = Inl (FundingOverflow ''funding output amount overflow'')
       else if with_change + 330 \<le> funds_of ins
       then \<exists>s v. result = Inr s \<and> sft_change_sat s = Some v \<and> unat v = funds_of ins - with_change
          \<and> unat (sft_fee_sat s) = funding_fee request (length ins) True
       else if without \<le> funds_of ins
       then \<exists>s. result = Inr s \<and> sft_change_sat s = None
          \<and> unat (sft_fee_sat s) = funds_of ins - unat (fr_amount_sat request)
       else result = Inl InsufficientFunds"
  by (rule funding_outcomes [OF assms])

section \<open>A wallet that funds\<close>

lemma residue_xonly_law: "xonly_law residue_secp"
  by (simp add: xonly_law_def residue_secp_def residue_taproot_def res_lift_x)

definition sample_funding_input :: funding_input where
  "sample_funding_input = \<lparr>fi_txid = encode_lower_hex (replicate 32 1), fi_vout = 3, fi_value_sat = 100000, fi_path = sample_path\<rparr>"

definition sample_funding_request :: "u64 \<Rightarrow> funding_request" where
  "sample_funding_request amount = \<lparr>fr_destination_script_pubkey = 0x51 # 0x20 # replicate 32 7, fr_amount_sat = amount,
     fr_fee_rate_sat_per_vbyte = 2, fr_change_path = sample_path, fr_lock_time = 0\<rparr>"

lemma sample_funding_fee:
  "funding_fee (sample_funding_request amount) 1 True = 308" "funding_fee (sample_funding_request amount) 1 False = 222"
  by (simp_all add: funding_fee_def sample_funding_request_def payment_def output_width_def compact_size_length_def)

lemma sample_funding_well_formed:
  assumes "330 \<le> unat amount"
  shows "well_formed residue_wallet sample_wallet [sample_funding_input] (sample_funding_request amount)"
proof -
  have "is_ok (derive_address residue_wallet sample_wallet sample_path)"
    using sample_tweaked derive_address_tweaked [OF residue_wallet_laws] by simp
  moreover have "is_dust (payment (sample_funding_request amount)) DUST_RELAY_FEE_SAT_PER_KB = Inr False"
    using change_dust [of "replicate 32 7"] assms
    by (simp add: is_dust_def payment_def sample_funding_request_def word_less_nat_alt)
  moreover have "amount \<noteq> 0" using assms by auto
  then have "validate_request [sample_funding_input] (sample_funding_request amount) = Inr ()"
    unfolding validate_request_iff by (auto simp: sample_funding_input_def sample_funding_request_def intro!: exI [of _ "replicate 32 1"])
  ultimately show ?thesis
    by (simp add: well_formed_def funds_of_def sample_funding_input_def sample_funding_request_def)
qed

theorem funding_valid_witness:
  "\<exists>s. build_funding_transaction residue_wallet sample_wallet [sample_funding_input] (sample_funding_request 50000) = Inr s
     \<and> sft_change_sat s = Some 49692 \<and> values_sum (t_outputs (sft_transaction s)) = 99692
     \<and> (\<exists>prevouts. validly_spends residue_wallet sample_wallet prevouts (sft_transaction s) 0 sample_funding_input)"
proof -
  have "well_formed residue_wallet sample_wallet [sample_funding_input] (sample_funding_request 50000)"
    by (rule sample_funding_well_formed) simp
  from funding_outcomes [OF residue_wallet_laws _ this] residue_xonly_law obtain s v where
    s: "build_funding_transaction residue_wallet sample_wallet [sample_funding_input] (sample_funding_request 50000) = Inr s"
    and v: "sft_change_sat s = Some v" "unat v = 49692"
    using sample_funding_fee [of 50000] by (auto simp: Let_def sample_funding_request_def sample_funding_input_def funds_of_def)
  have "v = 49692" using v(2) by (simp add: word_unat_eq_iff)
  then show ?thesis
    using funding_valid [OF residue_wallet_laws s] s v(1)
    by (auto simp: payment_def change_output_def sample_funding_request_def)
qed

theorem funding_outcome_witness:
  "\<exists>s. build_funding_transaction residue_wallet sample_wallet [sample_funding_input] (sample_funding_request 50000) = Inr s
     \<and> sft_fee_sat s = 308
   \<and> (\<exists>s. build_funding_transaction residue_wallet sample_wallet [sample_funding_input] (sample_funding_request 99700) = Inr s
     \<and> sft_change_sat s = None \<and> sft_fee_sat s = 300)
   \<and> build_funding_transaction residue_wallet sample_wallet [sample_funding_input] (sample_funding_request 99779)
       = Inl InsufficientFunds"
proof -
  have ok: "well_formed residue_wallet sample_wallet [sample_funding_input] (sample_funding_request amount)"
    if "330 \<le> unat amount" for amount using that by (rule sample_funding_well_formed)
  have funds: "funds_of [sample_funding_input] = 100000" by (simp add: funds_of_def sample_funding_input_def)
  have amount: "fr_amount_sat (sample_funding_request a) = a" for a by (simp add: sample_funding_request_def)
  note outcome = funding_outcome [OF residue_wallet_laws _ ok, unfolded residue_wallet_sel, OF residue_xonly_law]
  show ?thesis
    using outcome [of 50000] outcome [of 99700] outcome [of 99779]
    by (auto simp: Let_def funds amount sample_funding_fee [simplified] word_unat_eq_iff)
qed

end
