(* ===== verification/Spec2Isabelle.thy ===== *)
theory Spec2Isabelle
  imports Deletion Hub_Privacy Hub_History Hub_Dedup Rate_Limit Invoice_Meaning Settlement_Samples Nip44 Pricing Funding
begin

text \<open>
  A verification development of Immortal, a Nostr relay with a market for Bitcoin swaps (Rust, under
  \<open>src/crates\<close>). The relay takes events from connections, keeps the newest version of every address,
  honours deletion requests and fans events out to subscriptions. A swap provider quotes a price,
  locks up or claims coins with Taproot scripts, and settles on the key path with MuSig2 when both
  parties cooperate. The core crate holds what both sides check: codecs, transactions, scripts,
  signatures, invoices and encryption.

  \<^bold>\<open>How the code is modelled.\<close> A struct is a record, an enum a datatype, \<open>u8\<close> to \<open>u64\<close> are words of that
  width, \<open>usize\<close> is a natural number, a \<open>&str\<close> is the list of its bytes as characters. \<open>Result\<close> is a sum
  type and the \<open>?\<close> operator is \<open>try_then\<close>; checked, saturating and wrapping arithmetic have their own
  definitions (\<open>Prelude\<close>). A \<open>&mut self\<close> method takes the state and returns it. Loops are recursive
  functions; no model has fuel, and the bounded searches of the pricing code carry the step counter of
  the code. Hashes, curve operations and the file system are arguments; what is relied on is stated
  as laws (\<open>scalar_laws\<close>, \<open>point_laws\<close>, \<open>encoding_laws\<close>, \<open>schnorr_law\<close>, \<open>xonly_tweak_law\<close>, \<open>signer_law\<close>,
  \<open>xonly_law\<close>) and shown to hold together for the residues modulo the curve order.

  \<^bold>\<open>The relay.\<close>
  \<^item> \<open>Hex\<close>, \<open>Events\<close>, \<open>Filters\<close>, \<open>Deletion\<close>: \<open>immortal-core/src/domain\<close> (\<open>hex.rs\<close>, \<open>error.rs\<close>, \<open>event.rs\<close>,
    \<open>replacement.rs\<close>, \<open>timestamp.rs\<close>, \<open>filter.rs\<close>, \<open>deletion.rs\<close>). The codec is exact, the version kept does
    not depend on the order of arrival (locale \<open>version_rule\<close>), deletion removes exactly what it may.
  \<^item> \<open>Outbound_Queue\<close>, \<open>Hub\<close>, \<open>Hub_Invariant\<close>, \<open>Hub_Delivery\<close>, \<open>Hub_Privacy\<close>, \<open>Hub_History\<close>, \<open>Hub_Dedup\<close>:
    \<open>immortal-relay/src/gateway/subscription.rs\<close> and the message framing of \<open>wire.rs\<close>. The queue meets the
    contract \<open>send_queue\<close>; the tables of the hub agree in every reachable state of the step relation
    \<open>hub_step\<close>; events reach the live subscriptions they match (\<open>Hub_Delivery\<close>); neither the queues nor
    the buffers of waiting subscriptions take an event that their readers may not see
    (\<open>Hub_Privacy\<close>); the hand-over offers the stored events, the end marker and every buffered event that
    they do not cover, or closes the connection (\<open>Hub_History\<close>); a repeated ephemeral event is suppressed
    for 60 seconds, unless more than 4094 others push it out of the window (\<open>Hub_Dedup\<close>).
  \<^item> \<open>Rate_Limit\<close>: \<open>gateway/rate.rs\<close>; what any run of calls can be granted in a window.

  \<^bold>\<open>Codecs and verification (\<open>immortal-core/src\<close>).\<close>
  \<^item> \<open>Bit_Groups\<close>, \<open>Bech32\<close> (\<open>nip19.rs\<close>), \<open>Payment_Codes\<close>, \<open>Invoices\<close>, \<open>Invoice_Meaning\<close> (\<open>mkt_swp_verify.rs\<close>):
    exactly which texts are accepted as keys, addresses and invoices; what an invoice means is stated
    over its tagged fields, without the parser.
  \<^item> \<open>Byte_Codec\<close>, \<open>Tx_Codec\<close>, \<open>Tx_Policy\<close>: readers and writers as instances of the locale \<open>codec\<close>, the
    transaction parser and serialiser, sizes, fees and dust.
  \<^item> \<open>Swap_Scripts\<close>, \<open>Taproot\<close>: leaf scripts, time locks, script trees, signature messages, and the
    witness checks for claims and refunds.
  \<^item> \<open>Scalars\<close>, \<open>Musig2\<close>, \<open>Musig2_Group\<close>, \<open>Musig2_Correct\<close>, \<open>Musig2_Props\<close>: arithmetic modulo the curve order
    on byte arrays as a refinement of the integers, and the MuSig2 signer, whose partial signatures
    add up to a valid signature and whose nonces sign once.
  \<^item> \<open>Nip44\<close> (\<open>nip44.rs\<close>): encryption, padding, base64, ChaCha20, HMAC and HKDF.

  \<^bold>\<open>The provider (\<open>immortal-provider/src\<close>).\<close>
  \<^item> \<open>Wallet\<close> (\<open>wallet.rs\<close>): seed files, derivation, addresses that the wallet can spend.
  \<^item> \<open>Settlement\<close>, \<open>Cooperative\<close>, \<open>Settlement_Samples\<close> (\<open>settlement.rs\<close>): claims, refunds, and the cooperative
    round under every sequence of calls (\<open>round_run\<close>).
  \<^item> \<open>Quote_Weights\<close>, \<open>Pricing\<close> (\<open>pricing.rs\<close>): the sizes a quote charges bound the transactions, the terms of
    a quote balance, the searches for an input converge, and the input found is not always least.
  \<^item> \<open>Funding\<close> (\<open>funding.rs\<close>): funding transactions are valid, and are built exactly when the funds suffice.
  \<^item> This theory: the budget of a quote pays for a lockup with a change output and the refund of the swap.

  \<^bold>\<open>Not modelled.\<close> The JSON documents of the market and of the swap protocol (\<open>domain/mkt.rs\<close>, \<open>market.rs\<close>,
  the other validators of \<open>domain\<close>, \<open>mkt_swp_client.rs\<close> but for its error and swap type, \<open>tbdex.rs\<close>,
  \<open>quote.rs\<close>, \<open>contract.rs\<close>) are read by \<open>serde_json\<close>, whose parser is not part of the sources. Sockets,
  tasks and HTTP (\<open>gateway/server.rs\<close>, \<open>socket.rs\<close>, \<open>media.rs\<close>, \<open>relay_actor.rs\<close>), SQL (\<open>store\<close>, \<open>db.rs\<close>,
  \<open>liquidity.rs\<close>) and the clients of other nodes (\<open>bitcoind.rs\<close>, \<open>elementsd.rs\<close>, \<open>lnd.rs\<close>, \<open>cln.rs\<close>, \<open>arkd.rs\<close>,
  \<open>boltz.rs\<close>) are input and output around the modelled parts. Liquid signing rests on libraries outside
  the sources. The actors that drive a session (\<open>funded_mode.rs\<close>, \<open>session.rs\<close>, \<open>cooperative.rs\<close>,
  \<open>watchtower.rs\<close>) and the test harnesses (\<open>immortal-lab\<close>, \<open>immortal-public-regtest-gateway\<close>) are left out.
  Error texts are modelled where the code returns them, \<open>Display\<close> implementations are not.
\<close>

section \<open>Quotes and the transactions they pay for\<close>

lemma quoted_rate:
  assumes "derive_quote_with_worst_case_vbytes config feerate capacity request created_at vbytes = Inr q"
  shows "1 \<le> sat_per_vb feerate" "sat_per_vb feerate \<le> MAX_FEERATE_SAT_PER_VB"
  using assms unfolding derive_quote_with_worst_case_vbytes_def
  by (simp_all add: try_then_eq_Inr split: if_split_asm)

text \<open>The miner fee budget of a quote, and the rate that the funding reads from it.\<close>

lemma quoted_budget:
  assumes "derive_quote config feerate capacity request created_at = Inr q"
  obtains budget where "canonical_sat (dq_miner_fee_budget q) label = Inr budget"
    "unat budget = unat (worst_case_redeem_vbytes (qr_swap_type request)) * unat (sat_per_vb feerate)"
    "funding_feerate_from_quote_budget (qr_swap_type request) budget = Inr (sat_per_vb feerate)"
proof -
  note d = assms [unfolded derive_quote_def]
  obtain budget where b: "dq_miner_fee_budget q = to_decimal budget"
    "unat budget = unat (worst_case_redeem_vbytes (qr_swap_type request)) * unat (sat_per_vb feerate)"
    using derived_terms(1) [OF d] unfolding quote_terms_ok_def by blast
  have "worst_case_redeem_vbytes (qr_swap_type request) \<noteq> 0"
    by (cases "qr_swap_type request") (simp_all add: priced_sizes)
  then show thesis
    using that [of budget] b quoted_rate [OF d]
    by (simp add: canonical_sat_to_decimal funding_feerate_from_quote_budget_def funding_feerate_exact)
qed

lemma lockup_fee:
  assumes "length (fr_destination_script_pubkey lockup) = 34"
  shows "funding_fee lockup 1 True = 154 * unat (fr_fee_rate_sat_per_vbyte lockup)"
  using assms by (simp add: funding_fee_def output_width_def payment_def compact_size_length_def)

text \<open>C10: what a quote charges pays for the swap on the chain. When the provider locks up funds for a
  reverse or chain swap at the rate of the quote, from one wallet output worth at least the amount,
  154 vbytes at that rate and 330 sat, so that a change output is made, then the miner fee budget in the terms of the quote gives that rate back,
  the funding transaction is built, and its fee together with the fee of the later refund at the same
  rate is within the budget.\<close>

theorem quoted_lockup_affordable:
  assumes "wallet_laws wc dl" "xonly_law (wc_secp wc)"
    and "derive_quote config feerate capacity request created_at = Inr q" "qr_swap_type request \<noteq> Submarine"
    and "well_formed wc wallet [i] lockup" "length (fr_destination_script_pubkey lockup) = 34"
    and "fr_fee_rate_sat_per_vbyte lockup = sat_per_vb feerate"
    and "unat (fr_amount_sat lockup) + 154 * unat (sat_per_vb feerate) + 330 \<le> unat (fi_value_sat i)"
  shows "\<exists>budget s. canonical_sat (dq_miner_fee_budget q) label = Inr budget
    \<and> funding_feerate_from_quote_budget (qr_swap_type request) budget = Inr (fr_fee_rate_sat_per_vbyte lockup)
    \<and> build_funding_transaction wc wallet [i] lockup = Inr s
    \<and> unat (sft_fee_sat s) + unat (sat_per_vb feerate) * unat refund_spend_vbytes \<le> unat budget"
proof -
  obtain budget where b: "canonical_sat (dq_miner_fee_budget q) label = Inr budget"
    "unat budget = unat (worst_case_redeem_vbytes (qr_swap_type request)) * unat (sat_per_vb feerate)"
    "funding_feerate_from_quote_budget (qr_swap_type request) budget = Inr (sat_per_vb feerate)"
    by (rule quoted_budget [OF assms(3)])
  have fee: "funding_fee lockup 1 True = 154 * unat (sat_per_vb feerate)"
    using lockup_fee [OF assms(6)] assms(7) by simp
  have "unat (fr_amount_sat lockup) + 154 * unat (sat_per_vb feerate) + 330 < 2 ^ 64"
    using assms(8) unat_bound [of "fi_value_sat i"] by simp
  then obtain s where s: "build_funding_transaction wc wallet [i] lockup = Inr s"
    "unat (sft_fee_sat s) = 154 * unat (sat_per_vb feerate)"
    using funding_outcomes [OF assms(1,2,5)] fee assms(8) by (auto simp: Let_def funds_of_def)
  have "294 \<le> unat (worst_case_redeem_vbytes (qr_swap_type request))"
    using assms(4) by (cases "qr_swap_type request") (simp_all add: priced_sizes)
  then have "294 * unat (sat_per_vb feerate) \<le> unat budget" unfolding b(2) by (rule mult_le_mono1)
  then show ?thesis using b(1,3) s assms(7) by (auto simp: priced_sizes)
qed

definition sample_reverse_request :: quote_request where
  "sample_reverse_request = \<lparr>qr_swap_type = Reverse, qr_side = Input, qr_amount = to_decimal 50000\<rparr>"

lemma sample_reverse_viable: "min_viable_input sample_pricing Reverse 294 = Inr 693"
proof -
  have covers: "output_covers sample_pricing Reverse 294 target n = Inr (covered 1000 0 294 (unat target) (unat n))" for target n
    unfolding output_covers_value [OF sample_pricing_valid] by (simp add: sample_pricing_def)
  have "closed_form sample_pricing Reverse 294 330 overflow = Inr 694" for overflow
    unfolding closed_form_value [OF sample_pricing_valid] by (simp add: sample_pricing_def closed_input_def)
  then show ?thesis
    unfolding min_viable_input_def Let_def
    by (simp add: CHAIN_OUTPUT_DUST_SAT_def, subst search_up.simps, simp add: covers covered_def fee_at_def,
      (subst search_down.simps, simp add: covers covered_def fee_at_def MIN_VIABLE_SEARCH_STEPS_def)+)
qed

lemma sample_reverse_quote: "\<exists>q. derive_quote sample_pricing (Fallback 1) sample_capacity sample_reverse_request 0 = Inr q"
proof -
  have p: "pc_max_swap_sat sample_pricing = 1000000" "pc_min_swap_sat sample_pricing = 1000" "pc_quote_expiry_seconds sample_pricing = 300"
    by (simp_all add: sample_pricing_def)
  have c: "fee_components sample_pricing Reverse 294 50000 = Inr \<lparr>fc_provider_fee = 5000, fc_miner_fee_budget = 294,
      fc_lightning_routing_fee_budget = 0, fc_output = Some 44706\<rparr>"
    by (simp add: fee_components_def floor_scaled_def Let_def sample_pricing_def checked_sub_def)
  have "checked_mul 294 (1 :: u64) = Some 294" "checked_add 0 (300 :: u64) = Some 300" "checked_add 5000 (294 :: u64) = Some 5294"
    "checked_add 5294 (0 :: u64) = Some 5294" by (simp_all add: checked_mul_def checked_add_def)
  then show ?thesis
    unfolding derive_quote_def derive_quote_with_worst_case_vbytes_def
    by (simp add: sample_pricing_valid sample_capacity_def sample_reverse_request_def canonical_sat_to_decimal
        sample_reverse_viable c p priced_sizes MAX_FEERATE_SAT_PER_VB_def MAX_AMOUNT_SAT_def CHAIN_OUTPUT_DUST_SAT_def)
qed

theorem quoted_lockup_affordable_witness:
  "\<exists>q budget s. derive_quote sample_pricing (Fallback 1) sample_capacity sample_reverse_request 0 = Inr q
     \<and> canonical_sat (dq_miner_fee_budget q) '''' = Inr budget
     \<and> build_funding_transaction residue_wallet sample_wallet [sample_funding_input]
         ((sample_funding_request 44706)\<lparr>fr_fee_rate_sat_per_vbyte := 1\<rparr>) = Inr s
     \<and> unat (sft_fee_sat s) + 139 \<le> unat budget"
proof -
  let ?lockup = "(sample_funding_request 44706)\<lparr>fr_fee_rate_sat_per_vbyte := 1\<rparr>"
  obtain q where q: "derive_quote sample_pricing (Fallback 1) sample_capacity sample_reverse_request 0 = Inr q"
    using sample_reverse_quote by blast
  have "well_formed residue_wallet sample_wallet [sample_funding_input] (sample_funding_request 44706)"
    by (rule sample_funding_well_formed) simp
  then have w: "well_formed residue_wallet sample_wallet [sample_funding_input] ?lockup"
    by (simp add: well_formed_def validate_request_iff payment_def)
  from quoted_lockup_affordable [OF residue_wallet_laws _ q _ w, where label = "''''"] residue_xonly_law q show ?thesis
    by (auto simp: sample_reverse_request_def sample_funding_request_def sample_funding_input_def priced_sizes)
qed

end
